(* ===== verification/Prelude.thy ===== *)
theory Prelude
  imports Complex_Main "HOL-Library.Word" "HOL-Library.AList" "HOL-Library.Multiset"
begin

text \<open>
  What every theory of the development shares: the JavaScript values that are not specific to a
  component (text, bytes), the contract of a component that is driven by events, and the generic
  lemmas on lists and words.

  A JavaScript string is modelled as the list of its Unicode code points. The program never looks
  inside a surrogate pair (its patterns match ASCII characters only), so code points and UTF-16
  units give the same results. A string literal of the source is written
  \<open>asc ''...''\<close> when it is ASCII; other literals list their code points.
\<close>

section \<open>Text and bytes\<close>

type_synonym jstext = "nat list"
type_synonym byte = "8 word"

definition asc :: "string \<Rightarrow> jstext" where
  "asc s = map of_char s"

named_theorems js_eval \<open>equations that evaluate closed texts\<close>
named_theorems step_defs \<open>the handlers a step function is made of\<close>

lemma asc_Nil [js_eval]: "asc [] = []"
  by (simp add: asc_def)

lemma asc_Cons [js_eval]: "asc (c # s) = of_char c # asc s"
  by (simp add: asc_def)

lemma asc_inject [simp]: "asc s = asc t \<longleftrightarrow> s = t"
  by (auto simp: asc_def inj_map_eq_map inj_of_char)

lemma length_asc [simp]: "length (asc s) = length s"
  by (simp add: asc_def)

lemma unat_byte_less [simp]: "unat (b :: byte) < 256"
  using unsigned_less [of b] by simp

lemma unat_of_nat_byte: "n < 256 \<Longrightarrow> unat (of_nat n :: byte) = n"
  by (simp add: unat_of_nat take_bit_eq_mod)

section \<open>Lists\<close>

lemma foldl_append_map: "foldl (\<lambda>acc x. acc @ f x) z xs = z @ concat (map f xs)"
  by (induction xs arbitrary: z) auto

lemma concat_snoc [simp]: "concat (xss @ [xs]) = concat xss @ xs"
  by simp

lemma distinct_sub: "mset xs \<subseteq># mset ys \<Longrightarrow> distinct ys \<Longrightarrow> distinct xs"
proof -
  assume s: "mset xs \<subseteq># mset ys" and d: "distinct ys"
  have "count (mset xs) a \<le> 1" for a
    using mset_subset_eq_count [OF s, of a] d by (metis distinct_count_atmost_1 le_trans le_zero_eq nat_le_linear)
  then show ?thesis unfolding distinct_count_atmost_1
    by (metis One_nat_def count_mset_0_iff le_SucE le_zero_eq)
qed

section \<open>Tables of what is outstanding\<close>

text \<open>
  Timers, calls and continuations are kept under fresh numbers. Taking one entry out takes out
  exactly what it contributes to any multiset collected from the table.
\<close>

definition ids_ok :: "(nat \<times> 'a) list \<Rightarrow> nat \<Rightarrow> bool" where
  "ids_ok ts n \<longleftrightarrow> distinct (map fst ts) \<and> (\<forall>i \<in> fst ` set ts. i < n)"

lemma ids_ok_Nil [simp]: "ids_ok [] n"
  by (simp add: ids_ok_def)

lemma ids_ok_snoc [simp]: "ids_ok ts n \<Longrightarrow> ids_ok (ts @ [(n, x)]) (Suc n)"
  by (fastforce simp: ids_ok_def)

lemma ids_ok_delete: "ids_ok ts n \<Longrightarrow> ids_ok (AList.delete i ts) n"
  by (auto simp: ids_ok_def distinct_map_filter AList.delete_eq)

lemma fst_delete: "fst ` set (AList.delete i al) = fst ` set al - {i}"
  by (auto simp: AList.delete_eq image_iff)

definition collect :: "('a \<Rightarrow> 'b list) \<Rightarrow> ('k \<times> 'a) list \<Rightarrow> 'b list" where
  "collect f al = concat (map (\<lambda>(i, k). f k) al)"

lemma collect_simps [simp]:
  "collect f [] = []" "collect f (al @ bl) = collect f al @ collect f bl"
  "collect f ((i, k) # al) = f k @ collect f al"
  by (simp_all add: collect_def)

lemma mset_collect_delete:
  "distinct (map fst al) \<Longrightarrow> map_of al i = Some k \<Longrightarrow>
     mset (collect f al) = mset (f k) + mset (collect f (AList.delete i al))"
proof (induction al)
  case (Cons p al)
  show ?case
  proof (cases "fst p = i")
    case True
    with Cons.prems have "i \<notin> fst ` set al" "snd p = k" by (auto split: if_splits)
    with True show ?thesis by (cases p) (simp add: delete_id)
  next
    case False
    with Cons show ?thesis by (cases p) (auto simp: AList.delete_eq split: if_splits)
  qed
qed simp

lemma mset_snd_delete:
  "distinct (map fst al) \<Longrightarrow> map_of al i = Some c \<Longrightarrow>
     mset (map snd al) = add_mset c (mset (map snd (AList.delete i al)))"
  using mset_collect_delete [of al i c "\<lambda>x. [x]"]
  by (simp add: collect_def case_prod_unfold)

section \<open>Components driven by events\<close>

text \<open>
  Most parts of the program are a mutable state and a set of callbacks the runtime invokes one at a
  time. The contract below is what such a component promises: each callback keeps the invariant.
\<close>

definition run :: "('s \<Rightarrow> 'e \<Rightarrow> 's) \<Rightarrow> 's \<Rightarrow> 'e list \<Rightarrow> 's" where
  "run step s es = foldl step s es"

lemma run_Nil [simp]: "run step s [] = s"
  by (simp add: run_def)

lemma run_Cons [simp]: "run step s (e # es) = run step (step s e) es"
  by (simp add: run_def)

lemma run_append [simp]: "run step s (es @ fs) = run step (run step s es) fs"
  by (simp add: run_def)

locale event_system =
  fixes step :: "'s \<Rightarrow> 'e \<Rightarrow> 's"
    and inv :: "'s \<Rightarrow> bool"
  assumes step_inv: "inv s \<Longrightarrow> inv (step s e)"
begin

lemma run_inv: "inv s \<Longrightarrow> inv (run step s es)"
  by (induction es arbitrary: s) (auto intro: step_inv)

end

text \<open>A component with a shutdown: once it is down it stays down.\<close>

locale closing_system = event_system +
  fixes down :: "'s \<Rightarrow> bool"
  assumes down_stays: "inv s \<Longrightarrow> down s \<Longrightarrow> down (step s e)"
begin

lemma run_down: "inv s \<Longrightarrow> down s \<Longrightarrow> down (run step s es)"
  by (induction es arbitrary: s) (auto intro: down_stays step_inv)

end

text \<open>A component whose output of some kind stops with the shutdown.\<close>

locale quiet_system = closing_system +
  fixes outputs :: "'s \<Rightarrow> 'o list"
  assumes down_quiet: "inv s \<Longrightarrow> down s \<Longrightarrow> outputs (step s e) = outputs s"
begin

lemma run_quiet: "inv s \<Longrightarrow> down s \<Longrightarrow> outputs (run step s es) = outputs s"
  by (induction es arbitrary: s) (auto simp: down_quiet down_stays step_inv)

end

end
