(* ===== verification/Base64.thy ===== *)
theory Base64
  imports Prelude
begin

text \<open>
  Binary data travels inside JSON as base64. Standard library: \<open>btoa\<close> and \<open>atob\<close> of the
  browser (the forgiving decoder of the WHATWG Infra standard), \<open>base64.StdEncoding\<close> of Go.
  Program: \<open>encode\<close> and \<open>decode\<close> of \<open>remote-ui.js\<close>.
\<close>

section \<open>Alphabet\<close>

definition b64_char :: "nat \<Rightarrow> nat" where
  "b64_char n =
     (if n < 26 then 65 + n else if n < 52 then 97 + (n - 26)
      else if n < 62 then 48 + (n - 52) else if n = 62 then 43 else 47)"

definition b64_val :: "nat \<Rightarrow> nat option" where
  "b64_val c =
     (if 65 \<le> c \<and> c \<le> 90 then Some (c - 65) else if 97 \<le> c \<and> c \<le> 122 then Some (c - 97 + 26)
      else if 48 \<le> c \<and> c \<le> 57 then Some (c - 48 + 52) else if c = 43 then Some 62
      else if c = 47 then Some 63 else None)"

lemma b64_val_char [simp]: "n < 64 \<Longrightarrow> b64_val (b64_char n) = Some n"
  by (auto simp: b64_val_def b64_char_def)

lemma b64_val_less: "b64_val c = Some n \<Longrightarrow> n < 64"
  by (auto simp: b64_val_def split: if_splits)

section \<open>Groups of four characters and three bytes\<close>

fun b64_encode :: "byte list \<Rightarrow> jstext" where
  "b64_encode [] = []"
| "b64_encode [a] = [b64_char (unat a div 4), b64_char (unat a mod 4 * 16), 61, 61]"
| "b64_encode [a, b] =
     [b64_char (unat a div 4), b64_char (unat a mod 4 * 16 + unat b div 16),
      b64_char (unat b mod 16 * 4), 61]"
| "b64_encode (a # b # c # r) =
     b64_char (unat a div 4) # b64_char (unat a mod 4 * 16 + unat b div 16) #
     b64_char (unat b mod 16 * 4 + unat c div 64) # b64_char (unat c mod 64) # b64_encode r"

fun b64_join :: "nat list \<Rightarrow> byte list" where
  "b64_join (p # q # r # s # t) =
     of_nat (p * 4 + q div 16) # of_nat (q mod 16 * 16 + r div 4) # of_nat (r mod 4 * 64 + s) # b64_join t"
| "b64_join [p, q, r] = [of_nat (p * 4 + q div 16), of_nat (q mod 16 * 16 + r div 4)]"
| "b64_join [p, q] = [of_nat (p * 4 + q div 16)]"
| "b64_join _ = []"

fun b64_vals :: "jstext \<Rightarrow> nat list option" where
  "b64_vals [] = Some []"
| "b64_vals (c # cs) = (case b64_val c of None \<Rightarrow> None | Some n \<Rightarrow> map_option ((#) n) (b64_vals cs))"

definition b64_unpad :: "jstext \<Rightarrow> jstext" where
  "b64_unpad s =
     (if length s mod 4 = 0 then
        (case rev s of
           c # d # r \<Rightarrow> if c = 61 then (if d = 61 then rev r else rev (d # r)) else s
         | _ \<Rightarrow> s)
      else s)"

section \<open>The browser's functions\<close>

definition html_space :: "nat \<Rightarrow> bool" where
  "html_space c \<longleftrightarrow> c = 9 \<or> c = 10 \<or> c = 12 \<or> c = 13 \<or> c = 32"

text \<open>\<open>None\<close> is the InvalidCharacterError; the result is a string of code points below 256.\<close>

definition atob :: "jstext \<Rightarrow> jstext option" where
  "atob s =
     (let t = b64_unpad (filter (\<lambda>c. \<not> html_space c) s) in
      if length t mod 4 = 1 then None else map_option (\<lambda>vs. map unat (b64_join vs)) (b64_vals t))"

definition btoa :: "jstext \<Rightarrow> jstext option" where
  "btoa s = (if \<forall>c \<in> set s. c < 256 then Some (b64_encode (map of_nat s)) else None)"

section \<open>The program's functions\<close>

text \<open>\<open>const decode = (s) => Uint8Array.from(atob(s), (c) => c.charCodeAt(0))\<close>\<close>

definition decode :: "jstext \<Rightarrow> byte list option" where
  "decode s = map_option (map of_nat) (atob s)"

text \<open>\<open>const encode\<close>: one character per byte, then \<open>btoa\<close>.\<close>

definition encode :: "byte list \<Rightarrow> jstext option" where
  "encode b = btoa (foldl (\<lambda>s n. s @ [unat n]) [] b)"

section \<open>Lemmas\<close>

lemma map_of_nat_unat [simp]: "map (of_nat :: nat \<Rightarrow> byte) (map unat bs) = bs"
  by (induction bs) auto

lemma map_of_nat_unat_comp [simp]: "map ((of_nat :: nat \<Rightarrow> byte) \<circ> unat) bs = bs"
  by (induction bs) auto

lemma encode_eq: "encode b = Some (b64_encode b)"
proof -
  have "foldl (\<lambda>s n. s @ [unat n]) [] b = map unat b"
    by (induction b rule: rev_induct) auto
  then show ?thesis by (auto simp: encode_def btoa_def)
qed

lemma decode_eq:
  "decode s = (let t = b64_unpad (filter (\<lambda>c. \<not> html_space c) s) in
     if length t mod 4 = 1 then None else map_option b64_join (b64_vals t))"
  by (simp add: decode_def atob_def Let_def option.map_comp comp_def)

text \<open>The value list behind an encoding, without padding.\<close>

fun b64_split :: "byte list \<Rightarrow> nat list" where
  "b64_split [] = []"
| "b64_split [a] = [unat a div 4, unat a mod 4 * 16]"
| "b64_split [a, b] = [unat a div 4, unat a mod 4 * 16 + unat b div 16, unat b mod 16 * 4]"
| "b64_split (a # b # c # r) =
     unat a div 4 # (unat a mod 4 * 16 + unat b div 16) # (unat b mod 16 * 4 + unat c div 64) #
     unat c mod 64 # b64_split r"

lemma byte_div [simp]:
  fixes b :: byte
  shows "unat b div 4 < 64" "unat b div 16 < 16" "unat b div 64 < 4"
  using unsigned_less [of b] by (simp_all add: div_less_iff_less_mult)

lemma byte_mix [simp]:
  fixes a b :: byte
  shows "unat a mod 4 * 16 + unat b div 16 < 64" "unat a mod 16 * 4 + unat b div 64 < 64"
  using byte_div(2,3) [of b] by linarith+

lemma b64_split_less: "\<forall>n \<in> set (b64_split bs). n < 64"
  by (induction bs rule: b64_split.induct) auto

lemma of_nat_byte: "n = unat (b :: byte) \<Longrightarrow> of_nat n = b"
  by simp

lemma b64_bytes:
  fixes a b c :: byte
  shows "of_nat (unat a div 4 * 4 + (unat a mod 4 * 16 + unat b div 16) div 16) = a"
    and "of_nat ((unat a mod 4 * 16 + unat b div 16) mod 16 * 16
           + (unat b mod 16 * 4 + unat c div 64) div 4) = b"
    and "of_nat ((unat b mod 16 * 4 + unat c div 64) mod 4 * 64 + unat c mod 64) = c"
proof -
  have d: "unat b div 16 < 16" "unat c div 64 < 4" by simp_all
  show "of_nat (unat a div 4 * 4 + (unat a mod 4 * 16 + unat b div 16) div 16) = a"
    by (rule of_nat_byte) (use d in simp)
  show "of_nat ((unat a mod 4 * 16 + unat b div 16) mod 16 * 16
           + (unat b mod 16 * 4 + unat c div 64) div 4) = b"
    by (rule of_nat_byte) (use d in simp)
  show "of_nat ((unat b mod 16 * 4 + unat c div 64) mod 4 * 64 + unat c mod 64) = c"
    by (rule of_nat_byte) (use d in simp)
qed

lemma b64_join_split: "b64_join (b64_split bs) = bs"
proof (induction bs rule: b64_split.induct)
  case (2 a)
  show ?case using b64_bytes(1) [of a 0] by simp
next
  case (3 a b)
  show ?case using b64_bytes(1) [of a b] b64_bytes(2) [of a b 0] by simp
next
  case (4 a b c r)
  then show ?case by (simp only: b64_split.simps b64_join.simps b64_bytes)
qed simp

lemma b64_vals_map: "\<forall>n \<in> set ns. n < 64 \<Longrightarrow> b64_vals (map b64_char ns) = Some ns"
  by (induction ns) auto

lemma b64_char_not_space [simp]: "\<not> html_space (b64_char n)"
  by (auto simp: b64_char_def html_space_def)

lemma b64_char_not_pad [simp]: "b64_char n \<noteq> 61" "61 \<noteq> b64_char n"
  by (auto simp: b64_char_def)

text \<open>An encoding is its value list, padded to a multiple of four.\<close>

lemma b64_encode_split:
  "\<exists>k \<le> 2. b64_encode bs = map b64_char (b64_split bs) @ replicate k 61
     \<and> (length (b64_split bs) + k) mod 4 = 0 \<and> (k > 0 \<longrightarrow> b64_split bs \<noteq> [])"
proof (induction bs rule: b64_split.induct)
  case (4 a b c r)
  then obtain k where "k \<le> 2" "b64_encode r = map b64_char (b64_split r) @ replicate k 61"
    "(length (b64_split r) + k) mod 4 = 0" by auto
  moreover from this have "(Suc (Suc (Suc (Suc (length (b64_split r))))) + k) mod 4 = 0" by presburger
  ultimately show ?case by (intro exI [of _ k]) (simp del: mod_0_imp_dvd)
next
  case (2 a)
  show ?case by (rule exI [of _ 2]) (simp add: numeral_2_eq_2)
next
  case (3 a b)
  show ?case by (rule exI [of _ 1]) simp
qed simp

lemma b64_unpad_padded:
  assumes "61 \<notin> set m" and "k \<le> 2" and "(length m + k) mod 4 = 0" and "k = 0 \<or> m \<noteq> []"
  shows "b64_unpad (m @ replicate k 61) = m"
proof (cases "rev m")
  case Nil
  with assms(4) show ?thesis by (simp add: b64_unpad_def)
next
  case (Cons c r)
  then have m: "m = rev r @ [c]" by (simp add: rev_swap)
  with assms(1) have "c \<noteq> 61" by auto
  consider "k = 0" | "k = 1" | "k = 2" using assms(2) by linarith
  then show ?thesis
    using assms(3) m \<open>c \<noteq> 61\<close>
    by cases (simp_all add: b64_unpad_def numeral_2_eq_2 split: list.split del: mod_0_imp_dvd)
qed

lemma b64_unpad_encode: "b64_unpad (b64_encode bs) = map b64_char (b64_split bs)"
proof -
  from b64_encode_split [of bs] obtain k
    where "k \<le> 2" "b64_encode bs = map b64_char (b64_split bs) @ replicate k 61"
      "(length (b64_split bs) + k) mod 4 = 0" "k > 0 \<longrightarrow> b64_split bs \<noteq> []"
    by (elim exE conjE)
  then show ?thesis by (auto intro!: b64_unpad_padded simp del: mod_0_imp_dvd)
qed

lemma html_space_encode: "filter (\<lambda>c. \<not> html_space c) (b64_encode bs) = b64_encode bs"
  by (induction bs rule: b64_encode.induct) (auto simp: html_space_def [of 61])

text \<open>The browser decodes what any standard encoder wrote.\<close>

lemma decode_b64_encode: "decode (b64_encode bs) = Some bs"
proof -
  have "length (b64_split bs) mod 4 \<noteq> 1"
    by (induction bs rule: b64_split.induct) auto
  then show ?thesis
    by (simp add: decode_eq html_space_encode b64_unpad_encode b64_vals_map [OF b64_split_less] b64_join_split)
qed

subsection \<open>Length of a decoded text\<close>

lemma length_b64_join: "length (b64_join vs) \<le> length vs"
  by (induction vs rule: b64_join.induct) auto

lemma length_b64_vals: "b64_vals t = Some vs \<Longrightarrow> length vs = length t"
  by (induction t arbitrary: vs) (auto split: option.splits)

lemma b64_vals_alphabet: "b64_vals t = Some vs \<Longrightarrow> c \<in> set t \<Longrightarrow> b64_val c \<noteq> None"
  by (induction t arbitrary: vs) (auto split: option.splits)

lemma b64_unpad_prefix: "\<exists>p. s = b64_unpad s @ p \<and> set p \<subseteq> {61}"
proof (cases "rev s")
  case (Cons c t)
  show ?thesis
  proof (cases t)
    case Nil
    with Cons show ?thesis by (simp add: b64_unpad_def)
  next
    case (Cons d r)
    with \<open>rev s = c # t\<close> have "s = rev r @ [d, c]" by (simp add: rev_swap)
    then show ?thesis by (simp add: b64_unpad_def)
  qed
qed (simp add: b64_unpad_def)

lemma length_decode:
  assumes "decode s = Some bs"
  shows "length bs \<le> length s"
proof -
  let ?f = "filter (\<lambda>c. \<not> html_space c) s"
  obtain vs where v: "b64_vals (b64_unpad ?f) = Some vs" "bs = b64_join vs"
    using assms by (auto simp: decode_eq Let_def split: if_splits)
  have "length bs \<le> length (b64_unpad ?f)"
    using length_b64_join [of vs] length_b64_vals [OF v(1)] v(2) by simp
  also have "\<dots> \<le> length ?f"
    using b64_unpad_prefix [of ?f] by (metis le_add1 length_append)
  also have "\<dots> \<le> length s" by simp
  finally show ?thesis .
qed

lemma decode_alphabet:
  assumes "decode s = Some bs" and "c \<in> set s"
  shows "html_space c \<or> c = 61 \<or> b64_val c \<noteq> None"
proof -
  let ?f = "filter (\<lambda>c. \<not> html_space c) s"
  from assms(1) obtain vs where v: "b64_vals (b64_unpad ?f) = Some vs"
    by (auto simp: decode_eq Let_def split: if_splits)
  obtain p where p: "?f = b64_unpad ?f @ p" "set p \<subseteq> {61}" using b64_unpad_prefix by blast
  show ?thesis
  proof (cases "html_space c")
    case False
    with assms(2) have "c \<in> set ?f" by simp
    then have "c \<in> set (b64_unpad ?f) \<or> c \<in> set p" using p(1) by (metis Un_iff set_append)
    with p(2) b64_vals_alphabet [OF v] show ?thesis by auto
  qed simp
qed

end
