(* ===== verification/Utf8.thy ===== *)
theory Utf8
  imports Prelude
begin

text \<open>
  UTF-8 as the program's two ends use it. The Go side writes JSON text as UTF-8 bytes; the browser
  reads them with \<open>new TextDecoder().decode(bytes)\<close> (\<open>remote-ui.js\<close>, \<open>Link.receive\<close>). Both are
  standard library: the encoder is the one of the Unicode standard, the decoder follows the WHATWG
  Encoding standard byte by byte, with the replacement character for malformed input and without
  the byte order mark.
\<close>

section \<open>Encoding\<close>

text \<open>A scalar value: a code point that is not a surrogate.\<close>

definition scalar :: "nat \<Rightarrow> bool" where
  "scalar n \<longleftrightarrow> n < 0xD800 \<or> 0xE000 \<le> n \<and> n < 0x110000"

definition utf8_char :: "nat \<Rightarrow> byte list" where
  "utf8_char n =
     (if n < 0x80 then [of_nat n]
      else if n < 0x800 then [of_nat (0xC0 + n div 64), of_nat (0x80 + n mod 64)]
      else if n < 0x10000 then
        [of_nat (0xE0 + n div 4096), of_nat (0x80 + n div 64 mod 64), of_nat (0x80 + n mod 64)]
      else
        [of_nat (0xF0 + n div 262144), of_nat (0x80 + n div 4096 mod 64),
         of_nat (0x80 + n div 64 mod 64), of_nat (0x80 + n mod 64)])"

definition utf8_encode :: "jstext \<Rightarrow> byte list" where
  "utf8_encode s = concat (map utf8_char s)"

section \<open>Decoding\<close>

text \<open>The decoder's variables: code point so far, bytes still needed, bounds of the next byte.\<close>

record utf8_state =
  u_cp :: nat
  u_needed :: nat
  u_lower :: nat
  u_upper :: nat

definition utf8_init :: utf8_state where
  "utf8_init = \<lparr>u_cp = 0, u_needed = 0, u_lower = 0x80, u_upper = 0xBF\<rparr>"

text \<open>A byte in the initial state: the state it leads to and what it emits.\<close>

definition utf8_lead :: "nat \<Rightarrow> utf8_state \<times> jstext" where
  "utf8_lead b =
     (if b \<le> 0x7F then (utf8_init, [b])
      else if 0xC2 \<le> b \<and> b \<le> 0xDF then
        (utf8_init\<lparr>u_needed := 1, u_cp := b - 0xC0\<rparr>, [])
      else if 0xE0 \<le> b \<and> b \<le> 0xEF then
        (utf8_init\<lparr>u_lower := (if b = 0xE0 then 0xA0 else 0x80),
                   u_upper := (if b = 0xED then 0x9F else 0xBF),
                   u_needed := 2, u_cp := b - 0xE0\<rparr>, [])
      else if 0xF0 \<le> b \<and> b \<le> 0xF4 then
        (utf8_init\<lparr>u_lower := (if b = 0xF0 then 0x90 else 0x80),
                   u_upper := (if b = 0xF4 then 0x8F else 0xBF),
                   u_needed := 3, u_cp := b - 0xF0\<rparr>, [])
      else (utf8_init, [0xFFFD]))"

definition utf8_byte :: "utf8_state \<Rightarrow> nat \<Rightarrow> utf8_state \<times> jstext" where
  "utf8_byte u b =
     (if u_needed u = 0 then utf8_lead b
      else if b < u_lower u \<or> u_upper u < b then
        (case utf8_lead b of (u', out) \<Rightarrow> (u', 0xFFFD # out))
      else if u_needed u = 1 then (utf8_init, [u_cp u * 64 + (b - 0x80)])
      else (\<lparr>u_cp = u_cp u * 64 + (b - 0x80), u_needed = u_needed u - 1,
             u_lower = 0x80, u_upper = 0xBF\<rparr>, []))"

fun utf8_bytes :: "utf8_state \<Rightarrow> byte list \<Rightarrow> jstext" where
  "utf8_bytes u [] = (if u_needed u = 0 then [] else [0xFFFD])"
| "utf8_bytes u (b # bs) = (case utf8_byte u (unat b) of (u', out) \<Rightarrow> out @ utf8_bytes u' bs)"

definition strip_bom :: "byte list \<Rightarrow> byte list" where
  "strip_bom bs = (case bs of a # b # c # r \<Rightarrow>
       if unat a = 0xEF \<and> unat b = 0xBB \<and> unat c = 0xBF then r else bs | _ \<Rightarrow> bs)"

definition text_decode :: "byte list \<Rightarrow> jstext" where
  "text_decode bs = utf8_bytes utf8_init (strip_bom bs)"

section \<open>Decoding undoes encoding\<close>

lemma unat_nat_byte_add [simp]:
  "q < 32 \<Longrightarrow> unat (of_nat (0xC0 + q) :: byte) = 0xC0 + q"
  "q < 16 \<Longrightarrow> unat (of_nat (0xE0 + q) :: byte) = 0xE0 + q"
  "q < 5 \<Longrightarrow> unat (of_nat (0xF0 + q) :: byte) = 0xF0 + q"
  "q < 64 \<Longrightarrow> unat (of_nat (0x80 + q) :: byte) = 0x80 + q"
  by (rule unat_of_nat_byte; simp)+

text \<open>A continuation byte inside the bounds, in the middle and at the end of a character.\<close>

lemma utf8_bytes_last:
  assumes "l < 64" "u_needed u = 1" "u_lower u \<le> 0x80 + l" "0x80 + l \<le> u_upper u"
  shows "utf8_bytes u (of_nat (0x80 + l) # bs) = (u_cp u * 64 + l) # utf8_bytes utf8_init bs"
  using assms by (simp del: of_nat_add add: utf8_byte_def)

lemma utf8_bytes_more:
  assumes "m < 64" "1 < u_needed u" "u_lower u \<le> 0x80 + m" "0x80 + m \<le> u_upper u"
  shows "utf8_bytes u (of_nat (0x80 + m) # bs) =
    utf8_bytes \<lparr>u_cp = u_cp u * 64 + m, u_needed = u_needed u - 1, u_lower = 0x80, u_upper = 0xBF\<rparr> bs"
  using assms by (simp del: of_nat_add add: utf8_byte_def)

lemma utf8_bytes_two:
  assumes "2 \<le> q" "q < 32" "l < 64"
  shows "utf8_bytes utf8_init (of_nat (0xC0 + q) # of_nat (0x80 + l) # bs) =
    (q * 64 + l) # utf8_bytes utf8_init bs"
proof -
  let ?u = "\<lparr>u_cp = q, u_needed = 1, u_lower = 0x80, u_upper = 0xBF\<rparr>"
  have "utf8_byte utf8_init (0xC0 + q) = (?u, [])"
    using assms by (simp add: utf8_byte_def utf8_lead_def utf8_init_def)
  then have "utf8_bytes utf8_init (of_nat (0xC0 + q) # of_nat (0x80 + l) # bs)
      = utf8_bytes ?u (of_nat (0x80 + l) # bs)"
    using assms(2) by (simp del: of_nat_add utf8_bytes.simps add: utf8_bytes.simps(2) [of utf8_init])
  also have "\<dots> = (q * 64 + l) # utf8_bytes utf8_init bs"
    using assms by (subst utf8_bytes_last) simp_all
  finally show ?thesis .
qed

lemma utf8_bytes_three:
  assumes "q < 16" "m < 64" "l < 64" "q = 0 \<Longrightarrow> 32 \<le> m" "q = 13 \<Longrightarrow> m \<le> 31"
  shows "utf8_bytes utf8_init (of_nat (0xE0 + q) # of_nat (0x80 + m) # of_nat (0x80 + l) # bs) =
    ((q * 64 + m) * 64 + l) # utf8_bytes utf8_init bs"
proof -
  let ?u = "\<lparr>u_cp = q, u_needed = 2, u_lower = (if q = 0 then 0xA0 else 0x80),
             u_upper = (if q = 13 then 0x9F else 0xBF)\<rparr>"
  have "utf8_byte utf8_init (0xE0 + q) = (?u, [])"
    using assms(1) by (simp add: utf8_byte_def utf8_lead_def utf8_init_def)
  then have "utf8_bytes utf8_init (of_nat (0xE0 + q) # of_nat (0x80 + m) # of_nat (0x80 + l) # bs)
      = utf8_bytes ?u (of_nat (0x80 + m) # of_nat (0x80 + l) # bs)"
    using assms(1) by (simp del: of_nat_add utf8_bytes.simps add: utf8_bytes.simps(2) [of utf8_init])
  also have "\<dots> = utf8_bytes \<lparr>u_cp = q * 64 + m, u_needed = 1, u_lower = 0x80, u_upper = 0xBF\<rparr>
      (of_nat (0x80 + l) # bs)"
    using assms by (subst utf8_bytes_more) simp_all
  also have "\<dots> = ((q * 64 + m) * 64 + l) # utf8_bytes utf8_init bs"
    using assms by (subst utf8_bytes_last) simp_all
  finally show ?thesis .
qed

lemma utf8_bytes_four:
  assumes "p < 5" "q < 64" "m < 64" "l < 64" "p = 0 \<Longrightarrow> 16 \<le> q" "p = 4 \<Longrightarrow> q \<le> 15"
  shows "utf8_bytes utf8_init
      (of_nat (0xF0 + p) # of_nat (0x80 + q) # of_nat (0x80 + m) # of_nat (0x80 + l) # bs) =
    (((p * 64 + q) * 64 + m) * 64 + l) # utf8_bytes utf8_init bs"
proof -
  let ?u = "\<lparr>u_cp = p, u_needed = 3, u_lower = (if p = 0 then 0x90 else 0x80),
             u_upper = (if p = 4 then 0x8F else 0xBF)\<rparr>"
  have "utf8_byte utf8_init (0xF0 + p) = (?u, [])"
    using assms(1) by (simp add: utf8_byte_def utf8_lead_def utf8_init_def)
  then have "utf8_bytes utf8_init
      (of_nat (0xF0 + p) # of_nat (0x80 + q) # of_nat (0x80 + m) # of_nat (0x80 + l) # bs)
      = utf8_bytes ?u (of_nat (0x80 + q) # of_nat (0x80 + m) # of_nat (0x80 + l) # bs)"
    using assms(1) by (simp del: of_nat_add utf8_bytes.simps add: utf8_bytes.simps(2) [of utf8_init])
  also have "\<dots> = utf8_bytes \<lparr>u_cp = p * 64 + q, u_needed = 2, u_lower = 0x80, u_upper = 0xBF\<rparr>
      (of_nat (0x80 + m) # of_nat (0x80 + l) # bs)"
    using assms by (subst utf8_bytes_more) simp_all
  also have "\<dots> = utf8_bytes \<lparr>u_cp = (p * 64 + q) * 64 + m, u_needed = 1, u_lower = 0x80,
      u_upper = 0xBF\<rparr> (of_nat (0x80 + l) # bs)"
    using assms by (subst utf8_bytes_more) simp_all
  also have "\<dots> = (((p * 64 + q) * 64 + m) * 64 + l) # utf8_bytes utf8_init bs"
    using assms by (subst utf8_bytes_last) simp_all
  finally show ?thesis .
qed

lemma utf8_bytes_char:
  assumes "scalar n"
  shows "utf8_bytes utf8_init (utf8_char n @ bs) = n # utf8_bytes utf8_init bs"
proof -
  define l m where "l = n mod 64" and "m = n div 64 mod 64"
  have lm: "l < 64" "m < 64" and n1: "n = n div 64 * 64 + l" and n2: "n div 64 = n div 4096 * 64 + m"
    by (simp_all add: l_def m_def div_mult2_eq [of n 64 64, simplified])
  consider "n < 0x80" | "0x80 \<le> n" "n < 0x800" | "0x800 \<le> n" "n < 0x10000"
    | "0x10000 \<le> n" "n < 0x110000"
    using assms unfolding scalar_def by linarith
  then show ?thesis
  proof cases
    case 1
    then show ?thesis
      by (simp add: utf8_char_def utf8_byte_def utf8_lead_def utf8_init_def unat_of_nat_byte)
  next
    case 2
    have "2 \<le> n div 64" "n div 64 < 32" using n1 lm 2 by linarith+
    with 2 lm have "utf8_bytes utf8_init (utf8_char n @ bs) =
        (n div 64 * 64 + l) # utf8_bytes utf8_init bs"
      by (simp del: of_nat_add utf8_bytes.simps add: utf8_char_def utf8_bytes_two flip: l_def)
    with n1 show ?thesis by simp
  next
    case 3
    have q: "n div 4096 < 16" "n div 4096 = 0 \<Longrightarrow> 32 \<le> m" "n div 4096 = 13 \<Longrightarrow> m \<le> 31"
      using n1 n2 lm 3 assms unfolding scalar_def by linarith+
    then have "utf8_bytes utf8_init (utf8_char n @ bs) =
        ((n div 4096 * 64 + m) * 64 + l) # utf8_bytes utf8_init bs"
      using 3 lm
      by (simp del: of_nat_add utf8_bytes.simps add: utf8_char_def utf8_bytes_three flip: l_def m_def)
    with n1 n2 show ?thesis by simp
  next
    case 4
    define q where "q = n div 4096 mod 64"
    have n3: "n div 4096 = n div 262144 * 64 + q" and "q < 64"
      by (simp_all add: q_def div_mult2_eq [of n 4096 64, simplified])
    moreover from this have "n div 262144 < 5" "n div 262144 = 0 \<Longrightarrow> 16 \<le> q" "n div 262144 = 4 \<Longrightarrow> q \<le> 15"
      using n1 n2 lm 4 by linarith+
    ultimately have "utf8_bytes utf8_init (utf8_char n @ bs) =
        (((n div 262144 * 64 + q) * 64 + m) * 64 + l) # utf8_bytes utf8_init bs"
      using 4 lm
      by (simp del: of_nat_add utf8_bytes.simps add: utf8_char_def utf8_bytes_four flip: l_def m_def q_def)
    with n1 n2 n3 show ?thesis by simp
  qed
qed

lemma utf8_bytes_encode:
  "\<forall>n \<in> set s. scalar n \<Longrightarrow> utf8_bytes utf8_init (utf8_encode s @ bs) = s @ utf8_bytes utf8_init bs"
  by (induction s) (auto simp: utf8_encode_def utf8_bytes_char)

lemma utf8_encode_ascii_head:
  "c < 0x80 \<Longrightarrow> strip_bom (utf8_encode (c # s)) = utf8_encode (c # s)"
  by (auto simp: strip_bom_def utf8_encode_def utf8_char_def unat_of_nat_byte split: list.splits)

text \<open>For a text that does not start with the byte order mark: the browser reads what was written.\<close>

lemma text_decode_encode:
  assumes "\<forall>n \<in> set s. scalar n" and "s = [] \<or> hd s < 0x80"
  shows "text_decode (utf8_encode s) = s"
proof (cases s)
  case Nil
  then show ?thesis by (simp add: text_decode_def utf8_encode_def strip_bom_def utf8_init_def)
next
  case (Cons c t)
  with assms(2) have "strip_bom (utf8_encode s) = utf8_encode s"
    by (simp add: utf8_encode_ascii_head)
  moreover have "utf8_bytes utf8_init (utf8_encode s @ []) = s @ utf8_bytes utf8_init []"
    using assms(1) by (rule utf8_bytes_encode)
  ultimately show ?thesis by (simp add: text_decode_def utf8_init_def)
qed

text \<open>The decoder never yields more code points than it reads bytes.\<close>

lemma length_utf8_bytes: "length (utf8_bytes u bs) \<le> length bs + (if u_needed u = 0 then 0 else 1)"
proof (induction bs arbitrary: u)
  case Nil
  then show ?case by simp
next
  case (Cons b bs)
  obtain u' out where o: "utf8_byte u (unat b) = (u', out)" by fastforce
  have "length out + (if u_needed u' = 0 then 0 else 1) \<le> 1 + (if u_needed u = 0 then 0 else 1)"
    using o by (auto simp: utf8_byte_def utf8_lead_def utf8_init_def split: if_splits prod.splits)
  with Cons.IH [of u'] o show ?case by simp
qed

lemma length_text_decode: "length (text_decode bs) \<le> length bs"
proof -
  have "length (strip_bom bs) \<le> length bs"
    by (auto simp: strip_bom_def split: list.splits)
  with length_utf8_bytes [of utf8_init "strip_bom bs"] show ?thesis
    by (simp add: text_decode_def utf8_init_def)
qed

end
