(* ===== verification/Json.thy ===== *)
theory Json
  imports Utf8
begin

text \<open>
  JSON, the format of every message between the program's parts: a value type, the text that Go's
  \<open>json.Marshal\<close> and the browser's \<open>JSON.stringify\<close> write, and the parser behind the browser's
  \<open>JSON.parse\<close>. Standard library on both sides. Numbers are the integers: no message of the program towards the browser carries a
  fraction, and a literal with a fraction or an exponent is not accepted by this parser. A number
  keeps its exact value here; where the browser uses one as a key, \<open>js_double\<close> rounds it as
  an IEEE double does.
\<close>

section \<open>Values\<close>

datatype json = JNull | JBool bool | JNum int | JStr jstext | JArr "json list"
  | JObj "(jstext \<times> json) list"

text \<open>Reading a property: \<open>None\<close> is \<open>undefined\<close>. (Reading from \<open>null\<close> throws; the callers check.)\<close>

fun jget :: "json \<Rightarrow> jstext \<Rightarrow> json option" where
  "jget (JObj kvs) k = map_of kvs k"
| "jget _ k = None"

fun js_truthy :: "json option \<Rightarrow> bool" where
  "js_truthy None = False"
| "js_truthy (Some JNull) = False"
| "js_truthy (Some (JBool b)) = b"
| "js_truthy (Some (JNum n)) = (n \<noteq> 0)"
| "js_truthy (Some (JStr s)) = (s \<noteq> [])"
| "js_truthy (Some _) = True"

text \<open>The nearest double of an integer, ties to even.\<close>

fun js_ulp :: "nat \<Rightarrow> nat" where
  "js_ulp m = (if m < 2 ^ 53 then 1 else 2 * js_ulp (m div 2))"

declare js_ulp.simps [simp del]

definition js_double :: "int \<Rightarrow> int" where
  "js_double n =
     (let m = nat \<bar>n\<bar> in
      if m < 2 ^ 53 then n
      else (let u = js_ulp m; q = m div u; r = m mod u;
                q' = (if 2 * r > u \<or> 2 * r = u \<and> odd q then q + 1 else q)
            in sgn n * int (q' * u)))"

section \<open>Numbers as text\<close>

fun nat_text :: "nat \<Rightarrow> jstext" where
  "nat_text n = (if n < 10 then [48 + n] else nat_text (n div 10) @ [48 + n mod 10])"

declare nat_text.simps [simp del]

definition int_text :: "int \<Rightarrow> jstext" where
  "int_text n = (if n < 0 then 45 # nat_text (nat (- n)) else nat_text (nat n))"

definition is_digit :: "nat \<Rightarrow> bool" where
  "is_digit c \<longleftrightarrow> 48 \<le> c \<and> c \<le> 57"

definition digits_val :: "jstext \<Rightarrow> nat" where
  "digits_val ds = foldl (\<lambda>a d. a * 10 + (d - 48)) 0 ds"

lemma nat_text_digits: "\<forall>c \<in> set (nat_text n). is_digit c"
proof (induction n rule: nat_text.induct)
  case (1 n)
  then show ?case by (subst nat_text.simps) (auto simp: is_digit_def)
qed

lemma nat_text_not_Nil [simp]: "nat_text n \<noteq> []"
  by (subst nat_text.simps) simp

lemma digits_val_nat_text [simp]: "digits_val (nat_text n) = n"
proof (induction n rule: nat_text.induct)
  case (1 n)
  then show ?case by (subst nat_text.simps) (auto simp: digits_val_def)
qed

lemma nat_text_zero: "0 < n \<Longrightarrow> hd (nat_text n) \<noteq> 48"
proof (induction n rule: nat_text.induct)
  case (1 n)
  then show ?case
  proof (cases "n < 10")
    case False
    then have "0 < n div 10" by simp
    with 1 False show ?thesis by (subst nat_text.simps) simp
  qed (subst nat_text.simps, simp)
qed

lemma nat_text_0 [simp]: "nat_text 0 = [48]"
  by (subst nat_text.simps) simp

section \<open>What Go and the browser write\<close>

definition hex_digit :: "nat \<Rightarrow> nat" where
  "hex_digit n = (if n < 10 then 48 + n else 87 + n)"

definition hex4 :: "nat \<Rightarrow> jstext" where
  "hex4 c = [hex_digit (c div 4096 mod 16), hex_digit (c div 256 mod 16), hex_digit (c div 16 mod 16), hex_digit (c mod 16)]"

definition go_escape :: "nat \<Rightarrow> jstext" where
  "go_escape c =
     (if c = 34 \<or> c = 92 then [92, c]
      else if c = 8 then [92, 98] else if c = 12 then [92, 102] else if c = 10 then [92, 110]
      else if c = 13 then [92, 114] else if c = 9 then [92, 116]
      else if c < 32 \<or> c = 60 \<or> c = 62 \<or> c = 38 \<or> c = 0x2028 \<or> c = 0x2029 then 92 # 117 # hex4 c
      else [c])"

fun join_with :: "'a list \<Rightarrow> 'a list list \<Rightarrow> 'a list" where
  "join_with sep [] = []"
| "join_with sep [x] = x"
| "join_with sep (x # y # r) = x @ sep @ join_with sep (y # r)"

text \<open>
  The text of a value, up to how a writer escapes the characters of strings; Go's \<open>json.Marshal\<close>, and
  the browser's \<open>JSON.stringify\<close>, which escapes only what it must.
\<close>

definition json_string :: "(nat \<Rightarrow> jstext) \<Rightarrow> jstext \<Rightarrow> jstext" where
  "json_string esc s = 34 # concat (map esc s) @ [34]"

fun json_text :: "(nat \<Rightarrow> jstext) \<Rightarrow> json \<Rightarrow> jstext" where
  "json_text esc JNull = asc ''null''"
| "json_text esc (JBool b) = (if b then asc ''true'' else asc ''false'')"
| "json_text esc (JNum n) = int_text n"
| "json_text esc (JStr s) = json_string esc s"
| "json_text esc (JArr vs) = 91 # join_with [44] (map (json_text esc) vs) @ [93]"
| "json_text esc (JObj kvs) =
     123 # join_with [44] (map (\<lambda>(k, v). json_string esc k @ 58 # json_text esc v) kvs) @ [125]"

definition js_escape :: "nat \<Rightarrow> jstext" where
  "js_escape c =
     (if c = 34 \<or> c = 92 then [92, c]
      else if c = 8 then [92, 98] else if c = 12 then [92, 102] else if c = 10 then [92, 110]
      else if c = 13 then [92, 114] else if c = 9 then [92, 116]
      else if c < 32 \<or> 0xD800 \<le> c \<and> c < 0xE000 then 92 # 117 # hex4 c
      else [c])"

abbreviation "go_string \<equiv> json_string go_escape"
abbreviation "go_json \<equiv> json_text go_escape"
abbreviation "js_stringify \<equiv> json_text js_escape"

text \<open>\<open>json.Marshal\<close>: the UTF-8 bytes of that text.\<close>

definition go_marshal :: "json \<Rightarrow> byte list" where
  "go_marshal v = utf8_encode (go_json v)"

section \<open>JSON.parse\<close>

definition json_ws :: "nat \<Rightarrow> bool" where
  "json_ws c \<longleftrightarrow> c = 9 \<or> c = 10 \<or> c = 13 \<or> c = 32"

abbreviation "skip_ws \<equiv> dropWhile json_ws"

definition hex_val :: "nat \<Rightarrow> nat option" where
  "hex_val c = (if 48 \<le> c \<and> c \<le> 57 then Some (c - 48)
     else if 97 \<le> c \<and> c \<le> 102 then Some (c - 87) else if 65 \<le> c \<and> c \<le> 70 then Some (c - 55) else None)"

definition hex4_val :: "nat \<Rightarrow> nat \<Rightarrow> nat \<Rightarrow> nat \<Rightarrow> nat option" where
  "hex4_val a b c d = (case (hex_val a, hex_val b, hex_val c, hex_val d) of
     (Some p, Some q, Some r, Some s) \<Rightarrow> Some (((p * 16 + q) * 16 + r) * 16 + s) | _ \<Rightarrow> None)"

definition simple_escape :: "nat \<Rightarrow> nat option" where
  "simple_escape e =
     (if e = 34 \<or> e = 92 \<or> e = 47 then Some e
      else if e = 98 then Some 8 else if e = 102 then Some 12 else if e = 110 then Some 10
      else if e = 114 then Some 13 else if e = 116 then Some 9 else None)"

abbreviation cons_fst :: "'a \<Rightarrow> ('a list \<times> 'b) option \<Rightarrow> ('a list \<times> 'b) option" where
  "cons_fst x \<equiv> map_option (\<lambda>(t, r). (x # t, r))"

fun string_body :: "jstext \<Rightarrow> (jstext \<times> jstext) option" where
  "string_body [] = None"
| "string_body (c # s) =
     (if c = 34 then Some ([], s)
      else if c = 92 then
        (case s of
           [] \<Rightarrow> None
         | e # s' \<Rightarrow>
             if e = 117 then
               (case s' of
                  a # b # c' # d # s'' \<Rightarrow>
                    (case hex4_val a b c' d of None \<Rightarrow> None | Some n \<Rightarrow> cons_fst n (string_body s''))
                | _ \<Rightarrow> None)
             else (case simple_escape e of None \<Rightarrow> None | Some n \<Rightarrow> cons_fst n (string_body s')))
      else if c < 32 then None
      else cons_fst c (string_body s))"

text \<open>Two escaped surrogates are one character.\<close>

fun join_surrogates :: "jstext \<Rightarrow> jstext" where
  "join_surrogates (h # l # s) =
     (if 0xD800 \<le> h \<and> h < 0xDC00 \<and> 0xDC00 \<le> l \<and> l < 0xE000
      then (0x10000 + (h - 0xD800) * 1024 + (l - 0xDC00)) # join_surrogates s
      else h # join_surrogates (l # s))"
| "join_surrogates s = s"

definition parse_string :: "jstext \<Rightarrow> (jstext \<times> jstext) option" where
  "parse_string s = map_option (\<lambda>(t, r). (join_surrogates t, r)) (string_body s)"

definition parse_nat :: "jstext \<Rightarrow> (nat \<times> jstext) option" where
  "parse_nat s =
     (let ds = takeWhile is_digit s; r = dropWhile is_digit s in
      if ds = [] \<or> 1 < length ds \<and> hd ds = 48 then None
      else if r \<noteq> [] \<and> (hd r = 46 \<or> hd r = 101 \<or> hd r = 69) then None
      else Some (digits_val ds, r))"

definition parse_num :: "jstext \<Rightarrow> (json \<times> jstext) option" where
  "parse_num s =
     (case s of
        c # s' \<Rightarrow> if c = 45 then map_option (\<lambda>(n, r). (JNum (- int n), r)) (parse_nat s')
                  else map_option (\<lambda>(n, r). (JNum (int n), r)) (parse_nat s)
      | [] \<Rightarrow> None)"

definition parse_word :: "string \<Rightarrow> json \<Rightarrow> jstext \<Rightarrow> (json \<times> jstext) option" where
  "parse_word w v s = (if take (length w) s = asc w then Some (v, drop (length w) s) else None)"

text \<open>
  Values, the elements of an array and the members of an object. The first argument is fuel; one
  unit per call, so twice the length of the text is enough (\<open>json_fuel_enough\<close>).
  A repeated key overwrites, as in the browser.
\<close>

fun parse_value :: "nat \<Rightarrow> jstext \<Rightarrow> (json \<times> jstext) option"
and parse_elems :: "nat \<Rightarrow> json list \<Rightarrow> jstext \<Rightarrow> (json \<times> jstext) option"
and parse_members :: "nat \<Rightarrow> (jstext \<times> json) list \<Rightarrow> jstext \<Rightarrow> (json \<times> jstext) option" where
  "parse_value 0 s = None"
| "parse_value (Suc f) s =
     (case skip_ws s of
        [] \<Rightarrow> None
      | c # r \<Rightarrow>
          if c = 123 then
            (case skip_ws r of
               [] \<Rightarrow> None
             | d # r' \<Rightarrow> if d = 125 then Some (JObj [], r') else parse_members f [] (d # r'))
          else if c = 91 then
            (case skip_ws r of
               [] \<Rightarrow> None
             | d # r' \<Rightarrow> if d = 93 then Some (JArr [], r') else parse_elems f [] (d # r'))
          else if c = 34 then map_option (\<lambda>(t, r). (JStr t, r)) (parse_string r)
          else if c = 110 then parse_word ''null'' JNull (c # r)
          else if c = 116 then parse_word ''true'' (JBool True) (c # r)
          else if c = 102 then parse_word ''false'' (JBool False) (c # r)
          else parse_num (c # r))"
| "parse_elems 0 acc s = None"
| "parse_elems (Suc f) acc s =
     (case parse_value f s of
        None \<Rightarrow> None
      | Some (v, r) \<Rightarrow>
          (case skip_ws r of
             [] \<Rightarrow> None
           | c # r' \<Rightarrow> if c = 44 then parse_elems f (acc @ [v]) r'
                       else if c = 93 then Some (JArr (acc @ [v]), r') else None))"
| "parse_members 0 acc s = None"
| "parse_members (Suc f) acc s =
     (case skip_ws s of
        [] \<Rightarrow> None
      | q # s' \<Rightarrow>
          if q \<noteq> 34 then None
          else (case parse_string s' of
                  None \<Rightarrow> None
                | Some (k, r) \<Rightarrow>
                    (case skip_ws r of
                       [] \<Rightarrow> None
                     | c # r' \<Rightarrow>
                         if c \<noteq> 58 then None
                         else (case parse_value f r' of
                                 None \<Rightarrow> None
                               | Some (v, t) \<Rightarrow>
                                   (case skip_ws t of
                                      [] \<Rightarrow> None
                                    | e # t' \<Rightarrow>
                                        if e = 44 then parse_members f (AList.update k v acc) t'
                                        else if e = 125 then Some (JObj (AList.update k v acc), t')
                                        else None)))))"

definition json_parse :: "jstext \<Rightarrow> json option" where
  "json_parse s =
     (case parse_value (2 * length s + 2) s of
        Some (v, r) \<Rightarrow> if skip_ws r = [] then Some v else None
      | None \<Rightarrow> None)"

end
