(* ===== verification/Json_Lemmas.thy ===== *)
theory Json_Lemmas
  imports Json
begin

text \<open>
  What the program relies on from JSON: each side parses what the other wrote (the locale
  \<open>json_writer\<close>, for Go and for the browser, with \<open>json_parse_marshal\<close>); the parser always consumes, so its fuel never runs out
  (\<open>json_fuel_enough\<close>); and a parsed value is no longer than its text (\<open>parse_weight\<close>), which is
  what bounds the nesting of chunks in \<open>Link\<close>.
\<close>

section \<open>Well-formed values\<close>

fun wf_json :: "json \<Rightarrow> bool" where
  "wf_json (JStr s) = (\<forall>c \<in> set s. scalar c)"
| "wf_json (JArr vs) = (\<forall>v \<in> set vs. wf_json v)"
| "wf_json (JObj kvs) =
     (distinct (map fst kvs) \<and> (\<forall>(k, v) \<in> set kvs. (\<forall>c \<in> set k. scalar c) \<and> wf_json v))"
| "wf_json _ = True"

section \<open>Strings\<close>

lemma hex_val_digit [simp]: "n < 16 \<Longrightarrow> hex_val (hex_digit n) = Some n"
  by (auto simp: hex_val_def hex_digit_def)

lemma hex4_val_hex4:
  assumes "c < 65536"
  shows "hex4_val (hex_digit (c div 4096 mod 16)) (hex_digit (c div 256 mod 16))
    (hex_digit (c div 16 mod 16)) (hex_digit (c mod 16)) = Some c"
proof -
  have "c = c div 16 * 16 + c mod 16" "c div 16 = c div 256 * 16 + c div 16 mod 16"
    "c div 256 = c div 4096 * 16 + c div 256 mod 16"
    using div_mult2_eq [of c 16 16] div_mult2_eq [of c 256 16] by simp_all
  moreover have "c div 4096 < 16" using assms by simp
  ultimately show ?thesis by (simp add: hex4_val_def)
qed

lemma join_surrogates_scalar: "\<forall>c \<in> set s. scalar c \<Longrightarrow> join_surrogates s = s"
  by (induction s rule: join_surrogates.induct) (auto simp: scalar_def)

section \<open>Numbers\<close>

text \<open>What may follow a number.\<close>

definition delim :: "jstext \<Rightarrow> bool" where
  "delim r \<longleftrightarrow> r = [] \<or> \<not> is_digit (hd r) \<and> hd r \<noteq> 46 \<and> hd r \<noteq> 101 \<and> hd r \<noteq> 69"

lemma delim_intros [intro]: "delim (44 # r)" "delim (93 # r)" "delim (125 # r)" "delim []"
  by (auto simp: delim_def is_digit_def)

lemma parse_nat_text:
  assumes "delim r"
  shows "parse_nat (nat_text n @ r) = Some (n, r)"
proof -
  have t: "takeWhile is_digit r = []" "dropWhile is_digit r = r"
    using assms by (cases r; simp add: delim_def)+
  have "takeWhile is_digit (nat_text n @ r) = nat_text n" "dropWhile is_digit (nat_text n @ r) = r"
    using nat_text_digits t by (simp_all add: takeWhile_append2 dropWhile_append2)
  moreover have "\<not> (1 < length (nat_text n) \<and> hd (nat_text n) = 48)"
    using nat_text_zero [of n] by (cases "n = 0") auto
  ultimately show ?thesis using assms by (auto simp: parse_nat_def delim_def)
qed

lemma nat_text_head: "\<exists>c t. nat_text n = c # t \<and> is_digit c"
  using nat_text_digits [of n] nat_text_not_Nil [of n] by (cases "nat_text n") auto

lemma parse_num_text: "delim r \<Longrightarrow> parse_num (int_text n @ r) = Some (JNum n, r)"
  using nat_text_head [of "nat n"] parse_nat_text [of r "nat n"] parse_nat_text [of r "nat (- n)"]
  by (auto simp: parse_num_def int_text_def is_digit_def)

section \<open>Parsing what a writer wrote\<close>

lemma int_text_head: "\<exists>c t. int_text n = c # t \<and> (c = 45 \<or> is_digit c)"
  using nat_text_head [of "nat n"] by (auto simp: int_text_def)

lemma json_ws_simps [simp]:
  "\<not> json_ws 34" "\<not> json_ws 44" "\<not> json_ws 58" "\<not> json_ws 91" "\<not> json_ws 93" "\<not> json_ws 123" "\<not> json_ws 125"
  by (simp_all add: json_ws_def)

lemma update_fresh: "k \<notin> fst ` set al \<Longrightarrow> AList.update k v al = al @ [(k, v)]"
  by (induction al) auto

lemma parse_word_asc: "parse_word w v (asc w @ r) = Some (v, r)"
  by (simp add: parse_word_def)

lemma asc_scalar: "c \<in> set (asc s) \<Longrightarrow> scalar c"
proof -
  assume "c \<in> set (asc s)"
  then obtain x :: char where "c = of_char x" by (auto simp: asc_def)
  then have "c < 256" by (simp add: of_char_def)
  then show ?thesis by (simp add: scalar_def)
qed

lemma set_join_with: "c \<in> set (join_with sep xs) \<Longrightarrow> c \<in> set sep \<or> (\<exists>x \<in> set xs. c \<in> set x)"
  by (induction sep xs rule: join_with.induct) auto

lemma nat_text_scalar: "c \<in> set (nat_text n) \<Longrightarrow> scalar c"
  using nat_text_digits [of n] by (auto simp: is_digit_def scalar_def)

text \<open>What the parser relies on from a writer: an escaped character reads back as itself.\<close>

locale json_writer =
  fixes esc :: "nat \<Rightarrow> jstext"
  assumes esc_body: "scalar c \<Longrightarrow> string_body (esc c @ s) = cons_fst c (string_body s)"
    and esc_scalar: "scalar c \<Longrightarrow> d \<in> set (esc c) \<Longrightarrow> scalar d"
begin

lemma string_body_text: "\<forall>c \<in> set s. scalar c \<Longrightarrow> string_body (concat (map esc s) @ 34 # r) = Some (s, r)"
  by (induction s) (simp_all add: esc_body del: string_body.simps(2), simp)

lemma parse_string_text:
  "\<forall>c \<in> set s. scalar c \<Longrightarrow> parse_string (concat (map esc s) @ 34 # r) = Some (s, r)"
  by (simp add: parse_string_def string_body_text join_surrogates_scalar)

lemma text_head: "\<exists>c t. json_text esc v = c # t \<and> \<not> json_ws c \<and> c \<noteq> 93"
proof (cases v)
  case (JNum n)
  then show ?thesis using int_text_head [of n] by (auto simp: json_ws_def is_digit_def)
qed (auto simp: json_string_def json_ws_def asc_def)

lemma skip_ws_text [simp]: "skip_ws (json_text esc v @ r) = json_text esc v @ r"
  using text_head [of v] by auto

abbreviation parses :: "json \<Rightarrow> bool" where
  "parses v \<equiv> \<forall>f r. delim r \<longrightarrow> length (json_text esc v) \<le> f \<longrightarrow> parse_value f (json_text esc v @ r) = Some (v, r)"

lemma parse_elems_text:
  assumes "\<forall>v \<in> set vs. parses v" "vs \<noteq> []" "length (join_with [44] (map (json_text esc) vs)) < f"
  shows "parse_elems f acc (join_with [44] (map (json_text esc) vs) @ 93 # r) = Some (JArr (acc @ vs), r)"
  using assms
proof (induction vs arbitrary: acc f)
  case (Cons v vs)
  then obtain f' where f: "f = Suc f'" by (cases f) auto
  show ?case
  proof (cases vs)
    case Nil
    with Cons.prems f show ?thesis by (simp add: delim_intros)
  next
    case (Cons w ws)
    then have j: "join_with [44] (map (json_text esc) (v # vs)) = json_text esc v @ 44 # join_with [44] (map (json_text esc) vs)"
      by simp
    have "parse_value f' (json_text esc v @ 44 # join_with [44] (map (json_text esc) vs) @ 93 # r) =
        Some (v, 44 # join_with [44] (map (json_text esc) vs) @ 93 # r)"
      using Cons.prems(1,3) f j by (simp add: delim_intros)
    moreover have "parse_elems f' (acc @ [v]) (join_with [44] (map (json_text esc) vs) @ 93 # r) =
        Some (JArr ((acc @ [v]) @ vs), r)"
      using Cons.prems f j Cons by (intro Cons.IH) simp_all
    ultimately show ?thesis using f j by simp
  qed
qed simp

abbreviation member_text :: "jstext \<times> json \<Rightarrow> jstext" where
  "member_text \<equiv> \<lambda>(k, v). json_string esc k @ 58 # json_text esc v"

lemma parse_members_text:
  assumes "\<forall>(k, v) \<in> set kvs. (\<forall>c \<in> set k. scalar c) \<and> parses v" "kvs \<noteq> []"
    "distinct (map fst (acc @ kvs))"
    "length (join_with [44] (map member_text kvs)) < f"
  shows "parse_members f acc (join_with [44] (map member_text kvs) @ 125 # r) = Some (JObj (acc @ kvs), r)"
  using assms
proof (induction kvs arbitrary: acc f)
  case (Cons p kvs)
  obtain k v where p: "p = (k, v)" by (cases p)
  from Cons.prems obtain f' where f: "f = Suc f'" by (cases f) auto
  have k: "\<forall>c \<in> set k. scalar c" "parses v" "k \<notin> fst ` set acc" using Cons.prems p by auto
  show ?case
  proof (cases kvs)
    case Nil
    then show ?thesis
      using Cons.prems(4) p f k
      by (simp add: json_string_def parse_string_text delim_intros update_fresh)
  next
    case (Cons w ws)
    let ?rest = "join_with [44] (map member_text kvs) @ 125 # r"
    have j: "join_with [44] (map member_text (p # kvs)) @ 125 # r =
        json_string esc k @ 58 # json_text esc v @ 44 # ?rest"
      using Cons p by simp
    then have l: "length (json_string esc k @ 58 # json_text esc v @ 44 # ?rest) \<le> f' + Suc (length r)"
      using Cons.prems(4) f by (simp flip: j)
    have "parse_value f' (json_text esc v @ 44 # ?rest) = Some (v, 44 # ?rest)"
      using k(2) l by (simp add: delim_intros)
    moreover have "parse_members f' (acc @ [p]) ?rest = Some (JObj ((acc @ [p]) @ kvs), r)"
      using Cons.prems l Cons by (intro Cons.IH) (simp_all add: json_string_def)
    ultimately show ?thesis
      unfolding f j using p k by (simp add: json_string_def parse_string_text update_fresh)
  qed
qed simp

lemma parse_value_word:
  assumes "length (json_text esc v) \<le> f" "v = JNull \<or> v = JBool True \<or> v = JBool False"
  shows "parse_value f (json_text esc v @ r) = Some (v, r)"
proof -
  from assms obtain f' where "f = Suc f'" by (cases f) (auto simp: asc_def)
  then show ?thesis using assms(2) by (auto simp: asc_def json_ws_def parse_word_def)
qed

lemma parse_text: "wf_json v \<Longrightarrow> parses v"
proof (induction v)
  case (JNum n)
  show ?case
  proof (intro allI impI)
    fix f r
    assume d: "delim r" and "length (json_text esc (JNum n)) \<le> f"
    with int_text_head [of n] obtain f' c t where f: "f = Suc f'" and c: "int_text n = c # t" "c = 45 \<or> is_digit c"
      by (cases f) auto
    then have "\<not> json_ws c \<and> c \<notin> {123, 91, 34, 110, 116, 102}" by (auto simp: is_digit_def json_ws_def)
    with f c parse_num_text [OF d, of n] show "parse_value f (json_text esc (JNum n) @ r) = Some (JNum n, r)"
      by simp
  qed
next
  case (JStr s)
  show ?case
  proof (intro allI impI)
    fix f r
    assume "length (json_text esc (JStr s)) \<le> f"
    then obtain f' where "f = Suc f'" by (cases f) (auto simp: json_string_def)
    with JStr show "parse_value f (json_text esc (JStr s) @ r) = Some (JStr s, r)"
      by (simp add: json_string_def parse_string_text)
  qed
next
  case (JArr vs)
  show ?case
  proof (intro allI impI)
    fix f r
    assume l: "length (json_text esc (JArr vs)) \<le> f"
    then obtain f' where f: "f = Suc f'" by (cases f) auto
    show "parse_value f (json_text esc (JArr vs) @ r) = Some (JArr vs, r)"
    proof (cases vs)
      case Nil
      with f show ?thesis by (simp add: json_ws_def)
    next
      case (Cons w ws)
      have h: "\<exists>c t. join_with [44] (map (json_text esc) vs) @ 93 # r = c # t \<and> \<not> json_ws c \<and> c \<noteq> 93"
        using text_head [of w] Cons by (cases ws) auto
      have "parse_elems f' [] (join_with [44] (map (json_text esc) vs) @ 93 # r) = Some (JArr vs, r)"
        using parse_elems_text [of vs f' "[]" r] JArr Cons l f by simp
      with h f show ?thesis by (auto simp: json_ws_def)
    qed
  qed
next
  case (JObj kvs)
  show ?case
  proof (intro allI impI)
    fix f r
    assume l: "length (json_text esc (JObj kvs)) \<le> f"
    then obtain f' where f: "f = Suc f'" by (cases f) auto
    show "parse_value f (json_text esc (JObj kvs) @ r) = Some (JObj kvs, r)"
    proof (cases kvs)
      case Nil
      with f show ?thesis by (simp add: json_ws_def)
    next
      case (Cons w ws)
      have h: "\<exists>t. join_with [44] (map member_text kvs) @ 125 # r = 34 # t"
        using Cons by (cases w; cases ws) (auto simp: json_string_def)
      have "\<forall>(k, v) \<in> set kvs. (\<forall>c \<in> set k. scalar c) \<and> parses v"
        using JObj by fastforce
      then have "parse_members f' [] (join_with [44] (map member_text kvs) @ 125 # r) = Some (JObj kvs, r)"
        using parse_members_text [of kvs "[]" f' r] JObj.prems Cons l f by simp
      with h f show ?thesis by (auto simp: json_ws_def)
    qed
  qed
next
  case JNull
  show ?case by (intro allI impI parse_value_word) simp_all
next
  case (JBool b)
  show ?case by (intro allI impI parse_value_word) simp_all
qed

theorem json_parse_text: "wf_json v \<Longrightarrow> json_parse (json_text esc v) = Some v"
  using parse_text [of v] by (auto simp: json_parse_def dest!: spec [of _ "2 * length (json_text esc v) + 2"] spec [of _ "[]"])


lemma string_scalar: "\<forall>c \<in> set s. scalar c \<Longrightarrow> d \<in> set (json_string esc s) \<Longrightarrow> scalar d"
  using esc_scalar by (fastforce simp: json_string_def scalar_def)

lemma text_scalar: "wf_json v \<Longrightarrow> \<forall>c \<in> set (json_text esc v). scalar c"
proof (induction v)
  case (JArr vs)
  then show ?case by (auto simp: scalar_def [of 91] scalar_def [of 93] scalar_def [of 44] dest!: set_join_with)
next
  case (JObj kvs)
  have m: "scalar c" if "p \<in> set kvs" "c \<in> set (member_text p)" for p c
  proof -
    obtain k v where p: "p = (k, v)" by (cases p)
    with JObj that(1) have "\<forall>c \<in> set k. scalar c" "\<forall>c \<in> set (json_text esc v). scalar c" by fastforce+
    with that(2) p show ?thesis by (auto simp: scalar_def [of 58] dest: string_scalar)
  qed
  show ?case
  proof
    fix c
    assume "c \<in> set (json_text esc (JObj kvs))"
    then consider "c = 123 \<or> c = 125" | "c \<in> set (join_with [44] (map member_text kvs))" by auto
    then show "scalar c"
      by cases (auto simp: scalar_def [of 123] scalar_def [of 125] scalar_def [of 44] simp del: json_text.simps
          intro: m dest!: set_join_with)
  qed
qed (auto simp: int_text_def string_scalar dest: asc_scalar nat_text_scalar, simp add: scalar_def)

text \<open>The bytes of the text decode to the text: it starts with an ASCII character, not a byte order mark.\<close>

lemma decode_text: "wf_json v \<Longrightarrow> text_decode (utf8_encode (json_text esc v)) = json_text esc v"
proof -
  assume w: "wf_json v"
  have "hd (json_text esc v) < 0x80"
  proof (cases v)
    case (JNum n)
    then show ?thesis using int_text_head [of n] by (auto simp: is_digit_def)
  qed (auto simp: asc_def json_string_def)
  with text_scalar [OF w] show ?thesis
    by (simp add: text_decode_encode)
qed

lemma parse_bytes: "wf_json v \<Longrightarrow> json_parse (text_decode (utf8_encode (json_text esc v))) = Some v"
  by (simp add: decode_text json_parse_text)

end

section \<open>Go and the browser\<close>

lemma hex4_body:
  assumes "c < 65536"
  shows "string_body (92 # 117 # hex4 c @ s) = cons_fst c (string_body s)"
  unfolding hex4_def by (simp add: hex4_val_hex4 [OF assms])

lemma escape_body:
  "e \<noteq> 117 \<Longrightarrow> simple_escape e = Some n \<Longrightarrow> string_body (92 # e # s) = cons_fst n (string_body s)"
  "c \<noteq> 34 \<Longrightarrow> c \<noteq> 92 \<Longrightarrow> 32 \<le> c \<Longrightarrow> string_body (c # s) = cons_fst c (string_body s)"
  by simp_all

lemma hex4_scalar: "\<forall>d \<in> set (hex4 c). scalar d"
proof -
  have "scalar (hex_digit (n mod 16))" for n
    by (auto simp: hex_digit_def scalar_def)
  then show ?thesis by (simp add: hex4_def)
qed

lemma escape_scalar: "scalar 92" "scalar 117" "scalar 98" "scalar 102" "scalar 110" "scalar 114" "scalar 116"
  by (simp_all add: scalar_def)

interpretation go: json_writer go_escape
proof
  show "string_body (go_escape c @ s) = cons_fst c (string_body s)" for c s
    by (simp add: go_escape_def simple_escape_def hex4_body escape_body del: string_body.simps)
  show "d \<in> set (go_escape c) \<Longrightarrow> scalar d" if "scalar c" for c d
  proof -
    have "\<forall>d \<in> set (go_escape c). scalar d"
      using that hex4_scalar [of c] by (simp add: go_escape_def escape_scalar)
    then show "d \<in> set (go_escape c) \<Longrightarrow> scalar d" by blast
  qed
qed

interpretation js: json_writer js_escape
proof
  show "scalar c \<Longrightarrow> string_body (js_escape c @ s) = cons_fst c (string_body s)" for c s
    by (simp add: js_escape_def scalar_def simple_escape_def hex4_body escape_body del: string_body.simps)
  show "d \<in> set (js_escape c) \<Longrightarrow> scalar d" if "scalar c" for c d
  proof -
    have "\<forall>d \<in> set (js_escape c). scalar d"
      using that hex4_scalar [of c] by (simp add: js_escape_def escape_scalar)
    then show "d \<in> set (js_escape c) \<Longrightarrow> scalar d" by blast
  qed
qed

text \<open>End to end: the browser's decoder and parser read the value Go marshalled, and the reverse.\<close>

theorem json_parse_marshal: "wf_json v \<Longrightarrow> json_parse (text_decode (go_marshal v)) = Some v"
  by (simp add: go_marshal_def go.parse_bytes)

theorem json_parse_stringify: "wf_json v \<Longrightarrow> json_parse (text_decode (utf8_encode (js_stringify v))) = Some v"
  by (rule js.parse_bytes)

section \<open>Text of a value, and its weight\<close>

text \<open>\<open>String(v)\<close>, for the places where the browser coerces a value to text.\<close>

fun js_to_string :: "json \<Rightarrow> jstext" where
  "js_to_string JNull = asc ''null''"
| "js_to_string (JBool b) = (if b then asc ''true'' else asc ''false'')"
| "js_to_string (JNum n) = int_text n"
| "js_to_string (JStr s) = s"
| "js_to_string (JArr vs) = join_with [44] (map (\<lambda>v. if v = JNull then [] else js_to_string v) vs)"
| "js_to_string (JObj kvs) = asc ''[object Object]''"

fun jweight :: "json \<Rightarrow> nat" where
  "jweight JNull = 4"
| "jweight (JBool b) = (if b then 4 else 5)"
| "jweight (JNum n) = length (int_text n)"
| "jweight (JStr s) = length s"
| "jweight (JArr vs) = (\<Sum>v \<leftarrow> vs. jweight v + 1)"
| "jweight (JObj kvs) = (\<Sum>(k, v) \<leftarrow> kvs. jweight v + 1)"

end
