(* ===== verification/Json_Bounds.thy ===== *)
theory Json_Bounds
  imports Json_Lemmas
begin

text \<open>
  Bounds of the JSON parser: every parser consumes input, a parsed value is no longer than the text
  it was read from (\<open>json_parse_weight\<close>), and the fuel of \<open>json_parse\<close> never runs out
  (\<open>json_fuel_enough\<close>).
\<close>

section \<open>Strings and numbers\<close>

lemma string_body_weight: "string_body s = Some (t, r) \<Longrightarrow> length t + length r < length s"
  by (induction s arbitrary: t r rule: string_body.induct)
     (fastforce split: if_splits option.splits list.splits)+

lemma length_join_surrogates: "length (join_surrogates s) \<le> length s"
  by (induction s rule: join_surrogates.induct) auto

lemma parse_string_weight: "parse_string s = Some (t, r) \<Longrightarrow> length t + length r < length s"
proof -
  assume "parse_string s = Some (t, r)"
  then obtain u where "string_body s = Some (u, r)" "t = join_surrogates u"
    by (auto simp: parse_string_def)
  then show ?thesis using string_body_weight [of s u r] length_join_surrogates [of u] by simp
qed

lemma length_nat_text: "n < 10 ^ k \<Longrightarrow> 0 < k \<Longrightarrow> length (nat_text n) \<le> k"
proof (induction n arbitrary: k rule: nat_text.induct)
  case (1 n)
  show ?case
  proof (cases "n < 10")
    case False
    with "1.prems" have "1 < k" by (cases k; cases "k - 1") auto
    then obtain k' where k': "k = Suc k'" "0 < k'" by (cases k) auto
    with "1.prems" have "n div 10 < 10 ^ k'" by (simp add: div_less_iff_less_mult mult.commute)
    with 1 False k' show ?thesis by (subst nat_text.simps) simp
  qed (use "1.prems" in \<open>subst nat_text.simps, simp\<close>)
qed

lemma digits_val_less: "\<forall>c \<in> set ds. is_digit c \<Longrightarrow> digits_val ds < 10 ^ length ds"
proof (induction ds rule: rev_induct)
  case Nil
  then show ?case by (simp add: digits_val_def)
next
  case (snoc d ds)
  then have "digits_val ds < 10 ^ length ds" "d - 48 < 10" by (auto simp: is_digit_def)
  then show ?case by (simp add: digits_val_def)
qed

lemma parse_nat_weight: "parse_nat s = Some (n, r) \<Longrightarrow> length (nat_text n) + length r \<le> length s"
proof -
  let ?ds = "takeWhile is_digit s"
  assume "parse_nat s = Some (n, r)"
  then have h: "?ds \<noteq> []" "n = digits_val ?ds" "r = dropWhile is_digit s"
    by (auto simp: parse_nat_def Let_def split: if_splits)
  have "length (nat_text n) \<le> length ?ds"
    using h digits_val_less [of ?ds] by (intro length_nat_text) (auto dest: set_takeWhileD)
  moreover have "length s = length ?ds + length r"
    using h(3) by (metis length_append takeWhile_dropWhile_id)
  ultimately show ?thesis by simp
qed

lemma parse_num_weight: "parse_num s = Some (v, r) \<Longrightarrow> jweight v + length r \<le> length s \<and> length r < length s"
proof -
  assume p: "parse_num s = Some (v, r)"
  then obtain c s' where s: "s = c # s'" by (cases s) (auto simp: parse_num_def)
  have pos: "1 \<le> length (nat_text n)" for n by (cases "nat_text n") simp_all
  show ?thesis
  proof (cases "c = 45")
    case True
    with p s obtain n where "parse_nat s' = Some (n, r)" "v = JNum (- int n)"
      by (auto simp: parse_num_def)
    with parse_nat_weight [of s' n r] s show ?thesis by (auto simp: int_text_def)
  next
    case False
    with p s obtain n where "parse_nat s = Some (n, r)" "v = JNum (int n)"
      by (auto simp: parse_num_def)
    with parse_nat_weight [of s n r] pos [of n] show ?thesis
      by (simp add: int_text_def del: length_0_conv)
  qed
qed

section \<open>Values\<close>

lemma length_skip_ws: "length (skip_ws s) \<le> length s"
  by (rule length_dropWhile_le)

lemma skip_ws_Cons: "skip_ws s = c # r \<Longrightarrow> length r < length s"
  using length_skip_ws [of s] by simp

lemma parse_word_weight:
  "parse_word w v s = Some (u, r) \<Longrightarrow> u = v \<and> length w + length r = length s"
  by (auto simp: parse_word_def split: if_splits dest: arg_cong [of _ _ length])

abbreviation members_weight :: "(jstext \<times> json) list \<Rightarrow> nat" where
  "members_weight acc \<equiv> (\<Sum>(k, v) \<leftarrow> acc. jweight v + 1)"

lemma update_weight: "members_weight (AList.update k v acc) \<le> members_weight acc + jweight v + 1"
  by (induction acc) auto

text \<open>What a parser's result weighs, with what is left of the input.\<close>

definition fits :: "nat \<Rightarrow> jstext \<Rightarrow> json \<times> jstext \<Rightarrow> bool" where
  "fits base s p \<longleftrightarrow> jweight (fst p) + length (snd p) \<le> base + length s \<and> length (snd p) < length s"

lemma fits_parse:
  "parse_value f s = Some p \<Longrightarrow> fits 0 s p"
  "parse_elems f vs s = Some p \<Longrightarrow> fits (\<Sum>v \<leftarrow> vs. jweight v + 1) s p"
  "parse_members f acc s = Some p \<Longrightarrow> fits (members_weight acc) s p"
proof (induction f s and f vs s and f acc s arbitrary: p and p and p
    rule: parse_value_parse_elems_parse_members.induct)
  case (2 f s)
  then obtain c r where c: "skip_ws s = c # r" by (auto split: list.splits)
  note lr = skip_ws_Cons [OF c]
  have pw: "parse_word w v (c # r) = Some p \<Longrightarrow> jweight v = length w \<Longrightarrow> w \<noteq> [] \<Longrightarrow> fits 0 s p" for w v
    using parse_word_weight [of w v "c # r" "fst p" "snd p"] lr by (cases w) (auto simp: fits_def)
  consider (obj) "c = 123" | (arr) "c = 91" | (str) "c = 34" | (n) "c = 110" | (t) "c = 116"
    | (f) "c = 102" | (num) "c \<notin> {123, 91, 34, 110, 116, 102}" by blast
  then show ?case
  proof cases
    case obj
    then obtain d r' where d: "skip_ws r = d # r'" using "2.prems" c by (auto split: list.splits)
    show ?thesis
    proof (cases "d = 125")
      case True
      with obj d "2.prems" c have "p = (JObj [], r')" by simp
      with lr skip_ws_Cons [OF d] show ?thesis by (simp add: fits_def)
    next
      case False
      with obj d "2.prems" c have "parse_members f [] (d # r') = Some p" by simp
      with "2.IH"(1) [OF c obj d False] lr skip_ws_Cons [OF d] show ?thesis by (auto simp: fits_def)
    qed
  next
    case arr
    then obtain d r' where d: "skip_ws r = d # r'" using "2.prems" c by (auto split: list.splits)
    show ?thesis
    proof (cases "d = 93")
      case True
      with arr d "2.prems" c have "p = (JArr [], r')" by simp
      with lr skip_ws_Cons [OF d] show ?thesis by (simp add: fits_def)
    next
      case False
      with arr d "2.prems" c have "parse_elems f [] (d # r') = Some p" by simp
      with "2.IH"(2) [OF c _ arr d False] arr lr skip_ws_Cons [OF d] show ?thesis by (auto simp: fits_def)
    qed
  next
    case str
    with "2.prems" c obtain t where "parse_string r = Some (t, snd p)" "fst p = JStr t" by auto
    with parse_string_weight [of r t "snd p"] lr show ?thesis by (auto simp: fits_def)
  next
    case num
    with "2.prems" c have "parse_num (c # r) = Some p" by simp
    with parse_num_weight [of "c # r" "fst p" "snd p"] lr show ?thesis by (auto simp: fits_def)
  qed (use "2.prems" c pw in auto)
next
  case (4 f acc s)
  then obtain v r where v: "parse_value f s = Some (v, r)" by (auto split: option.splits)
  with 4 obtain c r' where c: "skip_ws r = c # r'" by (auto split: list.splits)
  note w = "4.IH"(1) [OF v] skip_ws_Cons [OF c]
  show ?case
  proof (cases "c = 44")
    case True
    with 4 v c have "parse_elems f (acc @ [v]) r' = Some p" by simp
    with "4.IH"(2) [OF v refl c True] w show ?thesis by (auto simp: fits_def)
  next
    case False
    with 4 v c have "p = (JArr (acc @ [v]), r')" by (auto split: if_splits)
    with w show ?thesis by (auto simp: fits_def)
  qed
next
  case (6 f acc s)
  then obtain q s' where q: "skip_ws s = q # s'" "q = 34" by (auto split: list.splits if_splits)
  with 6 obtain k r where k: "parse_string s' = Some (k, r)" by (auto split: option.splits)
  with 6 q obtain c r' where c: "skip_ws r = c # r'" "c = 58" by (auto split: list.splits if_splits)
  with 6 q k obtain v t where v: "parse_value f r' = Some (v, t)" by (auto split: option.splits)
  with 6 q k c obtain e t' where e: "skip_ws t = e # t'" by (auto split: list.splits)
  note ws = skip_ws_Cons [OF q(1)] skip_ws_Cons [OF c(1)] skip_ws_Cons [OF e] parse_string_weight [OF k]
    update_weight [of k v acc]
  have q': "\<not> q \<noteq> 34" "\<not> c \<noteq> 58" using q c by simp_all
  note w = "6.IH"(1) [OF q(1) q'(1) k refl c(1) q'(2) v]
  show ?case
  proof (cases "e = 44")
    case True
    with 6 q k c v e have "parse_members f (AList.update k v acc) t' = Some p" by simp
    with "6.IH"(2) [OF q(1) q'(1) k refl c(1) q'(2) v refl e True] w ws show ?thesis by (auto simp: fits_def)
  next
    case False
    with 6 q k c v e have "p = (JObj (AList.update k v acc), t')" by (auto split: if_splits)
    with w ws show ?thesis by (auto simp: fits_def)
  qed
qed simp_all

lemma json_parse_weight: "json_parse s = Some v \<Longrightarrow> jweight v \<le> length s"
  using fits_parse(1) [of "2 * length s + 2" s]
  by (force simp: json_parse_def fits_def split: option.splits prod.splits if_splits)

subsection \<open>The fuel is enough\<close>

lemma value_consumes: "parse_value f s = Some (v, r) \<Longrightarrow> length r < length s"
  using fits_parse(1) by (fastforce simp: fits_def)

lemma fuel_irrelevant:
  "2 * length s < f \<Longrightarrow> 2 * length s < g \<Longrightarrow> parse_value f s = parse_value g s"
  "2 * length s + 1 < f \<Longrightarrow> 2 * length s + 1 < g \<Longrightarrow> parse_elems f vs s = parse_elems g vs s"
  "2 * length s + 1 < f \<Longrightarrow> 2 * length s + 1 < g \<Longrightarrow> parse_members f acc s = parse_members g acc s"
proof (induction f s and f vs s and f acc s arbitrary: g and g and g
    rule: parse_value_parse_elems_parse_members.induct)
  case (2 f s)
  from "2.prems" obtain g' where g: "g = Suc g'" by (cases g) auto
  show ?case
  proof (cases "skip_ws s")
    case (Cons c r)
    note lr = skip_ws_Cons [OF Cons]
    have "parse_members f [] (d # r') = parse_members g' [] (d # r')"
      if "c = 123" "skip_ws r = d # r'" "d \<noteq> 125" for d r'
      by (rule "2.IH"(1) [OF Cons that])
         (use "2.prems" g lr skip_ws_Cons [OF that(2)] in simp_all)
    moreover have "parse_elems f [] (d # r') = parse_elems g' [] (d # r')"
      if "c = 91" "skip_ws r = d # r'" "d \<noteq> 93" for d r'
      by (rule "2.IH"(2) [OF Cons _ that])
         (use that(1) "2.prems" g lr skip_ws_Cons [OF that(2)] in simp_all)
    ultimately show ?thesis using g Cons by (cases "skip_ws r") (auto simp del: dropWhile_eq_Nil_conv)
  qed (simp add: g del: dropWhile_eq_Nil_conv)
next
  case (4 f acc s)
  from "4.prems" obtain g' where g: "g = Suc g'" by (cases g) auto
  have v: "parse_value f s = parse_value g' s"
    by (rule "4.IH"(1)) (use "4.prems" g in linarith)+
  have "parse_elems f (acc @ [v]) r' = parse_elems g' (acc @ [v]) r'"
    if "parse_value f s = Some (v, r)" "skip_ws r = 44 # r'" for v r r'
    by (rule "4.IH"(2) [OF that(1) refl that(2) refl])
       (use "4.prems" g value_consumes [OF that(1)] skip_ws_Cons [OF that(2)] in simp_all)
  then show ?case unfolding g parse_elems.simps v [symmetric]
    by (auto split: option.split list.split simp del: dropWhile_eq_Nil_conv dropWhile_eq_Cons_conv)
next
  case (6 f acc s)
  from "6.prems" obtain g' where g: "g = Suc g'" by (cases g) auto
  have v: "parse_value f r' = parse_value g' r'"
    if "skip_ws s = 34 # s'" "parse_string s' = Some (k, r)" "skip_ws r = 58 # r'" for s' k r r'
    by (rule "6.IH"(1) [OF that(1) _ that(2) refl that(3)])
       (use "6.prems" g skip_ws_Cons [OF that(1)] skip_ws_Cons [OF that(3)] parse_string_weight [OF that(2)]
        in simp_all)
  have m: "parse_members f (AList.update k u acc) t' = parse_members g' (AList.update k u acc) t'"
    if "skip_ws s = 34 # s'" "parse_string s' = Some (k, r)" "skip_ws r = 58 # r'"
      "parse_value f r' = Some (u, t)" "skip_ws t = 44 # t'" for s' k r r' u t t'
    by (rule "6.IH"(2) [OF that(1) _ that(2) refl that(3) _ that(4) refl that(5) refl])
       (use "6.prems" g skip_ws_Cons [OF that(1)] skip_ws_Cons [OF that(3)] parse_string_weight [OF that(2)]
          value_consumes [OF that(4)] skip_ws_Cons [OF that(5)] in simp_all)
  show ?case unfolding g parse_members.simps
    by (auto split: option.split list.split simp: v m simp del: dropWhile_eq_Nil_conv dropWhile_eq_Cons_conv)
qed auto

text \<open>Any more fuel than \<open>json_parse\<close> gives itself leads to the same result.\<close>

lemma json_fuel_enough:
  "2 * length s + 2 \<le> f \<Longrightarrow> parse_value f s = parse_value (2 * length s + 2) s"
  by (rule fuel_irrelevant(1)) simp_all

text \<open>A property of an object weighs less than the object.\<close>

lemma jget_weight: "jget v k = Some u \<Longrightarrow> jweight u < jweight v"
proof (cases v)
  case (JObj kvs)
  assume "jget v k = Some u"
  with JObj have "(k, u) \<in> set kvs" by (simp add: map_of_SomeD)
  then have "jweight u + 1 \<le> members_weight kvs"
    by (induction kvs) (auto intro: le_add2 trans_le_add2)
  with JObj show ?thesis by simp
qed auto

text \<open>The text of a value without objects is no longer than its weight.\<close>

lemma length_join_with:
  "length (join_with [44] xs) \<le> (\<Sum>x \<leftarrow> (xs :: jstext list). length x + 1)"
  by (induction "[44 :: nat]" xs rule: join_with.induct) auto

lemma set_join_with_sub: "x \<in> set xs \<Longrightarrow> set x \<subseteq> set (join_with sep xs)"
  by (induction sep xs rule: join_with.induct) auto

lemma length_js_to_string: "91 \<notin> set (js_to_string v) \<Longrightarrow> length (js_to_string v) \<le> jweight v"
proof (induction v)
  case (JArr vs)
  let ?t = "\<lambda>v. if v = JNull then [] else js_to_string v"
  have "length (?t v) \<le> jweight v" if "v \<in> set vs" for v
    using JArr that set_join_with_sub [of "?t v" "map ?t vs" "[44]"] by (cases "v = JNull") auto
  then have "(\<Sum>v \<leftarrow> vs. length (?t v) + 1) \<le> (\<Sum>v \<leftarrow> vs. jweight v + 1)"
    by (intro sum_list_mono) auto
  moreover have "length (js_to_string (JArr vs)) \<le> (\<Sum>v \<leftarrow> vs. length (?t v) + 1)"
    using length_join_with [of "map ?t vs"] by (simp add: comp_def)
  ultimately show ?case by simp
qed (auto simp: asc_def)

end
