(* ===== verification/Link.thy ===== *)
theory Link
  imports Base64 Json_Bounds
begin

text \<open>
  The class \<open>Link\<close> of \<open>web/static/remote-ui.js\<close>: one remote session of the browser. It multiplexes
  calls over a WebRTC data channel or, as a fallback, over the server's WebSocket; it reassembles
  chunked messages, times calls out and settles every call when the session ends.

  The state is the object's fields, with what the browser keeps for it: the ready states of the
  two channels, which timers are armed, which calls wait for \<open>ready\<close>, and the trace of what the
  object did to the outside (\<open>lk_out\<close>). Each callback of the code is one event of \<open>link_step\<close>;
  an \<open>await\<close> splits a callback into the event that starts it and the event that resumes it. The
  payload of a request (\<open>...fields\<close>) is opaque to the link: the type variable \<open>'f\<close>.
\<close>

section \<open>Data\<close>

text \<open>The errors, by the messages of the source.\<close>

datatype link_err =
    SessionClosed | OpTimeout | TooLarge | WsClosedErr | WsFailedErr
  | RemoteError jstext | SyntaxErr | TypeErr | RangeErr | InvalidCharacter | SendFailed | WebRtcErr

datatype link_status = P2P | P2PStats jstext int | RelayStatus | ErrStatus link_err

datatype ready = RPending | ROk | RErr link_err

datatype ws_state = WsConnecting | WsOpen | WsClosed

text \<open>
  A key of \<open>parts\<close>: a primitive value compares by value (numbers are doubles); an object or an
  array compares by identity, which no second message has.
\<close>

datatype ckey = KUndef | KNull | KBool bool | KNum int | KStr jstext | KRef nat

record part =
  pt_buffers :: "byte list list"
  pt_size :: nat

text \<open>What a call resolves to: \<open>m.result\<close>, or the error it is rejected with.\<close>

type_synonym outcome = "link_err + json option"

datatype 'f link_out =
    OStatus link_status
  | ODcSend nat string 'f | OWsRelay nat string 'f | OWsOffer | OWsPing
  | OSetRemote "json option"
  | OEvent json
  | OSettle nat outcome
  | OWsClose | OPcClose

record 'f link =
  lk_seq :: nat
  lk_pending :: "(nat \<times> nat) list"
  lk_timers :: "nat list"
  lk_parts :: "(ckey \<times> part) list"
  lk_closed :: bool
  lk_relay :: bool
  lk_offered :: bool
  lk_ready :: ready
  lk_ws :: ws_state
  lk_dc_open :: bool
  lk_offering :: bool
  lk_fallback :: bool
  lk_keepalive :: bool
  lk_stats :: bool
  lk_stats_wait :: nat
  lk_calls :: nat
  lk_waiting :: "(nat \<times> string \<times> 'f) list"
  lk_serial :: nat
  lk_out :: "'f link_out list"

text \<open>
  \<open>lk_pending\<close> maps a request's id to the call it belongs to; calls are numbered by \<open>lk_calls\<close> in
  the order they are made. \<open>lk_timers\<close> holds the ids whose 30 s timer is armed.
\<close>

definition link_init :: "'f link" where
  "link_init =
     \<lparr>lk_seq = 0, lk_pending = [], lk_timers = [], lk_parts = [], lk_closed = False, lk_relay = False,
      lk_offered = False, lk_ready = RPending, lk_ws = WsConnecting, lk_dc_open = False,
      lk_offering = False, lk_fallback = False, lk_keepalive = True, lk_stats = True,
      lk_stats_wait = 0, lk_calls = 0, lk_waiting = [], lk_serial = 0, lk_out = []\<rparr>"

text \<open>One statistics report, with the protocol of its local candidate when that has one.\<close>

record stats_report =
  sr_type :: string
  sr_state :: string
  sr_nominated :: bool
  sr_protocol :: "jstext option"
  sr_rtt :: "rat option"

datatype 'f link_event =
    EWsOpen | EOffer "link_err option" | EWsText jstext | EAnswer "link_err option"
  | EWsClose | EWsError
  | EDcOpen | EDcClosed | EDcText jstext
  | EConnState string
  | EFallback | ETimer nat | EKeepalive | EStats | EStatsReport "stats_report list"
  | ECall string 'f | EResume bool | EClose

section \<open>Helpers\<close>

definition emit :: "'f link_out list \<Rightarrow> 'f link \<Rightarrow> 'f link" where
  "emit os s = s\<lparr>lk_out := lk_out s @ os\<rparr>"

text \<open>A promise settles once.\<close>

definition settle_ready :: "ready \<Rightarrow> 'f link \<Rightarrow> 'f link" where
  "settle_ready r s = (if lk_ready s = RPending then s\<lparr>lk_ready := r\<rparr> else s)"

text \<open>\<open>Error(x).message\<close>\<close>

definition err_text :: "json option \<Rightarrow> jstext" where
  "err_text v = (case v of None \<Rightarrow> [] | Some u \<Rightarrow> js_to_string u)"

text \<open>The argument of \<open>atob\<close>: any value is coerced to text.\<close>

definition data_text :: "json option \<Rightarrow> jstext" where
  "data_text v = (case v of None \<Rightarrow> asc ''undefined'' | Some u \<Rightarrow> js_to_string u)"

definition is_type :: "json \<Rightarrow> string \<Rightarrow> bool" where
  "is_type m t \<longleftrightarrow> jget m (asc ''type'') = Some (JStr (asc t))"

section \<open>close, fail, useRelay\<close>

definition lk_close :: "link_err \<Rightarrow> 'f link \<Rightarrow> 'f link" where
  "lk_close e s =
     (if lk_closed s then s
      else s\<lparr>lk_closed := True, lk_fallback := False, lk_keepalive := False, lk_stats := False,
             lk_timers := filter (\<lambda>i. i \<notin> fst ` set (lk_pending s)) (lk_timers s),
             lk_out := lk_out s @ map (\<lambda>(i, c). OSettle c (Inl e)) (lk_pending s) @ [OWsClose, OPcClose],
             lk_pending := [], lk_parts := [], lk_ws := WsClosed, lk_dc_open := False\<rparr>)"

definition lk_fail :: "link_err \<Rightarrow> 'f link \<Rightarrow> 'f link" where
  "lk_fail e s =
     (if lk_closed s then s else lk_close e (settle_ready (RErr e) (emit [OStatus (ErrStatus e)] s)))"

definition use_relay :: "'f link \<Rightarrow> 'f link" where
  "use_relay s =
     (if lk_closed s \<or> \<not> lk_offered s then s
      else settle_ready ROk (emit [OStatus RelayStatus] (s\<lparr>lk_relay := True\<rparr>)))"

section \<open>receive\<close>

definition part_limit :: nat where
  "part_limit = 4 * 1024 * 1024"

definition ckey_of :: "nat \<Rightarrow> json option \<Rightarrow> ckey" where
  "ckey_of serial c =
     (case c of None \<Rightarrow> KUndef | Some JNull \<Rightarrow> KNull | Some (JBool b) \<Rightarrow> KBool b
      | Some (JNum n) \<Rightarrow> KNum (js_double n) | Some (JStr t) \<Rightarrow> KStr t
      | Some (JArr _) \<Rightarrow> KRef serial | Some (JObj _) \<Rightarrow> KRef serial)"

text \<open>
  \<open>const all = new Uint8Array(part.size)\<close> and the loop of \<open>all.set(b, offset)\<close>; \<open>set\<close> throws a
  RangeError (\<open>None\<close>) past the end.
\<close>

fun set_all :: "byte list \<Rightarrow> nat \<Rightarrow> byte list list \<Rightarrow> byte list option" where
  "set_all all offset [] = Some all"
| "set_all all offset (b # bs) =
     (if length all < offset + length b then None
      else set_all (take offset all @ b @ drop (offset + length b) all) (offset + length b) bs)"

definition assemble :: "part \<Rightarrow> byte list option" where
  "assemble p = set_all (replicate (pt_size p) 0) 0 (pt_buffers p)"

datatype chunk_result = CThrow link_err | CReturn | CWhole "byte list"

definition accept_chunk :: "'f link \<Rightarrow> json \<Rightarrow> 'f link \<times> chunk_result" where
  "accept_chunk s m =
     (let key = ckey_of (lk_serial s) (jget m (asc ''chunk''));
          s0 = s\<lparr>lk_serial := Suc (lk_serial s)\<rparr>;
          part = (case map_of (lk_parts s) key of Some p \<Rightarrow> p | None \<Rightarrow> \<lparr>pt_buffers = [], pt_size = 0\<rparr>);
          s1 = s0\<lparr>lk_parts := AList.update key part (lk_parts s)\<rparr>
      in case decode (data_text (jget m (asc ''data''))) of
           None \<Rightarrow> (s1, CThrow InvalidCharacter)
         | Some b \<Rightarrow>
             let part1 = part\<lparr>pt_size := pt_size part + length b\<rparr>;
                 s2 = s1\<lparr>lk_parts := AList.update key part1 (lk_parts s1)\<rparr>
             in if part_limit < pt_size part1 \<or> 4 < length (lk_parts s2) then (lk_fail TooLarge s2, CReturn)
                else
                  let part2 = part1\<lparr>pt_buffers := pt_buffers part1 @ [b]\<rparr>;
                      s3 = s2\<lparr>lk_parts := AList.update key part2 (lk_parts s2)\<rparr>
                  in if js_truthy (jget m (asc ''last'')) then
                       let s4 = s3\<lparr>lk_parts := AList.delete key (lk_parts s3)\<rparr>
                       in (case assemble part2 of None \<Rightarrow> (s4, CThrow RangeErr) | Some all \<Rightarrow> (s4, CWhole all))
                     else (s3, CReturn))"

definition pending_of :: "'f link \<Rightarrow> json option \<Rightarrow> (nat \<times> nat) option" where
  "pending_of s v =
     (case v of
        Some (JNum n) \<Rightarrow>
          (if js_double n < 0 then None
           else map_option (\<lambda>c. (nat (js_double n), c)) (map_of (lk_pending s) (nat (js_double n))))
      | _ \<Rightarrow> None)"

definition accept_result :: "'f link \<Rightarrow> json \<Rightarrow> 'f link" where
  "accept_result s m =
     (case pending_of s (jget m (asc ''id'')) of
        None \<Rightarrow> s
      | Some (i, c) \<Rightarrow>
          emit [OSettle c (if js_truthy (jget m (asc ''ok'')) then Inr (jget m (asc ''result''))
                           else Inl (RemoteError (err_text (jget m (asc ''error'')))))]
            (s\<lparr>lk_timers := removeAll i (lk_timers s), lk_pending := AList.delete i (lk_pending s)\<rparr>))"

text \<open>What still can be read: the bytes held in \<open>parts\<close> and those of the message.\<close>

definition parts_size :: "'f link \<Rightarrow> nat" where
  "parts_size s = (\<Sum>(k, p) \<leftarrow> lk_parts s. pt_size p)"

definition data_length :: "json \<Rightarrow> nat" where
  "data_length m = (case decode (data_text (jget m (asc ''data''))) of None \<Rightarrow> 0 | Some b \<Rightarrow> length b)"

subsection \<open>Chunks nest only finitely\<close>

text \<open>
  A reassembled message may itself be a chunk. It always carries fewer bytes than its text has, so
  the bytes held plus the bytes of the message decrease: \<open>receive\<close> returns.
\<close>

lemma data_length_le: "data_length m \<le> (case jget m (asc ''data'') of None \<Rightarrow> 0 | Some d \<Rightarrow> jweight d)"
proof (cases "jget m (asc ''data'')")
  case None
  have "decode (asc ''undefined'') = None"
    by (simp add: decode_eq js_eval html_space_def b64_unpad_def)
  with None show ?thesis by (simp add: data_length_def data_text_def)
next
  case (Some d)
  show ?thesis
  proof (cases "decode (js_to_string d)")
    case (Some b)
    have "91 \<notin> set (js_to_string d)"
      using decode_alphabet [OF Some, of 91] by (auto simp: html_space_def b64_val_def)
    then have "length b \<le> jweight d"
      using length_js_to_string length_decode [OF Some] le_trans by blast
    with Some \<open>jget m _ = Some d\<close> show ?thesis by (simp add: data_length_def data_text_def)
  qed (use Some in \<open>simp add: data_length_def data_text_def\<close>)
qed

lemma data_length_parse:
  assumes "json_parse t = Some m"
  shows "data_length m < length t"
proof -
  have "t \<noteq> []" using assms by (auto simp: json_parse_def)
  show ?thesis
  proof (cases "jget m (asc ''data'')")
    case None
    with data_length_le [of m] \<open>t \<noteq> []\<close> show ?thesis by simp
  next
    case (Some d)
    with data_length_le [of m] jget_weight [OF Some] json_parse_weight [OF assms] show ?thesis by simp
  qed
qed

lemma length_set_all: "set_all all off bs = Some r \<Longrightarrow> length r = length all"
  by (induction all off bs rule: set_all.induct) (auto split: if_splits)

lemma length_assemble: "assemble p = Some all \<Longrightarrow> length all = pt_size p"
  by (auto simp: assemble_def dest: length_set_all)

abbreviation alist_size :: "('k \<times> part) list \<Rightarrow> nat" where
  "alist_size ps \<equiv> (\<Sum>(k, p) \<leftarrow> ps. pt_size p)"

lemma delete_size:
  "alist_size (AList.delete k ps) + (case map_of ps k of None \<Rightarrow> 0 | Some p \<Rightarrow> pt_size p) \<le> alist_size ps"
  by (induction ps) (auto simp: AList.delete_eq split: option.splits)

lemma delete_update [simp]: "AList.delete k (AList.update k v al) = AList.delete k al"
  by (induction al) (auto simp: AList.delete_eq)

lemma accept_chunk_whole:
  assumes "accept_chunk s m = (s', CWhole all)"
  shows "parts_size s' + length all \<le> parts_size s + data_length m"
  using assms delete_size [of "ckey_of (lk_serial s) (jget m (asc ''chunk''))" "lk_parts s"]
  by (auto simp: accept_chunk_def Let_def parts_size_def data_length_def
      split: option.splits if_splits dest!: length_assemble)

lemma accept_chunk_decreases:
  assumes "accept_chunk s m = (s', CWhole all)" "json_parse (text_decode all) = Some v"
  shows "parts_size s' + data_length v < parts_size s + data_length m"
  using accept_chunk_whole [OF assms(1)] data_length_parse [OF assms(2)] length_text_decode [of all] by simp

subsection \<open>The method\<close>

text \<open>
  \<open>cb\<close> is the owner's event callback: \<open>None\<close> when it returns, \<open>Some e\<close> when it throws. The result
  is the new state and the error \<open>receive\<close> throws, if any. Reading a property of \<open>null\<close> throws.
\<close>

function receive :: "(json \<Rightarrow> link_err option) \<Rightarrow> 'f link \<Rightarrow> json \<Rightarrow> 'f link \<times> link_err option" where
  "receive cb s m =
     (if m = JNull then (s, Some TypeErr)
      else if is_type m ''chunk'' then
        (case accept_chunk s m of
           (s', CThrow e) \<Rightarrow> (s', Some e)
         | (s', CReturn) \<Rightarrow> (s', None)
         | (s', CWhole all) \<Rightarrow>
             (case json_parse (text_decode all) of
                None \<Rightarrow> (s', Some SyntaxErr)
              | Some v \<Rightarrow> receive cb s' v))
      else if is_type m ''result'' then (accept_result s m, None)
      else (emit [OEvent m] s, cb m))"
  by pat_completeness auto
termination
  by (relation "measure (\<lambda>(cb, s, m). parts_size s + data_length m)")
     (auto dest!: accept_chunk_decreases [OF sym])

declare receive.simps [simp del]

section \<open>call\<close>

text \<open>
  \<open>call\<close> first awaits \<open>ready\<close>: \<open>lk_call\<close> queues it, \<open>lk_resume\<close> is the continuation of the first
  call in the queue. \<open>dcok\<close> says whether \<open>dc.send\<close> returns or throws.
\<close>

definition lk_call :: "string \<Rightarrow> 'f \<Rightarrow> 'f link \<Rightarrow> 'f link" where
  "lk_call op f s = s\<lparr>lk_waiting := lk_waiting s @ [(lk_calls s, op, f)], lk_calls := Suc (lk_calls s)\<rparr>"

definition call_failed :: "nat \<Rightarrow> nat \<Rightarrow> 'f link \<Rightarrow> 'f link" where
  "call_failed i c s =
     emit [OSettle c (Inl SendFailed)]
       (s\<lparr>lk_timers := removeAll i (lk_timers s), lk_pending := AList.delete i (lk_pending s)\<rparr>)"

definition call_body :: "bool \<Rightarrow> 'f link \<Rightarrow> nat \<Rightarrow> string \<Rightarrow> 'f \<Rightarrow> 'f link" where
  "call_body dcok s c op f =
     (if lk_closed s then emit [OSettle c (Inl SessionClosed)] s
      else
        let i = Suc (lk_seq s);
            s1 = s\<lparr>lk_seq := i, lk_timers := lk_timers s @ [i], lk_pending := AList.update i c (lk_pending s)\<rparr>
        in if \<not> lk_relay s1 \<and> lk_dc_open s1 then
             (if dcok then emit [ODcSend i op f] s1 else call_failed i c s1)
           else
             let s2 = use_relay s1
             in case lk_ws s2 of
                  WsConnecting \<Rightarrow> call_failed i c s2
                | WsOpen \<Rightarrow> emit [OWsRelay i op f] s2
                | WsClosed \<Rightarrow> s2)"

definition lk_resume :: "bool \<Rightarrow> 'f link \<Rightarrow> 'f link" where
  "lk_resume dcok s =
     (case lk_waiting s of
        [] \<Rightarrow> s
      | (c, op, f) # w \<Rightarrow>
          (case lk_ready s of
             RPending \<Rightarrow> s
           | RErr e \<Rightarrow> emit [OSettle c (Inl e)] (s\<lparr>lk_waiting := w\<rparr>)
           | ROk \<Rightarrow> call_body dcok (s\<lparr>lk_waiting := w\<rparr>) c op f))"

definition call_timeout :: "nat \<Rightarrow> 'f link \<Rightarrow> 'f link" where
  "call_timeout i s =
     (if i \<notin> set (lk_timers s) then s
      else
        let s1 = s\<lparr>lk_timers := removeAll i (lk_timers s), lk_pending := AList.delete i (lk_pending s)\<rparr>
        in case map_of (lk_pending s) i of
             None \<Rightarrow> s1
           | Some c \<Rightarrow> emit [OSettle c (Inl OpTimeout)] s1)"

section \<open>The callbacks of the constructor\<close>

text \<open>
  What the browser delivers follows its own states: a socket opens once, no text arrives on a
  socket or a channel that is not open, and a data channel does not open after \<open>pc.close()\<close>.
\<close>

definition on_ws_open :: "'f link \<Rightarrow> 'f link" where
  "on_ws_open s = (if lk_ws s = WsConnecting then s\<lparr>lk_ws := WsOpen, lk_offering := True\<rparr> else s)"

definition on_offer :: "link_err option \<Rightarrow> 'f link \<Rightarrow> 'f link" where
  "on_offer r s =
     (if \<not> lk_offering s then s
      else
        let s1 = s\<lparr>lk_offering := False\<rparr>
        in case r of
             Some e \<Rightarrow> lk_fail e s1
           | None \<Rightarrow>
               if lk_closed s1 then s1
               else emit [OWsOffer] (s1\<lparr>lk_offered := True, lk_fallback := True\<rparr>))"

definition on_ws_text :: "(json \<Rightarrow> link_err option) \<Rightarrow> jstext \<Rightarrow> 'f link \<Rightarrow> 'f link" where
  "on_ws_text cb t s =
     (if lk_ws s \<noteq> WsOpen then s
      else
        case json_parse t of
          None \<Rightarrow> lk_fail SyntaxErr s
        | Some m \<Rightarrow>
            if m = JNull then lk_fail TypeErr s
            else if is_type m ''answer'' then
              (if lk_closed s then s else emit [OSetRemote (jget m (asc ''data''))] s)
            else if is_type m ''relay'' then
              (case jget m (asc ''data'') of
                 None \<Rightarrow> lk_fail TypeErr s
               | Some d \<Rightarrow>
                   (case receive cb s d of
                      (s', None) \<Rightarrow> s'
                    | (s', Some e) \<Rightarrow> lk_fail e s'))
            else if is_type m ''error'' then lk_fail (RemoteError (err_text (jget m (asc ''data'')))) s
            else s)"

definition on_dc_open :: "'f link \<Rightarrow> 'f link" where
  "on_dc_open s =
     (if lk_closed s then s
      else if lk_relay s then s\<lparr>lk_dc_open := True\<rparr>
      else settle_ready ROk (emit [OStatus P2P] (s\<lparr>lk_dc_open := True\<rparr>)))"

definition on_dc_text :: "(json \<Rightarrow> link_err option) \<Rightarrow> jstext \<Rightarrow> 'f link \<Rightarrow> 'f link" where
  "on_dc_text cb t s =
     (if \<not> lk_dc_open s then s
      else case json_parse t of None \<Rightarrow> s | Some m \<Rightarrow> fst (receive cb s m))"

definition on_fallback :: "'f link \<Rightarrow> 'f link" where
  "on_fallback s =
     (if \<not> lk_fallback s then s
      else let s1 = s\<lparr>lk_fallback := False\<rparr> in if lk_dc_open s1 then s1 else use_relay s1)"

definition on_keepalive :: "'f link \<Rightarrow> 'f link" where
  "on_keepalive s = (if lk_keepalive s \<and> lk_ws s = WsOpen then emit [OWsPing] s else s)"

definition on_stats :: "'f link \<Rightarrow> 'f link" where
  "on_stats s =
     (if \<not> lk_stats s \<or> lk_relay s \<or> lk_closed s then s
      else s\<lparr>lk_stats_wait := Suc (lk_stats_wait s)\<rparr>)"

definition stats_status :: "stats_report \<Rightarrow> link_status" where
  "stats_status r =
     P2PStats (case sr_protocol r of Some p \<Rightarrow> (if p = [] then asc ''UDP'' else p) | None \<Rightarrow> asc ''UDP'')
       \<lfloor>(case sr_rtt r of Some t \<Rightarrow> t | None \<Rightarrow> 0) * 1000 + 1 / 2\<rfloor>"

definition on_stats_report :: "stats_report list \<Rightarrow> 'f link \<Rightarrow> 'f link" where
  "on_stats_report rs s =
     (if lk_stats_wait s = 0 then s
      else emit (map (OStatus \<circ> stats_status)
                   (filter (\<lambda>r. sr_type r = ''candidate-pair'' \<and> sr_state r = ''succeeded'' \<and> sr_nominated r) rs))
             (s\<lparr>lk_stats_wait := lk_stats_wait s - 1\<rparr>))"

fun link_step :: "(json \<Rightarrow> link_err option) \<Rightarrow> 'f link \<Rightarrow> 'f link_event \<Rightarrow> 'f link" where
  "link_step cb s EWsOpen = on_ws_open s"
| "link_step cb s (EOffer r) = on_offer r s"
| "link_step cb s (EWsText t) = on_ws_text cb t s"
| "link_step cb s (EAnswer r) = (case r of None \<Rightarrow> s | Some e \<Rightarrow> lk_fail e s)"
| "link_step cb s EWsClose = lk_fail WsClosedErr (s\<lparr>lk_ws := WsClosed\<rparr>)"
| "link_step cb s EWsError = lk_fail WsFailedErr s"
| "link_step cb s EDcOpen = on_dc_open s"
| "link_step cb s EDcClosed = s\<lparr>lk_dc_open := False\<rparr>"
| "link_step cb s (EDcText t) = on_dc_text cb t s"
| "link_step cb s (EConnState st) = (if st \<in> {''failed'', ''disconnected''} then use_relay s else s)"
| "link_step cb s EFallback = on_fallback s"
| "link_step cb s (ETimer i) = call_timeout i s"
| "link_step cb s EKeepalive = on_keepalive s"
| "link_step cb s EStats = on_stats s"
| "link_step cb s (EStatsReport rs) = on_stats_report rs s"
| "link_step cb s (ECall op f) = lk_call op f s"
| "link_step cb s (EResume dcok) = lk_resume dcok s"
| "link_step cb s EClose = lk_close SessionClosed s"

abbreviation "link_run cb \<equiv> run (link_step cb)"

lemmas [step_defs] =
  emit_def settle_ready_def lk_close_def lk_fail_def use_relay_def accept_result_def lk_call_def
  call_failed_def call_body_def lk_resume_def call_timeout_def on_ws_open_def on_offer_def
  on_dc_open_def on_fallback_def on_keepalive_def on_stats_def on_stats_report_def

end
