(* ===== verification/Link_Inv.thy ===== *)
theory Link_Inv
  imports Link
begin

text \<open>
  The invariant of the class \<open>Link\<close>, kept by every callback, and what follows from it: no call is
  lost or settled twice, the memory for chunks is bounded, a closed session is inert, and a session
  that switched to the relay never goes back to the data channel.
\<close>

section \<open>The invariant\<close>

text \<open>The calls that have been settled, in order.\<close>

definition settled :: "'f link_out list \<Rightarrow> nat list" where
  "settled os = concat (map (\<lambda>x. case x of OSettle c r \<Rightarrow> [c] | _ \<Rightarrow> []) os)"

lemma settled_simps [simp]:
  "settled [] = []" "settled (os @ ps) = settled os @ settled ps"
  "settled (OSettle c r # os) = c # settled os"
  "settled (OStatus t # os) = settled os" "settled (ODcSend i op f # os) = settled os"
  "settled (OWsRelay i op f # os) = settled os" "settled (OWsOffer # os) = settled os"
  "settled (OWsPing # os) = settled os" "settled (OSetRemote v # os) = settled os"
  "settled (OEvent m # os) = settled os" "settled (OWsClose # os) = settled os"
  "settled (OPcClose # os) = settled os"
  by (simp_all add: settled_def)

lemma settled_rejects [simp]: "settled (map (\<lambda>(i, c). OSettle c r) ps) = map snd ps"
  by (induction ps) auto

lemma settled_status [simp]: "settled (map (OStatus \<circ> f) rs) = []" "settled (map (\<lambda>x. OStatus (f x)) rs) = []"
  by (induction rs) auto

text \<open>Every call is in one place: settled, pending, or waiting for the session to be ready.\<close>

definition calls_of :: "'f link \<Rightarrow> nat multiset" where
  "calls_of s = mset (settled (lk_out s)) + mset (map snd (lk_pending s)) + mset (map fst (lk_waiting s))"

definition part_ok :: "part \<Rightarrow> bool" where
  "part_ok p \<longleftrightarrow> pt_size p = length (concat (pt_buffers p)) \<and> pt_size p \<le> part_limit"

text \<open>At most four entries hold bytes; a chunk whose data does not decode leaves an empty entry.\<close>

definition parts_ok :: "(ckey \<times> part) list \<Rightarrow> bool" where
  "parts_ok ps \<longleftrightarrow>
     distinct (map fst ps) \<and> length (filter (\<lambda>(k, p). pt_size p \<noteq> 0) ps) \<le> 4
     \<and> (\<forall>(k, p) \<in> set ps. part_ok p)"

definition calls_ok :: "'f link \<Rightarrow> bool" where
  "calls_ok s \<longleftrightarrow>
     distinct (map fst (lk_pending s)) \<and> (\<forall>i \<in> fst ` set (lk_pending s). i \<le> lk_seq s)
     \<and> distinct (lk_timers s) \<and> set (lk_timers s) = fst ` set (lk_pending s)
     \<and> calls_of s = mset [0..<lk_calls s]"

definition shut_ok :: "'f link \<Rightarrow> bool" where
  "shut_ok s \<longleftrightarrow>
     (lk_closed s \<longrightarrow> lk_pending s = [] \<and> lk_parts s = [] \<and> \<not> lk_fallback s \<and> \<not> lk_keepalive s
        \<and> \<not> lk_stats s \<and> lk_ws s = WsClosed \<and> \<not> lk_dc_open s)
     \<and> (lk_relay s \<longrightarrow> lk_ready s \<noteq> RPending)"

definition link_inv :: "'f link \<Rightarrow> bool" where
  "link_inv s \<longleftrightarrow> calls_ok s \<and> shut_ok s \<and> parts_ok (lk_parts s)"

lemmas inv_defs = link_inv_def calls_ok_def shut_ok_def calls_of_def

lemma link_inv_init: "link_inv link_init"
  by (simp add: inv_defs parts_ok_def link_init_def)

section \<open>Callbacks other than receive\<close>

text \<open>Settling one pending call, in whatever way.\<close>

lemma calls_ok_settle:
  assumes "calls_ok s" "map_of (lk_pending s) i = Some c"
  shows "calls_ok (emit [OSettle c r]
    (s\<lparr>lk_timers := removeAll i (lk_timers s), lk_pending := AList.delete i (lk_pending s)\<rparr>))"
  using assms mset_snd_delete [of "lk_pending s" i c]
  by (auto simp: calls_ok_def calls_of_def emit_def fst_delete distinct_delete distinct_removeAll)

lemma link_inv_settle:
  assumes "link_inv s" "map_of (lk_pending s) i = Some c"
  shows "link_inv (emit [OSettle c r]
    (s\<lparr>lk_timers := removeAll i (lk_timers s), lk_pending := AList.delete i (lk_pending s)\<rparr>))"
proof -
  have "\<not> lk_closed s" using assms by (auto simp: link_inv_def shut_ok_def)
  with assms calls_ok_settle [of s i c r] show ?thesis
    by (auto simp: link_inv_def shut_ok_def emit_def)
qed

lemma link_inv_close: "link_inv s \<Longrightarrow> link_inv (lk_close e s)"
  by (auto simp: inv_defs lk_close_def parts_ok_def filter_empty_conv)

lemma link_inv_fail: "link_inv s \<Longrightarrow> link_inv (lk_fail e s)"
proof -
  assume "link_inv s"
  then have "link_inv (settle_ready (RErr e) (emit [OStatus (ErrStatus e)] s))"
    by (auto simp: inv_defs emit_def settle_ready_def)
  with \<open>link_inv s\<close> show ?thesis by (simp add: lk_fail_def link_inv_close)
qed

lemma link_inv_relay: "link_inv s \<Longrightarrow> link_inv (use_relay s)"
  by (auto simp: inv_defs use_relay_def emit_def settle_ready_def)

text \<open>A new request: a fresh id, its timer and its entry.\<close>

lemma link_inv_request:
  fixes s :: "'f link"
  assumes "link_inv s" "\<not> lk_closed s" "lk_waiting s = (c, op, f) # w"
  defines "i \<equiv> Suc (lk_seq s)"
  defines "s1 \<equiv> s\<lparr>lk_waiting := w, lk_seq := i, lk_timers := lk_timers s @ [i],
                  lk_pending := AList.update i c (lk_pending s)\<rparr>"
  shows "link_inv s1" "map_of (lk_pending s1) i = Some c" "lk_closed s1 = lk_closed s"
proof -
  have fresh: "i \<notin> fst ` set (lk_pending s)"
    using assms(1) by (auto simp: link_inv_def calls_ok_def i_def)
  then have u: "lk_pending s1 = lk_pending s @ [(i, c)]"
    by (simp add: s1_def update_fresh)
  show "link_inv s1"
    using assms(1-3) fresh unfolding inv_defs u
    by (auto simp: s1_def i_def)
  show "map_of (lk_pending s1) i = Some c" "lk_closed s1 = lk_closed s"
    by (simp_all add: s1_def update_conv)
qed

lemma link_inv_emit:
  "link_inv s \<Longrightarrow> settled os = [] \<Longrightarrow> link_inv (emit os s)"
  by (auto simp: inv_defs emit_def)

lemma link_inv_unqueue:
  "link_inv s \<Longrightarrow> lk_waiting s = (c, op, f) # w \<Longrightarrow> link_inv (emit [OSettle c r] (s\<lparr>lk_waiting := w\<rparr>))"
  by (auto simp: inv_defs emit_def)

lemma use_relay_frame [simp]:
  "lk_pending (use_relay s) = lk_pending s" "lk_timers (use_relay s) = lk_timers s"
  "lk_closed (use_relay s) = lk_closed s" "lk_waiting (use_relay s) = lk_waiting s"
  "lk_calls (use_relay s) = lk_calls s" "lk_ws (use_relay s) = lk_ws s"
  "lk_dc_open (use_relay s) = lk_dc_open s" "lk_parts (use_relay s) = lk_parts s"
  "lk_seq (use_relay s) = lk_seq s"
  by (simp_all add: use_relay_def emit_def settle_ready_def)

lemma link_inv_call_body:
  assumes "link_inv s" "lk_waiting s = (c, op, f) # w"
  shows "link_inv (call_body dcok (s\<lparr>lk_waiting := w\<rparr>) c op f)"
proof (cases "lk_closed s")
  case True
  with link_inv_unqueue [OF assms] show ?thesis by (simp add: call_body_def)
next
  case False
  define i where "i = Suc (lk_seq s)"
  define s1 where "s1 = s\<lparr>lk_waiting := w, lk_seq := i, lk_timers := lk_timers s @ [i],
                  lk_pending := AList.update i c (lk_pending s)\<rparr>"
  note r = link_inv_request [OF assms(1) False assms(2), folded i_def, folded s1_def]
  have "call_body dcok (s\<lparr>lk_waiting := w\<rparr>) c op f =
      (if \<not> lk_relay s1 \<and> lk_dc_open s1 then
             (if dcok then emit [ODcSend i op f] s1 else call_failed i c s1)
           else
             let s2 = use_relay s1
             in case lk_ws s2 of WsConnecting \<Rightarrow> call_failed i c s2
                | WsOpen \<Rightarrow> emit [OWsRelay i op f] s2 | WsClosed \<Rightarrow> s2)"
    using False by (simp add: call_body_def Let_def s1_def i_def split: ws_state.split)
  then show ?thesis
    using r link_inv_settle [OF r(1,2)] link_inv_settle [of "use_relay s1" i c] link_inv_relay [OF r(1)]
    by (auto simp: call_failed_def Let_def intro: link_inv_emit split: ws_state.split)
qed

lemma link_inv_resume: "link_inv s \<Longrightarrow> link_inv (lk_resume dcok s)"
  by (auto simp: lk_resume_def link_inv_call_body link_inv_unqueue split: list.split prod.split ready.split)

lemma link_inv_timeout: "link_inv s \<Longrightarrow> link_inv (call_timeout i s)"
proof (cases "i \<in> set (lk_timers s)")
  case True
  assume "link_inv s"
  moreover from this True obtain c where "map_of (lk_pending s) i = Some c"
    by (auto simp: link_inv_def calls_ok_def weak_map_of_SomeI)
  ultimately show ?thesis using True link_inv_settle [of s i c] by (simp add: call_timeout_def Let_def)
qed (simp add: call_timeout_def)

lemma link_inv_simple:
  assumes "link_inv s"
  shows "link_inv (lk_call op f s)" "link_inv (on_ws_open s)" "link_inv (on_offer r s)"
    "link_inv (on_dc_open s)" "link_inv (on_fallback s)" "link_inv (on_keepalive s)"
    "link_inv (on_stats s)" "link_inv (on_stats_report rs s)"
    "link_inv (s\<lparr>lk_ws := WsClosed\<rparr>)" "link_inv (s\<lparr>lk_dc_open := False\<rparr>)"
proof -
  show "link_inv (lk_call op f s)" using assms by (auto simp: inv_defs lk_call_def)
  show "link_inv (on_ws_open s)" using assms by (auto simp: inv_defs on_ws_open_def)
  have "link_inv (s\<lparr>lk_offering := False\<rparr>)" using assms by (simp add: inv_defs)
  then show "link_inv (on_offer r s)"
    using assms by (auto simp: on_offer_def Let_def link_inv_fail split: option.split)
      (auto simp: inv_defs emit_def)
  show "link_inv (on_dc_open s)" using assms by (auto simp: inv_defs on_dc_open_def emit_def settle_ready_def)
  have "link_inv (s\<lparr>lk_fallback := False\<rparr>)" using assms by (simp add: inv_defs)
  then show "link_inv (on_fallback s)" using assms by (auto simp: on_fallback_def Let_def link_inv_relay)
  show "link_inv (on_keepalive s)" using assms by (auto simp: on_keepalive_def intro: link_inv_emit)
  show "link_inv (on_stats s)" using assms by (auto simp: inv_defs on_stats_def)
  show "link_inv (on_stats_report rs s)" using assms by (auto simp: inv_defs on_stats_report_def emit_def)
  show "link_inv (s\<lparr>lk_ws := WsClosed\<rparr>)" "link_inv (s\<lparr>lk_dc_open := False\<rparr>)" using assms by (auto simp: inv_defs)
qed

section \<open>receive\<close>

lemma set_all_concat:
  "off + length (concat bs) \<le> length all \<Longrightarrow>
     set_all all off bs = Some (take off all @ concat bs @ drop (off + length (concat bs)) all)"
proof (induction bs arbitrary: all off)
  case (Cons b bs)
  let ?all = "take off all @ b @ drop (off + length b) all"
  have "set_all all off (b # bs) = set_all ?all (off + length b) bs"
    using Cons.prems by simp
  also have "\<dots> = Some (take (off + length b) ?all @ concat bs
      @ drop (off + length b + length (concat bs)) ?all)"
    using Cons.prems by (intro Cons.IH) simp
  also have "\<dots> = Some (take off all @ concat (b # bs) @ drop (off + length (concat (b # bs))) all)"
    using Cons.prems by (simp add: ac_simps)
  finally show ?case .
qed simp

lemma assemble_ok: "part_ok p \<Longrightarrow> assemble p = Some (concat (pt_buffers p))"
  by (simp add: assemble_def part_ok_def set_all_concat)

lemma in_update: "x \<in> set (AList.update k v al) \<Longrightarrow> x = (k, v) \<or> x \<in> set al"
  by (induction al) (auto split: if_splits)

lemma length_update: "length (AList.update k v al) = length (AList.update k w al)"
  by (induction al) auto

lemma length_filter_both: "length (filter (\<lambda>x. P x \<and> Q x) xs) \<le> length (filter Q xs)"
  by (induction xs) auto

lemma parts_ok_update:
  assumes "parts_ok ps" "part_ok p" "length (AList.update k p ps) \<le> 4"
  shows "parts_ok (AList.update k p ps)"
proof -
  have "length (filter P (AList.update k p ps)) \<le> 4" for P
    using assms(3) le_trans length_filter_le by blast
  moreover have "\<forall>(k, p) \<in> set (AList.update k p ps). part_ok p"
    using assms(1,2) by (auto simp: parts_ok_def dest!: in_update)
  ultimately show ?thesis using assms(1) by (simp add: parts_ok_def distinct_update)
qed

lemma parts_ok_new: "parts_ok ps \<Longrightarrow> map_of ps k = None \<Longrightarrow>
    parts_ok (AList.update k \<lparr>pt_buffers = [], pt_size = 0\<rparr> ps)"
  by (auto simp: parts_ok_def update_fresh map_of_eq_None_iff part_ok_def)

lemma parts_ok_delete: "parts_ok ps \<Longrightarrow> parts_ok (AList.delete k ps)"
  unfolding parts_ok_def AList.delete_eq
  by (auto simp: distinct_map_filter intro: order_trans [OF length_filter_both])

lemma parts_ok_lookup: "parts_ok ps \<Longrightarrow> map_of ps k = Some p \<Longrightarrow> part_ok p"
  by (auto simp: parts_ok_def dest: map_of_SomeD)

lemma link_inv_parts:
  "link_inv s \<Longrightarrow> \<not> lk_closed s \<Longrightarrow> parts_ok ps \<Longrightarrow> link_inv (s\<lparr>lk_serial := n, lk_parts := ps\<rparr>)"
  by (auto simp: inv_defs)

lemma link_inv_parts_fail:
  "link_inv s \<Longrightarrow> \<not> lk_closed s \<Longrightarrow> link_inv (lk_fail e (s\<lparr>lk_serial := n, lk_parts := ps\<rparr>))"
  by (auto simp: inv_defs lk_fail_def lk_close_def emit_def settle_ready_def parts_ok_def filter_empty_conv)

text \<open>The part a chunk belongs to, new or not, and the table after its look-up.\<close>

definition part_for :: "(ckey \<times> part) list \<Rightarrow> ckey \<Rightarrow> part" where
  "part_for ps k = (case map_of ps k of Some p \<Rightarrow> p | None \<Rightarrow> \<lparr>pt_buffers = [], pt_size = 0\<rparr>)"

lemma part_for_ok: "parts_ok ps \<Longrightarrow> part_ok (part_for ps k)"
  using parts_ok_lookup by (force simp: part_for_def part_ok_def [of "\<lparr>pt_buffers = [], pt_size = 0\<rparr>"] split: option.split)

lemma parts_ok_part_for: "parts_ok ps \<Longrightarrow> parts_ok (AList.update k (part_for ps k) ps)"
  by (auto simp: part_for_def parts_ok_new update_triv split: option.split)

lemma accept_chunk_inv:
  assumes "link_inv s" "\<not> lk_closed s" "accept_chunk s m = (s', r)"
  shows "link_inv s' \<and> (r = CReturn \<or> \<not> lk_closed s') \<and> r \<noteq> CThrow RangeErr"
proof -
  define k where "k = ckey_of (lk_serial s) (jget m (asc ''chunk''))"
  define p where "p = part_for (lk_parts s) k"
  have ok: "parts_ok (lk_parts s)" using assms(1) by (simp add: link_inv_def)
  have p: "part_ok p" "parts_ok (AList.update k p (lk_parts s))"
    using ok by (simp_all add: p_def part_for_ok parts_ok_part_for)
  have eq: "(case map_of (lk_parts s) k of None \<Rightarrow> \<lparr>pt_buffers = [], pt_size = 0\<rparr> | Some q \<Rightarrow> q) = p"
    by (simp add: p_def part_for_def)
  show ?thesis
  proof (cases "decode (data_text (jget m (asc ''data'')))")
    case None
    then show ?thesis
      using assms p(2) by (auto simp: accept_chunk_def Let_def eq simp flip: k_def intro!: link_inv_parts)
  next
    case (Some b)
    define p1 where "p1 = p\<lparr>pt_size := pt_size p + length b\<rparr>"
    define q where "q = p1\<lparr>pt_buffers := pt_buffers p1 @ [b]\<rparr>"
    have len: "length (AList.update k p1 (lk_parts s)) = length (AList.update k q (lk_parts s))"
      by (rule length_update)
    have sz: "pt_size q = pt_size p + length b" "pt_size p1 = pt_size p + length b"
      by (simp_all add: q_def p1_def)
    have unfold: "accept_chunk s m =
      (if part_limit < pt_size q \<or> 4 < length (AList.update k q (lk_parts s))
       then (lk_fail TooLarge (s\<lparr>lk_serial := Suc (lk_serial s), lk_parts := AList.update k p1 (lk_parts s)\<rparr>), CReturn)
       else if js_truthy (jget m (asc ''last''))
       then (s\<lparr>lk_serial := Suc (lk_serial s), lk_parts := AList.delete k (lk_parts s)\<rparr>,
             case assemble q of None \<Rightarrow> CThrow RangeErr | Some all \<Rightarrow> CWhole all)
       else (s\<lparr>lk_serial := Suc (lk_serial s), lk_parts := AList.update k q (lk_parts s)\<rparr>, CReturn))"
      using Some len sz
      by (simp add: accept_chunk_def Let_def eq flip: k_def p1_def q_def split: option.split)
    show ?thesis
    proof (cases "part_limit < pt_size q \<or> 4 < length (AList.update k q (lk_parts s))")
      case True
      with assms(3) link_inv_parts_fail [OF assms(1,2)] show ?thesis by (auto simp: unfold)
    next
      case False
      then have q: "part_ok q" "parts_ok (AList.update k q (lk_parts s))"
        using p(1) ok by (auto simp: part_ok_def q_def p1_def intro!: parts_ok_update)
      with False assms parts_ok_delete [OF ok, of k] assemble_ok [OF q(1)] show ?thesis
        by (auto simp: unfold intro!: link_inv_parts split: if_splits)
    qed
  qed
qed

lemma link_inv_result: "link_inv s \<Longrightarrow> link_inv (accept_result s m)"
  by (auto simp: accept_result_def pending_of_def split: option.splits json.splits if_splits intro: link_inv_settle)

lemma link_inv_receive:
  "link_inv s \<Longrightarrow> \<not> lk_closed s \<Longrightarrow> link_inv (fst (receive cb s m))"
proof (induction cb s m rule: receive.induct)
  case (1 cb s m)
  show ?case
  proof (cases "m \<noteq> JNull \<and> is_type m ''chunk''")
    case True
    obtain s' r where a: "accept_chunk s m = (s', r)" by (cases "accept_chunk s m")
    note i = accept_chunk_inv [OF "1.prems" a]
    show ?thesis
    proof (cases r)
      case (CWhole all)
      show ?thesis
      proof (cases "json_parse (text_decode all)")
        case (Some v)
        with "1.IH" True a i CWhole show ?thesis
          by (simp add: receive.simps [of cb s m])
      qed (use True a i CWhole in \<open>simp add: receive.simps [of cb s m]\<close>)
    qed (use True a i in \<open>simp_all add: receive.simps [of cb s m]\<close>)
  next
    case False
    with "1.prems" show ?thesis
      by (auto simp: receive.simps [of cb s m] link_inv_result link_inv_emit)
  qed
qed

section \<open>Every callback\<close>

lemma link_inv_ws_text: "link_inv s \<Longrightarrow> link_inv (on_ws_text cb t s)"
proof (cases "lk_ws s = WsOpen")
  case True
  assume i: "link_inv s"
  with True have "\<not> lk_closed s" by (auto simp: link_inv_def shut_ok_def)
  with i have "link_inv (fst (receive cb s d))" for d by (rule link_inv_receive)
  then have r: "receive cb s d = (s', r) \<Longrightarrow> link_inv s'" for d s' r by (metis fst_conv)
  show ?thesis
    using i r by (auto simp: on_ws_text_def link_inv_fail intro!: link_inv_emit split: option.split prod.split)
qed (simp add: on_ws_text_def)

lemma link_inv_dc_text: "link_inv s \<Longrightarrow> link_inv (on_dc_text cb t s)"
proof -
  assume i: "link_inv s"
  then have "lk_dc_open s \<Longrightarrow> \<not> lk_closed s" by (auto simp: link_inv_def shut_ok_def)
  with i show ?thesis by (auto simp: on_dc_text_def link_inv_receive split: option.split)
qed

lemma link_inv_step: "link_inv s \<Longrightarrow> link_inv (link_step cb s e)"
  by (cases e)
     (auto simp: link_inv_simple link_inv_ws_text link_inv_dc_text link_inv_fail link_inv_relay
        link_inv_timeout link_inv_resume link_inv_close split: option.split)

section \<open>A closed session is inert\<close>

text \<open>What the session hands to a channel, as opposed to its own callers.\<close>

fun is_frame :: "'f link_out \<Rightarrow> bool" where
  "is_frame (ODcSend i op f) = True"
| "is_frame (OWsRelay i op f) = True"
| "is_frame OWsOffer = True"
| "is_frame OWsPing = True"
| "is_frame _ = False"

definition sent_frames :: "'f link \<Rightarrow> 'f link_out list" where
  "sent_frames s = filter is_frame (lk_out s)"

lemma no_frames_status [simp]: "filter is_frame (map (OStatus \<circ> f) rs) = []"
  by (induction rs) auto

lemma closed_step:
  assumes "link_inv s" "lk_closed s"
  shows "lk_closed (link_step cb s e)" "sent_frames (link_step cb s e) = sent_frames s"
proof -
  have q: "lk_ws s = WsClosed" "\<not> lk_dc_open s" "\<not> lk_keepalive s" "\<not> lk_fallback s" "lk_timers s = []"
    using assms by (auto simp: link_inv_def shut_ok_def calls_ok_def)
  have f: "lk_fail x s' = s'" "lk_close x s' = s'" if "lk_closed s'" for x and s' :: "'a link"
    using that by (simp_all add: lk_fail_def lk_close_def)
  show "lk_closed (link_step cb s e)"
    using assms(2) q
    by (cases e) (auto simp: f step_defs on_ws_text_def on_dc_text_def Let_def
        split: option.split list.split ready.split)
  show "sent_frames (link_step cb s e) = sent_frames s"
    using assms(2) q
    by (cases e) (auto simp: f step_defs on_ws_text_def on_dc_text_def sent_frames_def Let_def
        split: option.split list.split ready.split)
qed

interpretation link_sys: quiet_system "link_step cb" link_inv lk_closed sent_frames for cb
  by unfold_locales (auto simp: link_inv_step closed_step)

lemma link_run_inv [intro, simp]: "link_inv (link_run cb link_init es)"
  by (rule link_sys.run_inv [OF link_inv_init])

end
