(* ===== verification/Framing.thy ===== *)
theory Framing
  imports Link_Inv
begin

text \<open>
  How the Go side sends (\<open>Session.send\<close> and \<open>Session.run\<close> of \<open>internal/remote/session.go\<close>) and that
  \<open>Link.receive\<close> of the browser undoes it: a message cut into chunks has the effect of the
  message, on either channel.
\<close>

section \<open>Session.send\<close>

text \<open>One chunk, with the keys in the order \<open>json.Marshal\<close> writes a map.\<close>

definition chunk_msg :: "int \<Rightarrow> byte list \<Rightarrow> bool \<Rightarrow> json" where
  "chunk_msg cid b is_last =
     JObj [(asc ''chunk'', JNum cid), (asc ''data'', JStr (b64_encode b)),
           (asc ''last'', JBool is_last), (asc ''type'', JStr (asc ''chunk''))]"

text \<open>The loop \<open>for pos := 0; pos < len(b); pos += 24000\<close>.\<close>

function go_chunks :: "int \<Rightarrow> byte list \<Rightarrow> nat \<Rightarrow> json list" where
  "go_chunks cid b pos =
     (if pos < length b then
        (let e = (if length b < pos + 24000 then length b else pos + 24000)
         in chunk_msg cid (take (e - pos) (drop pos b)) (e = length b) # go_chunks cid b (pos + 24000))
      else [])"
  by pat_completeness auto
termination
  by (relation "measure (\<lambda>(cid, b, pos). length b - pos)") auto

declare go_chunks.simps [simp del]

text \<open>What \<open>send\<close> hands to \<open>sendBytes\<close>, as values: \<open>cid\<close> is the clock's nanoseconds.\<close>

definition go_messages :: "int \<Rightarrow> json \<Rightarrow> json list" where
  "go_messages cid v = (if 40000 < length (go_marshal v) then go_chunks cid (go_marshal v) 0 else [v])"

definition go_send :: "int \<Rightarrow> json \<Rightarrow> byte list list" where
  "go_send cid v =
     (if 40000 < length (go_marshal v) then map go_marshal (go_chunks cid (go_marshal v) 0)
      else [go_marshal v])"

text \<open>The response \<open>Session.run\<close> builds: \<open>Inr\<close> a result, \<open>Inl\<close> an error text.\<close>

definition go_response :: "int \<Rightarrow> jstext + json \<Rightarrow> json" where
  "go_response i r =
     (case r of
        Inr v \<Rightarrow> JObj [(asc ''id'', JNum i), (asc ''ok'', JBool True), (asc ''result'', v),
                       (asc ''type'', JStr (asc ''result''))]
      | Inl e \<Rightarrow> JObj [(asc ''error'', JStr e), (asc ''id'', JNum i), (asc ''ok'', JBool False),
                       (asc ''result'', JNull), (asc ''type'', JStr (asc ''result''))])"

text \<open>
  The same value over the relay: the agent wraps it in a \<open>Message\<close> of type \<open>relay\<close>, which the
  server forwards to the browser's socket.
\<close>

definition relay_msg :: "jstext \<Rightarrow> json \<Rightarrow> json" where
  "relay_msg sid v =
     JObj [(asc ''sid'', JStr sid), (asc ''type'', JStr (asc ''relay'')), (asc ''data'', v)]"

section \<open>Frames stay small\<close>

lemma length_utf8_ascii: "\<forall>c \<in> set t. c < 0x80 \<Longrightarrow> length (utf8_encode t) = length t"
  by (induction t) (auto simp: utf8_encode_def utf8_char_def)

lemma length_b64_encode: "length (b64_encode b) = 4 * ((length b + 2) div 3)"
proof (induction b rule: b64_encode.induct)
  case (4 a b c r)
  then show ?case by simp presburger
qed auto

definition plain_ascii :: "nat \<Rightarrow> bool" where
  "plain_ascii c \<longleftrightarrow> c < 0x80 \<and> go_escape c = [c]"

lemma plain_b64: "\<forall>c \<in> set (b64_encode b). plain_ascii c"
proof -
  have "plain_ascii (b64_char n)" for n
    by (auto simp: plain_ascii_def b64_char_def go_escape_def)
  moreover have "plain_ascii 61" by (simp add: plain_ascii_def go_escape_def)
  ultimately show ?thesis by (induction b rule: b64_encode.induct) auto
qed

lemma go_string_plain:
  assumes "\<forall>c \<in> set s. plain_ascii c"
  shows "go_string s = 34 # s @ [34]"
proof -
  have "concat (map go_escape s) = s"
    using assms by (induction s) (auto simp: plain_ascii_def)
  then show ?thesis by (simp add: json_string_def)
qed

lemma length_int_text: "\<bar>n\<bar> < 10 ^ k \<Longrightarrow> 0 < k \<Longrightarrow> length (int_text n) \<le> Suc k"
proof -
  assume h: "\<bar>n\<bar> < 10 ^ k" "0 < k"
  then have "nat \<bar>n\<bar> < 10 ^ k" by (simp add: nat_less_iff)
  with h show ?thesis
    using length_nat_text [of "nat \<bar>n\<bar>" k] by (auto simp: int_text_def le_SucI)
qed

lemma int_text_ascii: "\<forall>c \<in> set (int_text n). c < 0x80"
  using nat_text_digits by (auto simp: int_text_def is_digit_def) (force simp: is_digit_def)+

lemma length_chunk_frame:
  assumes "length b \<le> 24000" "\<bar>cid\<bar> < 10 ^ 19"
  shows "length (go_marshal (chunk_msg cid b l)) \<le> 32100"
proof -
  have t: "go_json (chunk_msg cid b l) =
      asc ''{'' @ go_string (asc ''chunk'') @ asc '':'' @ int_text cid
      @ asc '','' @ go_string (asc ''data'') @ asc '':'' @ 34 # b64_encode b @ [34]
      @ asc '','' @ go_string (asc ''last'') @ asc '':'' @ (if l then asc ''true'' else asc ''false'')
      @ asc '','' @ go_string (asc ''type'') @ asc '':'' @ go_string (asc ''chunk'') @ asc ''}''"
    by (simp add: chunk_msg_def go_string_plain [OF plain_b64] js_eval)
  have k: "go_string (asc ''chunk'') = asc ''\"chunk\"''" "go_string (asc ''data'') = asc ''\"data\"''"
    "go_string (asc ''last'') = asc ''\"last\"''" "go_string (asc ''type'') = asc ''\"type\"''"
    by (simp_all add: json_string_def go_escape_def js_eval)
  have b: "\<forall>c \<in> set (b64_encode b). c < 0x80" using plain_b64 by (simp add: plain_ascii_def)
  have "\<forall>c \<in> set (go_json (chunk_msg cid b l)). c < 0x80"
    unfolding t k using b int_text_ascii [of cid] by (auto simp: js_eval)
  then have "length (go_marshal (chunk_msg cid b l)) = length (go_json (chunk_msg cid b l))"
    by (simp add: go_marshal_def length_utf8_ascii)
  moreover have "length (go_json (chunk_msg cid b l)) \<le> 32100"
  proof -
    have "(length b + 2) div 3 \<le> 8000" using assms(1) by presburger
    then show ?thesis
      unfolding t k using length_int_text [OF assms(2)] by (simp add: length_b64_encode)
  qed
  ultimately show ?thesis by simp
qed

lemma go_chunks_members:
  "m \<in> set (go_chunks cid b pos) \<Longrightarrow> \<exists>d l. m = chunk_msg cid d l \<and> length d \<le> 24000"
proof (induction cid b pos rule: go_chunks.induct)
  case (1 cid b pos)
  then show ?case
    by (subst (asm) (2) go_chunks.simps) (force simp: Let_def split: if_splits)
qed

section \<open>Chunks are put together again\<close>

lemma chunk_msg_simps [simp]:
  "chunk_msg cid b l \<noteq> JNull" "is_type (chunk_msg cid b l) ''chunk''"
  "jget (chunk_msg cid b l) (asc ''chunk'') = Some (JNum cid)"
  "jget (chunk_msg cid b l) (asc ''data'') = Some (JStr (b64_encode b))"
  "jget (chunk_msg cid b l) (asc ''last'') = Some (JBool l)"
  by (simp_all add: chunk_msg_def is_type_def)

lemma wf_chunk_msg: "wf_json (chunk_msg cid b l)"
proof -
  have "\<forall>c \<in> set (b64_encode b). scalar c"
    using plain_b64 [of b] by (auto simp: plain_ascii_def scalar_def)
  then show ?thesis by (auto simp: chunk_msg_def dest: asc_scalar)
qed

text \<open>A chunk for the part \<open>p\<close> of a table that stays within the limits.\<close>

lemma receive_chunk:
  fixes s :: "'f link"
  assumes "part_for (lk_parts s) (KNum (js_double cid)) = \<lparr>pt_buffers = bufs, pt_size = n\<rparr>"
    and "n + length b \<le> part_limit"
    and "length (AList.update (KNum (js_double cid)) \<lparr>pt_buffers = bufs, pt_size = n\<rparr> (lk_parts s)) \<le> 4"
  defines "k \<equiv> KNum (js_double cid)"
    and "q \<equiv> \<lparr>pt_buffers = bufs @ [b], pt_size = n + length b\<rparr>"
  shows "receive cb s (chunk_msg cid b False) =
      (s\<lparr>lk_serial := Suc (lk_serial s), lk_parts := AList.update k q (lk_parts s)\<rparr>, None)"
    and "part_ok q \<Longrightarrow> json_parse (text_decode (concat (bufs @ [b]))) = Some v \<Longrightarrow>
      receive cb s (chunk_msg cid b True) =
      receive cb (s\<lparr>lk_serial := Suc (lk_serial s), lk_parts := AList.delete k (lk_parts s)\<rparr>) v"
proof -
  have len: "\<not> 4 < length (AList.update k p (lk_parts s))" for p
    using assms(3) length_update [of k p "lk_parts s" "\<lparr>pt_buffers = bufs, pt_size = n\<rparr>"]
    by (simp add: k_def)
  have p: "(case map_of (lk_parts s) k of None \<Rightarrow> \<lparr>pt_buffers = [], pt_size = 0\<rparr> | Some q \<Rightarrow> q) =
      \<lparr>pt_buffers = bufs, pt_size = n\<rparr>"
    using assms(1) by (simp add: part_for_def k_def)
  have a: "accept_chunk s (chunk_msg cid b l) =
      (if l then (s\<lparr>lk_serial := Suc (lk_serial s), lk_parts := AList.delete k (lk_parts s)\<rparr>,
                  case assemble q of None \<Rightarrow> CThrow RangeErr | Some all \<Rightarrow> CWhole all)
       else (s\<lparr>lk_serial := Suc (lk_serial s), lk_parts := AList.update k q (lk_parts s)\<rparr>, CReturn))" for l
    using len assms(2) p
    by (simp add: accept_chunk_def Let_def data_text_def decode_b64_encode ckey_of_def q_def
        flip: k_def split: option.split)
  show "receive cb s (chunk_msg cid b False) =
      (s\<lparr>lk_serial := Suc (lk_serial s), lk_parts := AList.update k q (lk_parts s)\<rparr>, None)"
    by (simp add: receive.simps [of cb s] a)
  assume "part_ok q" "json_parse (text_decode (concat (bufs @ [b]))) = Some v"
  then show "receive cb s (chunk_msg cid b True) =
      receive cb (s\<lparr>lk_serial := Suc (lk_serial s), lk_parts := AList.delete k (lk_parts s)\<rparr>) v"
    by (simp add: receive.simps [of cb s "chunk_msg cid b True"] a assemble_ok) (simp add: q_def)
qed

subsection \<open>Delivery on either channel\<close>

datatype transport = ViaDc | ViaRelay jstext

fun deliver :: "transport \<Rightarrow> json \<Rightarrow> 'f link_event" where
  "deliver ViaDc v = EDcText (text_decode (go_marshal v))"
| "deliver (ViaRelay sid) v = EWsText (text_decode (go_marshal (relay_msg sid v)))"

fun open_for :: "transport \<Rightarrow> 'f link \<Rightarrow> bool" where
  "open_for ViaDc s = lk_dc_open s"
| "open_for (ViaRelay sid) s = (lk_ws s = WsOpen \<and> (\<forall>c \<in> set sid. scalar c))"

text \<open>What the two handlers do with an error \<open>receive\<close> throws.\<close>

fun finish :: "transport \<Rightarrow> 'f link \<times> link_err option \<Rightarrow> 'f link" where
  "finish ViaDc r = fst r"
| "finish (ViaRelay sid) (s, None) = s"
| "finish (ViaRelay sid) (s, Some e) = lk_fail e s"

lemma deliver_receive:
  assumes "open_for t s" "wf_json v"
  shows "link_step cb s (deliver t v) = finish t (receive cb s v)"
proof (cases t)
  case ViaDc
  with assms show ?thesis by (simp add: on_dc_text_def json_parse_marshal)
next
  case (ViaRelay sid)
  have "wf_json (relay_msg sid v)"
    using assms ViaRelay by (auto simp: relay_msg_def dest: asc_scalar)
  moreover have "relay_msg sid v \<noteq> JNull" "\<not> is_type (relay_msg sid v) ''answer''"
    "is_type (relay_msg sid v) ''relay''" "jget (relay_msg sid v) (asc ''data'') = Some v"
    by (simp_all add: relay_msg_def is_type_def)
  ultimately show ?thesis
    using assms ViaRelay
    by (cases "receive cb s v"; cases "snd (receive cb s v)")
       (simp_all add: on_ws_text_def json_parse_marshal)
qed

lemma part_for_update [simp]: "part_for (AList.update k q ps) k = q"
  by (simp add: part_for_def update_conv)

lemma go_chunks_run:
  fixes s :: "'f link"
  assumes "pos < length b" "length b \<le> part_limit" "json_parse (text_decode b) = Some v"
    and "open_for t s" "part_for ps (KNum (js_double cid)) = \<lparr>pt_buffers = bufs, pt_size = pos\<rparr>"
    and "concat bufs = take pos b" "AList.delete (KNum (js_double cid)) ps = P"
    and "\<And>x. length (AList.update (KNum (js_double cid)) x ps) \<le> 4"
  shows "\<exists>n'. link_run cb (s\<lparr>lk_serial := n, lk_parts := ps\<rparr>) (map (deliver t) (go_chunks cid b pos)) =
    finish t (receive cb (s\<lparr>lk_serial := n', lk_parts := P\<rparr>) v)"
  using assms
proof (induction cid b pos arbitrary: n ps bufs rule: go_chunks.induct)
  case (1 cid b pos)
  let ?k = "KNum (js_double cid)"
  let ?st = "s\<lparr>lk_serial := n, lk_parts := ps\<rparr>"
  have open_st: "open_for t ?st" using "1.prems"(4) by (cases t) auto
  show ?case
  proof (cases "length b \<le> pos + 24000")
    case True
    let ?d = "drop pos b"
    have c: "go_chunks cid b pos = [chunk_msg cid ?d True]"
      using "1.prems"(1) True
      by (subst go_chunks.simps) (auto simp: Let_def go_chunks.simps [of cid b "pos + 24000"])
    have all: "concat (bufs @ [?d]) = b" using "1.prems"(6) by simp
    then have ok: "part_ok \<lparr>pt_buffers = bufs @ [?d], pt_size = pos + length ?d\<rparr>"
      using "1.prems"(1,2) by (simp add: part_ok_def del: concat_append)
    have "receive cb ?st (chunk_msg cid ?d True) =
        receive cb (?st\<lparr>lk_serial := Suc n, lk_parts := P\<rparr>) v"
      using receive_chunk(2) [where s = ?st and cid = cid and bufs = bufs and n = pos and b = ?d and v = v and cb = cb] "1.prems" ok all
      by (simp del: concat_append)
    then show ?thesis
      using deliver_receive [OF open_st wf_chunk_msg] by (auto simp: c)
  next
    case False
    let ?d = "take 24000 (drop pos b)"
    let ?q = "\<lparr>pt_buffers = bufs @ [?d], pt_size = pos + 24000\<rparr>"
    have c: "go_chunks cid b pos = chunk_msg cid ?d False # go_chunks cid b (pos + 24000)"
      using "1.prems"(1) False by (subst go_chunks.simps) (auto simp: Let_def)
    have "receive cb ?st (chunk_msg cid ?d False) =
        (s\<lparr>lk_serial := Suc n, lk_parts := AList.update ?k ?q ps\<rparr>, None)"
      using receive_chunk(1) [where s = ?st and cid = cid and bufs = bufs and n = pos and b = ?d and cb = cb] "1.prems" False by simp
    then have step: "link_step cb ?st (deliver t (chunk_msg cid ?d False)) =
        s\<lparr>lk_serial := Suc n, lk_parts := AList.update ?k ?q ps\<rparr>"
      using deliver_receive [OF open_st wf_chunk_msg, of cb cid ?d False] by (cases t) simp_all
    have cc: "concat (bufs @ [?d]) = take (pos + 24000) b"
      using "1.prems"(6) by (simp add: take_add)
    show ?thesis
      unfolding c list.map run_Cons step
      by (rule "1.IH") (use "1.prems" False cc in auto)
  qed
qed

text \<open>A message that is not itself a chunk does not depend on the serial number.\<close>

lemma receive_serial:
  "\<not> is_type v ''chunk'' \<Longrightarrow>
   receive cb (s\<lparr>lk_serial := n\<rparr>) v = (case receive cb s v of (s', r) \<Rightarrow> (s'\<lparr>lk_serial := n\<rparr>, r))"
  by (auto simp: receive.simps [of cb _ v] accept_result_def pending_of_def emit_def
      split: option.split json.split)

lemma finish_serial: "finish t (s\<lparr>lk_serial := n\<rparr>, r) = (finish t (s, r))\<lparr>lk_serial := n\<rparr>"
  by (cases t; cases r) (auto simp: step_defs)

lemma go_messages_run:
  assumes "open_for t s" "wf_json v" "\<not> is_type v ''chunk''" "length (go_marshal v) \<le> part_limit"
    and "KNum (js_double cid) \<notin> fst ` set (lk_parts s)" "length (lk_parts s) < 4"
  shows "\<exists>n. link_run cb s (map (deliver t) (go_messages cid v)) = (link_step cb s (deliver t v))\<lparr>lk_serial := n\<rparr>"
proof (cases "40000 < length (go_marshal v)")
  case False
  then have "link_run cb s (map (deliver t) (go_messages cid v)) = link_step cb s (deliver t v)"
    by (simp add: go_messages_def)
  then show ?thesis by (metis link.surjective link.update_convs(18))
next
  case True
  let ?k = "KNum (js_double cid)"
  have "part_for (lk_parts s) ?k = \<lparr>pt_buffers = [], pt_size = 0\<rparr>"
    using assms(5) by (simp add: part_for_def map_of_eq_None_iff [THEN iffD2])
  moreover have "go_marshal v \<noteq> []" using True by auto
  ultimately obtain n' where "link_run cb (s\<lparr>lk_serial := lk_serial s, lk_parts := lk_parts s\<rparr>)
      (map (deliver t) (go_chunks cid (go_marshal v) 0)) =
      finish t (receive cb (s\<lparr>lk_serial := n', lk_parts := lk_parts s\<rparr>) v)"
    using go_chunks_run [of 0 "go_marshal v" v t s "lk_parts s" cid "[]" "lk_parts s" cb "lk_serial s"] assms True
    by (auto simp: json_parse_marshal update_fresh delete_id)
  moreover have "s\<lparr>lk_serial := n, lk_parts := lk_parts s\<rparr> = s\<lparr>lk_serial := n\<rparr>" for n by simp
  ultimately have "link_run cb s (map (deliver t) (go_messages cid v)) =
      finish t (receive cb (s\<lparr>lk_serial := n'\<rparr>) v)"
    using True by (simp add: go_messages_def)
  also have "\<dots> = (link_step cb s (deliver t v))\<lparr>lk_serial := n'\<rparr>"
    using receive_serial [OF assms(3), of cb n' s] deliver_receive [OF assms(1,2), of cb]
    by (cases "receive cb s v") (simp add: finish_serial)
  finally show ?thesis by blast
qed

end
