(* ===== verification/Link_Props.thy ===== *)
theory Link_Props
  imports Framing
begin

text \<open>
  What a remote session promises its owner: the properties of \<open>Link\<close>, each over the states its
  callbacks reach, or over any state where no more is needed.
\<close>

section \<open>Shared facts\<close>

text \<open>The requests a session has put on the data channel.\<close>

fun is_dc_frame :: "'f link_out \<Rightarrow> bool" where
  "is_dc_frame (ODcSend i op f) = True"
| "is_dc_frame _ = False"

definition dc_frames :: "'f link \<Rightarrow> 'f link_out list" where
  "dc_frames s = filter is_dc_frame (lk_out s)"

lemma no_dc_frames [simp]:
  "filter is_dc_frame (map (OStatus \<circ> f) rs) = []"
  "filter is_dc_frame (map (\<lambda>(i, c). OSettle c x) ps) = []"
  by (simp_all add: filter_empty_conv case_prod_unfold)

lemma emit_relay [simp]:
  "lk_relay (emit os s) = lk_relay s" "dc_frames (emit os s) = dc_frames s @ filter is_dc_frame os"
  by (simp_all add: emit_def dc_frames_def)

lemma fail_relay [simp]:
  "lk_relay (lk_fail e s) = lk_relay s" "dc_frames (lk_fail e s) = dc_frames s"
  "lk_relay (lk_close e s) = lk_relay s" "dc_frames (lk_close e s) = dc_frames s"
  by (simp_all add: step_defs dc_frames_def)

lemma accept_chunk_relay:
  "accept_chunk s m = (s', r) \<Longrightarrow> lk_relay s' = lk_relay s \<and> dc_frames s' = dc_frames s"
  by (auto simp: accept_chunk_def Let_def split: option.splits if_splits) (simp_all add: dc_frames_def)

lemma accept_result_relay:
  "lk_relay (accept_result s m) = lk_relay s \<and> dc_frames (accept_result s m) = dc_frames s"
  by (auto simp: accept_result_def pending_of_def emit_def dc_frames_def split: option.split)

lemma receive_relay:
  "lk_relay (fst (receive cb s m)) = lk_relay s \<and> dc_frames (fst (receive cb s m)) = dc_frames s"
proof (induction cb s m rule: receive.induct)
  case (1 cb s m)
  show ?case
  proof (cases "m \<noteq> JNull \<and> is_type m ''chunk''")
    case True
    obtain s' r where a: "accept_chunk s m = (s', r)" by (cases "accept_chunk s m")
    with True "1.IH" accept_chunk_relay [OF a] show ?thesis
      by (cases r) (auto simp: receive.simps [of cb s m] split: option.split)
  next
    case False
    then show ?thesis
      using accept_result_relay by (auto simp: receive.simps [of cb s m] emit_def dc_frames_def)
  qed
qed

lemma relay_step:
  assumes "lk_relay s"
  shows "lk_relay (link_step cb s e) \<and> dc_frames (link_step cb s e) = dc_frames s"
proof -
  have r: "receive cb s d = (s', x) \<Longrightarrow> lk_relay s' \<and> dc_frames s' = dc_frames s" for d s' x
    using assms receive_relay by (metis fst_conv)
  then have "lk_relay (on_ws_text cb t s) \<and> dc_frames (on_ws_text cb t s) = dc_frames s"
    and "lk_relay (on_dc_text cb t s) \<and> dc_frames (on_dc_text cb t s) = dc_frames s" for t
    using assms receive_relay [of cb s]
    by (auto simp: on_ws_text_def on_dc_text_def split: option.split prod.split)
  with assms show ?thesis
    by (cases e)
       (auto simp: step_defs Let_def dc_frames_def split: option.split list.split ready.split ws_state.split)
qed

interpretation relay_sys: quiet_system "link_step cb" "\<lambda>s. True" lk_relay dc_frames for cb
  by unfold_locales (auto simp: relay_step)

text \<open>After the session is closed, calls still waiting are answered from \<open>ready\<close>.\<close>

lemma closed_resume:
  assumes "lk_closed s" "lk_ready s \<noteq> RPending"
  shows "lk_closed (lk_resume b s)" "lk_ready (lk_resume b s) = lk_ready s"
    "lk_waiting (lk_resume b s) = drop 1 (lk_waiting s)" "lk_calls (lk_resume b s) = lk_calls s"
  using assms by (auto simp: step_defs split: list.split ready.split)

lemma closed_resumes:
  assumes "lk_closed s" "lk_ready s \<noteq> RPending"
  shows "lk_closed (link_run cb s (map EResume bs))
    \<and> lk_waiting (link_run cb s (map EResume bs)) = drop (length bs) (lk_waiting s)
    \<and> lk_calls (link_run cb s (map EResume bs)) = lk_calls s"
  using assms by (induction bs arbitrary: s) (auto simp: closed_resume)

lemma fail_fields [simp]:
  "lk_closed (lk_fail e s)" "lk_calls (lk_fail e s) = lk_calls s" "lk_waiting (lk_fail e s) = lk_waiting s"
  "\<not> lk_closed s \<Longrightarrow> lk_ready (lk_fail e s) \<noteq> RPending"
  by (simp_all add: step_defs)

lemma closed_inv: "link_inv s \<Longrightarrow> lk_closed s \<Longrightarrow> lk_pending s = [] \<and> lk_timers s = []"
  by (auto simp: inv_defs)

lemma inv_pending: "link_inv s \<Longrightarrow> (i, c) \<in> set (lk_pending s) \<Longrightarrow> map_of (lk_pending s) i = Some c"
  by (simp add: inv_defs)

lemma inv_open: "link_inv s \<Longrightarrow> open_for t s \<Longrightarrow> \<not> lk_closed s"
  by (cases t) (auto simp: inv_defs)

lemma set_delete_pending:
  "link_inv s \<Longrightarrow> (i, c) \<in> set (lk_pending s) \<Longrightarrow> set (AList.delete i (lk_pending s)) = set (lk_pending s) - {(i, c)}"
  by (auto simp: AList.delete_eq inv_defs dest: eq_key_imp_eq_value)

lemma js_double_small: "\<bar>n\<bar> < 2 ^ 53 \<Longrightarrow> js_double n = n"
  by (simp add: js_double_def Let_def nat_less_iff)

section \<open>Calls\<close>

text \<open>
  C5: whatever the channels, the timers and the callers do, every call made so far is in exactly one
  place, once: settled, waiting for its answer, or waiting for the session to be ready. No call is
  lost and none is settled twice.
\<close>

theorem link_calls_partition:
  "let s = link_run cb link_init es
   in mset (settled (lk_out s)) + mset (map snd (lk_pending s)) + mset (map fst (lk_waiting s))
      = mset [0..<lk_calls s]"
  using link_run_inv [of cb es] by (simp add: Let_def inv_defs)

text \<open>
  C32: when the socket of an open session closes, every call ever made gets settled: those with an
  open request at once, those still waiting for the session as soon as they resume; and no timer stays
  armed, neither those of the calls nor the fallback's, the keepalive's or the statistics'.
\<close>

theorem link_failure_settles_all:
  assumes "s = link_run cb link_init es" "\<not> lk_closed s" "length (lk_waiting s) \<le> length bs"
  shows "let s' = link_run cb (link_step cb s EWsClose) (map EResume bs)
         in mset (settled (lk_out s')) = mset [0..<lk_calls s] \<and> lk_calls s' = lk_calls s
            \<and> lk_pending s' = [] \<and> lk_waiting s' = [] \<and> lk_timers s' = []
            \<and> \<not> lk_fallback s' \<and> \<not> lk_keepalive s' \<and> \<not> lk_stats s'"
proof -
  let ?s = "link_step cb s EWsClose"
  let ?s' = "link_run cb ?s (map EResume bs)"
  have "link_inv ?s" unfolding assms(1) by (rule link_inv_step) simp
  then have i: "link_inv ?s'" by (rule link_sys.run_inv)
  have r: "lk_closed ?s' \<and> lk_waiting ?s' = [] \<and> lk_calls ?s' = lk_calls s"
    using closed_resumes [of ?s cb bs] assms(2,3) by simp
  with closed_inv [OF i] i show ?thesis by (simp add: Let_def inv_defs)
qed

theorem link_failure_settles_all_witness:
  "let s = link_run (\<lambda>m. None) link_init
             [EWsOpen, EOffer None, EDcOpen, ECall ''list'' (0::nat), EResume True, ECall ''read'' 1]
   in lk_calls s = 2 \<and> settled (lk_out s) = []
      \<and> mset (settled (lk_out (link_run (\<lambda>m. None) (link_step (\<lambda>m. None) s EWsClose) (map EResume [True]))))
        = mset [0..<2]"
proof -
  let ?s = "link_run (\<lambda>m. None) link_init
    [EWsOpen, EOffer None, EDcOpen, ECall ''list'' (0::nat), EResume True, ECall ''read'' 1]"
  have "\<not> lk_closed ?s" "length (lk_waiting ?s) \<le> length [True]" "lk_calls ?s = 2" "settled (lk_out ?s) = []"
    by (simp_all add: step_defs link_init_def)
  with link_failure_settles_all [OF refl this(1,2)] show ?thesis by (simp add: Let_def)
qed

text \<open>
  While a request is open its timer is armed, and when the timer fires exactly that call is
  rejected with the time-out; every other request stays as it is.
\<close>

theorem link_call_times_out:
  assumes "s = link_run cb link_init es" "(i, c) \<in> set (lk_pending s)"
  shows "i \<in> set (lk_timers s)
    \<and> (let s' = link_step cb s (ETimer i)
       in lk_out s' = lk_out s @ [OSettle c (Inl OpTimeout)]
          \<and> set (lk_pending s') = set (lk_pending s) - {(i, c)}
          \<and> set (lk_timers s') = set (lk_timers s) - {i})"
proof -
  have inv: "link_inv s" using assms(1) by simp
  then have "i \<in> set (lk_timers s)" using assms(2) by (force simp: inv_defs)
  with inv_pending [OF inv assms(2)] set_delete_pending [OF inv assms(2)] show ?thesis
    by (auto simp: step_defs Let_def)
qed

theorem link_call_times_out_witness:
  "let s = link_run (\<lambda>m. None) link_init [EWsOpen, EOffer None, EDcOpen, ECall ''list'' (0::nat), EResume True]
   in lk_out (link_step (\<lambda>m. None) s (ETimer 1)) = lk_out s @ [OSettle 0 (Inl OpTimeout)]"
  using link_call_times_out [of _ "\<lambda>m. None"
      "[EWsOpen, EOffer None, EDcOpen, ECall ''list'' (0::nat), EResume True]" 1 0, OF refl]
  by (simp add: Let_def step_defs link_init_def)

section \<open>Answers\<close>

lemma go_response_simps [simp]:
  "go_response i r \<noteq> JNull" "\<not> is_type (go_response i r) ''chunk''" "is_type (go_response i r) ''result''"
  "jget (go_response i r) (asc ''id'') = Some (JNum i)"
  "jget (go_response i r) (asc ''ok'') = Some (JBool (\<not> isl r))"
  "jget (go_response i (Inr v)) (asc ''result'') = Some v"
  "jget (go_response i (Inl e)) (asc ''error'') = Some (JStr e)"
  by (cases r; simp add: go_response_def is_type_def)+

definition response_outcome :: "jstext + json \<Rightarrow> outcome" where
  "response_outcome r = (case r of Inr v \<Rightarrow> Inr (Some v) | Inl e \<Rightarrow> Inl (RemoteError e))"

lemma receive_response:
  assumes "link_inv s" "(i, c) \<in> set (lk_pending s)" "i < 2 ^ 53"
  shows "receive cb s (go_response (int i) r) =
    (emit [OSettle c (response_outcome r)]
      (s\<lparr>lk_timers := removeAll i (lk_timers s), lk_pending := AList.delete i (lk_pending s)\<rparr>), None)"
proof -
  have "js_double (int i) = int i" using assms(3) by (intro js_double_small) simp
  then have "pending_of s (Some (JNum (int i))) = Some (i, c)"
    using inv_pending [OF assms(1,2)] by (simp add: pending_of_def)
  then show ?thesis
    by (cases r) (simp_all add: receive.simps [of cb s] accept_result_def response_outcome_def err_text_def)
qed

text \<open>
  C7: when the device answers an open request, with a result of up to 4 MiB or with an error, cut
  into chunks or not, over the data channel or the relay, exactly the call that made the request
  settles, with that result or that error; its timer is cleared and every other request stays.
\<close>

theorem response_delivered:
  assumes "s = link_run cb link_init es" "(i, c) \<in> set (lk_pending s)" "i < 2 ^ 53"
    and "open_for t s" "wf_json (go_response (int i) r)"
    and "length (go_marshal (go_response (int i) r)) \<le> 4 * 1024 * 1024"
    and "KNum (js_double cid) \<notin> fst ` set (lk_parts s)" "length (lk_parts s) < 4"
  shows "let s' = link_run cb s (map (deliver t) (go_messages cid (go_response (int i) r)))
    in lk_out s' = lk_out s @ [OSettle c (case r of Inr v \<Rightarrow> Inr (Some v) | Inl e \<Rightarrow> Inl (RemoteError e))]
       \<and> set (lk_pending s') = set (lk_pending s) - {(i, c)}
       \<and> set (lk_timers s') = set (lk_timers s) - {i}
       \<and> lk_parts s' = lk_parts s"
proof -
  have inv: "link_inv s" using assms(1) by simp
  obtain n where n: "link_run cb s (map (deliver t) (go_messages cid (go_response (int i) r))) =
      (link_step cb s (deliver t (go_response (int i) r)))\<lparr>lk_serial := n\<rparr>"
    using go_messages_run [OF assms(4,5) _ _ assms(7,8), of cb] assms(6) by (auto simp: part_limit_def)
  have "link_step cb s (deliver t (go_response (int i) r)) =
      emit [OSettle c (response_outcome r)]
      (s\<lparr>lk_timers := removeAll i (lk_timers s), lk_pending := AList.delete i (lk_pending s)\<rparr>)"
    using deliver_receive [OF assms(4,5), of cb] receive_response [OF inv assms(2,3), of cb r]
    by (cases t) simp_all
  with n set_delete_pending [OF inv assms(2)] show ?thesis
    by (simp add: emit_def Let_def response_outcome_def)
qed

theorem response_delivered_witness:
  "let s = link_run (\<lambda>m. None) link_init [EWsOpen, EOffer None, EDcOpen, ECall ''list'' (0::nat), EResume True]
   in lk_out (link_run (\<lambda>m. None) s
        (map (deliver ViaDc) (go_messages 7 (go_response 1 (Inr (JStr (asc ''ok'')))))))
      = lk_out s @ [OSettle 0 (Inr (Some (JStr (asc ''ok''))))]"
proof -
  let ?es = "[EWsOpen, EOffer None, EDcOpen, ECall ''list'' (0::nat), EResume True]"
  let ?s = "link_run (\<lambda>m. None) link_init ?es"
  let ?r = "Inr (JStr (asc ''ok'')) :: jstext + json"
  have wf: "wf_json (go_response (int 1) ?r)"
    by (auto simp: go_response_def js_eval scalar_def)
  have len: "length (go_marshal (go_response (int 1) ?r)) \<le> 4 * 1024 * 1024"
    by (simp add: go_response_def go_marshal_def json_string_def go_escape_def js_eval int_text_def
        nat_text.simps [of "Suc 0"] utf8_encode_def utf8_char_def)
  have "(1, 0) \<in> set (lk_pending ?s)" "open_for ViaDc ?s" "lk_parts ?s = []"
    by (simp_all add: step_defs link_init_def)
  with response_delivered [OF refl this(1) _ this(2) wf len, of 7] show ?thesis
    by (simp add: Let_def)
qed

section \<open>Oversize answers\<close>

lemma receive_chunk_over:
  assumes "part_for (lk_parts s) (KNum (js_double cid)) = \<lparr>pt_buffers = bufs, pt_size = n\<rparr>"
    and "part_limit < n + length b"
  shows "\<exists>ps. receive cb s (chunk_msg cid b l) =
    (lk_fail TooLarge (s\<lparr>lk_serial := Suc (lk_serial s), lk_parts := ps\<rparr>), None)"
proof -
  let ?k = "KNum (js_double cid)"
  have p: "(case map_of (lk_parts s) ?k of None \<Rightarrow> \<lparr>pt_buffers = [], pt_size = 0\<rparr> | Some q \<Rightarrow> q) =
      \<lparr>pt_buffers = bufs, pt_size = n\<rparr>"
    using assms(1) by (simp add: part_for_def)
  have "accept_chunk s (chunk_msg cid b l) =
      (lk_fail TooLarge (s\<lparr>lk_serial := Suc (lk_serial s),
         lk_parts := AList.update ?k \<lparr>pt_buffers = bufs, pt_size = n + length b\<rparr> (lk_parts s)\<rparr>), CReturn)"
    using assms(2) p by (simp add: accept_chunk_def Let_def data_text_def decode_b64_encode ckey_of_def)
  then show ?thesis by (auto simp: receive.simps [of cb s])
qed

lemma fail_forgets:
  "\<not> lk_closed s \<Longrightarrow> lk_fail e (s\<lparr>lk_serial := n, lk_parts := ps\<rparr>) = (lk_fail e s)\<lparr>lk_serial := n\<rparr>"
  by (simp add: step_defs)

lemma deliver_closed:
  "lk_ws s = WsClosed \<Longrightarrow> \<not> lk_dc_open s \<Longrightarrow> link_run cb s (map (deliver t) vs) = s"
proof (induction vs)
  case (Cons v vs)
  then show ?case by (cases t) (simp_all add: on_dc_text_def on_ws_text_def)
qed simp

lemma go_chunks_over:
  fixes s :: "'f link"
  assumes "pos \<le> part_limit" "part_limit < length b" "open_for t s" "\<not> lk_closed s"
    and "part_for ps (KNum (js_double cid)) = \<lparr>pt_buffers = bufs, pt_size = pos\<rparr>"
    and "\<And>x. length (AList.update (KNum (js_double cid)) x ps) \<le> 4"
  shows "\<exists>n'. link_run cb (s\<lparr>lk_serial := n, lk_parts := ps\<rparr>) (map (deliver t) (go_chunks cid b pos)) =
    (lk_fail TooLarge s)\<lparr>lk_serial := n'\<rparr>"
  using assms
proof (induction cid b pos arbitrary: n ps bufs rule: go_chunks.induct)
  case (1 cid b pos)
  let ?k = "KNum (js_double cid)"
  let ?st = "s\<lparr>lk_serial := n, lk_parts := ps\<rparr>"
  let ?d = "take 24000 (drop pos b)"
  let ?l = "length b \<le> pos + 24000"
  have open_st: "open_for t ?st" using "1.prems"(3) by (cases t) auto
  have c: "go_chunks cid b pos = chunk_msg cid ?d ?l # go_chunks cid b (pos + 24000)"
    using "1.prems"(1,2) by (subst go_chunks.simps) (auto simp: Let_def eq_commute [of "length b"])
  note d = deliver_receive [OF open_st wf_chunk_msg, of cb cid ?d ?l]
  show ?case
  proof (cases "part_limit < pos + length ?d")
    case True
    obtain ps' where "receive cb ?st (chunk_msg cid ?d ?l) =
        (lk_fail TooLarge (s\<lparr>lk_serial := Suc n, lk_parts := ps'\<rparr>), None)"
      using receive_chunk_over [where s = ?st, OF _ True] "1.prems"(5) by fastforce
    then have "link_step cb ?st (deliver t (chunk_msg cid ?d ?l)) = (lk_fail TooLarge s)\<lparr>lk_serial := Suc n\<rparr>"
      using d fail_forgets [OF "1.prems"(4)] by (cases t) simp_all
    moreover have "lk_ws (lk_fail TooLarge s) = WsClosed" "\<not> lk_dc_open (lk_fail TooLarge s)"
      using "1.prems"(4) by (simp_all add: step_defs)
    ultimately show ?thesis
      unfolding c list.map run_Cons by (auto simp: deliver_closed)
  next
    case False
    then have l: "\<not> ?l" "length ?d = 24000" using "1.prems"(1,2) by auto
    let ?q = "\<lparr>pt_buffers = bufs @ [?d], pt_size = pos + 24000\<rparr>"
    have "receive cb ?st (chunk_msg cid ?d False) =
        (s\<lparr>lk_serial := Suc n, lk_parts := AList.update ?k ?q ps\<rparr>, None)"
      using receive_chunk(1) [where s = ?st and cid = cid and bufs = bufs and n = pos and b = ?d and cb = cb]
        "1.prems" False l by simp
    then have step: "link_step cb ?st (deliver t (chunk_msg cid ?d ?l)) =
        s\<lparr>lk_serial := Suc n, lk_parts := AList.update ?k ?q ps\<rparr>"
      using d l by (cases t) simp_all
    show ?thesis
      unfolding c list.map run_Cons step
      by (rule "1.IH") (use "1.prems" False l in auto)
  qed
qed

text \<open>
  C40: a message of the device above 4 MiB, on either channel, closes the session: the status names
  the error, every open request is rejected with it, the memory of the chunks is given up, and what
  is left of the message changes nothing.
\<close>

theorem oversize_closes:
  assumes "s = link_run cb link_init es" "open_for t s" "4 * 1024 * 1024 < length (go_marshal v)"
    and "KNum (js_double cid) \<notin> fst ` set (lk_parts s)" "length (lk_parts s) < 4"
  shows "let s' = link_run cb s (map (deliver t) (go_messages cid v))
    in lk_out s' = lk_out s @ OStatus (ErrStatus TooLarge)
         # map (\<lambda>(i, c). OSettle c (Inl TooLarge)) (lk_pending s) @ [OWsClose, OPcClose]
       \<and> lk_closed s' \<and> lk_pending s' = [] \<and> lk_timers s' = [] \<and> lk_parts s' = []"
proof -
  have inv: "link_inv s" using assms(1) by simp
  note o = inv_open [OF inv assms(2)]
  have p: "part_for (lk_parts s) (KNum (js_double cid)) = \<lparr>pt_buffers = [], pt_size = 0\<rparr>"
    using assms(4) by (simp add: part_for_def map_of_eq_None_iff [THEN iffD2])
  have "length (AList.update (KNum (js_double cid)) x (lk_parts s)) \<le> 4" for x
    using assms(4,5) by (simp add: update_fresh)
  then obtain n where "link_run cb (s\<lparr>lk_serial := lk_serial s, lk_parts := lk_parts s\<rparr>)
      (map (deliver t) (go_chunks cid (go_marshal v) 0)) = (lk_fail TooLarge s)\<lparr>lk_serial := n\<rparr>"
    using go_chunks_over [OF _ _ assms(2) o p, of "go_marshal v" cb "lk_serial s"] assms(3)
    by (auto simp: part_limit_def)
  moreover have "lk_timers (lk_fail TooLarge s) = []"
    using inv o by (simp add: inv_defs step_defs)
  ultimately show ?thesis
    using assms(3) o by (simp add: go_messages_def Let_def) (simp add: step_defs)
qed

lemma length_marshal_letters: "length (go_marshal (JStr (replicate n 97))) = n + 2"
proof -
  have "go_json (JStr (replicate n 97)) = 34 # replicate n 97 @ [34]"
    by (simp add: go_string_plain plain_ascii_def go_escape_def)
  then show ?thesis by (simp add: go_marshal_def length_utf8_ascii)
qed

theorem oversize_closes_witness:
  "let s = link_run (\<lambda>m. None) link_init [EWsOpen, EOffer None, EDcOpen, ECall ''read'' (0::nat), EResume True];
       s' = link_run (\<lambda>m. None) s (map (deliver ViaDc) (go_messages 7 (JStr (replicate 5000000 97))))
   in lk_closed s' \<and> lk_out s' = lk_out s @ [OStatus (ErrStatus TooLarge), OSettle 0 (Inl TooLarge), OWsClose, OPcClose]"
proof -
  let ?es = "[EWsOpen, EOffer None, EDcOpen, ECall ''read'' (0::nat), EResume True]"
  let ?s = "link_run (\<lambda>m. None) link_init ?es"
  have "open_for ViaDc ?s" "lk_parts ?s = []" "lk_pending ?s = [(1, 0)]"
    by (simp_all add: step_defs link_init_def)
  with oversize_closes [OF refl this(1), of "JStr (replicate 5000000 97)" 7] show ?thesis
    by (simp add: Let_def length_marshal_letters)
qed

text \<open>
  C31: a message cut into chunks has the effect of the message: the session's state is the one the
  single message leaves, whatever the message does (a result, a terminal event, garbage for the
  owner), but for the count of chunk keys.
\<close>

theorem chunked_as_whole:
  assumes "open_for t s" "wf_json v" "\<not> is_type v ''chunk''" "length (go_marshal v) \<le> 4 * 1024 * 1024"
    and "KNum (js_double cid) \<notin> fst ` set (lk_parts s)" "length (lk_parts s) < 4"
  shows "\<exists>n. link_run cb s (map (deliver t) (go_messages cid v)) = (link_step cb s (deliver t v))\<lparr>lk_serial := n\<rparr>"
  using go_messages_run [OF assms(1-3) _ assms(5,6)] assms(4) by (simp add: part_limit_def)

theorem chunked_as_whole_witness:
  "let s = link_run (\<lambda>m. None) link_init [EWsOpen, EOffer None, EDcOpen :: nat link_event];
       v = JStr (replicate 50000 97)
   in 2 < length (go_messages 7 v)
      \<and> (\<exists>n. link_run (\<lambda>m. None) s (map (deliver ViaDc) (go_messages 7 v)) =
            (link_step (\<lambda>m. None) s (deliver ViaDc v))\<lparr>lk_serial := n\<rparr>)"
proof -
  let ?s = "link_run (\<lambda>m. None) link_init [EWsOpen, EOffer None, EDcOpen :: nat link_event]"
  let ?v = "JStr (replicate 50000 97)"
  have "open_for ViaDc ?s" "lk_parts ?s = []" by (simp_all add: step_defs link_init_def)
  moreover have "wf_json ?v" "\<not> is_type ?v ''chunk''" by (simp_all add: scalar_def is_type_def)
  moreover have "2 < length (go_messages 7 ?v)"
    using length_marshal_letters [of 50000]
    by (simp add: go_messages_def go_chunks.simps [of 7] Let_def)
  ultimately show ?thesis
    using chunked_as_whole [of ViaDc ?s ?v 7 "\<lambda>m. None"] length_marshal_letters [of 50000]
    by (simp add: Let_def)
qed

text \<open>
  Every message the device puts on the data channel stays below 48 KiB, as the comment in
  \<open>Session.send\<close> asks, for any clock reading of up to 19 digits.
\<close>

theorem frames_below_48k:
  assumes "\<bar>cid\<bar> < 10 ^ 19" "f \<in> set (go_send cid v)"
  shows "length f < 48 * 1024"
proof (cases "40000 < length (go_marshal v)")
  case True
  with assms(2) obtain d l where "f = go_marshal (chunk_msg cid d l)" "length d \<le> 24000"
    using go_chunks_members by (fastforce simp: go_send_def)
  with length_chunk_frame [OF this(2) assms(1), of l] show ?thesis by simp
qed (use assms(2) in \<open>auto simp: go_send_def\<close>)

theorem frames_below_48k_witness: "length (go_marshal (JStr (asc ''pong''))) < 48 * 1024"
  by (rule frames_below_48k [of 7 _ "JStr (asc ''pong'')"])
     (simp_all add: go_send_def go_marshal_def json_string_def go_escape_def js_eval utf8_encode_def utf8_char_def)

section \<open>The life of a session\<close>

text \<open>
  Once a session is closed it hands nothing to its channels any more, neither requests nor
  offers nor keep-alives, whatever still happens.
\<close>

theorem closed_is_silent:
  assumes "s = link_run cb link_init es" "lk_closed s"
  shows "filter is_frame (lk_out (link_run cb s fs)) = filter is_frame (lk_out s)"
  using link_sys.run_quiet [of s cb fs] assms by (simp add: sent_frames_def)

theorem closed_is_silent_witness:
  "let s = link_run (\<lambda>m. None) link_init [EWsOpen, EOffer None, EDcOpen, ECall ''list'' (0::nat), EClose]
   in filter is_frame (lk_out (link_run (\<lambda>m. None) s [EResume True, EKeepalive, EFallback])) = [OWsOffer]"
  using closed_is_silent [of _ "\<lambda>m. None" "[EWsOpen, EOffer None, EDcOpen, ECall ''list'' (0::nat), EClose]"
      "[EResume True, EKeepalive, EFallback]", OF refl]
  by (simp add: Let_def step_defs link_init_def)

text \<open>
  A session that switched to the server's relay stays on it: it puts no request on the data
  channel again, even if the channel opens later.
\<close>

theorem relay_is_final:
  assumes "lk_relay s"
  shows "lk_relay (link_run cb s es) \<and>
    filter is_dc_frame (lk_out (link_run cb s es)) = filter is_dc_frame (lk_out s)"
  using relay_sys.run_quiet [of s cb es] relay_sys.run_down [of s cb es] assms by (simp add: dc_frames_def)

theorem relay_is_final_witness:
  "let s = link_run (\<lambda>m. None) link_init [EWsOpen, EOffer None, EFallback]
   in filter is_dc_frame (lk_out (link_run (\<lambda>m. None) s [EDcOpen, ECall ''list'' (0::nat), EResume True])) = []"
  using relay_is_final [of "link_run (\<lambda>m. None) link_init [EWsOpen, EOffer None, EFallback]" "\<lambda>m. None"
      "[EDcOpen, ECall ''list'' (0::nat), EResume True]"]
  by (simp add: Let_def step_defs link_init_def)

text \<open>
  The memory for incomplete messages is bounded by four messages of 4 MiB, whatever the other
  end sends.
\<close>

theorem chunk_memory_bounded: "parts_size (link_run cb link_init es) \<le> 4 * part_limit"
proof -
  have b: "(\<Sum>(k, p) \<leftarrow> ps. pt_size p) \<le> length (filter (\<lambda>(k, p). pt_size p \<noteq> 0) ps) * part_limit"
    if "\<forall>(k, p) \<in> set ps. part_ok p" for ps :: "(ckey \<times> part) list"
    using that by (induction ps) (auto simp: part_ok_def)
  have "parts_ok (lk_parts (link_run cb link_init es))"
    using link_run_inv [of cb es] by (simp add: link_inv_def)
  then have n: "length (filter (\<lambda>(k, p). pt_size p \<noteq> 0) (lk_parts (link_run cb link_init es))) \<le> 4"
    and "\<forall>(k, p) \<in> set (lk_parts (link_run cb link_init es)). part_ok p"
    by (simp_all add: parts_ok_def)
  from b [OF this(2)] mult_le_mono1 [OF n, of part_limit] show ?thesis
    unfolding parts_size_def by (rule le_trans)
qed

section \<open>What the session does not promise\<close>

text \<open>
  A session closed by its owner before it was ready never settles the calls that wait for it:
  \<open>close\<close> rejects the pending requests, but not \<open>ready\<close>.
\<close>

lemma stranded_step:
  assumes "link_inv s" "lk_closed s" "lk_ready s = RPending"
  shows "lk_ready (link_step cb s e) = RPending"
    "\<exists>w. lk_waiting (link_step cb s e) = lk_waiting s @ w"
proof -
  have q: "lk_ws s = WsClosed" "\<not> lk_dc_open s" "\<not> lk_keepalive s" "\<not> lk_fallback s" "lk_timers s = []"
    using assms by (auto simp: link_inv_def shut_ok_def calls_ok_def)
  have f: "lk_fail x s' = s'" "lk_close x s' = s'" if "lk_closed s'" for x and s' :: "'a link"
    using that by (simp_all add: lk_fail_def lk_close_def)
  note defs = f step_defs on_ws_text_def on_dc_text_def Let_def
  show "lk_ready (link_step cb s e) = RPending"
    using assms(2,3) q by (cases e) (auto simp: defs split: option.split list.split ready.split)
  show "\<exists>w. lk_waiting (link_step cb s e) = lk_waiting s @ w"
    using assms(2,3) q by (cases e) (auto simp: defs split: option.split list.split ready.split)
qed

lemma stranded_calls:
  assumes "s = link_run cb link_init es" "lk_closed s" "lk_ready s = RPending"
  shows "\<exists>w. lk_waiting (link_run cb s fs) = lk_waiting s @ w"
proof -
  have "link_inv s \<Longrightarrow> lk_closed s \<Longrightarrow> lk_ready s = RPending \<Longrightarrow>
      \<exists>w. lk_waiting (link_run cb s fs) = lk_waiting s @ w" for s :: "'a link"
  proof (induction fs arbitrary: s)
    case (Cons e fs)
    from Cons.IH [of "link_step cb s e", OF link_inv_step closed_step(1) stranded_step(1),
        OF Cons.prems(1) Cons.prems(1,2) Cons.prems]
      stranded_step(2) [OF Cons.prems, of cb e]
    obtain v w where "lk_waiting (link_run cb (link_step cb s e) fs) = (lk_waiting s @ v) @ w" by metis
    then show ?case by auto
  qed simp
  with assms show ?thesis by simp
qed

text \<open>
  The statistics that were being read when the session switched to the relay still report a direct
  connection afterwards: the last status shown is the wrong one.
\<close>

lemma stats_after_relay:
  assumes "\<not> lk_relay s" "lk_offered s" "\<not> lk_closed s" "lk_stats s"
    and "sr_type r = ''candidate-pair''" "sr_state r = ''succeeded''" "sr_nominated r"
  shows "let s' = link_run cb s [EStats, EConnState ''disconnected'', EStatsReport [r]]
         in lk_relay s' \<and> last (lk_out s') = OStatus (stats_status r)"
  using assms by (simp add: step_defs Let_def)

text \<open>
  A chunk whose data is not Base64 throws inside the data channel's handler; the entry it has made
  in \<open>parts\<close> stays, so a peer can grow the table without bound.
\<close>

lemma bad_chunk_stays:
  assumes "lk_dc_open s" "KNum (js_double cid) \<notin> fst ` set (lk_parts s)"
    and "json_parse t = Some (JObj [(asc ''type'', JStr (asc ''chunk'')), (asc ''chunk'', JNum cid)])"
  shows "length (lk_parts (link_step cb s (EDcText t))) = Suc (length (lk_parts s))"
proof -
  let ?m = "JObj [(asc ''type'', JStr (asc ''chunk'')), (asc ''chunk'', JNum cid)]"
  have "decode (asc ''undefined'') = None"
    by (simp add: decode_eq js_eval html_space_def b64_unpad_def)
  then have "length (lk_parts (fst (receive cb s ?m))) = Suc (length (lk_parts s))"
    using assms(2)
    by (simp add: receive.simps [of cb s] is_type_def accept_chunk_def data_text_def ckey_of_def
        Let_def update_fresh map_of_eq_None_iff [THEN iffD2])
  with assms(1,3) show ?thesis by (simp add: on_dc_text_def)
qed

end
