(* ===== verification/Wire.thy ===== *)
theory Wire
  imports Link_Props "HOL-Library.Monad_Syntax"
begin

text \<open>
  A request on its way to the device: the object \<open>Link.call\<close> builds and stringifies, the envelope of the
  relay, what the server and the agent hand on of it, and \<open>json.Unmarshal\<close> into the \<open>Request\<close> of
  \<open>internal/remote/session.go\<close>.

  A forwarded \<open>json.RawMessage\<close> is written compacted, with Go's escapes: for the values that occur that
  is the text Go marshals. Keys are matched exactly: the browser's requests use the names of the Go tags.
\<close>

section \<open>What the browser writes\<close>

type_synonym fields = "(jstext \<times> json) list"

text \<open>\<open>{ id, op, ...fields }\<close>: a repeated key takes the later value.\<close>

definition js_spread :: "fields \<Rightarrow> fields \<Rightarrow> fields" where
  "js_spread kvs fs = foldl (\<lambda>acc (k, v). AList.update k v acc) kvs fs"

definition js_request :: "nat \<Rightarrow> string \<Rightarrow> fields \<Rightarrow> json" where
  "js_request i op fs = JObj (js_spread [(asc ''id'', JNum (int i)), (asc ''op'', JStr (asc op))] fs)"

definition dc_bytes :: "nat \<Rightarrow> string \<Rightarrow> fields \<Rightarrow> byte list" where
  "dc_bytes i op fs = utf8_encode (js_stringify (js_request i op fs))"

definition ws_bytes :: "nat \<Rightarrow> string \<Rightarrow> fields \<Rightarrow> byte list" where
  "ws_bytes i op fs =
     utf8_encode (js_stringify (JObj [(asc ''type'', JStr (asc ''relay'')), (asc ''data'', js_request i op fs)]))"

section \<open>What the device reads\<close>

text \<open>The data of a relayed message: the server reads a \<open>Message\<close> and sends it on, the agent reads it again.\<close>

definition relayed :: "byte list \<Rightarrow> byte list option" where
  "relayed b =
     (case json_parse (text_decode b) of
        None \<Rightarrow> None
      | Some m \<Rightarrow> if is_type m ''relay'' then map_option go_marshal (jget m (asc ''data'')) else None)"

record go_request =
  gr_id :: int
  gr_op :: jstext
  gr_path :: jstext
  gr_target :: jstext
  gr_data :: jstext
  gr_offset :: int
  gr_cols :: int
  gr_rows :: int
  gr_input :: "json option"

text \<open>A field that is missing or null keeps its zero value; a value of another type is an error.\<close>

definition go_int_field :: "json \<Rightarrow> string \<Rightarrow> int option" where
  "go_int_field m k =
     (case jget m (asc k) of
        None \<Rightarrow> Some 0
      | Some JNull \<Rightarrow> Some 0
      | Some (JNum n) \<Rightarrow> if - (2 ^ 63) \<le> n \<and> n < 2 ^ 63 then Some n else None
      | Some _ \<Rightarrow> None)"

definition go_text_field :: "json \<Rightarrow> string \<Rightarrow> jstext option" where
  "go_text_field m k =
     (case jget m (asc k) of
        None \<Rightarrow> Some [] | Some JNull \<Rightarrow> Some [] | Some (JStr t) \<Rightarrow> Some t | Some _ \<Rightarrow> None)"

definition go_fields :: "json \<Rightarrow> go_request option" where
  "go_fields m = do {
     i \<leftarrow> go_int_field m ''id''; op \<leftarrow> go_text_field m ''op''; p \<leftarrow> go_text_field m ''path'';
     t \<leftarrow> go_text_field m ''target''; d \<leftarrow> go_text_field m ''data''; off \<leftarrow> go_int_field m ''offset'';
     cols \<leftarrow> go_int_field m ''cols''; rows \<leftarrow> go_int_field m ''rows'';
     Some \<lparr>gr_id = i, gr_op = op, gr_path = p, gr_target = t, gr_data = d, gr_offset = off,
           gr_cols = cols, gr_rows = rows, gr_input = jget m (asc ''input'')\<rparr>
   }"

text \<open>\<open>null\<close> leaves the request as it is, all zero.\<close>

definition go_request_of :: "json \<Rightarrow> go_request option" where
  "go_request_of m = (case m of JObj kvs \<Rightarrow> go_fields m | JNull \<Rightarrow> go_fields (JObj []) | _ \<Rightarrow> None)"

definition go_unmarshal :: "byte list \<Rightarrow> go_request option" where
  "go_unmarshal b = Option.bind (json_parse (text_decode b)) go_request_of"

section \<open>Round trips\<close>

lemma spread_snoc [simp]: "js_spread kvs (fs @ [(k, v)]) = AList.update k v (js_spread kvs fs)"
  by (simp add: js_spread_def)

lemma spread_Nil [simp]: "js_spread kvs [] = kvs"
  by (simp add: js_spread_def)

text \<open>Fields a call can send: they are well-formed and do not touch \<open>id\<close> and \<open>op\<close>.\<close>

definition fields_ok :: "fields \<Rightarrow> bool" where
  "fields_ok fs \<longleftrightarrow> wf_json (JObj fs) \<and> asc ''id'' \<notin> fst ` set fs \<and> asc ''op'' \<notin> fst ` set fs"

lemma spread_fresh: "distinct (map fst (kvs @ fs)) \<Longrightarrow> js_spread kvs fs = kvs @ fs"
proof (induction fs rule: rev_induct)
  case (snoc p fs)
  obtain k v where p: "p = (k, v)" by (cases p)
  then have "k \<notin> fst ` set (kvs @ fs)" using snoc.prems by auto
  with snoc p show ?case by (simp add: update_fresh)
qed simp

lemma js_request_fields:
  "fields_ok fs \<Longrightarrow> js_request i op fs = JObj ((asc ''id'', JNum (int i)) # (asc ''op'', JStr (asc op)) # fs)"
  by (simp add: js_request_def fields_ok_def spread_fresh)

lemma wf_js_request: "fields_ok fs \<Longrightarrow> wf_json (js_request i op fs)"
  by (auto simp: js_request_fields fields_ok_def dest: asc_scalar)

lemma unmarshal_dc: "fields_ok fs \<Longrightarrow> go_unmarshal (dc_bytes i op fs) = go_request_of (js_request i op fs)"
  by (simp add: go_unmarshal_def dc_bytes_def json_parse_stringify wf_js_request)

lemma relayed_ws: "fields_ok fs \<Longrightarrow> relayed (ws_bytes i op fs) = Some (go_marshal (js_request i op fs))"
proof -
  assume f: "fields_ok fs"
  let ?m = "JObj [(asc ''type'', JStr (asc ''relay'')), (asc ''data'', js_request i op fs)]"
  have "wf_json ?m" using wf_js_request [OF f] by (auto dest: asc_scalar)
  then have "json_parse (text_decode (ws_bytes i op fs)) = Some ?m"
    unfolding ws_bytes_def by (rule json_parse_stringify)
  then show ?thesis by (simp add: relayed_def is_type_def)
qed

lemma unmarshal_ws: "fields_ok fs \<Longrightarrow> go_unmarshal (go_marshal (js_request i op fs)) = go_request_of (js_request i op fs)"
  by (simp add: go_unmarshal_def json_parse_marshal wf_js_request)

text \<open>The identifier and the operation arrive, whatever the fields.\<close>

lemma request_of_id:
  assumes "fields_ok fs" "go_request_of (js_request i op fs) = Some r"
  shows "gr_id r = int i" "gr_op r = asc op"
  using assms(2)
  by (auto simp: js_request_fields [OF assms(1)] go_request_of_def go_fields_def bind_eq_Some_conv
      go_int_field_def [of _ "''id''"] go_text_field_def [of _ "''op''"] split: if_splits)

section \<open>Distinct identifiers\<close>

text \<open>A supply of identifiers for examples, in place of \<open>core.Token\<close>.\<close>

definition letters :: "nat \<Rightarrow> jstext" where
  "letters n = replicate (Suc n) 97"

lemma inj_letters: "inj letters"
  by (rule injI) (auto simp: letters_def dest: arg_cong [where f = length])

end
