(* ===== verification/Link_Spec.thy ===== *)
theory Link_Spec
  imports Link_Props
begin

text \<open>
  What a remote session is to its callers: a list of calls, each waiting, open, or done with an
  outcome it keeps. \<open>service_step\<close> is that specification; every callback of \<open>Link\<close>, with its channels,
  ids, timers and chunks, is some sequence of its steps.
\<close>

section \<open>The service\<close>

datatype call_state = Waiting | Open | Done outcome

inductive service_step :: "call_state list \<Rightarrow> call_state list \<Rightarrow> bool" where
  new_call: "service_step cs (cs @ [Waiting])"
| start: "i < length cs \<Longrightarrow> cs ! i = Waiting \<Longrightarrow> service_step cs (cs[i := Open])"
| finish: "i < length cs \<Longrightarrow> (\<forall>r. cs ! i \<noteq> Done r) \<Longrightarrow> service_step cs (cs[i := Done r])"

inductive_cases service_stepE: "service_step cs ds"

text \<open>An outcome is final.\<close>

lemma service_done: "service_step cs ds \<Longrightarrow> i < length cs \<Longrightarrow> cs ! i = Done r \<Longrightarrow> i < length ds \<and> ds ! i = Done r"
  by (erule service_stepE) (auto simp: nth_append nth_list_update)

lemma service_steps_done:
  "service_step\<^sup>*\<^sup>* cs ds \<Longrightarrow> i < length cs \<Longrightarrow> cs ! i = Done r \<Longrightarrow> i < length ds \<and> ds ! i = Done r"
  by (induction rule: rtranclp_induct) (auto dest: service_done)

text \<open>Lists of calls in which each has only moved forward are reachable.\<close>

fun later :: "call_state \<Rightarrow> call_state \<Rightarrow> bool" where
  "later Waiting t = True"
| "later Open t = (t \<noteq> Waiting)"
| "later (Done r) t = (t = Done r)"

lemma service_one: "later c d \<Longrightarrow> service_step\<^sup>*\<^sup>* (xs @ c # cs) (xs @ d # cs)"
proof -
  have up: "(xs @ c # cs)[length xs := e] = xs @ e # cs" "(xs @ c # cs) ! length xs = c" for e
    by simp_all
  assume "later c d"
  then consider "c = d" | "c = Waiting" "d = Open" | r where "\<forall>r. c \<noteq> Done r" "d = Done r"
    by (cases c; cases d) auto
  then show ?thesis
  proof cases
    case 2
    with start [of "length xs" "xs @ c # cs"] show ?thesis unfolding up by auto
  next
    case (3 r)
    with finish [of "length xs" "xs @ c # cs" r] show ?thesis unfolding up by auto
  qed simp
qed

lemma service_pointwise: "list_all2 later cs ds \<Longrightarrow> service_step\<^sup>*\<^sup>* (xs @ cs) (xs @ ds)"
proof (induction arbitrary: xs rule: list_all2_induct)
  case (Cons c cs d ds)
  have "service_step\<^sup>*\<^sup>* (xs @ c # cs) (xs @ d # cs)" by (rule service_one [OF Cons.hyps(1)])
  also have "service_step\<^sup>*\<^sup>* (xs @ d # cs) (xs @ d # ds)" using Cons.IH [of "xs @ [d]"] by simp
  finally show ?case .
qed simp

lemma service_calls: "service_step\<^sup>*\<^sup>* cs (cs @ replicate n Waiting)"
proof (induction n arbitrary: cs)
  case (Suc n)
  have "service_step\<^sup>*\<^sup>* cs (cs @ [Waiting])" using new_call by blast
  also have "service_step\<^sup>*\<^sup>* (cs @ [Waiting]) (cs @ replicate (Suc n) Waiting)" using Suc.IH [of "cs @ [Waiting]"] by simp
  finally show ?case .
qed simp

lemma service_reach:
  assumes "length cs \<le> length ds" "\<forall>i < length cs. later (cs ! i) (ds ! i)"
  shows "service_step\<^sup>*\<^sup>* cs ds"
proof -
  let ?ws = "replicate (length ds - length cs) Waiting"
  have "list_all2 later (cs @ ?ws) ds"
    using assms by (auto simp: list_all2_conv_all_nth nth_append)
  from rtranclp_trans [OF service_calls [of cs] service_pointwise [OF this, of "[]", simplified]] show ?thesis .
qed

section \<open>The session as a service\<close>

fun outcome_in :: "nat \<Rightarrow> 'f link_out list \<Rightarrow> outcome option" where
  "outcome_in c [] = None"
| "outcome_in c (OSettle d r # os) = (if d = c then Some r else outcome_in c os)"
| "outcome_in c (x # os) = outcome_in c os"

definition call_state :: "'f link \<Rightarrow> nat \<Rightarrow> call_state" where
  "call_state s c =
     (case outcome_in c (lk_out s) of
        Some r \<Rightarrow> Done r
      | None \<Rightarrow> if c \<in> snd ` set (lk_pending s) then Open else Waiting)"

definition service_of :: "'f link \<Rightarrow> call_state list" where
  "service_of s = map (call_state s) [0..<lk_calls s]"

lemma outcome_in_settled: "outcome_in c os = None \<longleftrightarrow> c \<notin> set (settled os)"
  by (induction c os rule: outcome_in.induct) auto

lemma outcome_in_append:
  "outcome_in c (os @ ps) = (case outcome_in c os of None \<Rightarrow> outcome_in c ps | Some r \<Rightarrow> Some r)"
  by (induction c os rule: outcome_in.induct) auto

section \<open>Callbacks only add\<close>

definition grows :: "'f link \<Rightarrow> 'f link \<Rightarrow> bool" where
  "grows s t \<longleftrightarrow>
     (\<exists>os. lk_out t = lk_out s @ os) \<and> lk_calls s \<le> lk_calls t
     \<and> (\<forall>c \<in> fst ` set (lk_waiting t). c \<in> fst ` set (lk_waiting s) \<or> lk_calls s \<le> c)"

lemma grows_refl [simp]: "grows s s"
  by (simp add: grows_def)

lemma grows_trans: "grows s t \<Longrightarrow> grows t u \<Longrightarrow> grows s u"
  unfolding grows_def by (metis append_assoc order_trans)

lemma grows_parts [simp]: "grows s (s\<lparr>lk_parts := ps\<rparr>)" "grows s (emit os s)" "grows s (lk_close e s)" "grows s (lk_fail e s)"
  by (auto simp: grows_def step_defs)

lemma grows_fail: "grows s t \<Longrightarrow> grows s (lk_fail e t)"
  using grows_trans grows_parts(4) by blast

lemma grows_accept_chunk: "accept_chunk s m = (t, r) \<Longrightarrow> grows s t"
proof -
  have g: "grows s (s\<lparr>lk_serial := n, lk_parts := ps\<rparr>)" for n ps by (simp add: grows_def)
  assume "accept_chunk s m = (t, r)"
  with g grows_fail [OF g] show ?thesis
    by (auto simp: accept_chunk_def Let_def split: option.splits if_splits)
qed

lemma grows_accept_result: "grows s (accept_result s m)"
  by (auto simp: accept_result_def emit_def grows_def split: option.split)

text \<open>A relation that composes and that the parts of \<open>receive\<close> keep is kept by \<open>receive\<close>.\<close>

lemma receive_keeps:
  assumes "\<And>s. R s s" "\<And>s t u. R s t \<Longrightarrow> R t u \<Longrightarrow> R s u"
    and "\<And>s m t r. accept_chunk s m = (t, r) \<Longrightarrow> R s t" "\<And>s m. R s (accept_result s m)"
    and "\<And>s m. R s (emit [OEvent m] s)"
  shows "R s (fst (receive cb s m))"
proof (induction cb s m rule: receive.induct)
  case (1 cb s m)
  show ?case
  proof (cases "m \<noteq> JNull \<and> is_type m ''chunk''")
    case True
    obtain t r where a: "accept_chunk s m = (t, r)" by (cases "accept_chunk s m")
    with True "1.IH" assms(3) [OF a] show ?thesis
      by (cases r) (auto simp: receive.simps [of cb s m] split: option.split intro: assms(2))
  next
    case False
    with assms(1,4,5) show ?thesis by (auto simp: receive.simps [of cb s m])
  qed
qed

lemma grows_receive: "grows s (fst (receive cb s m))"
  by (rule receive_keeps) (auto intro: grows_trans grows_accept_chunk grows_accept_result)

lemma grows_step: "grows s (link_step cb s e)"
proof -
  have r: "grows s t" if "receive cb s d = (t, x)" for d t x
    using that grows_receive [of s cb d] by simp
  then have "grows s (on_ws_text cb t s)" and "grows s (on_dc_text cb t s)" for t
    using grows_receive [of s cb]
    by (auto simp: on_ws_text_def on_dc_text_def intro: grows_fail split: option.split prod.split)
  moreover have "grows s (lk_resume b s)" for b
    by (auto simp: step_defs grows_def Let_def split: list.split ready.split ws_state.split)
  ultimately show ?thesis
    by (cases e) (auto simp: step_defs Let_def grows_def split: option.split)
qed

section \<open>Refinement\<close>

text \<open>Where a call is decides its state, since it is in one place.\<close>

lemma call_place:
  assumes "link_inv s" "c < lk_calls s"
  shows "c \<in> set (settled (lk_out s)) \<or> c \<in> snd ` set (lk_pending s) \<or> c \<in> fst ` set (lk_waiting s)"
    and "c \<in> snd ` set (lk_pending s) \<Longrightarrow> c \<notin> fst ` set (lk_waiting s)"
proof -
  have p: "mset (settled (lk_out s)) + mset (map snd (lk_pending s)) + mset (map fst (lk_waiting s)) = mset [0..<lk_calls s]"
    using assms(1) by (simp add: inv_defs)
  from arg_cong [OF p, of set_mset] assms(2)
  show "c \<in> set (settled (lk_out s)) \<or> c \<in> snd ` set (lk_pending s) \<or> c \<in> fst ` set (lk_waiting s)"
    by auto
  have "distinct (settled (lk_out s) @ map snd (lk_pending s) @ map fst (lk_waiting s))"
    using p by (metis distinct_upt mset_append mset_eq_imp_distinct_iff union_assoc)
  then show "c \<in> snd ` set (lk_pending s) \<Longrightarrow> c \<notin> fst ` set (lk_waiting s)" by auto
qed

lemma call_moves_on:
  assumes "link_inv s" "link_inv t" "grows s t" "c < lk_calls s"
  shows "later (call_state s c) (call_state t c)"
proof (cases "call_state s c")
  case Open
  then have o: "c \<in> snd ` set (lk_pending s)" by (auto simp: call_state_def split: option.splits if_splits)
  moreover have "\<forall>c \<in> fst ` set (lk_waiting t). c \<in> fst ` set (lk_waiting s) \<or> lk_calls s \<le> c"
    using assms(3) unfolding grows_def by blast
  ultimately have "c \<notin> fst ` set (lk_waiting t)"
    using call_place(2) [OF assms(1,4)] assms(4) by (meson leD)
  then have "c \<in> set (settled (lk_out t)) \<or> c \<in> snd ` set (lk_pending t)"
    using call_place(1) [OF assms(2), of c] assms(3,4) by (auto simp: grows_def)
  then have "call_state t c \<noteq> Waiting"
    using outcome_in_settled [of c "lk_out t"] by (auto simp: call_state_def split: option.split)
  with Open show ?thesis by simp
next
  case (Done r)
  then have "outcome_in c (lk_out s) = Some r" by (auto simp: call_state_def split: option.splits if_splits)
  then have "outcome_in c (lk_out t) = Some r" using assms(3) by (auto simp: grows_def outcome_in_append)
  with Done show ?thesis by (simp add: call_state_def)
qed simp

lemma grows_service:
  assumes "link_inv s" "link_inv t" "grows s t"
  shows "service_step\<^sup>*\<^sup>* (service_of s) (service_of t)"
proof (rule service_reach)
  show "length (service_of s) \<le> length (service_of t)" using assms(3) by (simp add: service_of_def grows_def)
  with call_moves_on [OF assms] show "\<forall>i < length (service_of s). later (service_of s ! i) (service_of t ! i)"
    by (simp add: service_of_def)
qed

lemma link_step_service:
  "link_inv s \<Longrightarrow> service_step\<^sup>*\<^sup>* (service_of s) (service_of (link_step cb s e))"
  by (rule grows_service [OF _ link_inv_step grows_step])

lemma link_run_service: "link_inv s \<Longrightarrow> service_step\<^sup>*\<^sup>* (service_of s) (service_of (link_run cb s es))"
proof (induction es arbitrary: s)
  case (Cons e es)
  show ?case unfolding run_Cons
    by (rule rtranclp_trans [OF link_step_service [OF Cons.prems] Cons.IH [OF link_inv_step [OF Cons.prems]]])
qed simp

text \<open>
  C6: the session refines the service its callers see: it starts with no calls, and whatever happens
  next (a message, a timer, a switch of the channel, a failure) is a sequence of steps of the
  specification: calls are added, an open one may finish, and no call is ever taken back.
\<close>

theorem link_refines_service:
  "service_of link_init = []
   \<and> service_step\<^sup>*\<^sup>* (service_of (link_run cb link_init es)) (service_of (link_run cb link_init (es @ [e])))"
proof -
  have "service_of link_init = []" by (simp add: service_of_def link_init_def)
  moreover have "service_step\<^sup>*\<^sup>* (service_of (link_run cb link_init es)) (service_of (link_step cb (link_run cb link_init es) e))"
    by (rule link_step_service [OF link_run_inv])
  ultimately show ?thesis by simp
qed

text \<open>
  The outcome of a call is final: the result or the error a caller got is never revised, however
  the session goes on.
\<close>

theorem outcome_is_final:
  assumes "s = link_run cb link_init es" "c < lk_calls s" "call_state s c = Done r"
  shows "call_state (link_run cb s fs) c = Done r"
proof -
  have "service_step\<^sup>*\<^sup>* (service_of s) (service_of (link_run cb s fs))"
    using assms(1) link_run_inv link_run_service by blast
  from service_steps_done [OF this, of c r] assms(2,3) show ?thesis by (auto simp: service_of_def)
qed

theorem outcome_is_final_witness:
  "call_state (link_run (\<lambda>m. None) (link_init :: unit link)
     ([ECall ''list'' (), EWsError, EResume True] @ [EWsClose, EClose])) 0 = Done (Inl WsFailedErr)"
proof -
  let ?s = "link_run (\<lambda>m. None) (link_init :: unit link) [ECall ''list'' (), EWsError, EResume True]"
  have "0 < lk_calls ?s" "call_state ?s 0 = Done (Inl WsFailedErr)"
    by (simp_all add: link_init_def step_defs call_state_def)
  from outcome_is_final [OF refl this, of "[EWsClose, EClose]"] show ?thesis by simp
qed

end
