(* ===== verification/Go_Session.thy ===== *)
theory Go_Session
  imports Prelude
begin

text \<open>
  The receiving half of a session on the device, \<open>internal/remote/session.go\<close>: the data channel's
  \<open>OnMessage\<close>, \<open>Relay\<close>, \<open>accept\<close> with its bounded queue, and the loop \<open>run\<close>. The callbacks and the loop
  are goroutines: what a callback still has to accept is in \<open>ss_flight\<close>, and a step is what happens
  between two points where another one can run. Where \<open>select\<close> finds several cases ready it takes any of
  them: the event says which. \<open>decode\<close> is \<open>json.Unmarshal\<close> into a \<open>Request\<close>; what \<open>handle\<close> returns is
  an argument of the event.
\<close>

section \<open>State\<close>

datatype 'r run_loop = RunWait | RunHandle 'r | RunOver

datatype ('r, 'v) session_out = SsAccepted "byte list" | SsTaken "byte list" | SsHandled 'r | SsAnswer 'r 'v

record ('r, 'v) gos =
  ss_relay :: bool
  ss_cancelled :: bool
  ss_flight :: "byte list list"
  ss_queue :: "byte list list"
  ss_loop :: "'r run_loop"
  ss_out :: "('r, 'v) session_out list"

definition session_init :: "('r, 'v) gos" where
  "session_init =
     \<lparr>ss_relay = False, ss_cancelled = False, ss_flight = [], ss_queue = [], ss_loop = RunWait, ss_out = []\<rparr>"

definition accept_limit :: nat where
  "accept_limit = 65536"

definition session_queue :: nat where
  "session_queue = 64"

definition ss_emit :: "('r, 'v) session_out list \<Rightarrow> ('r, 'v) gos \<Rightarrow> ('r, 'v) gos" where
  "ss_emit os s = s\<lparr>ss_out := ss_out s @ os\<rparr>"

section \<open>Accepting\<close>

text \<open>\<open>OnMessage\<close>: once the session is relayed, the data channel is ignored.\<close>

definition on_dc_message :: "byte list \<Rightarrow> ('r, 'v) gos \<Rightarrow> ('r, 'v) gos" where
  "on_dc_message d s = (if ss_relay s then s else s\<lparr>ss_flight := ss_flight s @ [d]\<rparr>)"

definition relay_data :: "byte list \<Rightarrow> ('r, 'v) gos \<Rightarrow> ('r, 'v) gos" where
  "relay_data d s = s\<lparr>ss_relay := True, ss_flight := ss_flight s @ [d]\<rparr>"

text \<open>\<open>other\<close>: the select takes \<open>ctx.Done()\<close> where the queue has room as well.\<close>

definition accept_data :: "bool \<Rightarrow> byte list \<Rightarrow> ('r, 'v) gos \<Rightarrow> ('r, 'v) gos" where
  "accept_data other d s =
     (if accept_limit < length d then s\<lparr>ss_cancelled := True\<rparr>
      else if length (ss_queue s) < session_queue then
        (if ss_cancelled s \<and> other then s else ss_emit [SsAccepted d] (s\<lparr>ss_queue := ss_queue s @ [d]\<rparr>))
      else s\<lparr>ss_cancelled := True\<rparr>)"

definition accept_flight :: "nat \<Rightarrow> bool \<Rightarrow> ('r, 'v) gos \<Rightarrow> ('r, 'v) gos" where
  "accept_flight k other s =
     (if k < length (ss_flight s)
      then accept_data other (ss_flight s ! k) (s\<lparr>ss_flight := take k (ss_flight s) @ drop (Suc k) (ss_flight s)\<rparr>)
      else s)"

section \<open>The loop\<close>

definition run_next :: "(byte list \<Rightarrow> 'r option) \<Rightarrow> bool \<Rightarrow> ('r, 'v) gos \<Rightarrow> ('r, 'v) gos" where
  "run_next decode other s =
     (case ss_loop s of
        RunWait \<Rightarrow>
          (if ss_cancelled s \<and> (ss_queue s = [] \<or> other) then s\<lparr>ss_loop := RunOver\<rparr>
           else case ss_queue s of
                  [] \<Rightarrow> s
                | b # bs \<Rightarrow>
                    let s1 = ss_emit [SsTaken b] (s\<lparr>ss_queue := bs\<rparr>)
                    in case decode b of
                         None \<Rightarrow> s1\<lparr>ss_cancelled := True, ss_loop := RunOver\<rparr>
                       | Some r \<Rightarrow> ss_emit [SsHandled r] (s1\<lparr>ss_loop := RunHandle r\<rparr>))
      | _ \<Rightarrow> s)"

text \<open>\<open>handle\<close> has returned and \<open>send\<close> has sent the response, or failed.\<close>

definition run_answer :: "'v \<Rightarrow> bool \<Rightarrow> ('r, 'v) gos \<Rightarrow> ('r, 'v) gos" where
  "run_answer v sent s =
     (case ss_loop s of
        RunHandle r \<Rightarrow>
          if sent then ss_emit [SsAnswer r v] (s\<lparr>ss_loop := RunWait\<rparr>)
          else s\<lparr>ss_cancelled := True, ss_loop := RunOver\<rparr>
      | _ \<Rightarrow> s)"

datatype 'v session_event =
    SsDc "byte list" | SsRelay "byte list" | SsAccept nat bool | SsCancel | SsNext bool | SsReturn 'v bool

fun session_step :: "(byte list \<Rightarrow> 'r option) \<Rightarrow> ('r, 'v) gos \<Rightarrow> 'v session_event \<Rightarrow> ('r, 'v) gos" where
  "session_step decode s (SsDc d) = on_dc_message d s"
| "session_step decode s (SsRelay d) = relay_data d s"
| "session_step decode s (SsAccept k other) = accept_flight k other s"
| "session_step decode s SsCancel = s\<lparr>ss_cancelled := True\<rparr>"
| "session_step decode s (SsNext other) = run_next decode other s"
| "session_step decode s (SsReturn v sent) = run_answer v sent s"

abbreviation "session_run decode \<equiv> run (session_step decode)"

section \<open>The invariant\<close>

fun accepted_in :: "('r, 'v) session_out \<Rightarrow> byte list list" where
  "accepted_in (SsAccepted b) = [b]" | "accepted_in _ = []"

fun taken_in :: "('r, 'v) session_out \<Rightarrow> byte list list" where
  "taken_in (SsTaken b) = [b]" | "taken_in _ = []"

fun handled_in :: "('r, 'v) session_out \<Rightarrow> 'r list" where
  "handled_in (SsHandled r) = [r]" | "handled_in _ = []"

fun answered_in :: "('r, 'v) session_out \<Rightarrow> 'r list" where
  "answered_in (SsAnswer r v) = [r]" | "answered_in _ = []"

definition log_of :: "(('r, 'v) session_out \<Rightarrow> 'a list) \<Rightarrow> ('r, 'v) gos \<Rightarrow> 'a list" where
  "log_of f s = concat (map f (ss_out s))"

text \<open>What is handled is what the messages taken decode to, but for a last one that does not decode.\<close>

definition session_inv :: "(byte list \<Rightarrow> 'r option) \<Rightarrow> ('r, 'v) gos \<Rightarrow> bool" where
  "session_inv decode s \<longleftrightarrow>
     log_of accepted_in s = log_of taken_in s @ ss_queue s
     \<and> length (ss_queue s) \<le> session_queue \<and> (\<forall>b \<in> set (log_of accepted_in s). length b \<le> accept_limit)
     \<and> (case ss_loop s of
          RunWait \<Rightarrow> map decode (log_of taken_in s) = map Some (log_of handled_in s)
                     \<and> log_of handled_in s = log_of answered_in s
        | RunHandle r \<Rightarrow> map decode (log_of taken_in s) = map Some (log_of handled_in s)
                     \<and> log_of handled_in s = log_of answered_in s @ [r]
        | RunOver \<Rightarrow> ss_cancelled s
                     \<and> (\<exists>bs. length bs \<le> 1 \<and> map decode (log_of taken_in s) = map Some (log_of handled_in s) @ bs)
                     \<and> (\<exists>rs. length rs \<le> 1 \<and> log_of handled_in s = log_of answered_in s @ rs))"

lemma log_emit [simp]: "log_of f (ss_emit os s) = log_of f s @ concat (map f os)"
  by (simp add: log_of_def ss_emit_def)

lemma log_frame [simp]:
  "log_of f (s\<lparr>ss_relay := r\<rparr>) = log_of f s" "log_of f (s\<lparr>ss_cancelled := c\<rparr>) = log_of f s"
  "log_of f (s\<lparr>ss_flight := d\<rparr>) = log_of f s" "log_of f (s\<lparr>ss_queue := d\<rparr>) = log_of f s"
  "log_of f (s\<lparr>ss_loop := l\<rparr>) = log_of f s"
  by (simp_all add: log_of_def)

lemma emit_frame [simp]:
  "ss_queue (ss_emit os s) = ss_queue s" "ss_loop (ss_emit os s) = ss_loop s"
  "ss_cancelled (ss_emit os s) = ss_cancelled s"
  by (simp_all add: ss_emit_def)

lemma session_inv_init: "session_inv decode session_init"
  by (simp add: session_inv_def session_init_def log_of_def)

lemma inv_accept_data: "session_inv decode s \<Longrightarrow> session_inv decode (accept_data other d s)"
  by (auto simp: session_inv_def accept_data_def split: run_loop.splits)

lemma inv_flight [simp]: "session_inv decode (s\<lparr>ss_flight := d\<rparr>) = session_inv decode s"
  by (cases "ss_loop s") (simp_all add: session_inv_def)

lemma inv_accept_flight: "session_inv decode s \<Longrightarrow> session_inv decode (accept_flight k other s)"
  by (simp add: accept_flight_def inv_accept_data)

lemma inv_run_next: "session_inv decode s \<Longrightarrow> session_inv decode (run_next decode other s)"
proof (cases "ss_loop s = RunWait \<and> \<not> (ss_cancelled s \<and> (ss_queue s = [] \<or> other)) \<and> ss_queue s \<noteq> []")
  case True
  then obtain b bs where q: "ss_queue s = b # bs" by (cases "ss_queue s") auto
  assume i: "session_inv decode s"
  then have d: "map decode (log_of taken_in s) = map Some (log_of handled_in s)" "log_of handled_in s = log_of answered_in s"
    using True by (simp_all add: session_inv_def)
  show ?thesis
  proof (cases "decode b")
    case None
    with True q i d show ?thesis by (auto simp: session_inv_def run_next_def Let_def)
  next
    case (Some r)
    with True q i d show ?thesis by (simp add: session_inv_def run_next_def Let_def)
  qed
next
  case False
  assume i: "session_inv decode s"
  with False show ?thesis
    by (cases "ss_loop s") (auto simp: session_inv_def run_next_def split: list.split)
qed

lemma inv_run_answer: "session_inv decode s \<Longrightarrow> session_inv decode (run_answer v sent s)"
  by (cases "ss_loop s") (auto simp: session_inv_def run_answer_def)

lemma session_inv_step: "session_inv decode s \<Longrightarrow> session_inv decode (session_step decode s e)"
proof (cases e)
  case (SsAccept k other)
  assume "session_inv decode s"
  with SsAccept show ?thesis by (simp add: inv_accept_flight)
next
  case (SsNext other)
  assume "session_inv decode s"
  with SsNext show ?thesis by (simp add: inv_run_next)
next
  case (SsReturn v sent)
  assume "session_inv decode s"
  with SsReturn show ?thesis by (simp add: inv_run_answer)
qed (auto simp: session_inv_def on_dc_message_def relay_data_def split: run_loop.splits)

interpretation session_sys: event_system "session_step decode" "session_inv decode" for decode
  by unfold_locales (rule session_inv_step)

text \<open>A finished loop handles nothing any more.\<close>

lemma over_step:
  "ss_loop s = RunOver \<Longrightarrow> ss_loop (session_step decode s e) = RunOver
     \<and> log_of handled_in (session_step decode s e) = log_of handled_in s"
  by (cases e) (auto simp: on_dc_message_def relay_data_def accept_flight_def accept_data_def run_next_def run_answer_def)

interpretation session_end:
  quiet_system "session_step decode" "\<lambda>s. True" "\<lambda>s. ss_loop s = RunOver" "log_of handled_in" for decode
  by unfold_locales (simp_all add: over_step)

section \<open>Properties\<close>

text \<open>
  C22: the device answers in order and within bounds: the requests handled are, in order, what the
  messages accepted decode to; each is answered before the next is taken; no message above 64 KiB is
  ever accepted and at most 64 wait. Once the loop has ended nothing is handled.
\<close>

theorem session_answers_in_order:
  "let s = session_run decode session_init es
   in (\<exists>rest. map decode (log_of accepted_in s) = map Some (log_of handled_in s) @ rest)
      \<and> (\<exists>last. length last \<le> 1 \<and> log_of handled_in s = log_of answered_in s @ last)
      \<and> length (ss_queue s) \<le> 64 \<and> (\<forall>b \<in> set (log_of accepted_in s). length b \<le> 65536)
      \<and> (ss_loop s = RunOver \<longrightarrow> log_of handled_in (session_run decode s fs) = log_of handled_in s)"
proof -
  let ?s = "session_run decode session_init es"
  have i: "session_inv decode ?s" by (rule session_sys.run_inv [OF session_inv_init])
  then have "\<exists>bs. map decode (log_of taken_in ?s) = map Some (log_of handled_in ?s) @ bs"
    "\<exists>rs. length rs \<le> 1 \<and> log_of handled_in ?s = log_of answered_in ?s @ rs"
    by (cases "ss_loop ?s"; auto simp: session_inv_def)+
  moreover have "ss_loop ?s = RunOver \<longrightarrow> log_of handled_in (session_run decode ?s fs) = log_of handled_in ?s"
    using session_end.run_quiet [of ?s decode fs] by simp
  moreover have "log_of accepted_in ?s = log_of taken_in ?s @ ss_queue ?s" "length (ss_queue ?s) \<le> session_queue"
    "\<forall>b \<in> set (log_of accepted_in ?s). length b \<le> accept_limit"
    using i by (simp_all add: session_inv_def)
  ultimately show ?thesis
    unfolding Let_def session_queue_def accept_limit_def by auto
qed

theorem session_answers_in_order_witness:
  "let s = session_run (\<lambda>b. if b = [] then None else Some (hd b)) session_init
             [SsDc [1], SsDc [2], SsAccept 0 False, SsAccept 0 False, SsNext False, SsReturn True True, SsNext False]
   in log_of handled_in s = [1, 2] \<and> log_of answered_in s = [1] \<and> length (ss_queue s) \<le> 64"
proof -
  let ?es = "[SsDc [1], SsDc [2], SsAccept 0 False, SsAccept 0 False, SsNext False, SsReturn True True, SsNext False]"
  let ?s = "session_run (\<lambda>b :: byte list. if b = [] then None else Some (hd b)) session_init ?es"
  have "log_of handled_in ?s = [1, 2]" "log_of answered_in ?s = [1]"
    by (simp_all add: session_init_def on_dc_message_def accept_flight_def accept_data_def accept_limit_def
        session_queue_def run_next_def run_answer_def ss_emit_def log_of_def Let_def)
  moreover have "length (ss_queue ?s) \<le> 64"
    using session_answers_in_order [of "\<lambda>b :: byte list. if b = [] then None else Some (hd b)" ?es] unfolding Let_def by blast
  ultimately show ?thesis unfolding Let_def by blast
qed

end
