(* ===== verification/Rpc.thy ===== *)
theory Rpc
  imports Wire Link_Spec Go_Session
begin

text \<open>
  The two ends of a session together: the browser's \<open>Link\<close>, the device's \<open>Session\<close>, and what is in
  transit between them over the data channel and over the relay. Each path delivers in order; which of
  them moves next, and every timer, failure and switch of path, is an event.

  A frame in transit is recorded as the message it belongs to, the clock of that message (the key of its
  chunks) and the position of its piece; \<open>frame_value\<close> is what is marshalled for it. The clock of
  a message is larger, as a double, than that of the messages before it: \<open>time.Now().UnixNano()\<close> is read
  under the lock of \<open>send\<close>, and sending a chunked message takes longer than the 256 ns that separate
  two doubles of that size.
\<close>

section \<open>Frames\<close>

type_synonym frame = "int \<times> json \<times> nat"

definition big :: "json \<Rightarrow> bool" where
  "big v \<longleftrightarrow> 40000 < length (go_marshal v)"

definition frame_value :: "frame \<Rightarrow> json" where
  "frame_value fr =
     (case fr of (cid, v, pos) \<Rightarrow>
        if big v then
          chunk_msg cid (take 24000 (drop pos (go_marshal v))) (length (go_marshal v) \<le> pos + 24000)
        else v)"

text \<open>The frames \<open>send\<close> makes of a message.\<close>

function frames_from :: "int \<Rightarrow> json \<Rightarrow> nat \<Rightarrow> frame list" where
  "frames_from cid v pos =
     (if pos < length (go_marshal v) then (cid, v, pos) # frames_from cid v (pos + 24000) else [])"
  by pat_completeness auto
termination
  by (relation "measure (\<lambda>(cid, v, pos). length (go_marshal v) - pos)") auto

declare frames_from.simps [simp del]

definition frames_of :: "int \<Rightarrow> json \<Rightarrow> frame list" where
  "frames_of cid v = (if big v then frames_from cid v 0 else [(cid, v, 0)])"

section \<open>State\<close>

type_synonym dev_reply = "jstext + json"

record rpc =
  rp_link :: "fields link"
  rp_dev :: "(go_request, dev_reply) gos"
  rp_dc_up :: "byte list list"
  rp_ws_up :: "byte list list"
  rp_dc_down :: "frame list"
  rp_ws_down :: "frame list"
  rp_clock :: int
  rp_asked :: "(string \<times> fields) list"
  rp_returns :: "(go_request \<times> dev_reply) list"

text \<open>
  \<open>rp_asked\<close> are the calls made, by number; \<open>rp_returns\<close> what the device's handler returned, with the
  request it was given.
\<close>

definition rpc_init :: rpc where
  "rpc_init =
     \<lparr>rp_link = link_init, rp_dev = session_init, rp_dc_up = [], rp_ws_up = [], rp_dc_down = [],
      rp_ws_down = [], rp_clock = 0, rp_asked = [], rp_returns = []\<rparr>"

section \<open>The browser's side\<close>

text \<open>What the session sends in a step goes into transit.\<close>

fun dc_out :: "fields link_out \<Rightarrow> byte list list" where
  "dc_out (ODcSend i op fs) = [dc_bytes i op fs]" | "dc_out _ = []"

fun ws_out :: "fields link_out \<Rightarrow> byte list list" where
  "ws_out (OWsRelay i op fs) = (case relayed (ws_bytes i op fs) of None \<Rightarrow> [] | Some b \<Rightarrow> [b])" | "ws_out _ = []"

definition asked_in :: "fields link_event \<Rightarrow> (string \<times> fields) list" where
  "asked_in e = (case e of ECall op fs \<Rightarrow> [(op, fs)] | _ \<Rightarrow> [])"

definition link_moves :: "(json \<Rightarrow> link_err option) \<Rightarrow> fields link_event \<Rightarrow> rpc \<Rightarrow> rpc" where
  "link_moves cb e s =
     (let l = link_step cb (rp_link s) e;
          os = drop (length (lk_out (rp_link s))) (lk_out l)
      in s\<lparr>rp_link := l, rp_dc_up := rp_dc_up s @ concat (map dc_out os),
           rp_ws_up := rp_ws_up s @ concat (map ws_out os),
           rp_asked := rp_asked s @ asked_in e\<rparr>)"

text \<open>
  A text from the server other than the device's: an answer, an error, a \<open>pong\<close>. Texts of the device
  arrive by \<open>rpc_dc_down\<close> and \<open>rpc_ws_down\<close> only.
\<close>

definition signal_text :: "jstext \<Rightarrow> bool" where
  "signal_text t \<longleftrightarrow> (case json_parse t of None \<Rightarrow> False | Some m \<Rightarrow> \<not> is_type m ''relay'')"

definition own_event :: "fields link_event \<Rightarrow> bool" where
  "own_event e \<longleftrightarrow> (case e of EDcText t \<Rightarrow> False | EWsText t \<Rightarrow> signal_text t | _ \<Rightarrow> True)"

section \<open>The device's side\<close>

definition dev_moves :: "dev_reply session_event \<Rightarrow> rpc \<Rightarrow> rpc" where
  "dev_moves e s = s\<lparr>rp_dev := session_step go_unmarshal (rp_dev s) e\<rparr>"

text \<open>
  \<open>send\<close>: the first \<open>nd\<close> frames find the data channel open and the session not relayed, the next \<open>nw\<close>
  go to the relay; if these are not all, \<open>sendBytes\<close> failed.
\<close>

definition push_frames :: "int \<Rightarrow> json \<Rightarrow> nat \<Rightarrow> nat \<Rightarrow> rpc \<Rightarrow> rpc" where
  "push_frames cid v nd nw s =
     s\<lparr>rp_clock := js_double cid,
       rp_dc_down := rp_dc_down s @ take nd (frames_of cid v),
       rp_ws_down := rp_ws_down s @ take nw (drop nd (frames_of cid v))\<rparr>"

text \<open>\<open>json.Marshal\<close> writes well-formed values only.\<close>

fun reply_ok :: "dev_reply \<Rightarrow> bool" where
  "reply_ok (Inl e) = (\<forall>c \<in> set e. scalar c)"
| "reply_ok (Inr v) = wf_json v"

text \<open>The handler returns \<open>v\<close> for the request in hand and \<open>run\<close> sends the response.\<close>

definition dev_returns :: "dev_reply \<Rightarrow> int \<Rightarrow> nat \<Rightarrow> nat \<Rightarrow> rpc \<Rightarrow> rpc" where
  "dev_returns v cid nd nw s =
     (case ss_loop (rp_dev s) of
        RunHandle r \<Rightarrow>
          if reply_ok v \<and> rp_clock s < js_double cid then
            let m = go_response (gr_id r) v
            in push_frames cid m nd nw
                 (s\<lparr>rp_dev := session_step go_unmarshal (rp_dev s) (SsReturn v (length (frames_of cid m) \<le> nd + nw)),
                    rp_returns := rp_returns s @ [(r, v)]\<rparr>)
          else s
      | _ \<Rightarrow> s)"

text \<open>What else the device sends: the output of a terminal and its end.\<close>

definition event_msg :: "json \<Rightarrow> bool" where
  "event_msg m \<longleftrightarrow> wf_json m \<and> (is_type m ''terminal'' \<or> is_type m ''terminalEnd'')"

definition dev_sends :: "json \<Rightarrow> int \<Rightarrow> nat \<Rightarrow> nat \<Rightarrow> rpc \<Rightarrow> rpc" where
  "dev_sends m cid nd nw s =
     (if event_msg m \<and> rp_clock s < js_double cid then push_frames cid m nd nw s else s)"

section \<open>Transit\<close>

definition rpc_dc_up :: "rpc \<Rightarrow> rpc" where
  "rpc_dc_up s =
     (case rp_dc_up s of
        [] \<Rightarrow> s
      | b # bs \<Rightarrow> dev_moves (SsDc b) (s\<lparr>rp_dc_up := bs\<rparr>))"

definition rpc_ws_up :: "rpc \<Rightarrow> rpc" where
  "rpc_ws_up s =
     (case rp_ws_up s of
        [] \<Rightarrow> s
      | b # bs \<Rightarrow> dev_moves (SsRelay b) (s\<lparr>rp_ws_up := bs\<rparr>))"

text \<open>A frame arrives when its path is open in the browser; \<open>sid\<close> is the session's identifier.\<close>

definition rpc_dc_down :: "(json \<Rightarrow> link_err option) \<Rightarrow> rpc \<Rightarrow> rpc" where
  "rpc_dc_down cb s =
     (case rp_dc_down s of
        fr # q \<Rightarrow>
          if open_for ViaDc (rp_link s)
          then link_moves cb (deliver ViaDc (frame_value fr)) (s\<lparr>rp_dc_down := q\<rparr>) else s
      | [] \<Rightarrow> s)"

definition rpc_ws_down :: "(json \<Rightarrow> link_err option) \<Rightarrow> jstext \<Rightarrow> rpc \<Rightarrow> rpc" where
  "rpc_ws_down cb sid s =
     (case rp_ws_down s of
        fr # q \<Rightarrow>
          if open_for (ViaRelay sid) (rp_link s)
          then link_moves cb (deliver (ViaRelay sid) (frame_value fr)) (s\<lparr>rp_ws_down := q\<rparr>) else s
      | [] \<Rightarrow> s)"

datatype rpc_event =
    RpLink "fields link_event" | RpDev "dev_reply session_event"
  | RpReturn dev_reply int nat nat | RpSend json int nat nat
  | RpDcUp | RpWsUp | RpDcDown | RpWsDown jstext

text \<open>The device's own events: accepting, the next message, the end of its context.\<close>

definition dev_event :: "dev_reply session_event \<Rightarrow> bool" where
  "dev_event e \<longleftrightarrow> (case e of SsAccept k other \<Rightarrow> True | SsCancel \<Rightarrow> True | SsNext other \<Rightarrow> True | _ \<Rightarrow> False)"

fun rpc_step :: "(json \<Rightarrow> link_err option) \<Rightarrow> rpc \<Rightarrow> rpc_event \<Rightarrow> rpc" where
  "rpc_step cb s (RpLink e) = (if own_event e then link_moves cb e s else s)"
| "rpc_step cb s (RpDev e) = (if dev_event e then dev_moves e s else s)"
| "rpc_step cb s (RpReturn v cid nd nw) = dev_returns v cid nd nw s"
| "rpc_step cb s (RpSend m cid nd nw) = dev_sends m cid nd nw s"
| "rpc_step cb s RpDcUp = rpc_dc_up s"
| "rpc_step cb s RpWsUp = rpc_ws_up s"
| "rpc_step cb s RpDcDown = rpc_dc_down cb s"
| "rpc_step cb s (RpWsDown sid) = rpc_ws_down cb sid s"

abbreviation "rpc_run cb \<equiv> run (rpc_step cb)"

section \<open>What a step of the session sends and settles\<close>

text \<open>The requests sent, the results callers got, and that a session's identifiers number its calls.\<close>

fun sent_in :: "fields link_out \<Rightarrow> (nat \<times> string \<times> fields) list" where
  "sent_in (ODcSend i op fs) = [(i, op, fs)]" | "sent_in (OWsRelay i op fs) = [(i, op, fs)]" | "sent_in _ = []"

fun result_in :: "'f link_out \<Rightarrow> (nat \<times> json option) list" where
  "result_in (OSettle c (Inr x)) = [(c, x)]" | "result_in _ = []"

definition sends :: "fields link_out list \<Rightarrow> (nat \<times> string \<times> fields) list" where
  "sends os = concat (map sent_in os)"

definition results :: "'f link_out list \<Rightarrow> (nat \<times> json option) list" where
  "results os = concat (map result_in os)"

lemma sends_simps [simp]: "sends [] = []" "sends (os @ ps) = sends os @ sends ps" "sends (x # os) = sent_in x @ sends os"
  by (simp_all add: sends_def)

lemma results_simps [simp]:
  "results [] = []" "results (os @ ps) = results os @ results ps" "results (x # os) = result_in x @ results os"
  by (simp_all add: results_def)

lemma sends_status [simp]: "sends (map (OStatus \<circ> f) rs) = []" "sends (map (\<lambda>x. OStatus (f x)) rs) = []"
  by (induction rs) simp_all

lemma results_status [simp]: "results (map (OStatus \<circ> f) rs) = []" "results (map (\<lambda>x. OStatus (f x)) rs) = []"
  by (induction rs) simp_all

lemma rejects_simps [simp]:
  "sends (map (\<lambda>(i, c). OSettle c (Inl e)) ps) = []" "results (map (\<lambda>(i, c). OSettle c (Inl e)) ps) = []"
  by (induction ps) auto

lemma in_result: "(c, x) \<in> set (result_in y) \<longleftrightarrow> y = OSettle c (Inr x)"
proof (cases y)
  case (OSettle d r)
  then show ?thesis by (cases r) auto
qed simp_all

lemma in_results: "(c, x) \<in> set (results os) \<longleftrightarrow> OSettle c (Inr x) \<in> set os"
  by (induction os) (auto simp: in_result)

definition link_ids :: "(string \<times> fields) list \<Rightarrow> fields link \<Rightarrow> bool" where
  "link_ids asked l \<longleftrightarrow>
     lk_calls l = length asked \<and> lk_seq l \<le> lk_calls l \<and> (\<forall>(i, c) \<in> set (lk_pending l). i = Suc c)
     \<and> (\<forall>(c, op, fs) \<in> set (lk_waiting l). c < length asked \<and> asked ! c = (op, fs))
     \<and> (\<not> lk_closed l \<longrightarrow> (\<forall>e. lk_ready l \<noteq> RErr e) \<and> map fst (lk_waiting l) = [lk_seq l..<lk_calls l])"

text \<open>A step that makes and starts no call.\<close>

definition keeps :: "fields link \<Rightarrow> fields link \<Rightarrow> bool" where
  "keeps l m \<longleftrightarrow>
     lk_seq m = lk_seq l \<and> lk_calls m = lk_calls l \<and> lk_waiting m = lk_waiting l
     \<and> set (lk_pending m) \<subseteq> set (lk_pending l) \<and> (lk_closed l \<longrightarrow> lk_closed m)
     \<and> (\<not> lk_closed m \<longrightarrow> lk_ready m = lk_ready l \<or> lk_ready m = ROk)
     \<and> sends (lk_out m) = sends (lk_out l)"

lemma keeps_refl [simp]: "keeps l l"
  by (simp add: keeps_def)

lemma keeps_trans: "keeps l m \<Longrightarrow> keeps m n \<Longrightarrow> keeps l n"
  by (auto simp: keeps_def)

lemma keeps_ids: "keeps l m \<Longrightarrow> link_ids asked l \<Longrightarrow> link_ids asked m"
  unfolding keeps_def link_ids_def by (cases "lk_ready m") auto

lemma keeps_emit: "sends os = [] \<Longrightarrow> keeps l (emit os l)"
  by (simp add: keeps_def emit_def)

lemma keeps_fail [simp]: "keeps l (lk_fail e l)"
  by (auto simp: keeps_def step_defs)

lemma keeps_result [simp]: "keeps l (accept_result l m)"
  by (auto simp: keeps_def step_defs AList.delete_eq split: option.split)

lemma keeps_chunk: "accept_chunk l m = (l', r) \<Longrightarrow> keeps l l'"
proof -
  have k: "keeps l (l\<lparr>lk_serial := n, lk_parts := ps\<rparr>)" for n ps by (simp add: keeps_def)
  assume "accept_chunk l m = (l', r)"
  with k keeps_trans [OF k keeps_fail] show ?thesis
    by (auto simp: accept_chunk_def Let_def split: option.splits if_splits)
qed

lemma keeps_receive: "keeps l (fst (receive cb l m))"
  by (rule receive_keeps) (auto intro: keeps_trans keeps_chunk keeps_emit)

lemma keeps_texts: "keeps l (link_step cb l (EDcText t))" "keeps l (link_step cb l (EWsText t))"
proof -
  show "keeps l (link_step cb l (EDcText t))"
    by (simp add: on_dc_text_def keeps_receive split: option.split)
  have "keeps l (case receive cb l d of (l', None) \<Rightarrow> l' | (l', Some e) \<Rightarrow> lk_fail e l')" for d
  proof (cases "receive cb l d")
    case (Pair l' r)
    with keeps_receive [of l cb d] keeps_trans [OF _ keeps_fail, of l l'] show ?thesis
      by (auto split: option.split)
  qed
  then show "keeps l (link_step cb l (EWsText t))"
    by (auto simp: on_ws_text_def keeps_emit split: option.split)
qed

lemma keeps_other: "(\<forall>op fs. e \<noteq> ECall op fs) \<Longrightarrow> (\<forall>b. e \<noteq> EResume b) \<Longrightarrow> keeps l (link_step cb l e)"
proof (cases e)
  case (ETimer i)
  then show ?thesis by (auto simp: keeps_def step_defs Let_def AList.delete_eq split: option.split)
qed (simp_all add: keeps_texts del: link_step.simps, auto simp: keeps_def step_defs Let_def split: option.split)

text \<open>Making a call, and starting the next one: its identifier is the next number.\<close>

lemma ids_call: "link_ids asked l \<Longrightarrow> link_ids (asked @ [(op, fs)]) (lk_call op fs l)"
  by (auto simp: link_ids_def lk_call_def nth_append)

definition starts :: "(string \<times> fields) list \<Rightarrow> fields link \<Rightarrow> fields link \<Rightarrow> bool" where
  "starts asked l m \<longleftrightarrow>
     lk_seq l < length asked \<and> lk_seq m = Suc (lk_seq l)
     \<and> (case asked ! lk_seq l of (op, fs) \<Rightarrow>
          sends (lk_out m) = sends (lk_out l) \<or> sends (lk_out m) = sends (lk_out l) @ [(Suc (lk_seq l), op, fs)])"

lemma pending_new: "set (AList.update (Suc c) c ps) \<subseteq> insert (Suc c, c) (set ps)"
  by (auto dest: in_update)

lemma ids_start:
  assumes "link_ids asked l" "\<not> lk_closed l" "lk_waiting l = (c, op, fs) # w" "lk_ready l = ROk"
  shows "link_ids asked (call_body dcok (l\<lparr>lk_waiting := w\<rparr>) c op fs)
    \<and> starts asked l (call_body dcok (l\<lparr>lk_waiting := w\<rparr>) c op fs)"
proof -
  have seq: "c = lk_seq l" "lk_seq l < lk_calls l" "map fst w = [Suc (lk_seq l)..<lk_calls l]"
    using assms by (auto simp: link_ids_def upt_eq_Cons_conv dest!: sym [of "_ # _"])
  define l1 where "l1 = l\<lparr>lk_waiting := w, lk_seq := Suc c, lk_timers := lk_timers l @ [Suc c],
      lk_pending := AList.update (Suc c) c (lk_pending l)\<rparr>"
  have i1: "link_ids asked l1"
    using assms seq pending_new [of c "lk_pending l"] by (auto simp: link_ids_def l1_def)
  have f1: "keeps l1 (use_relay l1)" "keeps l1 (call_failed i d l1)" "keeps (use_relay l1) (call_failed i d (use_relay l1))"
    for i d
    by (auto simp: keeps_def call_failed_def use_relay_def settle_ready_def emit_def AList.delete_eq)
  have at: "asked ! lk_seq l = (op, fs)" "lk_seq l < length asked"
    using assms(1,3) seq(1) by (auto simp: link_ids_def)
  have out: "sends (lk_out l1) = sends (lk_out l)" "lk_seq l1 = Suc (lk_seq l)" using seq(1) by (simp_all add: l1_def)
  have go: "link_ids asked m \<and> starts asked l m" if "keeps l1 m" for m
    using that keeps_ids [OF that i1] at out by (auto simp: starts_def keeps_def)
  have emit: "link_ids asked (emit [x] m) \<and> starts asked l (emit [x] m)"
    if "keeps l1 m" "sent_in x = [(Suc c, op, fs)]" for m x
    using that keeps_ids [OF that(1) i1] at out seq(1) by (auto simp: starts_def keeps_def emit_def link_ids_def)
  have "call_body dcok (l\<lparr>lk_waiting := w\<rparr>) c op fs =
      (if \<not> lk_relay l1 \<and> lk_dc_open l1 then (if dcok then emit [ODcSend (Suc c) op fs] l1 else call_failed (Suc c) c l1)
       else case lk_ws (use_relay l1) of
              WsConnecting \<Rightarrow> call_failed (Suc c) c (use_relay l1)
            | WsOpen \<Rightarrow> emit [OWsRelay (Suc c) op fs] (use_relay l1)
            | WsClosed \<Rightarrow> use_relay l1)"
    using assms(2) by (simp add: call_body_def Let_def l1_def seq(1) split: ws_state.split)
  with go [OF f1(1)] go [OF f1(2)] go [OF keeps_trans [OF f1(1) f1(3)]] emit [OF keeps_refl] emit [OF f1(1)]
  show ?thesis by (auto split: ws_state.split)
qed

lemma ids_resume:
  assumes "link_ids asked l"
  shows "link_ids asked (lk_resume dcok l)
    \<and> (starts asked l (lk_resume dcok l)
       \<or> lk_seq (lk_resume dcok l) = lk_seq l \<and> sends (lk_out (lk_resume dcok l)) = sends (lk_out l))"
proof (cases "lk_waiting l")
  case (Cons p w)
  obtain c op fs where p: "p = (c, op, fs)" by (cases p)
  show ?thesis
  proof (cases "lk_closed l \<or> lk_ready l \<noteq> ROk")
    case True
    with assms Cons p show ?thesis
      by (auto simp: lk_resume_def call_body_def link_ids_def emit_def split: ready.split)
  next
    case False
    with ids_start [OF assms _ _ _, of c op fs w dcok] Cons p show ?thesis by (simp add: lk_resume_def)
  qed
qed (simp add: lk_resume_def assms)

lemma ids_step:
  assumes "link_ids asked l"
  shows "link_ids (asked @ asked_in e) (link_step cb l e)
    \<and> (starts asked l (link_step cb l e)
       \<or> lk_seq (link_step cb l e) = lk_seq l \<and> sends (lk_out (link_step cb l e)) = sends (lk_out l))"
proof (cases "(\<forall>op fs. e \<noteq> ECall op fs) \<and> (\<forall>b. e \<noteq> EResume b)")
  case True
  then have k: "keeps l (link_step cb l e)" by (intro keeps_other) auto
  have "asked_in e = []" using True by (auto simp: asked_in_def split: link_event.split)
  with k keeps_ids [OF k assms] show ?thesis by (simp add: keeps_def)
next
  case False
  then consider op fs where "e = ECall op fs" | b where "e = EResume b" by blast
  then show ?thesis
  proof cases
    case 1
    with ids_call [OF assms] show ?thesis by (simp add: asked_in_def) (simp add: lk_call_def)
  next
    case 2
    with ids_resume [OF assms] show ?thesis by (simp add: asked_in_def)
  qed
qed

section \<open>Results come from the device\<close>

text \<open>Only a text of the device settles a call with a result, and only such a text touches the chunks.\<close>

definition calm :: "'f link \<Rightarrow> 'f link \<Rightarrow> bool" where
  "calm l m \<longleftrightarrow>
     results (lk_out m) = results (lk_out l) \<and> (lk_closed m \<or> lk_parts m = lk_parts l) \<and> (lk_closed l \<longrightarrow> lk_closed m)"

lemma calm_refl [simp]: "calm l l"
  by (simp add: calm_def)

lemma calm_emit: "results os = [] \<Longrightarrow> calm l (emit os l)"
  by (simp add: calm_def emit_def)

lemma calm_fail [simp]: "calm l (lk_fail e l)"
  by (auto simp: calm_def step_defs)

lemma calm_signal:
  assumes "signal_text t"
  shows "calm l (on_ws_text cb t l)"
proof -
  obtain m where "json_parse t = Some m" "\<not> is_type m ''relay''"
    using assms by (auto simp: signal_text_def split: option.splits)
  then show ?thesis by (auto simp: on_ws_text_def calm_emit)
qed

lemma calm_step: "own_event e \<Longrightarrow> calm l (link_step cb l e)"
proof (cases e)
  case (EWsText t)
  assume "own_event e"
  with EWsText show ?thesis by (simp add: own_event_def calm_signal)
next
  case (EDcText t)
  assume "own_event e"
  with EDcText show ?thesis by (simp add: own_event_def)
next
  case (EResume b)
  then show ?thesis
    by (auto simp: calm_def step_defs Let_def split: list.split ready.split ws_state.split)
qed (auto simp: calm_def step_defs Let_def split: option.split)

end
