(* ===== verification/Rpc_Props.thy ===== *)
theory Rpc_Props
  imports Rpc
begin

text \<open>
  What the two ends of a session promise together: a call is carried out at most once, with the
  operation and the fields it was made with, whatever the paths do; and a result a caller gets is the
  one the device's handler returned for that call.
\<close>

section \<open>Requests on their way\<close>

definition bytes_id :: "byte list \<Rightarrow> json option" where
  "bytes_id b = Option.bind (json_parse (text_decode b)) (\<lambda>m. jget m (asc ''id''))"

text \<open>The bytes of a request that was sent: those of a call, under the call's number.\<close>

definition genuine :: "(string \<times> fields) list \<Rightarrow> nat \<Rightarrow> byte list \<Rightarrow> bool" where
  "genuine asked n b \<longleftrightarrow>
     (\<exists>c op fs. c < n \<and> c < length asked \<and> asked ! c = (op, fs) \<and> fields_ok fs
        \<and> go_unmarshal b = go_request_of (js_request (Suc c) op fs) \<and> bytes_id b = Some (JNum (int (Suc c))))"

definition dev_bytes :: "('r, 'v) gos \<Rightarrow> byte list list" where
  "dev_bytes d = ss_flight d @ ss_queue d @ log_of taken_in d"

definition rp_bytes :: "rpc \<Rightarrow> byte list list" where
  "rp_bytes s = rp_dc_up s @ rp_ws_up s @ dev_bytes (rp_dev s)"

definition in_hand :: "('r, 'v) gos \<Rightarrow> 'r list" where
  "in_hand d = (case ss_loop d of RunHandle r \<Rightarrow> [r] | _ \<Rightarrow> [])"

definition up_inv :: "rpc \<Rightarrow> bool" where
  "up_inv s \<longleftrightarrow>
     link_ids (rp_asked s) (rp_link s) \<and> (\<forall>(op, fs) \<in> set (rp_asked s). fields_ok fs)
     \<and> (\<forall>b \<in> set (rp_bytes s). genuine (rp_asked s) (lk_seq (rp_link s)) b)
     \<and> distinct (map bytes_id (rp_bytes s))
     \<and> session_inv go_unmarshal (rp_dev s)
     \<and> log_of handled_in (rp_dev s) = map fst (rp_returns s) @ in_hand (rp_dev s)"

lemma genuine_mono: "genuine asked n b \<Longrightarrow> n \<le> m \<Longrightarrow> genuine (asked @ xs) m b"
  unfolding genuine_def by (metis (no_types, lifting) length_append nth_append order_less_le_trans trans_less_add1)

lemma bytes_id_request:
  assumes "fields_ok fs"
  shows "bytes_id (dc_bytes i op fs) = Some (JNum (int i))" "bytes_id (go_marshal (js_request i op fs)) = Some (JNum (int i))"
  using json_parse_stringify [OF wf_js_request [OF assms]] json_parse_marshal [OF wf_js_request [OF assms]]
  by (simp_all add: bytes_id_def dc_bytes_def) (simp_all add: js_request_fields [OF assms])

text \<open>What a step of the session puts into transit.\<close>

lemma sent_bytes:
  "sends os = [] \<Longrightarrow> concat (map dc_out os) = [] \<and> concat (map ws_out os) = []"
  "sends os = [(i, op, fs)] \<Longrightarrow> fields_ok fs \<Longrightarrow>
     \<exists>b. concat (map dc_out os) @ concat (map ws_out os) = [b]
       \<and> go_unmarshal b = go_request_of (js_request i op fs) \<and> bytes_id b = Some (JNum (int i))"
proof -
  have none: "sends os = [] \<Longrightarrow> concat (map dc_out os) = [] \<and> concat (map ws_out os) = []" for os
  proof (induction os)
    case (Cons x os)
    then show ?case by (cases x) auto
  qed simp
  then show "sends os = [] \<Longrightarrow> concat (map dc_out os) = [] \<and> concat (map ws_out os) = []" .
  assume "sends os = [(i, op, fs)]" "fields_ok fs"
  then show "\<exists>b. concat (map dc_out os) @ concat (map ws_out os) = [b]
       \<and> go_unmarshal b = go_request_of (js_request i op fs) \<and> bytes_id b = Some (JNum (int i))"
  proof (induction os)
    case (Cons x os)
    then show ?case
      using none [of os] unmarshal_dc unmarshal_ws relayed_ws bytes_id_request
      by (cases x) (auto simp del: concat_eq_Nil_conv)
  qed simp
qed

text \<open>The device only takes bytes from what arrived.\<close>

lemma dev_bytes_step:
  "mset (dev_bytes (session_step dec d e)) \<subseteq>#
     mset (dev_bytes d) + (case e of SsDc b \<Rightarrow> {#b#} | SsRelay b \<Rightarrow> {#b#} | _ \<Rightarrow> {#})"
proof (cases e)
  case (SsAccept k other)
  show ?thesis
  proof (cases "k < length (ss_flight d)")
    case True
    have "mset (ss_flight d) = add_mset (ss_flight d ! k) (mset (take k (ss_flight d) @ drop (Suc k) (ss_flight d)))"
      using arg_cong [OF id_take_nth_drop [OF True], of mset] by simp
    with SsAccept True show ?thesis by (simp add: dev_bytes_def accept_flight_def accept_data_def) (simp add: ss_emit_def)
  qed (simp add: SsAccept accept_flight_def)
next
  case (SsNext other)
  then show ?thesis
    by (auto simp: dev_bytes_def run_next_def Let_def log_of_def ss_emit_def split: run_loop.split list.split option.split)
next
  case (SsReturn v sent)
  then show ?thesis by (auto simp: dev_bytes_def run_answer_def log_of_def ss_emit_def split: run_loop.split)
qed (auto simp: dev_bytes_def on_dc_message_def relay_data_def)

text \<open>What is handled is what was returned and what is in hand.\<close>

lemma in_hand_step:
  assumes "log_of handled_in d = xs @ in_hand d" "\<forall>v sent. e \<noteq> SsReturn v sent"
  shows "log_of handled_in (session_step dec d e) = xs @ in_hand (session_step dec d e)"
proof (cases e)
  case (SsAccept k other)
  with assms(1) show ?thesis by (simp add: accept_flight_def accept_data_def in_hand_def)
next
  case (SsNext other)
  with assms(1) show ?thesis
    by (auto simp: in_hand_def run_next_def Let_def split: run_loop.split list.split option.split)
qed (use assms in \<open>auto simp: in_hand_def on_dc_message_def relay_data_def\<close>)

lemma in_hand_return:
  assumes "log_of handled_in d = xs @ in_hand d" "ss_loop d = RunHandle r"
  shows "log_of handled_in (session_step dec d (SsReturn v sent)) = (xs @ [r]) @ in_hand (session_step dec d (SsReturn v sent))"
  using assms by (auto simp: in_hand_def run_answer_def)

section \<open>The invariant of what goes up\<close>

lemma up_inv_init: "up_inv rpc_init"
  by (simp add: up_inv_def rpc_init_def link_ids_def link_init_def rp_bytes_def dev_bytes_def session_inv_init in_hand_def)
     (simp add: session_init_def log_of_def)

text \<open>A step of the device alone.\<close>

lemma up_inv_dev:
  assumes "up_inv s" "\<forall>v sent. e \<noteq> SsReturn v sent"
    and "mset (rp_bytes (dev_moves e t)) \<subseteq># mset (rp_bytes s)"
    and "rp_dev t = rp_dev s" "rp_link t = rp_link s" "rp_asked t = rp_asked s" "rp_returns t = rp_returns s"
  shows "up_inv (dev_moves e t)"
proof -
  let ?t = "dev_moves e t"
  have "set (rp_bytes ?t) \<subseteq> set (rp_bytes s)" using set_mset_mono [OF assms(3)] by simp
  moreover have "distinct (map bytes_id (rp_bytes ?t))"
    by (rule distinct_sub [of _ "map bytes_id (rp_bytes s)"])
      (use assms(1) image_mset_subseteq_mono [OF assms(3), of bytes_id] in \<open>simp_all add: up_inv_def\<close>)
  ultimately show ?thesis
    using assms(1,4-7) in_hand_step [OF _ assms(2), of "rp_dev s" "map fst (rp_returns s)" go_unmarshal] session_inv_step
    unfolding up_inv_def by (auto simp: dev_moves_def)
qed

lemma up_inv_frame:
  "up_inv s \<Longrightarrow> up_inv (push_frames cid v nd nw s)"
  "up_inv s \<Longrightarrow> up_inv (s\<lparr>rp_dc_down := q\<rparr>)" "up_inv s \<Longrightarrow> up_inv (s\<lparr>rp_ws_down := q\<rparr>)"
  by (simp_all add: up_inv_def push_frames_def rp_bytes_def)

lemma up_inv_returns:
  assumes "up_inv s"
  shows "up_inv (dev_returns v cid nd nw s)"
proof (cases "\<exists>r. ss_loop (rp_dev s) = RunHandle r \<and> reply_ok v \<and> rp_clock s < js_double cid")
  case True
  then obtain r where r: "ss_loop (rp_dev s) = RunHandle r" "reply_ok v" "rp_clock s < js_double cid" by blast
  let ?e = "SsReturn v (length (frames_of cid (go_response (gr_id r) v)) \<le> nd + nw)"
  let ?d = "session_step go_unmarshal (rp_dev s) ?e"
  have "mset (dev_bytes ?d) = mset (dev_bytes (rp_dev s))"
    using r(1) by (auto simp: dev_bytes_def run_answer_def log_of_def ss_emit_def)
  then have "mset (rp_bytes (s\<lparr>rp_dev := ?d, rp_returns := rs\<rparr>)) = mset (rp_bytes s)" for rs
    by (simp add: rp_bytes_def)
  then have b: "set (rp_bytes (s\<lparr>rp_dev := ?d, rp_returns := rs\<rparr>)) = set (rp_bytes s)"
    "distinct (map bytes_id (rp_bytes (s\<lparr>rp_dev := ?d, rp_returns := rs\<rparr>))) = distinct (map bytes_id (rp_bytes s))" for rs
    by (rule mset_eq_setD, metis mset_map mset_eq_imp_distinct_iff)
  have "session_inv go_unmarshal ?d"
    by (rule session_inv_step) (use assms in \<open>simp add: up_inv_def\<close>)
  then have "up_inv (s\<lparr>rp_dev := ?d, rp_returns := rp_returns s @ [(r, v)]\<rparr>)"
    using assms in_hand_return [OF _ r(1), of "map fst (rp_returns s)" go_unmarshal v]
    unfolding up_inv_def b by (simp del: session_step.simps)
  then show ?thesis using r by (simp add: dev_returns_def Let_def up_inv_frame)
next
  case False
  then have "dev_returns v cid nd nw s = s" by (auto simp: dev_returns_def split: run_loop.split)
  with assms show ?thesis by simp
qed

definition call_ok :: "fields link_event \<Rightarrow> bool" where
  "call_ok e \<longleftrightarrow> (\<forall>(op, fs) \<in> set (asked_in e). fields_ok fs)"

lemma up_inv_link:
  assumes "up_inv s" "call_ok e"
  shows "up_inv (link_moves cb e s)"
proof -
  let ?l = "rp_link s" and ?t = "link_moves cb e s"
  let ?m = "link_step cb ?l e" and ?asked = "rp_asked s"
  obtain os where os: "lk_out ?m = lk_out ?l @ os" using grows_step [of ?l cb e] by (auto simp: grows_def)
  let ?D = "concat (map dc_out os)" and ?W = "concat (map ws_out os)"
  have t: "rp_bytes ?t = rp_dc_up s @ ?D @ rp_ws_up s @ ?W @ dev_bytes (rp_dev s)" "rp_link ?t = ?m"
    "rp_asked ?t = ?asked @ asked_in e" "rp_dev ?t = rp_dev s" "rp_returns ?t = rp_returns s"
    using os by (simp_all add: link_moves_def Let_def rp_bytes_def)
  have "mset (rp_bytes ?t) = mset ((?D @ ?W) @ rp_bytes s)"
    unfolding t(1) rp_bytes_def [of s] by simp
  then have set: "set (rp_bytes ?t) = set (?D @ ?W) \<union> set (rp_bytes s)"
    and dist: "distinct (map bytes_id (rp_bytes ?t)) = distinct (map bytes_id ((?D @ ?W) @ rp_bytes s))"
    by (metis mset_eq_setD set_append, metis mset_map mset_eq_imp_distinct_iff)
  have ids: "link_ids ?asked ?l" using assms(1) by (simp add: up_inv_def)
  have old: "genuine (?asked @ asked_in e) n b" if "b \<in> set (rp_bytes s)" "lk_seq ?l \<le> n" for b n
    using assms(1) that genuine_mono unfolding up_inv_def by blast
  have rest: "link_ids (rp_asked ?t) ?m" "\<forall>(op, fs) \<in> set (rp_asked ?t). fields_ok fs"
    "session_inv go_unmarshal (rp_dev ?t)" "log_of handled_in (rp_dev ?t) = map fst (rp_returns ?t) @ in_hand (rp_dev ?t)"
    using assms ids_step [OF ids, of e cb] unfolding t by (auto simp: up_inv_def call_ok_def)
  have "sends (lk_out ?m) = sends (lk_out ?l) @ sends os" by (simp add: os)
  with ids_step [OF ids, of e cb]
  consider "sends os = []" "lk_seq ?l \<le> lk_seq ?m"
    | op fs where "sends os = [(Suc (lk_seq ?l), op, fs)]" "lk_seq ?m = Suc (lk_seq ?l)" "lk_seq ?l < length ?asked"
        "?asked ! lk_seq ?l = (op, fs)"
    by (cases "?asked ! lk_seq ?l") (auto simp: starts_def)
  then show ?thesis
  proof cases
    case 1
    then have "?D @ ?W = []" using sent_bytes(1) by simp
    with rest old [OF _ 1(2)] set dist assms(1) show ?thesis unfolding up_inv_def t(2,3) by (simp add: t(2,3))
  next
    case (2 op fs)
    have f: "fields_ok fs" using assms(1) nth_mem [OF 2(3)] unfolding 2(4) up_inv_def by blast
    obtain b where b: "?D @ ?W = [b]" "go_unmarshal b = go_request_of (js_request (Suc (lk_seq ?l)) op fs)"
      "bytes_id b = Some (JNum (int (Suc (lk_seq ?l))))"
      using sent_bytes(2) [OF 2(1) f] by blast
    have "genuine (?asked @ asked_in e) (lk_seq ?m) b"
      using 2 f b(2,3) unfolding genuine_def by (force simp: nth_append)
    moreover have "bytes_id b \<noteq> bytes_id x" if "x \<in> set (rp_bytes s)" for x
      using assms(1) that b(3) unfolding up_inv_def genuine_def by fastforce
    ultimately show ?thesis
      using rest old [of _ "lk_seq ?m"] 2(2) set dist assms(1) b(1) unfolding up_inv_def by (auto simp: t(2,3))
  qed
qed

fun event_ok :: "rpc_event \<Rightarrow> bool" where
  "event_ok (RpLink e) = call_ok e"
| "event_ok _ = True"

lemma call_ok_texts [simp]: "call_ok (EDcText t)" "call_ok (EWsText t)"
  by (simp_all add: call_ok_def asked_in_def)

lemma up_inv_step: "up_inv s \<Longrightarrow> event_ok e \<Longrightarrow> up_inv (rpc_step cb s e)"
proof (cases e)
  case (RpDev d)
  assume u: "up_inv s"
  show ?thesis
  proof (cases "dev_event d")
    case True
    then have "mset (dev_bytes (session_step go_unmarshal (rp_dev s) d)) \<subseteq># mset (dev_bytes (rp_dev s))"
      using dev_bytes_step [of go_unmarshal "rp_dev s" d] by (cases d) (auto simp: dev_event_def)
    moreover have "\<forall>v sent. d \<noteq> SsReturn v sent" using True by (auto simp: dev_event_def)
    ultimately show ?thesis using True RpDev up_inv_dev [OF u, of d s] by (simp add: rp_bytes_def dev_moves_def)
  qed (use u RpDev in simp)
next
  case (RpLink l)
  assume "up_inv s" "event_ok e"
  with RpLink show ?thesis by (simp add: up_inv_link)
next
  case RpDcUp
  assume u: "up_inv s"
  show ?thesis
  proof (cases "rp_dc_up s")
    case (Cons b bs)
    have "up_inv (dev_moves (SsDc b) (s\<lparr>rp_dc_up := bs\<rparr>))"
      by (rule up_inv_dev [OF u])
        (use dev_bytes_step [of go_unmarshal "rp_dev s" "SsDc b"] Cons in \<open>auto simp: rp_bytes_def dev_moves_def\<close>)
    with RpDcUp Cons show ?thesis by (simp add: rpc_dc_up_def)
  qed (use u RpDcUp in \<open>simp add: rpc_dc_up_def\<close>)
next
  case RpWsUp
  assume u: "up_inv s"
  show ?thesis
  proof (cases "rp_ws_up s")
    case (Cons b bs)
    have "up_inv (dev_moves (SsRelay b) (s\<lparr>rp_ws_up := bs\<rparr>))"
      by (rule up_inv_dev [OF u])
        (use dev_bytes_step [of go_unmarshal "rp_dev s" "SsRelay b"] Cons in \<open>auto simp: rp_bytes_def dev_moves_def\<close>)
    with RpWsUp Cons show ?thesis by (simp add: rpc_ws_up_def)
  qed (use u RpWsUp in \<open>simp add: rpc_ws_up_def\<close>)
qed (auto simp: up_inv_returns up_inv_frame up_inv_link dev_sends_def rpc_dc_down_def rpc_ws_down_def split: list.split prod.split)

lemma up_inv_run: "\<forall>e \<in> set es. event_ok e \<Longrightarrow> up_inv (rpc_run cb rpc_init es)"
proof (induction es rule: rev_induct)
  case (snoc e es)
  then show ?case by (simp add: up_inv_step del: rpc_step.simps)
qed (simp add: up_inv_init)

section \<open>What the device carries out\<close>

lemma handled_decoded: "session_inv dec d \<Longrightarrow> \<exists>bs. map dec (log_of taken_in d) = map Some (log_of handled_in d) @ bs"
  by (cases "ss_loop d") (auto simp: session_inv_def)

text \<open>A request handled is one the browser made: the call with its number, the operation and the fields.\<close>

definition call_request :: "(string \<times> fields) list \<Rightarrow> go_request \<Rightarrow> bool" where
  "call_request asked r \<longleftrightarrow>
     (\<exists>c op fs. c < length asked \<and> asked ! c = (op, fs) \<and> go_request_of (js_request (Suc c) op fs) = Some r
        \<and> gr_id r = int (Suc c) \<and> gr_op r = asc op)"

lemma handled_calls:
  assumes "up_inv s"
  shows "\<forall>r \<in> set (log_of handled_in (rp_dev s)). call_request (rp_asked s) r"
    and "distinct (map gr_id (log_of handled_in (rp_dev s)))"
proof -
  let ?d = "rp_dev s" and ?asked = "rp_asked s"
  let ?bs = "log_of taken_in ?d" and ?hs = "log_of handled_in ?d"
  obtain rest where "map go_unmarshal ?bs = map Some ?hs @ rest"
    using handled_decoded assms unfolding up_inv_def by blast
  then obtain us ws where us: "?bs = us @ ws" "map go_unmarshal us = map Some ?hs"
    by (auto simp: map_eq_append_conv)
  have len: "length us = length ?hs" using arg_cong [OF us(2), of length] by simp
  have at: "\<exists>c op fs. c < length ?asked \<and> ?asked ! c = (op, fs) \<and> go_request_of (js_request (Suc c) op fs) = Some (?hs ! k)
      \<and> gr_id (?hs ! k) = int (Suc c) \<and> gr_op (?hs ! k) = asc op \<and> bytes_id (us ! k) = Some (JNum (int (Suc c)))"
    if "k < length ?hs" for k
  proof -
    have "us ! k \<in> set (rp_bytes s)" using that len nth_mem [of k us] by (auto simp: rp_bytes_def dev_bytes_def us(1))
    then have "genuine ?asked (lk_seq (rp_link s)) (us ! k)" using assms by (simp add: up_inv_def)
    then obtain c op fs where c: "c < length ?asked" "?asked ! c = (op, fs)" "fields_ok fs"
      "go_unmarshal (us ! k) = go_request_of (js_request (Suc c) op fs)" "bytes_id (us ! k) = Some (JNum (int (Suc c)))"
      by (auto simp: genuine_def)
    have "go_unmarshal (us ! k) = Some (?hs ! k)" using arg_cong [OF us(2), of "\<lambda>xs. xs ! k"] that len by simp
    with c request_of_id [OF c(3), of "Suc c" op "?hs ! k"] show ?thesis by auto
  qed
  show "\<forall>r \<in> set ?hs. call_request ?asked r"
  proof
    fix r
    assume "r \<in> set ?hs"
    then obtain k where "k < length ?hs" "r = ?hs ! k" by (auto simp: in_set_conv_nth)
    with at [of k] show "call_request ?asked r" unfolding call_request_def by auto
  qed
  have "distinct (map bytes_id us)" using assms by (simp add: up_inv_def rp_bytes_def dev_bytes_def us(1))
  moreover have "map bytes_id us = map (\<lambda>r. Some (JNum (gr_id r))) ?hs"
    using at len by (intro nth_equalityI) fastforce+
  ultimately show "distinct (map gr_id ?hs)"
    by (auto simp: distinct_map inj_on_def)
qed

lemma returns_calls:
  assumes "up_inv s" "(r, x) \<in> set (rp_returns s)"
  shows "call_request (rp_asked s) r"
proof -
  have "r \<in> set (log_of handled_in (rp_dev s))" using assms by (force simp: up_inv_def)
  with handled_calls(1) [OF assms(1)] show ?thesis by blast
qed

text \<open>
  C9: a call is carried out at most once, as it was made: however the two paths deliver, whichever
  of them is used when, and whatever times out or fails, the requests the device's handler is given
  are those of distinct calls of the browser, each with the call's operation and fields.
\<close>

theorem calls_run_at_most_once:
  assumes "\<forall>e \<in> set es. event_ok e"
  shows "let s = rpc_run cb rpc_init es; rs = log_of handled_in (rp_dev s)
    in distinct (map gr_id rs)
       \<and> (\<forall>r \<in> set rs. \<exists>c op fs. c < length (rp_asked s) \<and> rp_asked s ! c = (op, fs)
            \<and> go_request_of (js_request (Suc c) op fs) = Some r)"
  using handled_calls [OF up_inv_run [OF assms, of cb]] unfolding Let_def call_request_def by blast

text \<open>A session that is opened, asks for a \<open>ping\<close> over the data channel and gets its answer.\<close>

definition ping_request :: go_request where
  "ping_request = \<lparr>gr_id = 1, gr_op = asc ''ping'', gr_path = [], gr_target = [], gr_data = [], gr_offset = 0,
     gr_cols = 0, gr_rows = 0, gr_input = None\<rparr>"

definition ping_asked :: "rpc_event list" where
  "ping_asked =
     [RpLink EWsOpen, RpLink (EOffer None), RpLink EDcOpen, RpLink (ECall ''ping'' []), RpLink (EResume True),
      RpDcUp, RpDev (SsAccept 0 False), RpDev (SsNext False)]"

lemma ping_arrives: "go_unmarshal (dc_bytes (Suc 0) ''ping'' []) = Some ping_request"
  "length (dc_bytes (Suc 0) ''ping'' []) \<le> 65536"
proof -
  have f: "fields_ok []" by (simp add: fields_ok_def)
  show "go_unmarshal (dc_bytes (Suc 0) ''ping'' []) = Some ping_request"
    unfolding unmarshal_dc [OF f]
    by (simp add: js_request_fields [OF f] go_request_of_def go_fields_def go_int_field_def go_text_field_def ping_request_def)
  show "length (dc_bytes (Suc 0) ''ping'' []) \<le> 65536"
    by (simp add: dc_bytes_def js_request_fields [OF f] json_string_def js_escape_def js_eval int_text_def
        nat_text.simps [of "Suc 0"] utf8_encode_def utf8_char_def)
qed

lemma ping_runs:
  "let s = rpc_run cb rpc_init ping_asked
   in rp_asked s = [(''ping'', [])] \<and> log_of handled_in (rp_dev s) = [ping_request] \<and> ss_loop (rp_dev s) = RunHandle ping_request
      \<and> rp_dc_up s = [] \<and> rp_dc_down s = [] \<and> rp_clock s = 0 \<and> lk_pending (rp_link s) = [(1, 0)] \<and> open_for ViaDc (rp_link s)
      \<and> lk_out (rp_link s) = [OWsOffer, OStatus P2P, ODcSend 1 ''ping'' []] \<and> rp_returns s = []"
  using ping_arrives
  by (simp add: ping_asked_def rpc_init_def link_init_def session_init_def own_event_def dev_event_def link_moves_def
      dev_moves_def rpc_dc_up_def asked_in_def step_defs Let_def on_dc_message_def accept_flight_def accept_data_def
      accept_limit_def session_queue_def run_next_def ss_emit_def log_of_def)

lemma ping_ok: "\<forall>e \<in> set ping_asked. event_ok e"
  by (simp add: ping_asked_def call_ok_def asked_in_def fields_ok_def)

theorem calls_run_at_most_once_witness:
  "let s = rpc_run (\<lambda>m. None) rpc_init ping_asked
   in log_of handled_in (rp_dev s) = [ping_request]
      \<and> (\<exists>c op fs. rp_asked s ! c = (op, fs) \<and> go_request_of (js_request (Suc c) op fs) = Some ping_request)"
  using ping_runs [of "\<lambda>m. None"] calls_run_at_most_once [OF ping_ok, of "\<lambda>m. None"] unfolding Let_def
  by (metis list.set_intros(1))

end
