(* ===== verification/Rpc_Down.thy ===== *)
theory Rpc_Down
  imports Rpc_Props
begin

text \<open>
  The way down: a message cut into frames is put together from its own frames only, whatever else
  travels beside it, so what settles a call is a response the device made.
\<close>

section \<open>One chunk\<close>

lemma part_for_other: "part_for (AList.update k q ps) j = (if j = k then q else part_for ps j)"
  "part_for (AList.delete k ps) j = (if j = k then \<lparr>pt_buffers = [], pt_size = 0\<rparr> else part_for ps j)"
  by (simp_all add: part_for_def update_conv' delete_conv' restrict_map_def)

lemma chunk_arrives:
  fixes l :: "'f link" and cid :: int and b :: "byte list"
  defines "k \<equiv> KNum (js_double cid)"
  defines "p \<equiv> part_for (lk_parts l) k"
  defines "q \<equiv> \<lparr>pt_buffers = pt_buffers p @ [b], pt_size = pt_size p + length b\<rparr>"
  shows "\<exists>ps. receive cb l (chunk_msg cid b is_last) =
    (if part_limit < pt_size q \<or> 4 < length (AList.update k q (lk_parts l))
     then (lk_fail TooLarge (l\<lparr>lk_serial := Suc (lk_serial l), lk_parts := ps\<rparr>), None)
     else if \<not> is_last then (l\<lparr>lk_serial := Suc (lk_serial l), lk_parts := AList.update k q (lk_parts l)\<rparr>, None)
     else let l1 = l\<lparr>lk_serial := Suc (lk_serial l), lk_parts := AList.delete k (lk_parts l)\<rparr> in
          case assemble q of
            None \<Rightarrow> (l1, Some RangeErr)
          | Some all \<Rightarrow> (case json_parse (text_decode all) of None \<Rightarrow> (l1, Some SyntaxErr) | Some v \<Rightarrow> receive cb l1 v))"
proof -
  define p1 where "p1 = p\<lparr>pt_size := pt_size p + length b\<rparr>"
  have eq: "(case map_of (lk_parts l) k of None \<Rightarrow> \<lparr>pt_buffers = [], pt_size = 0\<rparr> | Some q \<Rightarrow> q) = p"
    by (simp add: p_def part_for_def)
  have len: "length (AList.update k p1 (lk_parts l)) = length (AList.update k q (lk_parts l))" by (rule length_update)
  have q: "p1\<lparr>pt_buffers := pt_buffers p @ [b]\<rparr> = q" "pt_size p1 = pt_size p + length b" "pt_buffers p1 = pt_buffers p"
    "pt_size q = pt_size p + length b"
    by (simp_all add: p1_def q_def)
  have "accept_chunk l (chunk_msg cid b is_last) =
    (if part_limit < pt_size q \<or> 4 < length (AList.update k q (lk_parts l))
     then (lk_fail TooLarge (l\<lparr>lk_serial := Suc (lk_serial l), lk_parts := AList.update k p1 (lk_parts l)\<rparr>), CReturn)
     else if is_last
     then (l\<lparr>lk_serial := Suc (lk_serial l), lk_parts := AList.delete k (lk_parts l)\<rparr>,
           case assemble q of None \<Rightarrow> CThrow RangeErr | Some all \<Rightarrow> CWhole all)
     else (l\<lparr>lk_serial := Suc (lk_serial l), lk_parts := AList.update k q (lk_parts l)\<rparr>, CReturn))"
    by (simp add: accept_chunk_def Let_def data_text_def decode_b64_encode ckey_of_def eq len q
        flip: k_def p1_def split: option.split)
  then show ?thesis
    by (auto simp: receive.simps [of cb l "chunk_msg cid b is_last"] Let_def split: option.split)
qed

section \<open>What the browser holds of the messages under way\<close>

definition held :: "'f link \<Rightarrow> ckey \<Rightarrow> byte list" where
  "held l k = concat (pt_buffers (part_for (lk_parts l) k))"

text \<open>The frames of a path, delivered in order, complete exactly the messages they belong to.\<close>

fun chan_ok :: "(ckey \<Rightarrow> byte list) \<Rightarrow> frame list \<Rightarrow> bool" where
  "chan_ok h [] = True"
| "chan_ok h ((cid, v, pos) # q) =
     (if big v then
        h (KNum (js_double cid)) = take pos (go_marshal v) \<and> pos < length (go_marshal v)
        \<and> chan_ok (h(KNum (js_double cid) :=
             if length (go_marshal v) \<le> pos + 24000 then [] else take (pos + 24000) (go_marshal v))) q
      else chan_ok h q)"

fun frame_keys :: "frame list \<Rightarrow> ckey set" where
  "frame_keys [] = {}"
| "frame_keys ((cid, v, pos) # q) = (if big v then insert (KNum (js_double cid)) (frame_keys q) else frame_keys q)"

lemma frame_keys_append [simp]: "frame_keys (q @ r) = frame_keys q \<union> frame_keys r"
  by (induction q rule: frame_keys.induct) auto

lemma chan_ok_cong: "\<forall>k \<in> frame_keys q. h k = g k \<Longrightarrow> chan_ok h q \<Longrightarrow> chan_ok g q"
proof (induction q arbitrary: h g)
  case (Cons fr q)
  obtain cid v pos where fr: "fr = (cid, v, pos)" by (cases fr)
  let ?k = "KNum (js_double cid)"
  let ?x = "if length (go_marshal v) \<le> pos + 24000 then [] else take (pos + 24000) (go_marshal v)"
  show ?case
  proof (cases "big v")
    case True
    have "\<forall>j \<in> frame_keys q. (h(?k := ?x)) j = (g(?k := ?x)) j" "chan_ok (h(?k := ?x)) q"
      using Cons.prems True fr by simp_all
    then have "chan_ok (g(?k := ?x)) q" by (rule Cons.IH)
    with Cons.prems True fr show ?thesis by simp
  next
    case False
    with Cons.prems Cons.IH [of h g] fr show ?thesis by simp
  qed
qed simp

lemma frames_from_keys: "big v \<Longrightarrow> frame_keys (take n (frames_from cid v pos)) \<subseteq> {KNum (js_double cid)}"
proof (induction cid v pos arbitrary: n rule: frames_from.induct)
  case (1 cid v pos)
  then show ?case by (subst frames_from.simps) (cases n; simp)
qed

lemma frames_of_keys: "frame_keys (take n (frames_of cid v)) \<subseteq> {KNum (js_double cid)}"
  using frames_from_keys [of v n cid 0] by (cases n) (auto simp: frames_of_def)

lemma chan_ok_from:
  "big v \<Longrightarrow> h (KNum (js_double cid)) = take pos (go_marshal v) \<Longrightarrow> chan_ok h (take n (frames_from cid v pos))"
proof (induction cid v pos arbitrary: n h rule: frames_from.induct)
  case (1 cid v pos)
  let ?b = "go_marshal v"
  show ?case
  proof (cases "pos < length ?b \<and> n \<noteq> 0")
    case True
    then obtain m where m: "n = Suc m" by (cases n) auto
    have f: "take n (frames_from cid v pos) = (cid, v, pos) # take m (frames_from cid v (pos + 24000))"
      using True m by (subst frames_from.simps) simp
    show ?thesis
    proof (cases "length ?b \<le> pos + 24000")
      case True
      then have "frames_from cid v (pos + 24000) = []" by (subst frames_from.simps) simp
      with f True \<open>pos < length ?b \<and> n \<noteq> 0\<close> "1.prems" show ?thesis by simp
    next
      case False
      then have "chan_ok (h(KNum (js_double cid) := take (pos + 24000) ?b)) (take m (frames_from cid v (pos + 24000)))"
        using True "1.prems" by (intro "1.IH") auto
      with f False True "1.prems" show ?thesis by simp
    qed
  next
    case False
    then have "take n (frames_from cid v pos) = []" by (subst frames_from.simps) auto
    then show ?thesis by (simp del: take_eq_Nil)
  qed
qed

lemma chan_ok_of: "h (KNum (js_double cid)) = [] \<Longrightarrow> chan_ok h (take n (frames_of cid v))"
  by (cases n) (auto simp: frames_of_def chan_ok_from)

lemma chan_ok_append:
  "chan_ok h q \<Longrightarrow> frame_keys q \<inter> frame_keys r = {} \<Longrightarrow> chan_ok h r \<Longrightarrow> chan_ok h (q @ r)"
proof (induction q arbitrary: h)
  case (Cons fr q)
  obtain cid v pos where fr: "fr = (cid, v, pos)" by (cases fr)
  show ?case
  proof (cases "big v")
    case True
    let ?g = "h(KNum (js_double cid) := if length (go_marshal v) \<le> pos + 24000 then [] else take (pos + 24000) (go_marshal v))"
    have "chan_ok ?g r"
      by (rule chan_ok_cong [OF _ Cons.prems(3)]) (use Cons.prems(2) True fr in auto)
    moreover have "chan_ok ?g q" "frame_keys q \<inter> frame_keys r = {}" using Cons.prems True fr by auto
    ultimately have "chan_ok ?g (q @ r)" using Cons.IH by blast
    with Cons.prems(1) True fr show ?thesis by simp
  next
    case False
    with Cons fr show ?thesis by simp
  qed
qed simp

section \<open>Where messages and results come from\<close>

definition origin_ok :: "(go_request \<times> dev_reply) list \<Rightarrow> json \<Rightarrow> bool" where
  "origin_ok rs v \<longleftrightarrow> event_msg v \<or> (\<exists>(r, x) \<in> set rs. v = go_response (gr_id r) x \<and> reply_ok x)"

text \<open>A result was returned by the handler for the request with the call's number.\<close>

definition result_ok :: "(go_request \<times> dev_reply) list \<Rightarrow> nat \<times> json option \<Rightarrow> bool" where
  "result_ok rs cx \<longleftrightarrow> (\<exists>r v. (r, Inr v) \<in> set rs \<and> gr_id r = int (Suc (fst cx)) \<and> snd cx = Some v)"

lemma event_msg_simps:
  assumes "event_msg v"
  shows "v \<noteq> JNull" "\<not> is_type v ''chunk''" "\<not> is_type v ''result''" "wf_json v"
  using assms by (auto simp: event_msg_def is_type_def)

lemma origin_simps:
  assumes "origin_ok rs v"
  shows "wf_json v" "v \<noteq> JNull" "\<not> is_type v ''chunk''"
proof -
  consider "event_msg v" | i x where "v = go_response i x" "reply_ok x"
    using assms unfolding origin_ok_def by blast
  then have "wf_json v \<and> v \<noteq> JNull \<and> \<not> is_type v ''chunk''"
  proof cases
    case 1
    from event_msg_simps [OF this] show ?thesis by blast
  next
    case (2 i x)
    then have "wf_json v" by (cases x) (auto simp: go_response_def dest: asc_scalar)
    with 2(1) go_response_simps(1,2) show ?thesis by metis
  qed
  then show "wf_json v" "v \<noteq> JNull" "\<not> is_type v ''chunk''" by blast+
qed

lemma finish_calm: "calm l (fst x) \<Longrightarrow> calm l (finish t x)"
proof -
  have "calm l m \<Longrightarrow> calm l (lk_fail e m)" for m e
    using calm_fail [of m e] by (auto simp: calm_def)
  then show "calm l (fst x) \<Longrightarrow> calm l (finish t x)"
    by (cases t; cases x; cases "snd x") auto
qed

text \<open>A whole message settles nothing but the call it answers.\<close>

lemma finish_message:
  assumes "origin_ok rs v" "link_ids asked l" "length asked < 2 ^ 53" "\<forall>(r, x) \<in> set rs. call_request asked r"
  shows "calm l (finish t (receive cb l v)) \<or>
    (\<exists>cx. result_ok rs cx \<and> results (lk_out (finish t (receive cb l v))) = results (lk_out l) @ [cx]
       \<and> lk_parts (finish t (receive cb l v)) = lk_parts l \<and> lk_closed (finish t (receive cb l v)) = lk_closed l)"
proof (cases "event_msg v")
  case True
  then have "fst (receive cb l v) = emit [OEvent v] l"
    using event_msg_simps [OF True] by (simp add: receive.simps [of cb l v])
  then show ?thesis by (simp add: finish_calm calm_emit)
next
  case False
  then obtain r x where v: "(r, x) \<in> set rs" "v = go_response (gr_id r) x" using assms(1) by (auto simp: origin_ok_def)
  then have "call_request asked r" using assms(4) by blast
  then obtain i where i: "gr_id r = int i" "i < 2 ^ 53"
    using assms(3) unfolding call_request_def by (metis Suc_leI le_less_trans)
  have rec: "receive cb l v = (accept_result l v, None)" unfolding v(2) by (simp add: receive.simps [of cb l])
  then have fin: "finish t (receive cb l v) = accept_result l v" by (cases t) simp_all
  show ?thesis
  proof (cases "map_of (lk_pending l) i")
    case None
    then have "accept_result l v = l" using i by (simp add: accept_result_def v(2) pending_of_def js_double_small)
    with fin show ?thesis by simp
  next
    case (Some c)
    then have c: "i = Suc c" using assms(2) map_of_SomeD [OF Some] by (auto simp: link_ids_def)
    have acc: "accept_result l v = emit [OSettle c (response_outcome x)]
        (l\<lparr>lk_timers := removeAll i (lk_timers l), lk_pending := AList.delete i (lk_pending l)\<rparr>)"
      using i Some by (cases x) (simp_all add: accept_result_def v(2) pending_of_def js_double_small response_outcome_def err_text_def)
    show ?thesis
    proof (cases x)
      case (Inl e)
      then show ?thesis unfolding fin acc by (simp add: calm_def emit_def response_outcome_def)
    next
      case (Inr w)
      with v(1) i(1) c have "result_ok rs (c, Some w)" by (auto simp: result_ok_def)
      with Inr show ?thesis unfolding fin acc by (auto simp: emit_def response_outcome_def)
    qed
  qed
qed

text \<open>
  A frame delivered on a path whose frames are in order: the session closes, or holds what it should of
  the messages under way, and settled at most the call the message answers.
\<close>

definition held_after :: "(ckey \<Rightarrow> byte list) \<Rightarrow> frame \<Rightarrow> ckey \<Rightarrow> byte list" where
  "held_after h fr =
     (case fr of (cid, v, pos) \<Rightarrow>
        if big v then
          h(KNum (js_double cid) := if length (go_marshal v) \<le> pos + 24000 then [] else take (pos + 24000) (go_marshal v))
        else h)"

definition delivered :: "(go_request \<times> dev_reply) list \<Rightarrow> fields link \<Rightarrow> (ckey \<Rightarrow> byte list) \<Rightarrow> fields link \<Rightarrow> bool" where
  "delivered rs l h m \<longleftrightarrow>
     (lk_closed m \<or> held m = h)
     \<and> (results (lk_out m) = results (lk_out l) \<or> (\<exists>cx. result_ok rs cx \<and> results (lk_out m) = results (lk_out l) @ [cx]))"

lemma held_parts: "lk_parts m = lk_parts l \<Longrightarrow> held m = held l"
  by (simp add: held_def fun_eq_iff)

lemma deliver_small:
  assumes "origin_ok rs v" "link_ids asked l" "length asked < 2 ^ 53" "\<forall>(r, x) \<in> set rs. call_request asked r"
  shows "delivered rs l (held l) (finish t (receive cb l v))"
  using finish_message [OF assms, of t cb] held_parts [of "finish t (receive cb l v)" l]
  unfolding delivered_def calm_def by blast

lemma deliver_frame:
  assumes "origin_ok rs v" "link_ids asked l" "length asked < 2 ^ 53" "\<forall>(r, x) \<in> set rs. call_request asked r"
    and "link_inv l" "chan_ok (held l) ((cid, v, pos) # q)"
  shows "delivered rs l (held_after (held l) (cid, v, pos)) (finish t (receive cb l (frame_value (cid, v, pos))))"
proof (cases "big v")
  case False
  with deliver_small [OF assms(1-4)] show ?thesis by (simp add: frame_value_def held_after_def)
next
  case True
  let ?k = "KNum (js_double cid)" and ?b = "go_marshal v"
  let ?p = "part_for (lk_parts l) ?k"
  let ?d = "take 24000 (drop pos ?b)"
  let ?q = "\<lparr>pt_buffers = pt_buffers ?p @ [?d], pt_size = pt_size ?p + length ?d\<rparr>"
  let ?last = "length ?b \<le> pos + 24000"
  have ok: "part_ok ?p" using assms(5) by (simp add: link_inv_def part_for_ok)
  have h: "concat (pt_buffers ?p) = take pos ?b" using assms(6) True by (simp add: held_def)
  have all: "concat (pt_buffers ?p @ [?d]) = take (pos + 24000) ?b" using h by (simp add: take_add)
  obtain ps where rec: "receive cb l (chunk_msg cid ?d ?last) =
    (if part_limit < pt_size ?q \<or> 4 < length (AList.update ?k ?q (lk_parts l))
     then (lk_fail TooLarge (l\<lparr>lk_serial := Suc (lk_serial l), lk_parts := ps\<rparr>), None)
     else if \<not> ?last then (l\<lparr>lk_serial := Suc (lk_serial l), lk_parts := AList.update ?k ?q (lk_parts l)\<rparr>, None)
     else let l1 = l\<lparr>lk_serial := Suc (lk_serial l), lk_parts := AList.delete ?k (lk_parts l)\<rparr> in
          case assemble ?q of
            None \<Rightarrow> (l1, Some RangeErr)
          | Some all \<Rightarrow> (case json_parse (text_decode all) of None \<Rightarrow> (l1, Some SyntaxErr) | Some v \<Rightarrow> receive cb l1 v))"
    using chunk_arrives [of cb l cid ?d ?last] by blast
  have fv: "frame_value (cid, v, pos) = chunk_msg cid ?d ?last" using True by (simp add: frame_value_def)
  let ?over = "part_limit < pt_size ?q \<or> 4 < length (AList.update ?k ?q (lk_parts l))"
  show ?thesis
  proof (cases ?over)
    case True
    have f: "calm l (lk_fail TooLarge (l\<lparr>lk_serial := n, lk_parts := ps\<rparr>))"
      "lk_closed (lk_fail TooLarge (l\<lparr>lk_serial := n, lk_parts := ps\<rparr>))" for n
      by (auto simp: calm_def step_defs)
    have "receive cb l (chunk_msg cid ?d ?last) = (lk_fail TooLarge (l\<lparr>lk_serial := Suc (lk_serial l), lk_parts := ps\<rparr>), None)"
      unfolding rec using True by (rule if_P)
    with f [of "Suc (lk_serial l)"] show ?thesis unfolding fv by (cases t) (simp_all add: delivered_def calm_def)
  next
    case False
    note small = False
    show ?thesis
    proof (cases ?last)
      case False
      let ?l1 = "l\<lparr>lk_serial := Suc (lk_serial l), lk_parts := AList.update ?k ?q (lk_parts l)\<rparr>"
      have "receive cb l (chunk_msg cid ?d ?last) = (?l1, None)" unfolding rec using small False by simp
      moreover have "held ?l1 = (held l)(?k := take (pos + 24000) ?b)"
        using all by (simp add: held_def fun_eq_iff part_for_other del: concat_append)
      ultimately show ?thesis
        using False \<open>big v\<close> unfolding fv by (cases t) (simp_all add: delivered_def held_after_def)
    next
      case True
      let ?l1 = "l\<lparr>lk_serial := Suc (lk_serial l), lk_parts := AList.delete ?k (lk_parts l)\<rparr>"
      have q: "part_ok ?q" using ok h small by (simp add: part_ok_def)
      then have "assemble ?q = Some ?b" using all True by (simp add: assemble_ok del: concat_append)
      moreover have "json_parse (text_decode ?b) = Some v" by (rule json_parse_marshal [OF origin_simps(1) [OF assms(1)]])
      ultimately have r: "receive cb l (chunk_msg cid ?d ?last) = receive cb ?l1 v"
        unfolding rec using small True by simp
      have h1: "held ?l1 = (held l)(?k := [])" by (simp add: held_def fun_eq_iff part_for_other)
      have "link_ids asked ?l1" using assms(2) by (simp add: link_ids_def)
      from deliver_small [OF assms(1) this assms(3,4), of t cb] h1 True \<open>big v\<close> show ?thesis
        unfolding fv r by (simp add: delivered_def held_after_def)
    qed
  qed
qed

section \<open>The invariant of what comes down\<close>

definition key_old :: "int \<Rightarrow> ckey \<Rightarrow> bool" where
  "key_old t k \<longleftrightarrow> (\<exists>d \<le> t. k = KNum d)"

definition paths_ok :: "int \<Rightarrow> (ckey \<Rightarrow> byte list) \<Rightarrow> frame list \<Rightarrow> frame list \<Rightarrow> bool" where
  "paths_ok t h q r \<longleftrightarrow>
     chan_ok h q \<and> chan_ok h r \<and> frame_keys q \<inter> frame_keys r = {}
     \<and> (\<forall>k \<in> frame_keys q \<union> frame_keys r. key_old t k) \<and> (\<forall>k. h k \<noteq> [] \<longrightarrow> key_old t k)"

definition down_inv :: "rpc \<Rightarrow> bool" where
  "down_inv s \<longleftrightarrow>
     link_inv (rp_link s)
     \<and> (\<forall>fr \<in> set (rp_dc_down s @ rp_ws_down s). origin_ok (rp_returns s) (fst (snd fr)))
     \<and> (\<forall>cx \<in> set (results (lk_out (rp_link s))). result_ok (rp_returns s) cx)
     \<and> (lk_closed (rp_link s) \<or> paths_ok (rp_clock s) (held (rp_link s)) (rp_dc_down s) (rp_ws_down s))"

lemma paths_ok_sym: "paths_ok t h q r \<Longrightarrow> paths_ok t h r q"
  by (auto simp: paths_ok_def)

text \<open>Delivering the first frame of a path.\<close>

lemma paths_ok_deliver:
  assumes "paths_ok t h (fr # q) r"
  shows "paths_ok t (held_after h fr) q r"
proof -
  obtain cid v pos where fr: "fr = (cid, v, pos)" by (cases fr)
  show ?thesis
  proof (cases "big v")
    case True
    have "chan_ok (held_after h fr) r"
      by (rule chan_ok_cong [of r h]) (use assms True fr in \<open>auto simp: paths_ok_def held_after_def\<close>)
    with assms True fr show ?thesis by (auto simp: paths_ok_def held_after_def)
  qed (use assms fr in \<open>simp add: paths_ok_def held_after_def\<close>)
qed

text \<open>Putting the frames of a later message on one path.\<close>

lemma paths_ok_push:
  assumes "paths_ok t h q r" "t < js_double cid"
  shows "paths_ok (js_double cid) h (q @ take n (frames_of cid v)) r"
proof -
  let ?k = "KNum (js_double cid)" and ?f = "take n (frames_of cid v)"
  have old: "key_old t k \<Longrightarrow> key_old (js_double cid) k \<and> k \<noteq> ?k" for k
    using assms(2) by (auto simp: key_old_def)
  have new: "frame_keys ?f \<subseteq> {?k}" by (rule frames_of_keys)
  have k: "?k \<notin> frame_keys q" "?k \<notin> frame_keys r" "h ?k = []" using assms(1) old unfolding paths_ok_def by blast+
  have "chan_ok h (q @ ?f)"
    using assms(1) chan_ok_of [of h cid n v] k new by (intro chan_ok_append) (auto simp: paths_ok_def)
  moreover have "key_old (js_double cid) ?k" by (auto simp: key_old_def)
  ultimately show ?thesis using assms(1) old new k unfolding paths_ok_def by (auto; blast)
qed

fun whole :: "rpc_event \<Rightarrow> bool" where
  "whole (RpReturn v cid nd nw) = (nd = 0 \<or> nw = 0)"
| "whole (RpSend m cid nd nw) = (nd = 0 \<or> nw = 0)"
| "whole _ = True"

lemma frames_of_msg: "(c, w, pos) \<in> set (frames_of cid v) \<Longrightarrow> w = v"
proof -
  have "(c, w, pos) \<in> set (frames_from cid v n) \<Longrightarrow> w = v" for n
    by (induction cid v n rule: frames_from.induct) (subst (asm) (2) frames_from.simps, auto split: if_splits)
  then show "(c, w, pos) \<in> set (frames_of cid v) \<Longrightarrow> w = v" by (auto simp: frames_of_def split: if_splits)
qed

lemma down_inv_push:
  assumes "down_inv s" "rp_clock s < js_double cid" "origin_ok (rp_returns s) v" "nd = 0 \<or> nw = 0"
  shows "down_inv (push_frames cid v nd nw s)"
proof -
  have "paths_ok (js_double cid) h (q @ take nd (frames_of cid v)) (r @ take nw (drop nd (frames_of cid v)))"
    if "paths_ok (rp_clock s) h q r" for h q r
  proof (cases "nd = 0")
    case True
    with paths_ok_push [OF paths_ok_sym [OF that] assms(2)] paths_ok_sym show ?thesis by fastforce
  next
    case False
    with paths_ok_push [OF that assms(2)] assms(4) show ?thesis by simp
  qed
  moreover have "fst (snd fr) = v" if "fr \<in> set (frames_of cid v)" for fr
    using that frames_of_msg [of "fst fr" "fst (snd fr)" "snd (snd fr)"] by simp
  then have "\<forall>fr \<in> set (take nd (frames_of cid v) @ take nw (drop nd (frames_of cid v))). origin_ok (rp_returns s) (fst (snd fr))"
    using assms(3) by (metis Un_iff set_append in_set_takeD in_set_dropD)
  ultimately show ?thesis
    using assms(1) unfolding down_inv_def push_frames_def by auto
qed

lemma origin_mono: "origin_ok rs v \<Longrightarrow> origin_ok (rs @ xs) v"
  by (auto simp: origin_ok_def)

lemma result_mono: "result_ok rs cx \<Longrightarrow> result_ok (rs @ xs) cx"
  by (auto simp: result_ok_def)

lemma down_inv_returns:
  assumes "down_inv s" "nd = 0 \<or> nw = 0"
  shows "down_inv (dev_returns v cid nd nw s)"
proof (cases "\<exists>r. ss_loop (rp_dev s) = RunHandle r \<and> reply_ok v \<and> rp_clock s < js_double cid")
  case True
  then obtain r where r: "ss_loop (rp_dev s) = RunHandle r" "reply_ok v" "rp_clock s < js_double cid" by blast
  have "down_inv (s\<lparr>rp_dev := d, rp_returns := rp_returns s @ [(r, v)]\<rparr>)" for d
    using assms(1) origin_mono result_mono unfolding down_inv_def by fastforce
  moreover have "origin_ok (rp_returns s @ [(r, v)]) (go_response (gr_id r) v)"
    using r(2) by (auto simp: origin_ok_def)
  ultimately show ?thesis
    using r assms(2) by (simp add: dev_returns_def Let_def down_inv_push)
next
  case False
  then have "dev_returns v cid nd nw s = s" by (auto simp: dev_returns_def split: run_loop.split)
  with assms show ?thesis by simp
qed

lemma down_inv_own:
  assumes "down_inv s" "own_event e"
  shows "down_inv (link_moves cb e s)"
proof -
  let ?m = "link_step cb (rp_link s) e"
  have c: "calm (rp_link s) ?m" by (rule calm_step [OF assms(2)])
  have "link_inv ?m" using assms(1) by (simp add: down_inv_def link_inv_step del: link_step.simps)
  with assms(1) c held_parts [of ?m "rp_link s"] show ?thesis
    by (auto simp: down_inv_def link_moves_def Let_def calm_def simp del: link_step.simps)
qed

text \<open>A frame arrives on an open path.\<close>

lemma down_inv_frame:
  assumes "down_inv s" "up_inv s" "length (rp_asked s) < 2 ^ 53" "open_for t (rp_link s)"
    and "origin_ok (rp_returns s) v" "paths_ok (rp_clock s) (held (rp_link s)) ((cid, v, pos) # q) r"
    and "rp_dc_down s = (cid, v, pos) # q \<and> s' = s\<lparr>rp_dc_down := q\<rparr> \<and> r = rp_ws_down s
       \<or> rp_ws_down s = (cid, v, pos) # q \<and> s' = s\<lparr>rp_ws_down := q\<rparr> \<and> r = rp_dc_down s"
  shows "down_inv (link_moves cb (deliver t (frame_value (cid, v, pos))) s')"
proof -
  let ?l = "rp_link s" and ?fv = "frame_value (cid, v, pos)"
  let ?m = "link_step cb ?l (deliver t ?fv)"
  have fv: "wf_json ?fv" using origin_simps(1) [OF assms(5)] wf_chunk_msg by (simp add: frame_value_def)
  have inv: "link_inv ?l" using assms(1) by (simp add: down_inv_def)
  have eq: "?m = finish t (receive cb ?l ?fv)" by (rule deliver_receive [OF assms(4) fv])
  have "link_ids (rp_asked s) ?l" using assms(2) by (simp add: up_inv_def)
  moreover have "\<forall>(r, x) \<in> set (rp_returns s). call_request (rp_asked s) r" using returns_calls [OF assms(2)] by blast
  ultimately have d: "delivered (rp_returns s) ?l (held_after (held ?l) (cid, v, pos)) ?m"
    unfolding eq using assms(3,5,6) inv by (intro deliver_frame) (auto simp: paths_ok_def simp del: chan_ok.simps)
  have p: "paths_ok (rp_clock s) (held_after (held ?l) (cid, v, pos)) q r" by (rule paths_ok_deliver [OF assms(6)])
  have mi: "link_inv ?m" using inv by (rule link_inv_step)
  have l: "rp_link (link_moves cb (deliver t ?fv) s') = ?m"
    "rp_returns (link_moves cb (deliver t ?fv) s') = rp_returns s"
    "rp_clock (link_moves cb (deliver t ?fv) s') = rp_clock s"
    "rp_dc_down (link_moves cb (deliver t ?fv) s') = rp_dc_down s'"
    "rp_ws_down (link_moves cb (deliver t ?fv) s') = rp_ws_down s'"
    using assms(7) by (auto simp: link_moves_def Let_def simp del: link_step.simps)
  have "\<forall>cx \<in> set (results (lk_out ?m)). result_ok (rp_returns s) cx"
    using d assms(1) by (auto simp: delivered_def down_inv_def)
  moreover have "\<forall>fr \<in> set (rp_dc_down s' @ rp_ws_down s'). origin_ok (rp_returns s) (fst (snd fr))"
    using assms(1,7) by (auto simp: down_inv_def)
  moreover have "lk_closed ?m \<or> paths_ok (rp_clock s) (held ?m) (rp_dc_down s') (rp_ws_down s')"
    using d p paths_ok_sym [OF p] assms(7) by (auto simp: delivered_def)
  ultimately show ?thesis using mi unfolding down_inv_def l by blast
qed

lemma down_inv_step:
  assumes "down_inv s" "up_inv s" "length (rp_asked s) < 2 ^ 53" "whole e"
  shows "down_inv (rpc_step cb s e)"
proof (cases e)
  case (RpReturn v cid nd nw)
  with assms show ?thesis by (simp add: down_inv_returns)
next
  case (RpSend m cid nd nw)
  with assms down_inv_push [OF assms(1), of cid m nd nw] show ?thesis by (auto simp: dev_sends_def origin_ok_def)
next
  case RpDcDown
  show ?thesis
  proof (cases "\<exists>cid v pos q. rp_dc_down s = (cid, v, pos) # q \<and> open_for ViaDc (rp_link s)")
    case True
    then obtain cid v pos q where q: "rp_dc_down s = (cid, v, pos) # q" "open_for ViaDc (rp_link s)" by blast
    then have "\<not> lk_closed (rp_link s)" using assms(1) inv_open [OF _ q(2)] by (auto simp: down_inv_def)
    with q assms(1) have "origin_ok (rp_returns s) v"
      "paths_ok (rp_clock s) (held (rp_link s)) ((cid, v, pos) # q) (rp_ws_down s)"
      by (simp_all add: down_inv_def)
    with down_inv_frame [OF assms(1-3) q(2)] q RpDcDown show ?thesis by (simp add: rpc_dc_down_def del: deliver.simps)
  next
    case False
    then have "rpc_dc_down cb s = s" by (cases "rp_dc_down s") (auto simp: rpc_dc_down_def)
    with assms(1) RpDcDown show ?thesis by simp
  qed
next
  case (RpWsDown sid)
  show ?thesis
  proof (cases "\<exists>cid v pos q. rp_ws_down s = (cid, v, pos) # q \<and> open_for (ViaRelay sid) (rp_link s)")
    case True
    then obtain cid v pos q where q: "rp_ws_down s = (cid, v, pos) # q" "open_for (ViaRelay sid) (rp_link s)" by blast
    then have "\<not> lk_closed (rp_link s)" using assms(1) inv_open [OF _ q(2)] by (auto simp: down_inv_def)
    with q assms(1) have "origin_ok (rp_returns s) v"
      "paths_ok (rp_clock s) (held (rp_link s)) ((cid, v, pos) # q) (rp_dc_down s)"
      using paths_ok_sym by (auto simp: down_inv_def simp del: open_for.simps)
    with down_inv_frame [OF assms(1-3) q(2)] q RpWsDown show ?thesis
      by (simp add: rpc_ws_down_def del: deliver.simps open_for.simps)
  next
    case False
    then have "rpc_ws_down cb sid s = s"
      by (cases "rp_ws_down s") (auto simp: rpc_ws_down_def simp del: open_for.simps)
    with assms(1) RpWsDown show ?thesis by simp
  qed
qed (use assms(1) down_inv_own in \<open>auto simp: down_inv_def dev_moves_def rpc_dc_up_def rpc_ws_up_def split: list.split\<close>)

lemma down_inv_init: "down_inv rpc_init"
  by (simp add: down_inv_def rpc_init_def link_inv_init paths_ok_def)
     (simp add: link_init_def held_def part_for_def)

lemma asked_step: "length (rp_asked (rpc_step cb s e)) \<le> Suc (length (rp_asked s))"
  by (cases e) (auto simp: link_moves_def Let_def asked_in_def dev_moves_def dev_returns_def dev_sends_def push_frames_def
      rpc_dc_up_def rpc_ws_up_def rpc_dc_down_def rpc_ws_down_def
      split: link_event.split run_loop.split list.split)

lemma asked_run: "length (rp_asked (rpc_run cb rpc_init es)) \<le> length es"
proof (induction es rule: rev_induct)
  case (snoc e es)
  then show ?case using asked_step [of cb "rpc_run cb rpc_init es" e] by simp
qed (simp add: rpc_init_def)

lemma down_inv_run:
  assumes "\<forall>e \<in> set es. event_ok e \<and> whole e" "length es < 2 ^ 53"
  shows "down_inv (rpc_run cb rpc_init es)"
  using assms
proof (induction es rule: rev_induct)
  case (snoc e es)
  have "length (rp_asked (rpc_run cb rpc_init es)) < 2 ^ 53"
    using asked_run [of cb es] snoc.prems(2) by simp
  with snoc up_inv_run [of es cb] show ?case by (simp add: down_inv_step del: rpc_step.simps)
qed (simp add: down_inv_init)

section \<open>End to end\<close>

text \<open>
  C1: a caller gets the result of its own call: whatever the two paths, the timers and the failures do,
  when a call settles with a result, the device's handler was given the request with this call's
  operation and fields, and returned this result for it, provided that the frames of one message all
  take the same path.
\<close>

theorem calls_get_their_results:
  assumes "\<forall>e \<in> set es. event_ok e \<and> whole e" "length es < 2 ^ 53"
  shows "let s = rpc_run cb rpc_init es
    in \<forall>c x. OSettle c (Inr x) \<in> set (lk_out (rp_link s)) \<longrightarrow>
         (\<exists>op fs r v. c < length (rp_asked s) \<and> rp_asked s ! c = (op, fs)
            \<and> go_request_of (js_request (Suc c) op fs) = Some r \<and> (r, Inr v) \<in> set (rp_returns s) \<and> x = Some v)"
proof -
  let ?s = "rpc_run cb rpc_init es"
  have up: "up_inv ?s" using assms(1) by (intro up_inv_run) blast
  have d: "down_inv ?s" by (rule down_inv_run [OF assms])
  have "\<exists>op fs r v. c < length (rp_asked ?s) \<and> rp_asked ?s ! c = (op, fs)
      \<and> go_request_of (js_request (Suc c) op fs) = Some r \<and> (r, Inr v) \<in> set (rp_returns ?s) \<and> x = Some v"
    if "OSettle c (Inr x) \<in> set (lk_out (rp_link ?s))" for c x
  proof -
    have "result_ok (rp_returns ?s) (c, x)" using d that in_results unfolding down_inv_def by blast
    then obtain r v where r: "(r, Inr v) \<in> set (rp_returns ?s)" "gr_id r = int (Suc c)" "x = Some v"
      by (auto simp: result_ok_def)
    with returns_calls [OF up r(1)] show ?thesis unfolding call_request_def by force
  qed
  then show ?thesis unfolding Let_def by blast
qed

lemma ping_answer: "\<not> big (go_response 1 (Inr (JStr (asc ''ready''))))"
  by (simp add: big_def go_response_def go_marshal_def json_string_def go_escape_def js_eval int_text_def
      nat_text.simps [of "Suc 0"] utf8_encode_def utf8_char_def)

theorem calls_get_their_results_witness:
  "let s = rpc_run (\<lambda>m. None) rpc_init (ping_asked @ [RpReturn (Inr (JStr (asc ''ready''))) 7 1 0, RpDcDown])
   in OSettle 0 (Inr (Some (JStr (asc ''ready'')))) \<in> set (lk_out (rp_link s))
      \<and> (\<exists>r. (r, Inr (JStr (asc ''ready''))) \<in> set (rp_returns s))"
proof -
  let ?v = "JStr (asc ''ready'')" and ?m = "go_response 1 (Inr (JStr (asc ''ready'')))"
  let ?es = "ping_asked @ [RpReturn (Inr ?v) 7 1 0, RpDcDown]"
  let ?s = "rpc_run (\<lambda>m. None) rpc_init ping_asked" and ?t = "rpc_run (\<lambda>m. None) rpc_init ?es"
  have p: "ss_loop (rp_dev ?s) = RunHandle ping_request" "rp_clock ?s = 0" "lk_pending (rp_link ?s) = [(1, 0)]"
    "open_for ViaDc (rp_link ?s)" "rp_dc_down ?s = []"
    using ping_runs [of "\<lambda>m. None"] unfolding Let_def by simp_all
  have js: "js_double 7 = 7" "js_double 1 = 1" by (simp_all add: js_double_small)
  have wf: "wf_json ?m" "wf_json ?v" using asc_scalar by (auto simp: go_response_def)
  have fv: "frame_value (7, ?m, 0) = ?m"
    using ping_answer by (simp add: frame_value_def)
  have "receive (\<lambda>m. None) (rp_link ?s) ?m = (accept_result (rp_link ?s) ?m, None)"
    by (simp add: receive.simps [of "\<lambda>m. None" "rp_link ?s"])
  then have "link_step (\<lambda>m. None) (rp_link ?s) (deliver ViaDc ?m) = accept_result (rp_link ?s) ?m"
    using deliver_receive [OF p(4) wf(1)] by simp
  then have "OSettle 0 (Inr (Some ?v)) \<in> set (lk_out (link_step (\<lambda>m. None) (rp_link ?s) (deliver ViaDc ?m)))"
    using p(3) js by (simp add: accept_result_def pending_of_def emit_def)
  then have out: "OSettle 0 (Inr (Some ?v)) \<in> set (lk_out (rp_link ?t))"
    using p js wf ping_answer fv
    by (simp add: dev_returns_def push_frames_def frames_of_def rpc_dc_down_def link_moves_def Let_def ping_request_def
        del: link_step.simps deliver.simps wf_json.simps)
  have ok: "\<forall>e \<in> set ?es. event_ok e \<and> whole e" using ping_ok by (auto simp: ping_asked_def)
  have "length ?es < 2 ^ 53" by (simp add: ping_asked_def)
  with calls_get_their_results [OF ok, of "\<lambda>m. None"] out show ?thesis unfolding Let_def by blast
qed

end
