(* ===== verification/Rpc_Gaps.thy ===== *)
theory Rpc_Gaps
  imports Rpc_Down
begin

text \<open>
  What the two paths of a session do not promise: the hypothesis of \<open>calls_get_their_results\<close> is needed,
  and a request that is on the data channel when the session falls back to the relay is lost.
\<close>

section \<open>A message that changes its path\<close>

definition letters_reply :: "nat \<Rightarrow> nat \<Rightarrow> json" where
  "letters_reply i n = go_response (int i) (Inr (JStr (replicate n 97)))"

definition reply_head :: "nat \<Rightarrow> byte list" where
  "reply_head i = utf8_encode (asc ''{\"id\":'' @ int_text (int i) @ asc '',\"ok\":true,\"result\":\"'')"

definition reply_tail :: "byte list" where
  "reply_tail = utf8_encode (asc ''\",\"type\":\"result\"}'')"

lemma utf8_append: "utf8_encode (s @ t) = utf8_encode s @ utf8_encode t"
  by (simp add: utf8_encode_def)

lemma marshal_letters: "go_marshal (letters_reply i n) = reply_head i @ replicate n 97 @ reply_tail"
proof -
  have r: "utf8_encode (replicate n 97) = replicate n 97"
    by (induction n) (simp_all add: utf8_encode_def utf8_char_def)
  have t: "go_json (letters_reply i n) =
      (asc ''{\"id\":'' @ int_text (int i) @ asc '',\"ok\":true,\"result\":\"'') @ replicate n 97 @ asc ''\",\"type\":\"result\"}''"
    by (simp add: letters_reply_def go_response_def json_string_def go_escape_def js_eval)
  show ?thesis unfolding go_marshal_def t by (simp add: utf8_append r reply_head_def reply_tail_def)
qed

lemma length_head: "i < 2 ^ 53 \<Longrightarrow> length (reply_head i) \<le> 60"
proof -
  assume i: "i < 2 ^ 53"
  have "\<forall>c \<in> set (asc ''{\"id\":'' @ int_text (int i) @ asc '',\"ok\":true,\"result\":\"''). c < 0x80"
    using int_text_ascii [of "int i"] by (auto simp: js_eval)
  from length_utf8_ascii [OF this] length_int_text [of "int i" 16] i show ?thesis
    by (simp add: reply_head_def)
qed

text \<open>
  A result of 60000 letters is cut into three chunks. When the device switches to the relay before the
  last one, and the relay is faster than what is left in the data channel, the call settles with a
  result that lacks the second chunk.
\<close>

lemma split_message_corrupts:
  fixes l :: "fields link"
  assumes "link_inv l" "(i, c) \<in> set (lk_pending l)" "i < 2 ^ 53" "open_for ViaDc l" "open_for (ViaRelay sid) l"
    and "lk_parts l = []"
  shows "lk_out (link_run cb l [deliver ViaDc (frame_value (cid, letters_reply i 60000, 0)),
                                deliver (ViaRelay sid) (frame_value (cid, letters_reply i 60000, 48000))])
    = lk_out l @ [OSettle c (Inr (Some (JStr (replicate 36000 97))))]"
proof -
  let ?h = "reply_head i" and ?k = "KNum (js_double cid)" and ?v = "letters_reply i 60000"
  let ?d = "?h @ replicate (24000 - length ?h) 97" and ?e = "replicate (12000 + length ?h) 97 @ reply_tail"
  have len: "length ?h \<le> 60" by (rule length_head [OF assms(3)])
  have tl: "length reply_tail = 18"
    by (simp add: reply_tail_def js_eval utf8_encode_def utf8_char_def)
  have big: "big ?v" using len by (simp add: big_def marshal_letters)
  have d: "take 24000 (go_marshal ?v) = ?d" using len by (simp add: marshal_letters)
  have e: "take 24000 (drop 48000 (go_marshal ?v)) = ?e" using len tl by (simp add: marshal_letters)
  have f: "frame_value (cid, ?v, 0) = chunk_msg cid ?d False" "frame_value (cid, ?v, 48000) = chunk_msg cid ?e True"
    using big d e len tl by (simp_all add: frame_value_def marshal_letters)
  let ?l1 = "l\<lparr>lk_serial := Suc (lk_serial l), lk_parts := [(?k, \<lparr>pt_buffers = [?d], pt_size = 24000\<rparr>)]\<rparr>"
  have pf: "part_for (lk_parts l) ?k = \<lparr>pt_buffers = [], pt_size = 0\<rparr>" using assms(6) by (simp add: part_for_def)
  have ld: "length ?d = 24000" using len by simp
  have "receive cb l (chunk_msg cid ?d False) = (?l1, None)"
    using receive_chunk(1) [OF pf, of ?d cb] ld len assms(6) by (simp add: part_limit_def)
  then have s1: "link_step cb l (deliver ViaDc (frame_value (cid, ?v, 0))) = ?l1"
    unfolding f using deliver_receive [OF assms(4) wf_chunk_msg] by simp
  have whole: "concat ([?d] @ [?e]) = go_marshal (letters_reply i 36000)"
    using len by (simp add: marshal_letters replicate_add [symmetric])
  have lm: "length (go_marshal (letters_reply i 36000)) = 36018 + length ?h" using tl by (simp add: marshal_letters)
  have wf: "wf_json (letters_reply i 36000)"
    by (auto simp: letters_reply_def go_response_def scalar_def dest: asc_scalar)
  have p1: "part_for (lk_parts ?l1) ?k = \<lparr>pt_buffers = [?d], pt_size = 24000\<rparr>" by (simp add: part_for_def)
  have "receive cb ?l1 (chunk_msg cid ?e True) =
      receive cb (?l1\<lparr>lk_serial := Suc (lk_serial ?l1), lk_parts := AList.delete ?k (lk_parts ?l1)\<rparr>) (letters_reply i 36000)"
    by (rule receive_chunk(2) [OF p1])
      (use len tl whole json_parse_marshal [OF wf] ld lm in \<open>simp_all add: part_limit_def part_ok_def\<close>)
  also have "\<dots> = (emit [OSettle c (Inr (Some (JStr (replicate 36000 97))))]
      (?l1\<lparr>lk_serial := Suc (lk_serial ?l1), lk_parts := AList.delete ?k (lk_parts ?l1),
           lk_timers := removeAll i (lk_timers l), lk_pending := AList.delete i (lk_pending l)\<rparr>), None)"
  proof -
    have "link_inv (?l1\<lparr>lk_serial := Suc (lk_serial ?l1), lk_parts := AList.delete ?k (lk_parts ?l1)\<rparr>)"
      using assms(1,6) by (simp add: link_inv_def calls_ok_def shut_ok_def calls_of_def)
    from receive_response [OF this _ assms(3), of c cb] assms(2) show ?thesis
      by (simp add: letters_reply_def response_outcome_def)
  qed
  finally have r: "receive cb ?l1 (chunk_msg cid ?e True) = \<dots>" .
  have "open_for (ViaRelay sid) ?l1" using assms(5) by simp
  from deliver_receive [OF this wf_chunk_msg, of cb] r have
    "lk_out (link_step cb ?l1 (deliver (ViaRelay sid) (frame_value (cid, ?v, 48000)))) =
       lk_out l @ [OSettle c (Inr (Some (JStr (replicate 36000 97))))]"
    unfolding f by (simp add: emit_def)
  then show ?thesis unfolding run_Cons s1 by simp
qed

section \<open>A request that is under way at the switch\<close>

text \<open>
  Once the device has read one relayed message it ignores the data channel: what was still on its way
  there is never handled, and its caller waits for the time-out.
\<close>

lemma switch_drops_request:
  assumes "ss_relay (rp_dev s)" "rp_dc_up s = b # bs"
  shows "rpc_step cb s RpDcUp = s\<lparr>rp_dc_up := bs\<rparr>"
  using assms by (simp add: rpc_dc_up_def dev_moves_def on_dc_message_def)

end
