(* ===== verification/Files.thy ===== *)
theory Files
  imports Link_Inv "HOL-Library.Sorting_Algorithms"
begin

text \<open>
  The file manager of \<open>openRemote\<close> in \<open>web/static/remote-ui.js\<close>. Its handlers await calls on the
  link: each handler is split at its awaits into the event that starts it and the continuations
  (\<open>task\<close>) that an answer resumes, so the interleavings the browser allows are runs of \<open>fm_step\<close>.

  Answers are those the device sends (\<open>Session.fileRequest\<close>), already read from JSON; an answer of
  another kind than its call asks for does not occur and is ignored. Texts shown to the user are
  constructors with the parts that vary. \<open>coll\<close> is \<open>localeCompare\<close>.
\<close>

section \<open>Data\<close>

record file_entry =
  en_name :: jstext
  en_dir :: bool
  en_size :: nat

text \<open>The fields of a request; those a call does not send have the zero value of the Go struct.\<close>

record file_request =
  rq_op :: string
  rq_path :: jstext
  rq_target :: jstext
  rq_data :: jstext
  rq_offset :: int

definition file_rq :: "string \<Rightarrow> jstext \<Rightarrow> file_request" where
  "file_rq op p = \<lparr>rq_op = op, rq_path = p, rq_target = [], rq_data = [], rq_offset = 0\<rparr>"

record local_file =
  lf_name :: jstext
  lf_data :: "byte list"

datatype file_err =
    FLink link_err | FOverLimit | FGrown | FBadFileName | FBadDirName | FBadData | FUnreadable

datatype file_text =
    FtNone | FtErr file_err | FtUploadErr file_err
  | FtDownloading jstext nat | FtDownloaded | FtUploading jstext nat nat | FtUploaded

text \<open>What follows a \<open>load\<close>: nothing but the report of an error, or the end of an upload.\<close>

datatype after_load = JustReport | EndUpload

datatype task =
    KLoad after_load
  | KThenLoad
  | KDownload file_entry "byte list list" nat
  | KCreate local_file jstext
  | KSlice local_file jstext nat
  | KWrite local_file jstext nat

datatype file_out = FCall nat file_request | FSave jstext "byte list"

record fm =
  fm_current :: jstext
  fm_path :: jstext
  fm_entries :: "file_entry list"
  fm_busy :: bool
  fm_loading :: bool
  fm_upload_off :: bool
  fm_picked :: bool
  fm_active :: bool
  fm_text :: file_text
  fm_next :: nat
  fm_tasks :: "(nat \<times> file_request option \<times> task) list"
  fm_out :: "file_out list"

text \<open>
  \<open>fm_tasks\<close> are the continuations that wait: with the request whose answer resumes them, or none
  for the read of a slice of the local file. \<open>fm_picked\<close>: the file input holds a file.
\<close>

definition fm_init :: fm where
  "fm_init =
     \<lparr>fm_current = [], fm_path = [], fm_entries = [], fm_busy = False, fm_loading = False,
      fm_upload_off = False, fm_picked = False, fm_active = True, fm_text = FtNone, fm_next = 0,
      fm_tasks = [], fm_out = []\<rparr>"

section \<open>Names and paths\<close>

text \<open>\<open>current.replace(/\/$/, "")\<close>\<close>

definition strip_slash :: "jstext \<Rightarrow> jstext" where
  "strip_slash p = (if p \<noteq> [] \<and> last p = 47 then butlast p else p)"

definition join :: "jstext \<Rightarrow> jstext \<Rightarrow> jstext" where
  "join current n = strip_slash current @ 47 # n"

text \<open>\<open>current.replace(/\/[^/]+\/?$/, "") || "/"\<close>: the leftmost slash after which one segment follows.\<close>

definition one_segment :: "jstext \<Rightarrow> bool" where
  "one_segment t \<longleftrightarrow>
     takeWhile (\<lambda>c. c \<noteq> 47) t \<noteq> [] \<and> dropWhile (\<lambda>c. c \<noteq> 47) t \<in> {[], [47]}"

fun drop_segment :: "jstext \<Rightarrow> jstext" where
  "drop_segment [] = []"
| "drop_segment (c # cs) = (if c = 47 \<and> one_segment cs then [] else c # drop_segment cs)"

definition parent :: "jstext \<Rightarrow> jstext" where
  "parent p = (if drop_segment p = [] then [47] else drop_segment p)"

text \<open>\<open>/[\\/]/.test(n) || n === "." || n === ".."\<close>\<close>

definition bad_name :: "jstext \<Rightarrow> bool" where
  "bad_name n \<longleftrightarrow> 92 \<in> set n \<or> 47 \<in> set n \<or> n = [46] \<or> n = [46, 46]"

section \<open>The order of a listing\<close>

text \<open>\<open>Number(b.directory) - Number(a.directory) || a.name.localeCompare(b.name)\<close>\<close>

definition entry_cmp :: "(jstext \<Rightarrow> jstext \<Rightarrow> comp) \<Rightarrow> file_entry \<Rightarrow> file_entry \<Rightarrow> comp" where
  "entry_cmp coll a b =
     (if en_dir a \<and> \<not> en_dir b then Less
      else if \<not> en_dir a \<and> en_dir b then Greater
      else coll (en_name a) (en_name b))"

lift_definition entries_order :: "jstext comparator \<Rightarrow> file_entry comparator" is entry_cmp
proof -
  fix coll :: "jstext \<Rightarrow> jstext \<Rightarrow> comp"
  assume c: "comparator coll"
  note laws = comparator.trans_equiv [OF c] comparator.trans_less [OF c]
  show "comparator (entry_cmp coll)"
    by unfold_locales
       (auto simp: entry_cmp_def comparator.refl [OF c] comparator.greater_iff_sym_less [OF c]
         split: if_splits dest: laws)
qed

section \<open>Calls and reports\<close>

definition file_limit :: nat where
  "file_limit = 128 * 1024 * 1024"

definition fm_call :: "file_request \<Rightarrow> task \<Rightarrow> fm \<Rightarrow> fm" where
  "fm_call rq k m =
     m\<lparr>fm_next := Suc (fm_next m), fm_tasks := fm_tasks m @ [(fm_next m, Some rq, k)],
       fm_out := fm_out m @ [FCall (fm_next m) rq]\<rparr>"

definition fm_report :: "file_text \<Rightarrow> fm \<Rightarrow> fm" where
  "fm_report t m = (if fm_active m then m\<lparr>fm_text := t\<rparr> else m)"

definition fm_load :: "after_load \<Rightarrow> jstext \<Rightarrow> fm \<Rightarrow> fm" where
  "fm_load a p m = fm_call (file_rq ''list'' p) (KLoad a) (m\<lparr>fm_loading := True, fm_upload_off := True\<rparr>)"

text \<open>The \<open>finally\<close> blocks.\<close>

definition load_finally :: "fm \<Rightarrow> fm" where
  "load_finally m = m\<lparr>fm_loading := False, fm_upload_off := False\<rparr>"

definition upload_finally :: "fm \<Rightarrow> fm" where
  "upload_finally m = m\<lparr>fm_busy := False, fm_picked := False\<rparr>"

definition download_finally :: "fm \<Rightarrow> fm" where
  "download_finally m = m\<lparr>fm_busy := False\<rparr>"

section \<open>Loops\<close>

text \<open>The head of \<open>while (active)\<close> in \<open>download\<close>: the next read, or the return.\<close>

definition download_loop :: "file_entry \<Rightarrow> byte list list \<Rightarrow> nat \<Rightarrow> fm \<Rightarrow> fm" where
  "download_loop e parts offset m =
     (if fm_active m then
        fm_call ((file_rq ''read'' (join (fm_current m) (en_name e)))\<lparr>rq_offset := int offset\<rparr>)
          (KDownload e parts offset) m
      else download_finally m)"

definition download_done :: "file_entry \<Rightarrow> byte list list \<Rightarrow> fm \<Rightarrow> fm" where
  "download_done e parts m =
     (if fm_active m then
        download_finally (m\<lparr>fm_out := fm_out m @ [FSave (en_name e) (concat parts)], fm_text := FtDownloaded\<rparr>)
      else download_finally m)"

definition fm_download :: "file_entry \<Rightarrow> fm \<Rightarrow> fm" where
  "fm_download e m =
     (if file_limit < en_size e then fm_report (FtErr FOverLimit) m
      else download_loop e [] 0 (m\<lparr>fm_busy := True\<rparr>))"

definition download_chunk :: "file_entry \<Rightarrow> byte list list \<Rightarrow> nat \<Rightarrow> jstext \<Rightarrow> bool \<Rightarrow> fm \<Rightarrow> fm" where
  "download_chunk e parts offset data eof m =
     (case decode data of
        None \<Rightarrow> fm_report (FtErr FBadData) (download_finally m)
      | Some b \<Rightarrow>
          let parts1 = parts @ [b]; offset1 = offset + length b
          in if file_limit < offset1 then fm_report (FtErr FGrown) (download_finally m)
             else
               let m1 = m\<lparr>fm_text := FtDownloading (en_name e) offset1\<rparr>
               in if eof then download_done e parts1 m1 else download_loop e parts1 offset1 m1)"

text \<open>The head of the upload's \<open>for\<close>: the next slice, or what follows the loop.\<close>

definition upload_loop :: "local_file \<Rightarrow> jstext \<Rightarrow> nat \<Rightarrow> fm \<Rightarrow> fm" where
  "upload_loop f dest offset m =
     (if offset < length (lf_data f) \<and> fm_active m then
        m\<lparr>fm_next := Suc (fm_next m), fm_tasks := fm_tasks m @ [(fm_next m, None, KSlice f dest offset)]\<rparr>
      else if fm_active m then fm_load EndUpload (fm_current m) m
      else upload_finally m)"

definition upload_fail :: "file_err \<Rightarrow> fm \<Rightarrow> fm" where
  "upload_fail e m = upload_finally (fm_report (FtUploadErr e) m)"

definition fm_upload :: "local_file \<Rightarrow> fm \<Rightarrow> fm" where
  "fm_upload f m =
     (let m1 = m\<lparr>fm_busy := True\<rparr>; dest = join (fm_current m) (lf_name f)
      in if file_limit < length (lf_data f) then upload_fail FOverLimit m1
         else fm_call (file_rq ''create'' dest) (KCreate f dest) m1)"

definition upload_slice :: "local_file \<Rightarrow> jstext \<Rightarrow> nat \<Rightarrow> bool \<Rightarrow> fm \<Rightarrow> fm" where
  "upload_slice f dest offset ok m =
     (if \<not> ok then upload_fail FUnreadable m
      else case encode (take 24000 (drop offset (lf_data f))) of
             None \<Rightarrow> upload_fail FBadData m
           | Some d \<Rightarrow>
               fm_call ((file_rq ''write'' dest)\<lparr>rq_offset := int offset, rq_data := d\<rparr>) (KWrite f dest offset) m)"

definition upload_written :: "local_file \<Rightarrow> jstext \<Rightarrow> nat \<Rightarrow> fm \<Rightarrow> fm" where
  "upload_written f dest offset m =
     upload_loop f dest (offset + 24000)
       (m\<lparr>fm_text := FtUploading (lf_name f) (min (offset + 24000) (length (lf_data f))) (length (lf_data f))\<rparr>)"

section \<open>The handlers\<close>

text \<open>
  A click on a row carries what the user then answers: the name typed into the prompt
  (\<open>None\<close> when it is cancelled), or whether the deletion was confirmed.
\<close>

datatype file_event =
    FEntry nat | FRename nat "jstext option" | FDelete nat bool
  | FEdit jstext | FGo | FUp | FMkdir "jstext option" | FPick "local_file option"
  | FListed nat jstext "file_entry list" | FDone nat | FChunk nat jstext bool | FBuffer nat bool
  | FFailed nat link_err
  | FDialogClose

definition row_ready :: "fm \<Rightarrow> nat \<Rightarrow> bool" where
  "row_ready m i \<longleftrightarrow> \<not> fm_busy m \<and> \<not> fm_loading m \<and> i < length (fm_entries m)"

definition click_entry :: "nat \<Rightarrow> fm \<Rightarrow> fm" where
  "click_entry i m =
     (if \<not> row_ready m i then m
      else
        let e = fm_entries m ! i
        in if en_dir e then fm_load JustReport (join (fm_current m) (en_name e)) m else fm_download e m)"

definition click_rename :: "nat \<Rightarrow> jstext option \<Rightarrow> fm \<Rightarrow> fm" where
  "click_rename i ans m =
     (if \<not> row_ready m i then m
      else case ans of
             None \<Rightarrow> m
           | Some n \<Rightarrow>
               if n = [] then m
               else if bad_name n then fm_report (FtErr FBadFileName) m
               else fm_call ((file_rq ''rename'' (join (fm_current m) (en_name (fm_entries m ! i))))
                               \<lparr>rq_target := join (fm_current m) n\<rparr>) KThenLoad m)"

definition click_delete :: "nat \<Rightarrow> bool \<Rightarrow> fm \<Rightarrow> fm" where
  "click_delete i sure m =
     (if \<not> row_ready m i \<or> \<not> sure then m
      else fm_call (file_rq ''delete'' (join (fm_current m) (en_name (fm_entries m ! i)))) KThenLoad m)"

definition click_mkdir :: "jstext option \<Rightarrow> fm \<Rightarrow> fm" where
  "click_mkdir ans m =
     (if fm_busy m \<or> fm_loading m then m
      else case ans of
             None \<Rightarrow> m
           | Some n \<Rightarrow>
               if n = [] then m
               else if bad_name n then fm_report (FtErr FBadDirName) m
               else fm_call (file_rq ''mkdir'' (join (fm_current m) n)) KThenLoad m)"

definition pick_file :: "local_file option \<Rightarrow> fm \<Rightarrow> fm" where
  "pick_file f m =
     (if fm_upload_off m then m
      else case f of
             None \<Rightarrow> m\<lparr>fm_picked := False\<rparr>
           | Some f \<Rightarrow>
               let m1 = m\<lparr>fm_picked := True\<rparr>
               in if fm_busy m \<or> fm_loading m then m1 else fm_upload f m1)"

definition listed :: "jstext comparator \<Rightarrow> after_load \<Rightarrow> jstext \<Rightarrow> file_entry list \<Rightarrow> fm \<Rightarrow> fm" where
  "listed coll a p es m =
     (let m1 = load_finally (m\<lparr>fm_current := p, fm_path := p,
                               fm_entries := Sorting_Algorithms.sort (entries_order coll) es\<rparr>)
      in case a of JustReport \<Rightarrow> m1 | EndUpload \<Rightarrow> upload_finally (m1\<lparr>fm_text := FtUploaded\<rparr>))"

definition task_failed :: "task \<Rightarrow> link_err \<Rightarrow> fm \<Rightarrow> fm" where
  "task_failed k e m =
     (case k of
        KLoad JustReport \<Rightarrow> fm_report (FtErr (FLink e)) (load_finally m)
      | KLoad EndUpload \<Rightarrow> upload_fail (FLink e) (load_finally m)
      | KThenLoad \<Rightarrow> fm_report (FtErr (FLink e)) m
      | KDownload _ _ _ \<Rightarrow> fm_report (FtErr (FLink e)) (download_finally m)
      | _ \<Rightarrow> upload_fail (FLink e) m)"

text \<open>The continuation that waits under an id, taken from the table.\<close>

definition task_at :: "fm \<Rightarrow> nat \<Rightarrow> (file_request option \<times> task) option" where
  "task_at m i = map_of (fm_tasks m) i"

definition drop_task :: "nat \<Rightarrow> fm \<Rightarrow> fm" where
  "drop_task i m = m\<lparr>fm_tasks := AList.delete i (fm_tasks m)\<rparr>"

fun fm_step :: "jstext comparator \<Rightarrow> fm \<Rightarrow> file_event \<Rightarrow> fm" where
  "fm_step coll m (FEntry i) = click_entry i m"
| "fm_step coll m (FRename i ans) = click_rename i ans m"
| "fm_step coll m (FDelete i sure) = click_delete i sure m"
| "fm_step coll m (FEdit p) = m\<lparr>fm_path := p\<rparr>"
| "fm_step coll m FGo = (if fm_busy m \<or> fm_loading m then m else fm_load JustReport (fm_path m) m)"
| "fm_step coll m FUp = (if fm_busy m \<or> fm_loading m then m else fm_load JustReport (parent (fm_current m)) m)"
| "fm_step coll m (FMkdir ans) = click_mkdir ans m"
| "fm_step coll m (FPick f) = pick_file f m"
| "fm_step coll m (FListed i p es) =
     (case task_at m i of Some (_, KLoad a) \<Rightarrow> listed coll a p es (drop_task i m) | _ \<Rightarrow> m)"
| "fm_step coll m (FDone i) =
     (case task_at m i of
        Some (_, KThenLoad) \<Rightarrow> fm_load JustReport (fm_current m) (drop_task i m)
      | Some (_, KCreate f dest) \<Rightarrow> upload_loop f dest 0 (drop_task i m)
      | Some (_, KWrite f dest offset) \<Rightarrow> upload_written f dest offset (drop_task i m)
      | _ \<Rightarrow> m)"
| "fm_step coll m (FChunk i data eof) =
     (case task_at m i of
        Some (_, KDownload e parts offset) \<Rightarrow> download_chunk e parts offset data eof (drop_task i m)
      | _ \<Rightarrow> m)"
| "fm_step coll m (FBuffer i ok) =
     (case task_at m i of Some (_, KSlice f dest offset) \<Rightarrow> upload_slice f dest offset ok (drop_task i m) | _ \<Rightarrow> m)"
| "fm_step coll m (FFailed i e) =
     (case task_at m i of
        Some (Some _, k) \<Rightarrow> task_failed k e (drop_task i m)
      | _ \<Rightarrow> m)"
| "fm_step coll m FDialogClose = m\<lparr>fm_active := False\<rparr>"

text \<open>\<open>await load()\<close> opens the file manager.\<close>

definition fm_open :: fm where
  "fm_open = fm_load JustReport [] fm_init"

abbreviation "fm_run coll \<equiv> run (fm_step coll)"

named_theorems fm_defs \<open>the file manager's handlers\<close>

lemmas [fm_defs] =
  fm_call_def fm_report_def fm_load_def load_finally_def upload_finally_def download_finally_def
  download_loop_def download_done_def fm_download_def download_chunk_def upload_loop_def upload_fail_def
  fm_upload_def upload_slice_def upload_written_def row_ready_def click_entry_def click_rename_def
  click_delete_def click_mkdir_def pick_file_def listed_def task_failed_def drop_task_def

end
