(* ===== verification/File_Service.thy ===== *)
theory File_Service
  imports Files
begin

text \<open>
  The device's side of the file manager, \<open>Session.fileRequest\<close> of \<open>internal/remote/session.go\<close>, and
  the two together. The SFTP client and the file system behind it are not part of the repository:
  they are the record \<open>sftp\<close> of functions on an opaque state, and \<open>sftp_ok\<close> states what the
  documentation of \<open>ReadAt\<close>, \<open>WriteAt\<close> and of an exclusive create promises.
\<close>

section \<open>Session.fileRequest\<close>

datatype sftp_err = NotExist | SftpErr jstext

definition sftp_msg :: "sftp_err \<Rightarrow> jstext" where
  "sftp_msg e = (case e of NotExist \<Rightarrow> asc ''file does not exist'' | SftpErr t \<Rightarrow> t)"

record 's sftp =
  sf_getwd :: "'s \<Rightarrow> sftp_err + jstext"
  sf_readdir :: "'s \<Rightarrow> jstext \<Rightarrow> sftp_err + file_entry list"
  sf_read_at :: "'s \<Rightarrow> jstext \<Rightarrow> nat \<Rightarrow> int \<Rightarrow> sftp_err + byte list \<times> bool"
  sf_create :: "'s \<Rightarrow> jstext \<Rightarrow> 's \<times> sftp_err option"
  sf_write_at :: "'s \<Rightarrow> jstext \<Rightarrow> byte list \<Rightarrow> int \<Rightarrow> 's \<times> (sftp_err + nat)"
  sf_mkdir :: "'s \<Rightarrow> jstext \<Rightarrow> 's \<times> sftp_err option"
  sf_lstat :: "'s \<Rightarrow> jstext \<Rightarrow> sftp_err + bool"
  sf_rename :: "'s \<Rightarrow> jstext \<Rightarrow> jstext \<Rightarrow> 's \<times> sftp_err option"
  sf_rmdir :: "'s \<Rightarrow> jstext \<Rightarrow> 's \<times> sftp_err option"
  sf_remove :: "'s \<Rightarrow> jstext \<Rightarrow> 's \<times> sftp_err option"

text \<open>
  \<open>sf_read_at\<close> opens the file and reads: the bytes, and whether the read ended with \<open>io.EOF\<close>;
  \<open>sf_lstat\<close> says whether the entry is a directory.
\<close>

datatype file_reply = RListing jstext "file_entry list" | RRead jstext bool | RCount nat | RNil

definition reply_unit :: "'s \<times> sftp_err option \<Rightarrow> 's \<times> (jstext + file_reply)" where
  "reply_unit r = (fst r, case snd r of None \<Rightarrow> Inr RNil | Some e \<Rightarrow> Inl (sftp_msg e))"

text \<open>\<open>base64.StdEncoding.DecodeString\<close>: line breaks are skipped, the padding is required.\<close>

definition go_b64_decode :: "jstext \<Rightarrow> byte list option" where
  "go_b64_decode s =
     (let t = filter (\<lambda>c. c \<noteq> 10 \<and> c \<noteq> 13) s in
      if length t mod 4 \<noteq> 0 then None else map_option b64_join (b64_vals (b64_unpad t)))"

definition go_list :: "'s sftp \<Rightarrow> 's \<Rightarrow> jstext \<Rightarrow> jstext + file_reply" where
  "go_list ops st path =
     (case (if path = [] then sf_getwd ops st else Inr path) of
        Inl e \<Rightarrow> Inl (sftp_msg e)
      | Inr p \<Rightarrow>
          (case sf_readdir ops st p of
             Inl e \<Rightarrow> Inl (sftp_msg e)
           | Inr es \<Rightarrow>
               if 10000 < length es then Inl (asc ''directory has more than 10000 entries'')
               else Inr (RListing p es)))"

definition go_read :: "'s sftp \<Rightarrow> 's \<Rightarrow> jstext \<Rightarrow> int \<Rightarrow> jstext + file_reply" where
  "go_read ops st path offset =
     (case sf_read_at ops st path 24000 offset of
        Inl e \<Rightarrow> Inl (sftp_msg e)
      | Inr (b, eof) \<Rightarrow> Inr (RRead (b64_encode b) eof))"

definition go_write :: "'s sftp \<Rightarrow> 's \<Rightarrow> file_request \<Rightarrow> 's \<times> (jstext + file_reply)" where
  "go_write ops st r =
     (case go_b64_decode (rq_data r) of
        None \<Rightarrow> (st, Inl (asc ''invalid upload chunk''))
      | Some b \<Rightarrow>
          if 24000 < length b then (st, Inl (asc ''invalid upload chunk''))
          else
            (case sf_write_at ops st (rq_path r) b (rq_offset r) of
               (st', Inl e) \<Rightarrow> (st', Inl (sftp_msg e))
             | (st', Inr n) \<Rightarrow> (st', Inr (RCount n))))"

definition go_rename :: "'s sftp \<Rightarrow> 's \<Rightarrow> jstext \<Rightarrow> jstext \<Rightarrow> 's \<times> (jstext + file_reply)" where
  "go_rename ops st path target =
     (case sf_lstat ops st target of
        Inr _ \<Rightarrow> (st, Inl (asc ''destination already exists''))
      | Inl NotExist \<Rightarrow> reply_unit (sf_rename ops st path target)
      | Inl e \<Rightarrow> (st, Inl (sftp_msg e)))"

definition go_delete :: "'s sftp \<Rightarrow> 's \<Rightarrow> jstext \<Rightarrow> 's \<times> (jstext + file_reply)" where
  "go_delete ops st path =
     (case sf_lstat ops st path of
        Inl e \<Rightarrow> (st, Inl (sftp_msg e))
      | Inr True \<Rightarrow> reply_unit (sf_rmdir ops st path)
      | Inr False \<Rightarrow> reply_unit (sf_remove ops st path))"

definition request_ok :: "file_request \<Rightarrow> bool" where
  "request_ok r \<longleftrightarrow>
     length (utf8_encode (rq_path r)) \<le> 4096 \<and> length (utf8_encode (rq_target r)) \<le> 4096
     \<and> 0 \<le> rq_offset r \<and> rq_offset r \<le> 1024 * 1024 * 1024 * 1024"

definition go_file_request :: "'s sftp \<Rightarrow> 's \<Rightarrow> file_request \<Rightarrow> 's \<times> (jstext + file_reply)" where
  "go_file_request ops st r =
     (if \<not> request_ok r then (st, Inl (asc ''invalid file request''))
      else if rq_op r = ''list'' then (st, go_list ops st (rq_path r))
      else if rq_op r = ''read'' then (st, go_read ops st (rq_path r) (rq_offset r))
      else if rq_op r = ''create'' then reply_unit (sf_create ops st (rq_path r))
      else if rq_op r = ''write'' then go_write ops st r
      else if rq_op r = ''mkdir'' then reply_unit (sf_mkdir ops st (rq_path r))
      else if rq_op r = ''rename'' then go_rename ops st (rq_path r) (rq_target r)
      else if rq_op r = ''delete'' then go_delete ops st (rq_path r)
      else (st, Inl (asc ''unknown file operation'')))"

lemma go_b64_decode_encode: "go_b64_decode (b64_encode b) = Some b"
proof -
  have n: "b64_char n \<noteq> 10 \<and> b64_char n \<noteq> 13" for n by (auto simp: b64_char_def)
  have f: "filter (\<lambda>c. c \<noteq> 10 \<and> c \<noteq> 13) (b64_encode b) = b64_encode b"
    by (induction b rule: b64_encode.induct) (simp_all add: n)
  have h: "filter (\<lambda>c. \<not> html_space c) (b64_encode b) = b64_encode b"
    by (induction b rule: b64_encode.induct) (simp_all add: html_space_def [of 61])
  have l: "length (b64_encode b) mod 4 = 0"
    by (induction b rule: b64_encode.induct) simp_all
  from decode_b64_encode [of b] show ?thesis
    by (auto simp: go_b64_decode_def decode_eq Let_def f h l split: if_splits)
qed

section \<open>The file manager and the device together\<close>

text \<open>
  The device answers calls in the order they were made (\<open>Session.queue\<close>); a slice of the local file
  is read at once. One round resumes the oldest continuation.
\<close>

fun file_answer :: "nat \<Rightarrow> jstext + file_reply \<Rightarrow> file_event" where
  "file_answer i (Inl e) = FFailed i (RemoteError e)"
| "file_answer i (Inr (RListing p es)) = FListed i p es"
| "file_answer i (Inr (RRead d eof)) = FChunk i d eof"
| "file_answer i (Inr (RCount n)) = FDone i"
| "file_answer i (Inr RNil) = FDone i"

definition file_round ::
  "jstext comparator \<Rightarrow> ('s \<Rightarrow> file_request \<Rightarrow> 's \<times> (jstext + file_reply)) \<Rightarrow> fm \<times> 's \<Rightarrow> fm \<times> 's" where
  "file_round coll serve x =
     (case x of (m, st) \<Rightarrow>
        (case fm_tasks m of
           [] \<Rightarrow> (m, st)
         | (i, None, k) # _ \<Rightarrow> (fm_step coll m (FBuffer i True), st)
         | (i, Some rq, k) # _ \<Rightarrow>
             (case serve st rq of (st', r) \<Rightarrow> (fm_step coll m (file_answer i r), st'))))"

definition file_rounds ::
  "jstext comparator \<Rightarrow> ('s \<Rightarrow> file_request \<Rightarrow> 's \<times> (jstext + file_reply)) \<Rightarrow> nat \<Rightarrow> fm \<times> 's \<Rightarrow> fm \<times> 's" where
  "file_rounds coll serve n = file_round coll serve ^^ n"

text \<open>Nothing is under way.\<close>

definition fm_idle :: "fm \<Rightarrow> bool" where
  "fm_idle m \<longleftrightarrow> fm_active m \<and> \<not> fm_busy m \<and> \<not> fm_loading m \<and> \<not> fm_upload_off m \<and> fm_tasks m = []"

text \<open>Writing \<open>b\<close> at an offset within the file.\<close>

definition patch :: "byte list \<Rightarrow> nat \<Rightarrow> byte list \<Rightarrow> byte list" where
  "patch c off b = take off c @ b @ drop (off + length b) c"

text \<open>The download has ended: after some calls, the browser saved the content.\<close>

definition saved_as :: "jstext \<Rightarrow> byte list \<Rightarrow> fm \<Rightarrow> fm \<Rightarrow> bool" where
  "saved_as name c m m' \<longleftrightarrow>
     fm_tasks m' = [] \<and> \<not> fm_busy m' \<and> fm_text m' = FtDownloaded
     \<and> (\<exists>cs. fm_out m' = fm_out m @ map (\<lambda>(i, rq). FCall i rq) cs @ [FSave name c])"

text \<open>The requests answered in the first rounds, each with the state the device was in.\<close>

definition asked :: "fm \<times> 's \<Rightarrow> ('s \<times> file_request) set" where
  "asked x = (case fm_tasks (fst x) of (i, Some rq, k) # ts \<Rightarrow> {(snd x, rq)} | _ \<Rightarrow> {})"

definition served ::
  "jstext comparator \<Rightarrow> ('s \<Rightarrow> file_request \<Rightarrow> 's \<times> (jstext + file_reply)) \<Rightarrow> nat \<Rightarrow> fm \<times> 's \<Rightarrow> ('s \<times> file_request) set" where
  "served coll serve n x = (\<Union>j < n. asked (file_rounds coll serve j x))"

lemma served_at: "file_rounds coll serve j x = y \<Longrightarrow> j < n \<Longrightarrow> asked y \<subseteq> served coll serve n x"
  by (force simp: served_def)

lemma served_more:
  assumes "file_rounds coll serve k x = y" "n + k = l"
  shows "served coll serve n y \<subseteq> served coll serve l x"
proof -
  have "file_rounds coll serve j y = file_rounds coll serve (j + k) x" for j
    using assms(1) by (simp add: file_rounds_def funpow_add)
  then show ?thesis using assms(2) by (force simp: served_def)
qed

lemma asked_call: "fm_tasks m = [] \<Longrightarrow> asked (fm_call rq k m, st) = {(st, rq)}"
  by (simp add: asked_def fm_call_def)

text \<open>The requests with which an upload makes and fills its file.\<close>

definition upload_rq :: "local_file \<Rightarrow> jstext \<Rightarrow> file_request \<Rightarrow> bool" where
  "upload_rq f dest rq \<longleftrightarrow>
     rq = file_rq ''create'' dest
     \<or> (\<exists>off. off < length (lf_data f) \<and> rq = (file_rq ''write'' dest)
          \<lparr>rq_offset := int off, rq_data := b64_encode (take 24000 (drop off (lf_data f)))\<rparr>)"

text \<open>
  The upload has ended: the file is there; or one of the requests \<open>S\<close>, to make or to fill it, was refused; or
  the file is there and the listing of the directory \<open>cur\<close> was refused. The user is told so.
\<close>

definition upload_ended ::
  "('s \<Rightarrow> file_request \<Rightarrow> 's \<times> (jstext + file_reply)) \<Rightarrow> ('s \<Rightarrow> jstext \<Rightarrow> byte list option)
   \<Rightarrow> local_file \<Rightarrow> jstext \<Rightarrow> jstext \<Rightarrow> 's \<Rightarrow> ('s \<times> file_request) set \<Rightarrow> fm \<times> 's \<Rightarrow> bool" where
  "upload_ended serve content f dest cur st S x \<longleftrightarrow>
     fm_tasks (fst x) = [] \<and> \<not> fm_busy (fst x)
     \<and> (fm_text (fst x) = FtUploaded \<and> content (snd x) = (content st)(dest \<mapsto> lf_data f)
       \<or> (\<exists>e s rq s'. fm_text (fst x) = FtUploadErr (FLink (RemoteError e)) \<and> (s, rq) \<in> S \<and> serve s rq = (s', Inl e)
            \<and> (upload_rq f dest rq
               \<or> rq = file_rq ''list'' cur \<and> content (snd x) = (content st)(dest \<mapsto> lf_data f))))"

lemma upload_ended_mono:
  assumes "upload_ended serve content f dest cur st S x" "S \<subseteq> T" "(content st)(dest \<mapsto> lf_data f) = (content t)(dest \<mapsto> lf_data f)"
  shows "upload_ended serve content f dest cur t T x"
  using assms(1) unfolding upload_ended_def assms(3) using assms(2) by blast

lemma patch_take: "off \<le> length c \<Longrightarrow> patch (take off c) off (take k (drop off c)) = take (off + k) c"
  by (simp add: patch_def take_add)

text \<open>
  What the file manager relies on. \<open>content st p\<close> is what the file at \<open>p\<close> holds, \<open>None\<close> when there is
  no such file; \<open>good p\<close> are the paths the service accepts.
\<close>

locale file_service =
  fixes serve :: "'s \<Rightarrow> file_request \<Rightarrow> 's \<times> (jstext + file_reply)"
    and content :: "'s \<Rightarrow> jstext \<Rightarrow> byte list option"
    and good :: "jstext \<Rightarrow> bool"
  assumes serve_read: "content st p = Some c \<Longrightarrow> good p \<Longrightarrow> off \<le> length c \<Longrightarrow> length c \<le> file_limit \<Longrightarrow>
      \<exists>eof. serve st ((file_rq ''read'' p)\<lparr>rq_offset := int off\<rparr>) =
          (st, Inr (RRead (b64_encode (take 24000 (drop off c))) eof))
        \<and> (length c < off + 24000 \<longrightarrow> eof) \<and> (off + 24000 < length c \<longrightarrow> \<not> eof)"
    and serve_create: "serve st (file_rq ''create'' p) = (st', Inr r) \<Longrightarrow>
      content st p = None \<and> content st' = (content st)(p \<mapsto> []) \<and> (r = RNil)"
    and serve_write: "serve st ((file_rq ''write'' p)\<lparr>rq_offset := int off, rq_data := b64_encode b\<rparr>) = (st', Inr r) \<Longrightarrow>
      content st p = Some c \<Longrightarrow> off \<le> length c \<Longrightarrow> length b \<le> 24000 \<Longrightarrow>
      content st' = (content st)(p \<mapsto> patch c off b) \<and> (\<exists>n. r = RCount n)"
    and serve_list: "serve st (file_rq ''list'' p) = (st', ans) \<Longrightarrow> st' = st \<and> (\<forall>v. ans = Inr v \<longrightarrow> (\<exists>q es. v = RListing q es))"
begin

text \<open>The download's loop, from a state in which only its read is under way.\<close>

lemma download_rounds:
  assumes "content st (join (fm_current m) (en_name e)) = Some c" "good (join (fm_current m) (en_name e))"
    and "off \<le> length c" "length c \<le> file_limit" "concat parts = take off c"
    and "fm_active m" "fm_tasks m = []" "fm_busy m"
  shows "\<exists>n m'. file_rounds coll serve n (download_loop e parts off m, st) = (m', st)
    \<and> saved_as (en_name e) c m m' \<and> n \<le> (length c - off) div 24000 + 2"
  using assms
proof (induction "length c - off" arbitrary: off parts m rule: less_induct)
  case less
  let ?p = "join (fm_current m) (en_name e)"
  let ?rq = "(file_rq ''read'' ?p)\<lparr>rq_offset := int off\<rparr>"
  let ?i = "fm_next m"
  let ?b = "take 24000 (drop off c)"
  let ?m1 = "m\<lparr>fm_next := Suc ?i, fm_out := fm_out m @ [FCall ?i ?rq], fm_tasks := [],
               fm_text := FtDownloading (en_name e) (off + length ?b)\<rparr>"
  obtain eof where r: "serve st ?rq = (st, Inr (RRead (b64_encode ?b) eof))"
    and eof: "length c < off + 24000 \<longrightarrow> eof" "off + 24000 < length c \<longrightarrow> \<not> eof"
    using serve_read [OF less.prems(1-4)] by blast
  have lim: "\<not> file_limit < off + length ?b" using less.prems(3,4) by simp
  have "file_round coll serve (download_loop e parts off m, st) =
      (download_chunk e parts off (b64_encode ?b) eof (?m1\<lparr>fm_text := fm_text m\<rparr>), st)"
    using less.prems(6,7) r
    by (simp add: file_round_def download_loop_def fm_call_def task_at_def drop_task_def)
  then have step: "file_round coll serve (download_loop e parts off m, st) =
      (if eof then download_done e (parts @ [?b]) ?m1 else download_loop e (parts @ [?b]) (off + length ?b) ?m1, st)"
    using lim by (simp add: download_chunk_def decode_b64_encode Let_def)
  have all: "concat (parts @ [?b]) = take (off + length ?b) c"
    unfolding take_add using less.prems(5) by (simp add: min_def)
  show ?case
  proof (cases eof)
    case True
    then have "off + length ?b = length c" using eof(2) less.prems(3) by auto
    then have "concat parts @ ?b = c" using all by simp
    let ?mf = "?m1\<lparr>fm_busy := False, fm_text := FtDownloaded, fm_out := fm_out ?m1 @ [FSave (en_name e) c]\<rparr>"
    have "file_rounds coll serve 1 (download_loop e parts off m, st) = (?mf, st)"
      using step True less.prems(6) \<open>concat parts @ ?b = c\<close>
      by (simp add: file_rounds_def download_done_def download_finally_def)
    moreover have "saved_as (en_name e) c m ?mf"
      unfolding saved_as_def by (intro conjI exI [of _ "[(?i, ?rq)]"]) simp_all
    ultimately show ?thesis by (intro exI [of _ 1] exI [of _ ?mf] conjI) simp_all
  next
    case False
    then have l: "length ?b = 24000" "off + 24000 \<le> length c" using eof(1) by auto
    have lt: "length c - (off + length ?b) < length c - off" using l by simp
    have cur: "fm_current ?m1 = fm_current m" by simp
    obtain n m' where ih: "file_rounds coll serve n (download_loop e (parts @ [?b]) (off + length ?b) ?m1, st) = (m', st)"
      "saved_as (en_name e) c ?m1 m'" "n \<le> (length c - (off + length ?b)) div 24000 + 2"
    proof -
      have le: "off + length ?b \<le> length c" using l by simp
      show thesis
        using that less.hyps [OF lt, of ?m1 "parts @ [?b]", OF _ _ le less.prems(4) all] less.prems(1,2,6,8)
        by fastforce
    qed
    have "file_rounds coll serve (Suc n) (download_loop e parts off m, st) = (m', st)"
      using step False ih(1) by (simp add: file_rounds_def funpow_swap1)
    moreover have "Suc n \<le> (length c - off) div 24000 + 2"
      using ih(3) l by (simp add: le_div_geq)
    moreover have "saved_as (en_name e) c m m'"
    proof -
      obtain cs where "fm_out m' = fm_out ?m1 @ map (\<lambda>(i, rq). FCall i rq) cs @ [FSave (en_name e) c]"
        using ih(2) by (auto simp: saved_as_def)
      with ih(2) show ?thesis
        unfolding saved_as_def by (intro conjI exI [of _ "(?i, ?rq) # cs"]) simp_all
    qed
    ultimately show ?thesis by blast
  qed
qed

text \<open>The upload's loop and the reload after it.\<close>

lemma upload_last_round:
  assumes "fm_active m" "fm_tasks m = []" "content st dest = Some (lf_data f)"
    and "asked (fm_load EndUpload (fm_current m) m, st) \<subseteq> S"
  shows "upload_ended serve content f dest (fm_current m) st S (file_round coll serve (fm_load EndUpload (fm_current m) m, st))"
proof -
  obtain st' r where r: "serve st (file_rq ''list'' (fm_current m)) = (st', r)" by fastforce
  note l = serve_list [OF r]
  have c: "content st = (content st)(dest \<mapsto> lf_data f)" using assms(3) by auto
  show ?thesis
  proof (cases r)
    case (Inr x)
    then obtain q es where "st' = st" "x = RListing q es" using l by blast
    with Inr r assms c show ?thesis
      by (simp add: file_round_def upload_ended_def task_at_def fm_load_def fm_call_def drop_task_def
          listed_def load_finally_def upload_finally_def Let_def)
  next
    case (Inl x)
    have "fm_text (fst (file_round coll serve (fm_load EndUpload (fm_current m) m, st))) = FtUploadErr (FLink (RemoteError x))
      \<and> fm_tasks (fst (file_round coll serve (fm_load EndUpload (fm_current m) m, st))) = []
      \<and> \<not> fm_busy (fst (file_round coll serve (fm_load EndUpload (fm_current m) m, st)))
      \<and> snd (file_round coll serve (fm_load EndUpload (fm_current m) m, st)) = st"
      using Inl r l assms(1,2)
      by (simp add: file_round_def task_at_def fm_load_def fm_call_def drop_task_def
          task_failed_def upload_fail_def fm_report_def load_finally_def upload_finally_def)
    moreover have "(st, file_rq ''list'' (fm_current m)) \<in> S"
      using assms(2,4) by (simp add: asked_def fm_load_def fm_call_def)
    ultimately show ?thesis unfolding upload_ended_def using r Inl c by auto
  qed
qed

lemma upload_slice_round:
  assumes "fm_active m" "fm_tasks m = []" "off < length (lf_data f)"
  shows "file_round coll serve (upload_loop f dest off m, st) =
    (fm_call ((file_rq ''write'' dest)\<lparr>rq_offset := int off, rq_data := b64_encode (take 24000 (drop off (lf_data f)))\<rparr>)
       (KWrite f dest off) (m\<lparr>fm_next := Suc (fm_next m), fm_tasks := []\<rparr>), st)"
  using assms by (simp add: file_round_def upload_loop_def task_at_def drop_task_def upload_slice_def encode_eq)

lemma upload_rounds:
  assumes "content st dest = Some (take off (lf_data f))" "fm_active m" "fm_tasks m = []"
  shows "\<exists>n x. file_rounds coll serve n (upload_loop f dest off m, st) = x
    \<and> upload_ended serve content f dest (fm_current m) st (served coll serve n (upload_loop f dest off m, st)) x
    \<and> n \<le> 2 * ((length (lf_data f) - off) div 24000) + 3"
  using assms
proof (induction "length (lf_data f) - off" arbitrary: off m st rule: less_induct)
  case less
  let ?c = "lf_data f"
  show ?case
  proof (cases "off < length ?c")
    case False
    then have "upload_ended serve content f dest (fm_current m) st (served coll serve 1 (upload_loop f dest off m, st))
        (file_rounds coll serve 1 (upload_loop f dest off m, st))"
      using less.prems upload_last_round [of m st dest f _ coll] served_at [of coll serve 0 "(upload_loop f dest off m, st)" _ 1]
      by (simp add: file_rounds_def upload_loop_def)
    then show ?thesis by (intro exI [of _ 1]) simp
  next
    case True
    let ?b = "take 24000 (drop off ?c)"
    let ?rq = "(file_rq ''write'' dest)\<lparr>rq_offset := int off, rq_data := b64_encode ?b\<rparr>"
    let ?m = "m\<lparr>fm_next := Suc (Suc (fm_next m)), fm_out := fm_out m @ [FCall (Suc (fm_next m)) ?rq], fm_tasks := []\<rparr>"
    obtain st' r where r: "serve st ?rq = (st', r)" by fastforce
    have two: "file_rounds coll serve 2 (upload_loop f dest off m, st) =
        (case r of Inl e \<Rightarrow> upload_fail (FLink (RemoteError e)) ?m
         | Inr v \<Rightarrow> fm_step coll (fm_call ?rq (KWrite f dest off) (m\<lparr>fm_next := Suc (fm_next m), fm_tasks := []\<rparr>))
                   (file_answer (Suc (fm_next m)) (Inr v)), st')"
      using upload_slice_round [OF less.prems(2,3) True] r
      by (simp add: file_rounds_def numeral_2_eq_2 file_round_def fm_call_def task_at_def drop_task_def
          task_failed_def split: sum.split)
    show ?thesis
    proof (cases r)
      case (Inl e)
      have rq: "upload_rq f dest ?rq" using True by (auto simp: upload_rq_def)
      have at: "(st, ?rq) \<in> served coll serve 2 (upload_loop f dest off m, st)"
        using served_at [of coll serve 1 "(upload_loop f dest off m, st)", OF refl, of 2] upload_slice_round [OF less.prems(2,3) True]
        by (simp add: file_rounds_def asked_call)
      have "upload_ended serve content f dest (fm_current m) st (served coll serve 2 (upload_loop f dest off m, st))
          (file_rounds coll serve 2 (upload_loop f dest off m, st))"
        unfolding upload_ended_def
        by (intro conjI disjI2 exI [of _ e] exI [of _ st] exI [of _ ?rq] exI [of _ st'] disjI1 rq)
          (use two less.prems r Inl at in \<open>auto simp: upload_fail_def fm_report_def upload_finally_def\<close>)
      then show ?thesis by (intro exI [of _ 2]) simp
    next
      case (Inr v)
      have st': "content st' = (content st)(dest \<mapsto> take (off + 24000) ?c)" "\<exists>n. v = RCount n"
        using serve_write [OF r [unfolded Inr] less.prems(1)] True patch_take [of off ?c 24000] by simp_all
      let ?m1 = "?m\<lparr>fm_text := FtUploading (lf_name f) (min (off + 24000) (length ?c)) (length ?c)\<rparr>"
      have go: "file_rounds coll serve 2 (upload_loop f dest off m, st) =
          (upload_loop f dest (off + 24000) ?m1, st')"
        using two st'(2) Inr less.prems
        by (auto simp: fm_call_def task_at_def drop_task_def upload_written_def)
      obtain n x where ih: "file_rounds coll serve n (upload_loop f dest (off + 24000) ?m1, st') = x"
        "upload_ended serve content f dest (fm_current m) st' (served coll serve n (upload_loop f dest (off + 24000) ?m1, st')) x"
        "n \<le> 2 * ((length ?c - (off + 24000)) div 24000) + 3"
        using less.hyps [OF diff_less_mono2 [of off "off + 24000"], of st' ?m1] True less.prems st'(1) by auto
      have same: "(content st')(dest \<mapsto> ?c) = (content st)(dest \<mapsto> ?c)" using st'(1) by simp
      show ?thesis
      proof (cases "length ?c \<le> off + 24000")
        case True
        then have "file_rounds coll serve 3 (upload_loop f dest off m, st) =
            file_round coll serve (fm_load EndUpload (fm_current ?m1) ?m1, st')"
          using go less.prems
          by (simp add: file_rounds_def numeral_3_eq_3 numeral_2_eq_2 upload_loop_def [of f dest "off + 24000"])
        moreover have "asked (fm_load EndUpload (fm_current ?m1) ?m1, st') \<subseteq> served coll serve 3 (upload_loop f dest off m, st)"
          using served_at [OF go, of 3] True less.prems(2) by (simp add: upload_loop_def)
        then have "upload_ended serve content f dest (fm_current m) st' (served coll serve 3 (upload_loop f dest off m, st))
            (file_round coll serve (fm_load EndUpload (fm_current ?m1) ?m1, st'))"
          using upload_last_round [of ?m1 st' dest f _ coll] less.prems st'(1) True by simp
        ultimately show ?thesis
          using upload_ended_mono [OF _ subset_refl same] by (intro exI [of _ 3]) simp
      next
        case False
        have "file_rounds coll serve (n + 2) (upload_loop f dest off m, st) = x"
          using go ih(1) by (simp only: file_rounds_def funpow_add comp_apply)
        moreover have "n + 2 \<le> 2 * ((length ?c - off) div 24000) + 3"
          using ih(3) False by (simp add: le_div_geq)
        moreover have "upload_ended serve content f dest (fm_current m) st (served coll serve (n + 2) (upload_loop f dest off m, st)) x"
          by (rule upload_ended_mono [OF ih(2) served_more [OF go] same]) simp
        ultimately show ?thesis by blast
      qed
    qed
  qed
qed

text \<open>An upload from the choice of the file.\<close>

lemma upload_from_pick:
  assumes "fm_idle m" "length (lf_data f) \<le> file_limit"
  shows "\<exists>n x. file_rounds coll serve n (fm_step coll m (FPick (Some f)), st) = x
    \<and> upload_ended serve content f (join (fm_current m) (lf_name f)) (fm_current m) st
        (served coll serve n (fm_step coll m (FPick (Some f)), st)) x
    \<and> n \<le> 2 * (length (lf_data f) div 24000) + 4"
proof -
  let ?dest = "join (fm_current m) (lf_name f)"
  let ?start = "fm_step coll m (FPick (Some f))"
  let ?m = "m\<lparr>fm_picked := True, fm_busy := True, fm_next := Suc (fm_next m),
               fm_out := fm_out m @ [FCall (fm_next m) (file_rq ''create'' ?dest)], fm_tasks := []\<rparr>"
  obtain st' r where r: "serve st (file_rq ''create'' ?dest) = (st', r)" by fastforce
  have one: "file_round coll serve (?start, st) =
      (case r of Inl e \<Rightarrow> upload_fail (FLink (RemoteError e)) ?m
       | Inr v \<Rightarrow> fm_step coll ?start (file_answer (fm_next m) (Inr v)), st')"
    using assms r
    by (simp add: fm_idle_def pick_file_def fm_upload_def Let_def file_round_def fm_call_def task_at_def
        drop_task_def task_failed_def split: sum.split)
  show ?thesis
  proof (cases r)
    case (Inl e)
    have rq: "upload_rq f ?dest (file_rq ''create'' ?dest)" by (simp add: upload_rq_def)
    have at: "(st, file_rq ''create'' ?dest) \<in> served coll serve 1 (?start, st)"
      using served_at [of coll serve 0 "(?start, st)", OF refl, of 1] assms
      by (simp add: file_rounds_def fm_idle_def pick_file_def fm_upload_def Let_def asked_call)
    have "upload_ended serve content f ?dest (fm_current m) st (served coll serve 1 (?start, st)) (file_rounds coll serve 1 (?start, st))"
      unfolding upload_ended_def
      by (intro conjI disjI2 exI [of _ e] exI [of _ st] exI [of _ "file_rq ''create'' ?dest"] exI [of _ st'] disjI1 rq)
        (use one assms(1) r Inl at in \<open>auto simp: file_rounds_def fm_idle_def upload_fail_def fm_report_def upload_finally_def\<close>)
    then show ?thesis by (intro exI [of _ 1]) simp
  next
    case (Inr v)
    note c = serve_create [OF r [unfolded Inr]]
    have go: "file_rounds coll serve 1 (?start, st) = (upload_loop f ?dest 0 ?m, st')"
      using one Inr c assms
      by (simp add: file_rounds_def fm_idle_def pick_file_def fm_upload_def Let_def fm_call_def task_at_def drop_task_def)
    obtain n x where ih: "file_rounds coll serve n (upload_loop f ?dest 0 ?m, st') = x"
      "upload_ended serve content f ?dest (fm_current m) st' (served coll serve n (upload_loop f ?dest 0 ?m, st')) x"
      "n \<le> 2 * (length (lf_data f) div 24000) + 3"
      using upload_rounds [of st' ?dest 0 f ?m coll] c assms(1) by (auto simp: fm_idle_def)
    have "file_rounds coll serve (n + 1) (?start, st) = x"
      using go ih(1) by (simp only: file_rounds_def funpow_add comp_apply)
    moreover have "upload_ended serve content f ?dest (fm_current m) st (served coll serve (n + 1) (?start, st)) x"
      by (rule upload_ended_mono [OF ih(2) served_more [OF go]]) (use c in simp_all)
    ultimately show ?thesis using ih(3) by (intro exI [of _ "n + 1"]) simp
  qed
qed

end

section \<open>The device provides the service\<close>

text \<open>
  What \<open>Session.fileRequest\<close> relies on of the SFTP client: \<open>ReadAt\<close> returns what the file holds and
  signals the end when it returns less than asked (at the exact end it may or may not); an exclusive
  create makes an empty file where there was none; \<open>WriteAt\<close> replaces what is at the offset.
\<close>

definition sftp_ok :: "'s sftp \<Rightarrow> ('s \<Rightarrow> jstext \<Rightarrow> byte list option) \<Rightarrow> bool" where
  "sftp_ok ops content \<longleftrightarrow>
     (\<forall>st p c off. content st p = Some c \<and> off \<le> length c \<longrightarrow>
        (\<exists>eof. sf_read_at ops st p 24000 (int off) = Inr (take 24000 (drop off c), eof)
           \<and> (length c < off + 24000 \<longrightarrow> eof) \<and> (off + 24000 < length c \<longrightarrow> \<not> eof)))
     \<and> (\<forall>st p st'. sf_create ops st p = (st', None) \<longrightarrow>
          content st p = None \<and> content st' = (content st)(p \<mapsto> []))
     \<and> (\<forall>st p c off b st' n. content st p = Some c \<and> off \<le> length c
          \<and> sf_write_at ops st p b (int off) = (st', Inr n) \<longrightarrow>
          content st' = (content st)(p \<mapsto> patch c off b))"

definition path_ok :: "jstext \<Rightarrow> bool" where
  "path_ok p \<longleftrightarrow> length (utf8_encode p) \<le> 4096"

lemma request_ok_simps [simp]:
  "request_ok ((file_rq op p)\<lparr>rq_offset := n\<rparr>) \<longleftrightarrow> path_ok p \<and> 0 \<le> n \<and> n \<le> 1024 * 1024 * 1024 * 1024"
  by (simp add: request_ok_def path_ok_def file_rq_def utf8_encode_def)

lemma go_file_service:
  assumes "sftp_ok ops content"
  shows "file_service (go_file_request ops) content path_ok"
proof
  fix st p c off
  assume c: "content st p = Some c" "path_ok p" "off \<le> length c" "length c \<le> file_limit"
  then obtain eof where "sf_read_at ops st p 24000 (int off) = Inr (take 24000 (drop off c), eof)"
    "(length c < off + 24000 \<longrightarrow> eof) \<and> (off + 24000 < length c \<longrightarrow> \<not> eof)"
    using assms unfolding sftp_ok_def by blast
  with c show "\<exists>eof. go_file_request ops st ((file_rq ''read'' p)\<lparr>rq_offset := int off\<rparr>) =
          (st, Inr (RRead (b64_encode (take 24000 (drop off c))) eof))
        \<and> (length c < off + 24000 \<longrightarrow> eof) \<and> (off + 24000 < length c \<longrightarrow> \<not> eof)"
    by (intro exI [of _ eof]) (auto simp: go_file_request_def go_read_def file_limit_def file_rq_def request_ok_def path_ok_def utf8_encode_def)
next
  fix st p st' r
  assume "go_file_request ops st (file_rq ''create'' p) = (st', Inr r)"
  then have "sf_create ops st p = (st', None)" "r = RNil"
    by (auto simp: go_file_request_def file_rq_def reply_unit_def prod_eq_iff split: if_splits option.splits)
  then show "content st p = None \<and> content st' = (content st)(p \<mapsto> []) \<and> r = RNil"
    using assms unfolding sftp_ok_def by blast
next
  fix st p off b st' r c
  assume "go_file_request ops st ((file_rq ''write'' p)\<lparr>rq_offset := int off, rq_data := b64_encode b\<rparr>) = (st', Inr r)"
    and c: "content st p = Some c" "off \<le> length c" "length b \<le> 24000"
  then obtain n where "sf_write_at ops st p b (int off) = (st', Inr n)" "r = RCount n"
    by (auto simp: go_file_request_def file_rq_def go_write_def go_b64_decode_encode split: if_splits sum.splits prod.splits)
  with c show "content st' = (content st)(p \<mapsto> patch c off b) \<and> (\<exists>n. r = RCount n)"
    using assms unfolding sftp_ok_def by blast
next
  fix st p st' r
  assume "go_file_request ops st (file_rq ''list'' p) = (st', r)"
  then show "st' = st \<and> (\<forall>v. r = Inr v \<longrightarrow> (\<exists>q es. v = RListing q es))"
    by (auto simp: go_file_request_def go_list_def file_rq_def split: if_splits sum.splits)
qed

text \<open>
  An upload's requests pass the device's own checks: what refuses them is the SFTP server, or the listing's
  limit of 10000 entries.
\<close>

definition upload_refused :: "'s sftp \<Rightarrow> local_file \<Rightarrow> jstext \<Rightarrow> 's \<Rightarrow> file_request \<Rightarrow> jstext \<Rightarrow> bool" where
  "upload_refused ops f dest s rq e \<longleftrightarrow>
     (\<exists>x. e = sftp_msg x \<and>
        (rq = file_rq ''create'' dest \<and> snd (sf_create ops s dest) = Some x
         \<or> (\<exists>off < length (lf_data f). rq = (file_rq ''write'' dest)
              \<lparr>rq_offset := int off, rq_data := b64_encode (take 24000 (drop off (lf_data f)))\<rparr>
              \<and> snd (sf_write_at ops s dest (take 24000 (drop off (lf_data f))) (int off)) = Inl x)))"

lemma upload_rq_refused:
  assumes "upload_rq f dest rq" "path_ok dest" "length (lf_data f) \<le> file_limit" "go_file_request ops s rq = (s', Inl e)"
  shows "upload_refused ops f dest s rq e"
  using assms(1) unfolding upload_rq_def
proof (elim disjE exE conjE)
  assume rq: "rq = file_rq ''create'' dest"
  then have "request_ok rq" using assms(2) by (simp add: request_ok_def path_ok_def file_rq_def utf8_encode_def)
  with rq assms(4) show ?thesis
    by (auto simp: upload_refused_def go_file_request_def file_rq_def reply_unit_def split: option.splits)
next
  fix off
  assume off: "off < length (lf_data f)" and rq: "rq = (file_rq ''write'' dest)
     \<lparr>rq_offset := int off, rq_data := b64_encode (take 24000 (drop off (lf_data f)))\<rparr>"
  then have "request_ok rq"
    using assms(2,3) by (simp add: request_ok_def path_ok_def file_rq_def utf8_encode_def file_limit_def)
  with rq assms(4) have "\<exists>x. e = sftp_msg x \<and> snd (sf_write_at ops s dest (take 24000 (drop off (lf_data f))) (int off)) = Inl x"
    by (auto simp: go_file_request_def file_rq_def go_write_def go_b64_decode_encode split: prod.splits sum.splits)
  with off rq show ?thesis unfolding upload_refused_def by blast
qed

lemma utf8_strip: "length (utf8_encode p) \<le> Suc (length (utf8_encode (strip_slash p)))"
proof -
  have "length (utf8_encode p) = length (utf8_encode (strip_slash p)) \<or> length (utf8_encode p) = Suc (length (utf8_encode (strip_slash p)))"
  proof (cases "p \<noteq> [] \<and> last p = 47")
    case True
    then have "p = strip_slash p @ [47]" by (metis append_butlast_last_id strip_slash_def)
    then have "utf8_encode p = utf8_encode (strip_slash p @ [47])" by simp
    then show ?thesis by (simp add: utf8_encode_def utf8_char_def)
  next
    case False
    then have "strip_slash p = p" by (auto simp: strip_slash_def)
    then show ?thesis by simp
  qed
  then show ?thesis by auto
qed

lemma list_refused:
  assumes "path_ok (join cur n)" "go_file_request ops s (file_rq ''list'' cur) = (s', Inl e)"
  shows "go_list ops s cur = Inl e"
proof -
  have "length (utf8_encode (join cur n)) = length (utf8_encode (strip_slash cur)) + Suc (length (utf8_encode n))"
    by (simp add: join_def utf8_encode_def utf8_char_def)
  with assms(1) utf8_strip [of cur] have "path_ok cur" by (simp add: path_ok_def)
  with assms(2) show ?thesis by (auto simp: go_file_request_def request_ok_def path_ok_def file_rq_def utf8_encode_def)
qed

text \<open>A file system in memory, as one such SFTP server.\<close>

definition mem_sftp :: "(jstext \<Rightarrow> byte list option) sftp" where
  "mem_sftp =
     \<lparr>sf_getwd = \<lambda>st. Inr (asc ''/''), sf_readdir = \<lambda>st p. Inr [],
      sf_read_at = \<lambda>st p n off. (case st p of
          None \<Rightarrow> Inl NotExist
        | Some c \<Rightarrow> Inr (take n (drop (nat off) c), length c < nat off + n)),
      sf_create = \<lambda>st p. (if st p = None then (st(p \<mapsto> []), None) else (st, Some (SftpErr (asc ''file exists'')))),
      sf_write_at = \<lambda>st p b off. (case st p of
          None \<Rightarrow> (st, Inl NotExist)
        | Some c \<Rightarrow> (st(p \<mapsto> patch c (nat off) b), Inr (length b))),
      sf_mkdir = \<lambda>st p. (st, None), sf_lstat = \<lambda>st p. (if st p = None then Inl NotExist else Inr False),
      sf_rename = \<lambda>st p q. (st(q := st p, p := None), None),
      sf_rmdir = \<lambda>st p. (st, Some NotExist), sf_remove = \<lambda>st p. (st(p := None), None)\<rparr>"

lemma mem_sftp_ok: "sftp_ok mem_sftp (\<lambda>st. st)"
  by (auto simp: sftp_ok_def mem_sftp_def split: if_splits)

interpretation mem_files: file_service "go_file_request mem_sftp" "\<lambda>st. st" path_ok
  by (rule go_file_service [OF mem_sftp_ok])

end
