(* ===== verification/File_Props.thy ===== *)
theory File_Props
  imports File_Service
begin

text \<open>
  The invariant of the file manager and its properties: at most one transfer, no lock-up, valid
  names, the order of a listing, and that a download and an upload deliver the file.
\<close>

section \<open>The invariant\<close>

fun is_transfer :: "task \<Rightarrow> bool" where
  "is_transfer (KLoad a) = (a = EndUpload)"
| "is_transfer KThenLoad = False"
| "is_transfer _ = True"

fun is_load :: "task \<Rightarrow> bool" where
  "is_load (KLoad a) = True"
| "is_load _ = False"

definition count_tasks :: "(task \<Rightarrow> bool) \<Rightarrow> (nat \<times> file_request option \<times> task) list \<Rightarrow> nat" where
  "count_tasks P ts = length (filter (\<lambda>(i, r, k). P k) ts)"

lemma count_tasks_simps [simp]:
  "count_tasks P [] = 0" "count_tasks P (ts @ us) = count_tasks P ts + count_tasks P us"
  "count_tasks P ((i, r, k) # ts) = (if P k then Suc (count_tasks P ts) else count_tasks P ts)"
  by (simp_all add: count_tasks_def)

lemma count_tasks_delete:
  "distinct (map fst ts) \<Longrightarrow> map_of ts i = Some (r, k) \<Longrightarrow>
     count_tasks P (AList.delete i ts) = count_tasks P ts - (if P k then 1 else 0)
     \<and> (P k \<longrightarrow> 0 < count_tasks P ts)"
proof (induction ts)
  case (Cons x ts)
  obtain j r' k' where x: "x = (j, r', k')" by (cases x)
  show ?case
  proof (cases "j = i")
    case True
    with Cons.prems x have "k' = k" "i \<notin> fst ` set ts" by auto
    with True x show ?thesis by (simp add: delete_id)
  next
    case False
    with Cons x show ?thesis by (auto split: if_splits)
  qed
qed simp

text \<open>A new name is one segment below the directory it is meant for.\<close>

definition leaf_of :: "jstext \<Rightarrow> bool" where
  "leaf_of p \<longleftrightarrow> (\<exists>d n. p = join d n \<and> n \<noteq> [] \<and> \<not> bad_name n)"

fun names_ok :: "file_out \<Rightarrow> bool" where
  "names_ok (FCall i rq) =
     ((rq_op rq = ''mkdir'' \<longrightarrow> leaf_of (rq_path rq)) \<and> (rq_op rq = ''rename'' \<longrightarrow> leaf_of (rq_target rq)))"
| "names_ok (FSave n c) = True"

definition fm_inv :: "fm \<Rightarrow> bool" where
  "fm_inv m \<longleftrightarrow>
     ids_ok (fm_tasks m) (fm_next m)
     \<and> count_tasks is_transfer (fm_tasks m) = (if fm_busy m then 1 else 0)
     \<and> (fm_loading m \<longrightarrow> 0 < count_tasks is_load (fm_tasks m))
     \<and> (fm_upload_off m \<longleftrightarrow> fm_loading m)
     \<and> (\<forall>x \<in> set (fm_out m). names_ok x)"

lemma fm_inv_open: "fm_inv fm_open"
  by (simp add: fm_inv_def fm_open_def fm_init_def fm_load_def fm_call_def file_rq_def ids_ok_def)

lemma leaf_join: "n \<noteq> [] \<Longrightarrow> \<not> bad_name n \<Longrightarrow> leaf_of (join d n)"
  by (auto simp: leaf_of_def)

lemma file_rq_simps [simp]:
  "rq_op (file_rq op p) = op" "rq_path (file_rq op p) = p" "rq_target (file_rq op p) = []"
  by (simp_all add: file_rq_def)

text \<open>The handlers of the user's actions.\<close>

lemma fm_inv_load: "fm_inv m \<Longrightarrow> fm_inv (fm_load JustReport p m)"
  by (auto simp: fm_inv_def fm_load_def fm_call_def)

lemma fm_inv_then_load: "fm_inv m \<Longrightarrow> rq_op rq = ''delete'' \<or> names_ok (FCall 0 rq) \<Longrightarrow> fm_inv (fm_call rq KThenLoad m)"
  by (auto simp: fm_inv_def fm_call_def)

lemma fm_inv_report: "fm_inv m \<Longrightarrow> fm_inv (fm_report t m)"
  by (simp add: fm_inv_def fm_report_def)

lemma fm_inv_download: "fm_inv m \<Longrightarrow> \<not> fm_busy m \<Longrightarrow> fm_inv (fm_download e m)"
  by (auto simp: fm_inv_def fm_download_def fm_report_def download_loop_def download_finally_def fm_call_def)

lemma fm_inv_upload: "fm_inv m \<Longrightarrow> \<not> fm_busy m \<Longrightarrow> fm_inv (fm_upload f m)"
  by (auto simp: fm_inv_def fm_upload_def fm_report_def upload_fail_def upload_finally_def fm_call_def Let_def)

lemma fm_inv_clicks:
  assumes "fm_inv m"
  shows "fm_inv (click_entry i m)" "fm_inv (click_rename i ans m)" "fm_inv (click_delete i sure m)"
    "fm_inv (click_mkdir ans m)" "fm_inv (pick_file f m)"
proof -
  show "fm_inv (click_entry i m)"
    using assms by (auto simp: click_entry_def row_ready_def Let_def fm_inv_load fm_inv_download)
  show "fm_inv (click_rename i ans m)"
    using assms by (auto simp: click_rename_def leaf_join intro!: fm_inv_report fm_inv_then_load split: option.split)
  show "fm_inv (click_delete i sure m)"
    using assms by (auto simp: click_delete_def intro!: fm_inv_then_load)
  show "fm_inv (click_mkdir ans m)"
    using assms by (auto simp: click_mkdir_def leaf_join intro!: fm_inv_report fm_inv_then_load split: option.split)
  have "fm_inv (m\<lparr>fm_picked := b\<rparr>)" for b using assms by (simp add: fm_inv_def)
  with assms show "fm_inv (pick_file f m)"
    by (auto simp: pick_file_def Let_def intro: fm_inv_upload split: option.split)
qed

section \<open>Continuations\<close>

text \<open>The state a continuation starts from: its task is taken out, nothing else has changed.\<close>

definition taken :: "task \<Rightarrow> fm \<Rightarrow> bool" where
  "taken k m \<longleftrightarrow>
     ids_ok (fm_tasks m) (fm_next m)
     \<and> count_tasks is_transfer (fm_tasks m) = (if fm_busy m \<and> \<not> is_transfer k then 1 else 0)
     \<and> (is_transfer k \<longrightarrow> fm_busy m)
     \<and> (fm_loading m \<and> \<not> is_load k \<longrightarrow> 0 < count_tasks is_load (fm_tasks m))
     \<and> (fm_upload_off m \<longleftrightarrow> fm_loading m)
     \<and> (\<forall>x \<in> set (fm_out m). names_ok x)"

lemma taken_drop:
  assumes "fm_inv m" "task_at m i = Some (r, k)"
  shows "taken k (drop_task i m)"
  using assms count_tasks_delete [of "fm_tasks m" i r k is_transfer] ids_ok_delete [of "fm_tasks m" "fm_next m" i]
    count_tasks_delete [of "fm_tasks m" i r k is_load]
  by (auto simp: fm_inv_def taken_def task_at_def ids_ok_def [of "fm_tasks m"] drop_task_def split: if_splits)

lemma taken_load:
  "taken KThenLoad m \<Longrightarrow> fm_inv (fm_load JustReport p m)"
  by (auto simp: fm_inv_def taken_def fm_load_def fm_call_def)

lemma taken_listed: "taken (KLoad a) m \<Longrightarrow> fm_inv (listed coll a p es m)"
  by (cases a) (auto simp: fm_inv_def taken_def listed_def load_finally_def upload_finally_def split: if_splits)

lemma taken_upload_loop:
  "taken k m \<Longrightarrow> is_transfer k \<Longrightarrow> \<not> is_load k \<Longrightarrow> fm_inv (upload_loop f dest off m)"
  by (auto simp: fm_inv_def taken_def upload_loop_def upload_finally_def fm_load_def fm_call_def)

lemma taken_upload_fail:
  "taken k m \<Longrightarrow> is_transfer k \<Longrightarrow> \<not> is_load k \<Longrightarrow> fm_inv (upload_fail e m)"
  by (auto simp: fm_inv_def taken_def upload_fail_def fm_report_def upload_finally_def)

lemma taken_download_finally:
  "taken k m \<Longrightarrow> is_transfer k \<Longrightarrow> \<not> is_load k \<Longrightarrow> fm_inv (download_finally m)"
  by (auto simp: fm_inv_def taken_def download_finally_def)

lemma taken_download_loop:
  "taken k m \<Longrightarrow> is_transfer k \<Longrightarrow> \<not> is_load k \<Longrightarrow> fm_inv (download_loop e parts off m)"
  by (auto simp: fm_inv_def taken_def download_loop_def download_finally_def fm_call_def)

lemma taken_text: "taken k m \<Longrightarrow> taken k (m\<lparr>fm_text := t\<rparr>)"
  by (simp add: taken_def)

lemma taken_save: "taken k m \<Longrightarrow> taken k (m\<lparr>fm_out := fm_out m @ [FSave n c], fm_text := t\<rparr>)"
  by (auto simp: taken_def)

lemma taken_download_chunk:
  assumes "taken (KDownload e parts off) m"
  shows "fm_inv (download_chunk e parts off data eof m)"
proof -
  note t = taken_text [OF assms]
  have f: "fm_inv (download_finally m')" "fm_inv (download_loop e p n m')"
    if "taken (KDownload e parts off) m'" for m' p n
    using that by (simp_all add: taken_download_finally taken_download_loop)
  have "fm_inv (download_done e p (m\<lparr>fm_text := x\<rparr>))" for p x
    using f(1) [OF t [of x]] f(1) [OF taken_save [OF t [of x]]] by (simp add: download_done_def)
  then show ?thesis
    using f(1) [OF assms] f(2) [OF t]
    by (auto simp: download_chunk_def Let_def intro!: fm_inv_report split: option.split)
qed

lemma taken_upload_slice:
  assumes "taken (KSlice f dest off) m"
  shows "fm_inv (upload_slice f dest off ok m)"
proof -
  have "fm_inv (fm_call ((file_rq ''write'' dest)\<lparr>rq_offset := n, rq_data := d\<rparr>) (KWrite f dest off) m)" for n d
    using assms by (auto simp: fm_inv_def taken_def fm_call_def)
  with assms show ?thesis
    by (auto simp: upload_slice_def encode_eq intro: taken_upload_fail)
qed

lemma taken_load_finally:
  "taken (KLoad JustReport) m \<Longrightarrow> fm_inv (load_finally m)"
  "taken (KLoad EndUpload) m \<Longrightarrow> fm_inv (upload_fail e (load_finally m))"
  by (auto simp: fm_inv_def taken_def load_finally_def upload_fail_def fm_report_def upload_finally_def split: if_splits)

lemma taken_failed: "taken k m \<Longrightarrow> fm_inv (task_failed k e m)"
proof (cases k)
  case (KLoad a)
  assume "taken k m"
  with KLoad show ?thesis by (cases a) (simp_all add: task_failed_def taken_load_finally fm_inv_report)
next
  case KThenLoad
  assume "taken k m"
  with KThenLoad have "fm_inv m" by (auto simp: taken_def fm_inv_def)
  with KThenLoad show ?thesis by (simp add: task_failed_def fm_inv_report)
qed (auto simp: task_failed_def intro!: fm_inv_report intro: taken_download_finally taken_upload_fail)

lemma fm_inv_step: "fm_inv m \<Longrightarrow> fm_inv (fm_step coll m ev)"
proof (cases ev)
  case (FDone i)
  assume "fm_inv m"
  with FDone show ?thesis
    by (auto simp: upload_written_def split: option.split task.split
        intro!: taken_load taken_upload_loop taken_text dest: taken_drop)
next
  case (FListed i p es)
  assume "fm_inv m"
  with FListed show ?thesis by (auto split: option.split task.split intro!: taken_listed dest: taken_drop)
next
  case (FChunk i d eof)
  assume "fm_inv m"
  with FChunk show ?thesis by (auto split: option.split task.split intro!: taken_download_chunk dest: taken_drop)
next
  case (FBuffer i ok)
  assume "fm_inv m"
  with FBuffer show ?thesis by (auto split: option.split task.split intro!: taken_upload_slice dest: taken_drop)
next
  case (FFailed i e)
  assume "fm_inv m"
  with FFailed show ?thesis by (auto split: option.split intro!: taken_failed dest: taken_drop)
qed (auto simp: fm_inv_clicks fm_inv_load, auto simp: fm_inv_def)

section \<open>A closed dialog saves nothing\<close>

fun is_save :: "file_out \<Rightarrow> bool" where
  "is_save (FSave n c) = True"
| "is_save (FCall i rq) = False"

definition saves :: "fm \<Rightarrow> file_out list" where
  "saves m = filter is_save (fm_out m)"

lemma inactive_step:
  assumes "\<not> fm_active m"
  shows "\<not> fm_active (fm_step coll m ev)" "saves (fm_step coll m ev) = saves m"
  using assms
  by (cases ev; auto simp: fm_defs saves_def Let_def encode_eq split: option.split task.split after_load.split)+

interpretation fm_sys: quiet_system "fm_step coll" fm_inv "\<lambda>m. \<not> fm_active m" saves for coll
  by unfold_locales (auto simp: fm_inv_step inactive_step)

section \<open>Properties\<close>

lemma fm_run_inv: "fm_inv (fm_run coll fm_open es)"
  by (rule fm_sys.run_inv [OF fm_inv_open])

text \<open>
  C28: whatever the user clicks and however the answers arrive, at most one transfer is under way,
  and \<open>busy\<close> says whether one is; while \<open>busy\<close> or \<open>loading\<close> blocks the buttons, an answer that
  will unblock them is outstanding.
\<close>

theorem one_transfer:
  "let m = fm_run coll fm_open es
   in length (filter (\<lambda>(i, r, k). is_transfer k) (fm_tasks m)) = (if fm_busy m then 1 else 0)
      \<and> (fm_loading m \<longrightarrow> (\<exists>i r a. (i, r, KLoad a) \<in> set (fm_tasks m)))"
proof -
  let ?m = "fm_run coll fm_open es"
  have inv: "fm_inv ?m" by (rule fm_run_inv)
  have "\<exists>i r a. (i, r, KLoad a) \<in> set (fm_tasks ?m)" if "fm_loading ?m"
  proof -
    have "filter (\<lambda>(i, r, k). is_load k) (fm_tasks ?m) \<noteq> []"
      using inv that by (auto simp: fm_inv_def count_tasks_def)
    then obtain i r k where "(i, r, k) \<in> set (fm_tasks ?m)" "is_load k" by (auto simp: filter_empty_conv)
    then show ?thesis by (cases k) auto
  qed
  with inv show ?thesis by (auto simp: fm_inv_def count_tasks_def Let_def)
qed

theorem one_transfer_witness:
  "let m = fm_run flat fm_open []
   in fm_loading m \<and> (\<exists>i r a. (i, r, KLoad a) \<in> set (fm_tasks m))"
proof -
  have "fm_loading (fm_run flat fm_open [])" by (simp add: fm_open_def fm_init_def fm_defs)
  with one_transfer [of flat "[]"] show ?thesis unfolding Let_def by blast
qed

text \<open>
  A directory is only made, and an entry only renamed, under a name that is one path segment: the
  new path is the shown directory, a slash and a non-empty name without separators, and not a dot
  entry.
\<close>

theorem new_names_are_leaves:
  assumes "FCall i rq \<in> set (fm_out (fm_run coll fm_open es))" "rq_op rq \<in> {''mkdir'', ''rename''}"
  shows "\<exists>d n. (if rq_op rq = ''mkdir'' then rq_path rq else rq_target rq) = join d n
    \<and> n \<noteq> [] \<and> \<not> bad_name n"
  using assms fm_run_inv [of coll es] by (auto simp: fm_inv_def leaf_of_def)

theorem new_names_are_leaves_witness:
  "\<exists>d n. asc ''/a/x'' = join d n \<and> n \<noteq> [] \<and> \<not> bad_name n"
proof -
  let ?es = "[FListed 0 (asc ''/a'') [], FMkdir (Some (asc ''x''))]"
  have "FCall 1 (file_rq ''mkdir'' (asc ''/a/x'')) \<in> set (fm_out (fm_run flat fm_open ?es))"
    by (simp add: fm_open_def fm_init_def fm_defs task_at_def Let_def bad_name_def js_eval join_def strip_slash_def)
  from new_names_are_leaves [OF this] show ?thesis by simp
qed

lemma drop_segment_join:
  assumes "n \<noteq> []" "47 \<notin> set n" "t \<in> {[], [47]}"
  shows "drop_segment (p @ 47 # n @ t) = p"
proof (induction p)
  case Nil
  have "takeWhile (\<lambda>c. c \<noteq> 47) (n @ t) = n" "dropWhile (\<lambda>c. c \<noteq> 47) (n @ t) = t"
    using assms(2,3) by (auto simp: takeWhile_append dropWhile_append)
  with assms(1,3) show ?case by (simp add: one_segment_def)
next
  case (Cons c p)
  have "length (dropWhile (\<lambda>c. c \<noteq> 47) (p @ 47 # n @ t)) > 1"
    using assms(1) by (induction p) auto
  then have "\<not> one_segment (p @ 47 # n @ t)" by (auto simp: one_segment_def)
  with Cons show ?case by simp
qed

text \<open>
  Going up undoes opening a directory: from the path the file manager builds for an entry, with
  or without the slash a server may append, it returns to the directory it came from.
\<close>

theorem up_undoes_open:
  assumes "n \<noteq> []" "47 \<notin> set n" "t \<in> {[], [47]}"
  shows "parent (join current n @ t) = (if strip_slash current = [] then [47] else strip_slash current)"
  using drop_segment_join [OF assms, of "strip_slash current"] by (simp add: parent_def join_def)

theorem up_undoes_open_witness: "parent (join (asc ''/home/u'') (asc ''docs'') @ []) = asc ''/home/u''"
  using up_undoes_open [of "asc ''docs''" "[]" "asc ''/home/u''"] by (simp add: js_eval strip_slash_def)

lemma sorted_adjacent:
  "Sorting_Algorithms.sorted cmp ys \<Longrightarrow> Suc k < length ys \<Longrightarrow> compare cmp (ys ! k) (ys ! Suc k) \<noteq> Greater"
proof (induction ys arbitrary: k)
  case (Cons y ys)
  then show ?case by (cases ys; cases k) auto
qed simp

text \<open>Directories stand before files in a sorted listing.\<close>

lemma sorted_dirs_first:
  "Sorting_Algorithms.sorted (entries_order coll) ys \<Longrightarrow> j < k \<Longrightarrow> k < length ys \<Longrightarrow> en_dir (ys ! k) \<Longrightarrow> en_dir (ys ! j)"
proof (induction k)
  case (Suc k)
  have "compare (entries_order coll) x y \<noteq> Greater \<Longrightarrow> en_dir y \<Longrightarrow> en_dir x" for x y
    by transfer (simp add: entry_cmp_def split: if_splits)
  with sorted_adjacent [OF Suc.prems(1,3)] Suc.prems(4) have "en_dir (ys ! k)" by blast
  with Suc show ?case by (cases "j = k") simp_all
qed simp

text \<open>
  A listing is shown complete and in order: the same entries, directories before files, each
  group by name, and entries of the same name in the order the device sent them.
\<close>

theorem listing_sorted:
  assumes "task_at m i = Some (r, KLoad a)"
  shows "let xs = fm_entries (fm_step coll m (FListed i p es))
    in mset xs = mset es \<and> Sorting_Algorithms.sorted (entries_order coll) xs
       \<and> (\<forall>j k. j < k \<and> k < length xs \<and> en_dir (xs ! k) \<longrightarrow> en_dir (xs ! j))
       \<and> (\<forall>e. stable_segment (entries_order coll) e xs = stable_segment (entries_order coll) e es)"
proof -
  let ?xs = "Sorting_Algorithms.sort (entries_order coll) es"
  have xs: "fm_entries (fm_step coll m (FListed i p es)) = ?xs"
    using assms by (cases a) (simp_all add: listed_def load_finally_def upload_finally_def Let_def)
  have "\<forall>j k. j < k \<and> k < length ?xs \<and> en_dir (?xs ! k) \<longrightarrow> en_dir (?xs ! j)"
    by (intro allI impI, elim conjE, rule sorted_dirs_first [of coll ?xs]) simp_all
  then show ?thesis unfolding xs Let_def by (simp add: stable_sort)
qed

theorem listing_sorted_witness:
  "let es = [\<lparr>en_name = asc ''b'', en_dir = False, en_size = 1\<rparr>, \<lparr>en_name = asc ''a'', en_dir = True, en_size = 0\<rparr>]
   in mset (fm_entries (fm_step flat fm_open (FListed 0 (asc ''/'') es))) = mset es"
  using listing_sorted [of fm_open 0 "Some (file_rq ''list'' [])" JustReport flat "asc ''/''"]
  by (simp add: fm_open_def fm_init_def fm_load_def fm_call_def task_at_def Let_def)

text \<open>
  C16: a download delivers the file: with a device whose SFTP server keeps its documentation, a click
  on a file of up to 128 MiB makes the browser save exactly the file's content under its name after
  at most one read per 24000 bytes and two more, changes nothing on the device and unblocks the file manager.
\<close>

theorem download_saves_file:
  assumes "sftp_ok ops content" "fm_idle m" "i < length (fm_entries m)" "\<not> en_dir (fm_entries m ! i)"
    and "en_size (fm_entries m ! i) \<le> 128 * 1024 * 1024"
    and "content st (join (fm_current m) (en_name (fm_entries m ! i))) = Some c"
    and "path_ok (join (fm_current m) (en_name (fm_entries m ! i)))" "length c \<le> 128 * 1024 * 1024"
  shows "\<exists>n m'. file_rounds coll (go_file_request ops) n (fm_step coll m (FEntry i), st) = (m', st)
    \<and> n \<le> length c div 24000 + 2 \<and> fm_tasks m' = [] \<and> \<not> fm_busy m' \<and> fm_text m' = FtDownloaded
    \<and> (\<exists>cs. fm_out m' = fm_out m @ map (\<lambda>(i, rq). FCall i rq) cs @ [FSave (en_name (fm_entries m ! i)) c])"
proof -
  let ?e = "fm_entries m ! i"
  let ?m = "m\<lparr>fm_busy := True\<rparr>"
  have start: "fm_step coll m (FEntry i) = download_loop ?e [] 0 ?m"
    using assms(2-5) by (simp add: fm_idle_def click_entry_def row_ready_def fm_download_def file_limit_def)
  obtain n m' where "file_rounds coll (go_file_request ops) n (download_loop ?e [] 0 ?m, st) = (m', st)"
    "saved_as (en_name ?e) c ?m m'" "n \<le> length c div 24000 + 2"
    using file_service.download_rounds [OF go_file_service [OF assms(1)], where st = st and m = ?m and e = ?e
        and c = c and off = 0 and parts = "[]" and coll = coll] assms
    by (auto simp: fm_idle_def file_limit_def)
  then show ?thesis unfolding start by (auto simp: saved_as_def)
qed

text \<open>
  C17: an upload writes the file: after a file of up to 128 MiB is chosen, whose path the device accepts (4096
  bytes), the handlers come to an end and unblock the file manager. Unless the SFTP server itself refused the
  upload's own request to create the file or to write one of its slices of 24000 bytes, and the user is told
  the refusal's text, the device then holds exactly the chosen bytes at that path and no other file has
  changed; the user is told so, except where the listing that follows is refused.
\<close>

theorem upload_writes_file:
  assumes "sftp_ok ops content" "fm_idle m" "length (lf_data f) \<le> 128 * 1024 * 1024"
    and "dest = join (fm_current m) (lf_name f)" "path_ok dest"
  shows "\<exists>n m' st'. file_rounds coll (go_file_request ops) n (fm_step coll m (FPick (Some f)), st) = (m', st')
    \<and> n \<le> 2 * (length (lf_data f) div 24000) + 4 \<and> fm_tasks m' = [] \<and> \<not> fm_busy m'
    \<and> (content st' = (content st)(dest \<mapsto> lf_data f)
         \<and> (fm_text m' = FtUploaded
           \<or> (\<exists>e s. fm_text m' = FtUploadErr (FLink (RemoteError e)) \<and> go_list ops s (fm_current m) = Inl e
               \<and> (s, file_rq ''list'' (fm_current m)) \<in> served coll (go_file_request ops) n (fm_step coll m (FPick (Some f)), st)))
       \<or> (\<exists>e s rq. fm_text m' = FtUploadErr (FLink (RemoteError e)) \<and> upload_refused ops f dest s rq e
            \<and> (s, rq) \<in> served coll (go_file_request ops) n (fm_step coll m (FPick (Some f)), st)))"
proof -
  let ?start = "(fm_step coll m (FPick (Some f)), st)"
  obtain n x where x: "file_rounds coll (go_file_request ops) n ?start = x"
    "upload_ended (go_file_request ops) content f dest (fm_current m) st (served coll (go_file_request ops) n ?start) x"
    "n \<le> 2 * (length (lf_data f) div 24000) + 4"
    using file_service.upload_from_pick [OF go_file_service [OF assms(1)] assms(2), where f = f and st = st and coll = coll]
      assms(3,4) by (auto simp: file_limit_def)
  have "length (lf_data f) \<le> file_limit" using assms(3) by (simp add: file_limit_def)
  note no = upload_rq_refused [OF _ assms(5) this] list_refused [OF assms(5) [unfolded assms(4)]]
  have told: "upload_refused ops f dest s rq e \<or> rq = file_rq ''list'' (fm_current m) \<and> go_list ops s (fm_current m) = Inl e
      \<and> content (snd x) = (content st)(dest \<mapsto> lf_data f)"
    if "go_file_request ops s rq = (s', Inl e)"
      "upload_rq f dest rq \<or> rq = file_rq ''list'' (fm_current m) \<and> content (snd x) = (content st)(dest \<mapsto> lf_data f)"
    for e s rq s'
    using that(2)
  proof (elim disjE conjE)
    assume "upload_rq f dest rq"
    from no(1) [OF this that(1)] show ?thesis by simp
  next
    assume rq: "rq = file_rq ''list'' (fm_current m)" "content (snd x) = (content st)(dest \<mapsto> lf_data f)"
    from no(2) [OF that(1) [unfolded rq(1)]] rq show ?thesis by simp
  qed
  show ?thesis
  proof (intro exI [of _ n] exI [of _ "fst x"] exI [of _ "snd x"] conjI)
    show "file_rounds coll (go_file_request ops) n ?start = (fst x, snd x)" unfolding x(1) by simp
    show "n \<le> 2 * (length (lf_data f) div 24000) + 4" by (rule x(3))
    show "fm_tasks (fst x) = []" "\<not> fm_busy (fst x)" using x(2) by (simp_all add: upload_ended_def)
  qed (use x(2) told in \<open>unfold upload_ended_def, blast\<close>)
qed

text \<open>A directory with one file, on a server that keeps files in memory.\<close>

definition demo_fm :: fm where
  "demo_fm = fm_init\<lparr>fm_current := asc ''/d'',
     fm_entries := [\<lparr>en_name = asc ''f'', en_dir = False, en_size = 3\<rparr>]\<rparr>"

lemma demo_idle: "fm_idle demo_fm" "fm_current demo_fm = asc ''/d''" "fm_out demo_fm = []"
  by (simp_all add: fm_idle_def demo_fm_def fm_init_def)

theorem download_saves_file_witness:
  "\<exists>n m' cs. file_rounds flat (go_file_request mem_sftp) n
       (fm_step flat demo_fm (FEntry 0), [asc ''/d/f'' \<mapsto> [1, 2, 3]]) = (m', [asc ''/d/f'' \<mapsto> [1, 2, 3]])
     \<and> fm_out m' = map (\<lambda>(i, rq). FCall i rq) cs @ [FSave (asc ''f'') [1, 2, 3]]"
proof -
  have p: "join (fm_current demo_fm) (asc ''f'') = asc ''/d/f''"
    by (simp add: demo_fm_def fm_init_def join_def strip_slash_def js_eval)
  have ok: "path_ok (asc ''/d/f'')"
    by (simp add: path_ok_def js_eval utf8_encode_def utf8_char_def)
  have e: "\<not> en_dir (fm_entries demo_fm ! 0)" "0 < length (fm_entries demo_fm)"
    "en_size (fm_entries demo_fm ! 0) \<le> 128 * 1024 * 1024" "en_name (fm_entries demo_fm ! 0) = asc ''f''"
    by (simp_all add: demo_fm_def)
  from download_saves_file [OF mem_sftp_ok demo_idle(1) e(2,1,3), of "[asc ''/d/f'' \<mapsto> [1, 2, 3]]" "[1, 2, 3]" flat]
  show ?thesis unfolding e(4) p demo_idle(3) by (auto simp: ok)
qed

definition demo_file :: local_file where
  "demo_file = \<lparr>lf_name = asc ''g'', lf_data = [7, 8]\<rparr>"

lemma four_rounds: "f x0 = x1 \<Longrightarrow> f x1 = x2 \<Longrightarrow> f x2 = x3 \<Longrightarrow> f x3 = x4 \<Longrightarrow> f x4 = x4 \<Longrightarrow> (f ^^ j) x0 \<in> {x0, x1, x2, x3, x4}"
  by (induction j) auto

lemma asked_rounds:
  "y \<in> {x0, x1, x2, x3, x4} \<Longrightarrow> asked x0 = {a} \<Longrightarrow> asked x1 = {} \<Longrightarrow> asked x2 = {b} \<Longrightarrow> asked x3 = {c} \<Longrightarrow> asked x4 = {} \<Longrightarrow>
     asked y \<subseteq> {a, b, c}"
  by auto

text \<open>The requests of this upload, on an empty device.\<close>

lemma demo_served:
  fixes d w coll
  defines "d \<equiv> asc ''/d/g''"
  defines "w \<equiv> (file_rq ''write'' d)\<lparr>rq_offset := 0, rq_data := b64_encode [7, 8]\<rparr>"
  shows "served coll (go_file_request mem_sftp) n (fm_step coll demo_fm (FPick (Some demo_file)), Map.empty)
    \<subseteq> {(Map.empty, file_rq ''create'' d), ([d \<mapsto> []], w), ([d \<mapsto> [7, 8]], file_rq ''list'' (asc ''/d''))}"
proof -
  let ?round = "file_round coll (go_file_request mem_sftp)" and ?cr = "file_rq ''create'' d" and ?l = "file_rq ''list'' (asc ''/d'')"
  let ?m = "\<lambda>es busy loading text n ts os. \<lparr>fm_current = asc ''/d'', fm_path = if busy then [] else asc ''/d'', fm_entries = es,
      fm_busy = busy, fm_loading = loading, fm_upload_off = loading, fm_picked = busy, fm_active = True, fm_text = text,
      fm_next = n, fm_tasks = ts, fm_out = os\<rparr>"
  let ?es = "[\<lparr>en_name = asc ''f'', en_dir = False, en_size = 3\<rparr>]"
  let ?x0 = "(?m ?es True False FtNone 1 [(0, Some ?cr, KCreate demo_file d)] [FCall 0 ?cr], Map.empty)"
  let ?x1 = "(?m ?es True False FtNone 2 [(1, None, KSlice demo_file d 0)] [FCall 0 ?cr], [d \<mapsto> []])"
  let ?x2 = "(?m ?es True False FtNone 3 [(2, Some w, KWrite demo_file d 0)] [FCall 0 ?cr, FCall 2 w], [d \<mapsto> []])"
  let ?x3 = "(?m ?es True True (FtUploading (asc ''g'') 2 2) 4 [(3, Some ?l, KLoad EndUpload)] [FCall 0 ?cr, FCall 2 w, FCall 3 ?l],
      [d \<mapsto> [7, 8]])"
  let ?x4 = "(?m [] False False FtUploaded 4 [] [FCall 0 ?cr, FCall 2 w, FCall 3 ?l], [d \<mapsto> [7, 8]])"
  have d: "join (asc ''/d'') (asc ''g'') = d" by (simp add: d_def join_def strip_slash_def js_eval)
  have ok: "request_ok ?cr" "request_ok w" "request_ok ?l"
    by (simp_all add: request_ok_def w_def d_def file_rq_def js_eval utf8_encode_def utf8_char_def)
  have start: "(fm_step coll demo_fm (FPick (Some demo_file)), Map.empty) = ?x0"
    by (simp add: demo_fm_def fm_init_def demo_file_def pick_file_def fm_upload_def fm_call_def file_limit_def d Let_def)
  have "?round ?x0 = ?x1"
    using ok(1) by (simp add: file_round_def go_file_request_def reply_unit_def mem_sftp_def file_rq_def task_at_def drop_task_def
        upload_loop_def demo_file_def)
  moreover have "?round ?x1 = ?x2"
    by (simp add: file_round_def task_at_def drop_task_def upload_slice_def encode_eq fm_call_def demo_file_def w_def)
  moreover have "?round ?x2 = ?x3"
  proof -
    have "go_file_request mem_sftp [d \<mapsto> []] w = ([d \<mapsto> [7, 8]], Inr (RCount 2))"
      using ok(2) by (simp add: go_file_request_def w_def file_rq_def go_write_def go_b64_decode_encode mem_sftp_def patch_def
          del: b64_encode.simps)
    then show ?thesis
      by (simp add: file_round_def task_at_def drop_task_def upload_written_def upload_loop_def fm_load_def fm_call_def demo_file_def)
  qed
  moreover have "?round ?x3 = ?x4"
    using ok(3) by (simp add: file_round_def go_file_request_def go_list_def mem_sftp_def file_rq_def task_at_def drop_task_def
        listed_def load_finally_def upload_finally_def js_eval Let_def)
  moreover have "?round ?x4 = ?x4" by (simp add: file_round_def)
  ultimately have "file_rounds coll (go_file_request mem_sftp) j ?x0 \<in> {?x0, ?x1, ?x2, ?x3, ?x4}" for j
    unfolding file_rounds_def by (rule four_rounds)
  moreover have "asked ?x0 = {(Map.empty, ?cr)}" "asked ?x1 = {}" "asked ?x2 = {([d \<mapsto> []], w)}"
    "asked ?x3 = {([d \<mapsto> [7, 8]], ?l)}" "asked ?x4 = {}"
    by (simp_all add: asked_def)
  ultimately have "asked (file_rounds coll (go_file_request mem_sftp) j ?x0) \<subseteq> {(Map.empty, ?cr), ([d \<mapsto> []], w), ([d \<mapsto> [7, 8]], ?l)}" for j
    by (rule asked_rounds)
  then show ?thesis unfolding start served_def by blast
qed

theorem upload_writes_file_witness:
  "\<exists>n m' st'. file_rounds flat (go_file_request mem_sftp) n (fm_step flat demo_fm (FPick (Some demo_file)), Map.empty) = (m', st')
     \<and> fm_text m' = FtUploaded \<and> st' = [asc ''/d/g'' \<mapsto> [7, 8]]"
proof -
  have p: "asc ''/d/g'' = join (fm_current demo_fm) (lf_name demo_file)"
    by (simp add: demo_fm_def demo_file_def fm_init_def join_def strip_slash_def js_eval)
  have ok: "path_ok (asc ''/d/g'')" by (simp add: path_ok_def js_eval utf8_encode_def utf8_char_def)
  have l: "length (lf_data demo_file) \<le> 128 * 1024 * 1024" by (simp add: demo_file_def)
  have list: "go_list mem_sftp s (fm_current demo_fm) \<noteq> Inl e" for s e
    by (simp add: go_list_def mem_sftp_def)
  have no: "\<not> upload_refused mem_sftp demo_file (asc ''/d/g'') s rq e"
    if "(s, rq) \<in> served flat (go_file_request mem_sftp) n (fm_step flat demo_fm (FPick (Some demo_file)), Map.empty)" for s rq e n
    using that demo_served [of flat n] by (auto simp: upload_refused_def mem_sftp_def file_rq_def)
  have "lf_data demo_file = [7, 8]" by (simp add: demo_file_def)
  with upload_writes_file [OF mem_sftp_ok demo_idle(1) l p ok, of flat Map.empty] list no show ?thesis by metis
qed

text \<open>
  The path of a download's next read is built from the directory shown at that time. While one
  reload is awaited another one can end and free the buttons; a download started then reads its first
  bytes from one directory and the next ones from another, under the same file name.
\<close>

theorem download_can_mix_directories:
  "let d = \<lparr>en_name = asc ''D'', en_dir = True, en_size = 0\<rparr>;
       f = \<lparr>en_name = asc ''F'', en_dir = False, en_size = 30000\<rparr>;
       m = fm_run coll fm_open
             [FListed 0 a [d], FMkdir (Some (asc ''n'')), FEntry 0, FDone 1,
              FListed 2 (join a (asc ''D'')) [f], FEntry 0, FListed 3 a [d], FChunk 4 (asc ''AAAA'') False]
   in map (\<lambda>x. case x of FCall i rq \<Rightarrow> rq_path rq | FSave n c \<Rightarrow> []) (drop 4 (fm_out m))
      = [join (join a (asc ''D'')) (asc ''F''), join a (asc ''F'')]"
proof -
  have sort: "Sorting_Algorithms.sort (entries_order coll) [x] = [x]" for x
    using insort_eq_ConsI [of "entries_order coll" "[]" x] by simp
  have data: "decode (asc ''AAAA'') = Some [0, 0, 0]"
    by (simp add: decode_eq js_eval html_space_def b64_unpad_def b64_val_def)
  have n: "\<not> bad_name (asc ''n'')" "asc ''n'' \<noteq> []"
    by (simp_all add: bad_name_def js_eval)
  let ?d = "\<lparr>en_name = asc ''D'', en_dir = True, en_size = 0\<rparr>"
  let ?f = "\<lparr>en_name = asc ''F'', en_dir = False, en_size = 30000\<rparr>"
  let ?b = "join a (asc ''D'')"
  let ?s = "\<lambda>cur es busy loading text n ts os. \<lparr>fm_current = cur, fm_path = cur, fm_entries = es, fm_busy = busy,
      fm_loading = loading, fm_upload_off = loading, fm_picked = False, fm_active = True, fm_text = text,
      fm_next = n, fm_tasks = ts, fm_out = os\<rparr>"
  let ?mk = "file_rq ''mkdir'' (join a (asc ''n''))"
  let ?read = "\<lambda>p n. (file_rq ''read'' (join p (asc ''F'')))\<lparr>rq_offset := n\<rparr>"
  let ?ls = "file_rq ''list''"
  let ?o4 = "[FCall 0 (?ls []), FCall 1 ?mk, FCall 2 (?ls ?b), FCall 3 (?ls a)]"
  have 1: "fm_run coll fm_open [FListed 0 a [?d], FMkdir (Some (asc ''n''))] =
      ?s a [?d] False False FtNone 2 [(1, Some ?mk, KThenLoad)] [FCall 0 (?ls []), FCall 1 ?mk]"
    by (simp add: fm_open_def fm_init_def fm_defs task_at_def sort n Let_def)
  have 2: "fm_run coll (fm_run coll fm_open [FListed 0 a [?d], FMkdir (Some (asc ''n''))])
        [FEntry 0, FDone 1, FListed 2 ?b [?f]] =
      ?s ?b [?f] False False FtNone 4 [(3, Some (?ls a), KLoad JustReport)] ?o4"
    unfolding 1 by (simp add: fm_defs task_at_def sort Let_def)
  have 3: "fm_run coll (?s ?b [?f] False False FtNone 4 [(3, Some (?ls a), KLoad JustReport)] ?o4)
        [FEntry 0, FListed 3 a [?d]] =
      ?s a [?d] True False FtNone 5 [(4, Some (?read ?b 0), KDownload ?f [] 0)] (?o4 @ [FCall 4 (?read ?b 0)])"
    by (simp add: fm_defs task_at_def sort file_limit_def Let_def)
  have 4: "fm_out (fm_run coll (?s a [?d] True False FtNone 5 [(4, Some (?read ?b 0), KDownload ?f [] 0)]
        (?o4 @ [FCall 4 (?read ?b 0)])) [FChunk 4 (asc ''AAAA'') False]) = ?o4 @ [FCall 4 (?read ?b 0), FCall 5 (?read a 3)]"
    by (simp add: fm_defs task_at_def data file_limit_def Let_def)
  let ?es = "[FListed 0 a [?d], FMkdir (Some (asc ''n''))] @ [FEntry 0, FDone 1, FListed 2 ?b [?f]]
    @ [FEntry 0, FListed 3 a [?d]] @ [FChunk 4 (asc ''AAAA'') False]"
  have "fm_out (fm_run coll fm_open ?es) = ?o4 @ [FCall 4 (?read ?b 0), FCall 5 (?read a 3)]"
    unfolding run_append 2 3 4 ..
  then show ?thesis by (simp add: Let_def del: run_Cons)
qed

end
