(* ===== verification/File_Bounds.thy ===== *)
theory File_Bounds
  imports File_Props
begin

text \<open>
  What the file manager sends is well-formed, and its download ends: the shape of every request, as
  the device's decoder expects it, and the number of rounds a device can make a download last.
\<close>

section \<open>The shape of requests\<close>

definition request_typed :: "file_request \<Rightarrow> bool" where
  "request_typed rq \<longleftrightarrow>
     rq_op rq \<in> {''list'', ''read'', ''create'', ''write'', ''mkdir'', ''rename'', ''delete''}
     \<and> 0 \<le> rq_offset rq \<and> rq_offset rq \<le> int file_limit
     \<and> (rq_op rq \<notin> {''read'', ''write''} \<longrightarrow> rq_offset rq = 0)
     \<and> (if rq_op rq = ''write'' then \<exists>b. rq_data rq = b64_encode b \<and> b \<noteq> [] \<and> length b \<le> 24000 else rq_data rq = [])
     \<and> (if rq_op rq = ''rename'' then leaf_of (rq_target rq) else rq_target rq = [])"

fun task_typed :: "task \<Rightarrow> bool" where
  "task_typed (KDownload e parts off) = (off = length (concat parts) \<and> off \<le> file_limit)"
| "task_typed (KCreate f dest) = (length (lf_data f) \<le> file_limit)"
| "task_typed (KSlice f dest off) = (off < length (lf_data f) \<and> length (lf_data f) \<le> file_limit)"
| "task_typed (KWrite f dest off) = (off < length (lf_data f) \<and> length (lf_data f) \<le> file_limit)"
| "task_typed _ = True"

definition fm_typed :: "fm \<Rightarrow> bool" where
  "fm_typed m \<longleftrightarrow>
     (\<forall>i rq. FCall i rq \<in> set (fm_out m) \<longrightarrow> request_typed rq) \<and> (\<forall>(i, r, k) \<in> set (fm_tasks m). task_typed k)"

lemma fm_typed_frame [simp]:
  "fm_typed (m\<lparr>fm_text := t\<rparr>) = fm_typed m" "fm_typed (m\<lparr>fm_busy := b\<rparr>) = fm_typed m"
  "fm_typed (m\<lparr>fm_loading := b\<rparr>) = fm_typed m" "fm_typed (m\<lparr>fm_upload_off := b\<rparr>) = fm_typed m"
  "fm_typed (m\<lparr>fm_picked := b\<rparr>) = fm_typed m" "fm_typed (m\<lparr>fm_path := p\<rparr>) = fm_typed m"
  "fm_typed (m\<lparr>fm_active := b\<rparr>) = fm_typed m" "fm_typed (m\<lparr>fm_current := p\<rparr>) = fm_typed m"
  "fm_typed (m\<lparr>fm_entries := es\<rparr>) = fm_typed m"
  by (simp_all add: fm_typed_def)

lemma fm_typed_call: "fm_typed m \<Longrightarrow> request_typed rq \<Longrightarrow> task_typed k \<Longrightarrow> fm_typed (fm_call rq k m)"
  by (auto simp: fm_typed_def fm_call_def)

lemma fm_typed_drop: "fm_typed m \<Longrightarrow> task_at m i = Some (r, k) \<Longrightarrow> fm_typed (drop_task i m) \<and> task_typed k"
  by (auto simp: fm_typed_def task_at_def drop_task_def AList.delete_eq dest: map_of_SomeD)

lemma request_typed_plain [simp]:
  "op \<in> {''list'', ''create'', ''mkdir'', ''delete''} \<Longrightarrow> request_typed (file_rq op p)"
  by (auto simp: request_typed_def file_rq_def)

lemma request_typed_read: "off \<le> file_limit \<Longrightarrow> request_typed ((file_rq ''read'' p)\<lparr>rq_offset := int off\<rparr>)"
  by (simp add: request_typed_def file_rq_def)

lemma request_typed_write:
  "off < length c \<Longrightarrow> length c \<le> file_limit \<Longrightarrow>
     request_typed ((file_rq ''write'' p)\<lparr>rq_offset := int off, rq_data := b64_encode (take 24000 (drop off c))\<rparr>)"
  by (auto simp: request_typed_def file_rq_def intro!: exI [of _ "take 24000 (drop off c)"])

lemma request_typed_rename:
  "n \<noteq> [] \<Longrightarrow> \<not> bad_name n \<Longrightarrow> request_typed ((file_rq ''rename'' p)\<lparr>rq_target := join d n\<rparr>)"
  by (simp add: request_typed_def file_rq_def leaf_join)

lemma fm_typed_parts [simp]:
  "fm_typed (fm_report t m) = fm_typed m" "fm_typed (load_finally m) = fm_typed m"
  "fm_typed (upload_finally m) = fm_typed m" "fm_typed (download_finally m) = fm_typed m"
  "fm_typed (upload_fail e m) = fm_typed m"
  by (simp_all add: fm_report_def load_finally_def upload_finally_def download_finally_def upload_fail_def)

lemma fm_typed_load [simp]: "fm_typed m \<Longrightarrow> fm_typed (fm_load a p m)"
  by (simp add: fm_load_def fm_typed_call)

lemma fm_typed_download_loop:
  "fm_typed m \<Longrightarrow> off = length (concat parts) \<Longrightarrow> off \<le> file_limit \<Longrightarrow> fm_typed (download_loop e parts off m)"
  by (simp add: download_loop_def fm_typed_call request_typed_read)

lemma fm_typed_download_chunk:
  assumes "fm_typed m" "task_typed (KDownload e parts off)"
  shows "fm_typed (download_chunk e parts off d eof m)"
proof -
  have "fm_typed (download_done e ps (m\<lparr>fm_text := t\<rparr>))" for ps t
    using assms(1) by (auto simp: download_done_def fm_typed_def download_finally_def)
  with assms show ?thesis
    by (auto simp: download_chunk_def Let_def intro!: fm_typed_download_loop split: option.split)
qed

lemma fm_typed_upload_loop:
  assumes "fm_typed m" "length (lf_data f) \<le> file_limit"
  shows "fm_typed (upload_loop f dest off m)"
proof -
  have "fm_typed (m\<lparr>fm_next := n, fm_tasks := fm_tasks m @ [(i, r, k)]\<rparr>)" if "task_typed k" for n i r k
    using assms(1) that by (auto simp: fm_typed_def)
  with assms show ?thesis by (simp add: upload_loop_def)
qed

lemma fm_typed_slice:
  "fm_typed m \<Longrightarrow> task_typed (KSlice f dest off) \<Longrightarrow> fm_typed (upload_slice f dest off ok m)"
  by (auto simp: upload_slice_def encode_eq intro!: fm_typed_call request_typed_write)

lemma fm_typed_clicks:
  assumes "fm_typed m"
  shows "fm_typed (click_entry i m)" "fm_typed (click_rename i ans m)" "fm_typed (click_delete i sure m)"
    "fm_typed (click_mkdir ans m)" "fm_typed (pick_file f m)"
  using assms
  by (auto simp: click_entry_def click_rename_def click_delete_def click_mkdir_def pick_file_def fm_download_def
      fm_upload_def Let_def file_limit_def request_typed_rename intro!: fm_typed_call fm_typed_download_loop split: option.split)

lemma fm_typed_failed: "fm_typed m \<Longrightarrow> fm_typed (task_failed k e m)"
  by (simp add: task_failed_def split: task.split after_load.split)

lemma fm_typed_listed: "fm_typed m \<Longrightarrow> fm_typed (listed coll a p es m)"
  by (simp add: listed_def Let_def split: after_load.split)

lemma fm_typed_step: "fm_typed m \<Longrightarrow> fm_typed (fm_step coll m ev)"
proof (cases ev)
  case (FDone i)
  assume "fm_typed m"
  with FDone show ?thesis
    by (auto simp: upload_written_def split: option.split task.split intro!: fm_typed_upload_loop dest: fm_typed_drop)
next
  case (FChunk i d eof)
  assume "fm_typed m"
  with FChunk show ?thesis
    by (auto split: option.split task.split simp del: task_typed.simps intro!: fm_typed_download_chunk dest: fm_typed_drop)
next
  case (FBuffer i ok)
  assume "fm_typed m"
  with FBuffer show ?thesis
    by (auto split: option.split task.split simp del: task_typed.simps intro!: fm_typed_slice dest: fm_typed_drop)
qed (auto simp: fm_typed_clicks split: option.split task.split
      intro!: fm_typed_failed fm_typed_listed dest: fm_typed_drop)

interpretation fm_types: event_system "fm_step coll" fm_typed for coll
  by unfold_locales (rule fm_typed_step)

lemma fm_typed_open: "fm_typed fm_open"
proof -
  have "fm_typed fm_init" by (simp add: fm_typed_def fm_init_def)
  then show ?thesis by (simp add: fm_open_def)
qed

lemma file_requests_typed_shape:
  "FCall i rq \<in> set (fm_out (fm_run coll fm_open es)) \<Longrightarrow> request_typed rq"
  using fm_types.run_inv [OF fm_typed_open, of coll es] by (auto simp: fm_typed_def)

text \<open>
  C34: every request the file manager sends, whatever the user does and the device answers, is one the
  device's decoder accepts: a known operation, an offset within the transfer limit, and for a write
  base64 that decodes to between one byte and the 24000 the device takes at most.
\<close>

theorem file_requests_typed:
  assumes "FCall i rq \<in> set (fm_out (fm_run coll fm_open es))"
  shows "request_typed rq \<and> 0 \<le> rq_offset rq \<and> rq_offset rq \<le> 1024 * 1024 * 1024 * 1024
    \<and> (rq_op rq = ''write'' \<longrightarrow> (\<exists>b. go_b64_decode (rq_data rq) = Some b \<and> 0 < length b \<and> length b \<le> 24000))"
proof -
  have t: "request_typed rq"
    by (rule file_requests_typed_shape [OF assms])
  then have "rq_offset rq \<le> 1024 * 1024 * 1024 * 1024"
    by (simp add: request_typed_def file_limit_def)
  moreover have "\<exists>b. go_b64_decode (rq_data rq) = Some b \<and> 0 < length b \<and> length b \<le> 24000" if "rq_op rq = ''write''"
    using t that go_b64_decode_encode by (auto simp: request_typed_def)
  ultimately show ?thesis using t by (auto simp: request_typed_def)
qed

theorem file_requests_typed_witness:
  "request_typed (file_rq ''mkdir'' (asc ''/a/x''))"
proof -
  have "FCall 1 (file_rq ''mkdir'' (asc ''/a/x''))
      \<in> set (fm_out (fm_run flat fm_open [FListed 0 (asc ''/a'') [], FMkdir (Some (asc ''x''))]))"
    by (simp add: fm_open_def fm_init_def fm_defs task_at_def Let_def bad_name_def js_eval join_def strip_slash_def)
  from file_requests_typed [OF this] show ?thesis by blast
qed

section \<open>Downloads end\<close>

text \<open>
  A device whose answer to a read is a chunk or an error, and which never sends an empty chunk that is
  not the last; nothing else is assumed of it.
\<close>

definition makes_progress :: "('s \<Rightarrow> file_request \<Rightarrow> 's \<times> (jstext + file_reply)) \<Rightarrow> bool" where
  "makes_progress serve \<longleftrightarrow>
     (\<forall>st rq st' r. rq_op rq = ''read'' \<longrightarrow> serve st rq = (st', Inr r) \<longrightarrow>
        (\<exists>d eof. r = RRead d eof \<and> (eof \<or> decode d \<noteq> Some [])))"

definition download_over :: "fm \<Rightarrow> bool" where
  "download_over m \<longleftrightarrow> fm_tasks m = [] \<and> \<not> fm_busy m"

lemma download_round:
  assumes "makes_progress serve" "fm_active m" "fm_tasks m = []" "off \<le> file_limit"
  shows "\<exists>m' st'. file_round coll serve (download_loop e parts off m, st) = (m', st')
    \<and> (download_over m' \<or> (\<exists>ps off' m1. m' = download_loop e ps off' m1 \<and> off < off' \<and> off' \<le> file_limit
        \<and> fm_active m1 \<and> fm_tasks m1 = []))"
proof -
  let ?rq = "(file_rq ''read'' (join (fm_current m) (en_name e)))\<lparr>rq_offset := int off\<rparr>"
  let ?m = "m\<lparr>fm_next := Suc (fm_next m), fm_out := fm_out m @ [FCall (fm_next m) ?rq], fm_tasks := []\<rparr>"
  obtain st' r where r: "serve st ?rq = (st', r)" by fastforce
  have over: "download_over (fm_report t (download_finally (?m\<lparr>fm_text := x\<rparr>)))"
    "download_over (fm_report t (download_finally ?m))" "download_over (download_done e ps (?m\<lparr>fm_text := x\<rparr>))" for t x ps
    by (simp_all add: download_over_def fm_report_def download_finally_def download_done_def)
  show ?thesis
  proof (cases r)
    case (Inl x)
    with assms r over(2) show ?thesis
      by (auto simp: file_round_def download_loop_def fm_call_def task_at_def drop_task_def task_failed_def)
  next
    case (Inr v)
    have op: "rq_op ?rq = ''read''" by (simp add: file_rq_def)
    from assms(1) [unfolded makes_progress_def, rule_format, OF op r [unfolded Inr]]
    obtain d eof where v: "v = RRead d eof" "eof \<or> decode d \<noteq> Some []" by blast
    have go: "file_round coll serve (download_loop e parts off m, st) = (download_chunk e parts off d eof ?m, st')"
      using assms(2,3) r Inr v(1) by (simp add: file_round_def download_loop_def fm_call_def task_at_def drop_task_def)
    show ?thesis
    proof (cases "eof \<or> decode d = None \<or> file_limit < off + length (the (decode d))")
      case True
      then have "download_over (download_chunk e parts off d eof ?m)"
        using over by (auto simp: download_chunk_def Let_def split: option.split)
      with go show ?thesis by blast
    next
      case False
      then obtain b where b: "decode d = Some b" "b \<noteq> []" "off + length b \<le> file_limit" "\<not> eof" using v(2) by auto
      let ?m1 = "?m\<lparr>fm_text := FtDownloading (en_name e) (off + length b)\<rparr>"
      have "download_chunk e parts off d eof ?m = download_loop e (parts @ [b]) (off + length b) ?m1"
        using b by (simp add: download_chunk_def Let_def)
      moreover have "off < off + length b" "fm_active ?m1" "fm_tasks ?m1 = []" using b(2) assms(2) by simp_all
      ultimately show ?thesis using go b(3) by metis
    qed
  qed
qed

lemma download_loop_ends:
  assumes "makes_progress serve" "fm_active m" "fm_tasks m = []" "off \<le> file_limit"
  shows "\<exists>n. n \<le> file_limit - off + 1 \<and> download_over (fst (file_rounds coll serve n (download_loop e parts off m, st)))"
  using assms(2-)
proof (induction "file_limit - off" arbitrary: off parts m st rule: less_induct)
  case less
  obtain m' st' where m': "file_round coll serve (download_loop e parts off m, st) = (m', st')"
    "download_over m' \<or> (\<exists>ps off' m1. m' = download_loop e ps off' m1 \<and> off < off' \<and> off' \<le> file_limit
        \<and> fm_active m1 \<and> fm_tasks m1 = [])"
    using download_round [OF assms(1) less.prems, of coll e parts st] by (elim exE conjE)
  from m'(2) show ?case
  proof
    assume "download_over m'"
    with m'(1) show ?thesis by (intro exI [of _ 1]) (simp add: file_rounds_def)
  next
    assume "\<exists>ps off' m1. m' = download_loop e ps off' m1 \<and> off < off' \<and> off' \<le> file_limit
        \<and> fm_active m1 \<and> fm_tasks m1 = []"
    then obtain ps off' m1 where n: "m' = download_loop e ps off' m1" "off < off'" "off' \<le> file_limit"
      "fm_active m1" "fm_tasks m1 = []" by blast
    then have "file_limit - off' < file_limit - off" by simp
    from less.hyps [OF this n(4,5,3), of ps st'] obtain k where k: "k \<le> file_limit - off' + 1"
      "download_over (fst (file_rounds coll serve k (m', st')))" unfolding n(1) by (elim exE conjE)
    have "file_rounds coll serve (Suc k) (download_loop e parts off m, st) = file_rounds coll serve k (m', st')"
      using m'(1) by (simp add: file_rounds_def funpow_swap1)
    with k n(2,3) show ?thesis by (intro exI [of _ "Suc k"]) auto
  qed
qed

text \<open>
  C30: a download ends: with any device that makes progress, honest or not, it is over after at most
  one round per byte of the limit of 128 MiB and one more, and the file manager is free again.
\<close>

theorem download_ends:
  assumes "makes_progress serve" "fm_idle m" "i < length (fm_entries m)" "\<not> en_dir (fm_entries m ! i)"
  shows "\<exists>n. n \<le> 128 * 1024 * 1024 + 1
    \<and> fm_tasks (fst (file_rounds coll serve n (fm_step coll m (FEntry i), st))) = []
    \<and> \<not> fm_busy (fst (file_rounds coll serve n (fm_step coll m (FEntry i), st)))"
proof (cases "file_limit < en_size (fm_entries m ! i)")
  case True
  have "fm_tasks (fm_step coll m (FEntry i)) = [] \<and> \<not> fm_busy (fm_step coll m (FEntry i))"
    using assms(2-) True by (simp add: fm_idle_def click_entry_def row_ready_def Let_def fm_download_def fm_report_def)
  then show ?thesis by (intro exI [of _ 0]) (simp add: file_rounds_def)
next
  case False
  have "fm_step coll m (FEntry i) = download_loop (fm_entries m ! i) [] 0 (m\<lparr>fm_busy := True\<rparr>)"
    using assms(2-) False by (simp add: fm_idle_def click_entry_def row_ready_def Let_def fm_download_def)
  then show ?thesis
    using download_loop_ends [OF assms(1), of "m\<lparr>fm_busy := True\<rparr>" 0] assms(2)
    by (simp add: fm_idle_def download_over_def file_limit_def)
qed

text \<open>Without that the loop never ends: it counts bytes, and empty chunks bring none.\<close>

definition stalling :: "unit \<Rightarrow> file_request \<Rightarrow> unit \<times> (jstext + file_reply)" where
  "stalling st rq = (st, Inr (RRead [] False))"

lemma decode_Nil [simp]: "decode [] = Some []"
  by (simp add: decode_eq b64_unpad_def)

lemma stalled_round:
  assumes "fm_active m" "fm_tasks m = []"
  shows "\<exists>m1. file_round coll stalling (download_loop e parts 0 m, st) = (download_loop e (parts @ [[]]) 0 m1, st)
    \<and> fm_active m1 \<and> fm_tasks m1 = [] \<and> fm_busy m1 = fm_busy m"
proof -
  let ?rq = "(file_rq ''read'' (join (fm_current m) (en_name e)))\<lparr>rq_offset := int 0\<rparr>"
  let ?m1 = "m\<lparr>fm_next := Suc (fm_next m), fm_out := fm_out m @ [FCall (fm_next m) ?rq], fm_tasks := [],
               fm_text := FtDownloading (en_name e) 0\<rparr>"
  have "file_round coll stalling (download_loop e parts 0 m, st) = (download_loop e (parts @ [[]]) 0 ?m1, st)"
    using assms
    by (simp add: file_round_def stalling_def download_loop_def [of e parts] fm_call_def task_at_def drop_task_def
        download_chunk_def Let_def)
  with assms show ?thesis by (intro exI [of _ ?m1]) simp
qed

lemma download_can_stall:
  assumes "fm_active m" "fm_tasks m = []" "fm_busy m"
  shows "fm_busy (fst (file_rounds coll stalling n (download_loop e parts 0 m, ())))"
  using assms
proof (induction n arbitrary: m parts)
  case 0
  then show ?case by (simp add: file_rounds_def download_loop_def fm_call_def)
next
  case (Suc n)
  then obtain m1 where "file_round coll stalling (download_loop e parts 0 m, ()) = (download_loop e (parts @ [[]]) 0 m1, ())"
    "fm_active m1" "fm_tasks m1 = []" "fm_busy m1"
    using stalled_round [OF Suc.prems(1,2)] by blast
  with Suc.IH show ?case by (simp add: file_rounds_def funpow_swap1)
qed

definition one_byte :: "unit \<Rightarrow> file_request \<Rightarrow> unit \<times> (jstext + file_reply)" where
  "one_byte st rq = (st, Inr (RRead (asc ''QQ=='') True))"

theorem download_ends_witness:
  "\<exists>n. n \<le> 128 * 1024 * 1024 + 1
    \<and> fm_tasks (fst (file_rounds flat one_byte n (fm_step flat demo_fm (FEntry 0), ()))) = []
    \<and> \<not> fm_busy (fst (file_rounds flat one_byte n (fm_step flat demo_fm (FEntry 0), ())))"
proof (rule download_ends)
  show "makes_progress one_byte" by (auto simp: makes_progress_def one_byte_def)
qed (simp_all add: demo_idle, simp_all add: demo_fm_def)

end
