(* ===== verification/Dialog.thy ===== *)
theory Dialog
  imports Framing File_Service
begin

text \<open>
  The other two modes of \<open>openRemote\<close> in \<open>web/static/remote-ui.js\<close>: the SSH terminal and the remote
  desktop, with the dialog around them, and the device's answers to a terminal
  (\<open>terminalWriter.Write\<close>, \<open>Session.handle\<close> of \<open>internal/remote/session.go\<close>).

  xterm.js, the fit add-on, \<open>ResizeObserver\<close> and the SSH client are not part of the repository; what
  the code hands to them is recorded, what they report are events.
\<close>

section \<open>The terminal\<close>

datatype term_write = WBytes "byte list" | WEnded

datatype term_call = TStart | TStdin jstext | TResize nat nat

record terminal =
  tm_active :: bool
  tm_created :: bool
  tm_disposed :: bool
  tm_hooked :: bool
  tm_observer :: bool
  tm_disconnected :: bool
  tm_screen :: "term_write list"
  tm_calls :: "term_call list"
  tm_error :: "link_err option"

text \<open>
  \<open>tm_created\<close>: \<open>terminal\<close> is not null; \<open>tm_hooked\<close>: \<open>onData\<close> is registered; \<open>tm_observer\<close>:
  \<open>observer\<close> is not null.
\<close>

definition term_init :: terminal where
  "term_init =
     \<lparr>tm_active = True, tm_created = False, tm_disposed = False, tm_hooked = False, tm_observer = False,
      tm_disconnected = False, tm_screen = [], tm_calls = [], tm_error = None\<rparr>"

text \<open>The branch \<open>mode === "ssh"\<close> up to its await.\<close>

definition term_open :: terminal where
  "term_open = term_init\<lparr>tm_created := True, tm_calls := [TStart]\<rparr>"

text \<open>The event callback handed to \<open>Link\<close>, with the error it throws.\<close>

definition remote_event :: "json \<Rightarrow> terminal \<Rightarrow> terminal \<times> link_err option" where
  "remote_event m s =
     (if is_type m ''terminal'' \<and> tm_created s then
        (case decode (data_text (jget m (asc ''data''))) of
           None \<Rightarrow> (s, Some InvalidCharacter)
         | Some b \<Rightarrow> (s\<lparr>tm_screen := tm_screen s @ [WBytes b]\<rparr>, None))
      else if is_type m ''terminalEnd'' \<and> tm_created s then (s\<lparr>tm_screen := tm_screen s @ [WEnded]\<rparr>, None)
      else (s, None))"

text \<open>\<open>encode(new TextEncoder().encode(data))\<close>: a lone surrogate is written as U+FFFD.\<close>

definition text_bytes :: "jstext \<Rightarrow> byte list" where
  "text_bytes t = utf8_encode (map (\<lambda>c. if 0xD800 \<le> c \<and> c < 0xE000 then 0xFFFD else c) t)"

definition stdin_data :: "jstext \<Rightarrow> jstext" where
  "stdin_data t = (case encode (text_bytes t) of Some d \<Rightarrow> d | None \<Rightarrow> [])"

datatype term_event =
    TmStarted | TmStartFailed link_err | TmData jstext | TmResized nat nat
  | TmCallFailed link_err | TmMessage json | TmClose

definition term_report :: "link_err \<Rightarrow> terminal \<Rightarrow> terminal" where
  "term_report e s = (if tm_active s then s\<lparr>tm_error := Some e\<rparr> else s)"

definition term_close :: "terminal \<Rightarrow> terminal" where
  "term_close s =
     (if tm_active s then
        s\<lparr>tm_active := False, tm_disposed := tm_disposed s \<or> tm_created s,
          tm_disconnected := tm_disconnected s \<or> tm_observer s\<rparr>
      else s)"

fun term_step :: "terminal \<Rightarrow> term_event \<Rightarrow> terminal" where
  "term_step s TmStarted = (if tm_hooked s then s else s\<lparr>tm_hooked := True, tm_observer := True\<rparr>)"
| "term_step s (TmStartFailed e) = (if tm_hooked s then s else term_report e s)"
| "term_step s (TmData t) =
     (if tm_hooked s \<and> \<not> tm_disposed s then s\<lparr>tm_calls := tm_calls s @ [TStdin (stdin_data t)]\<rparr> else s)"
| "term_step s (TmResized cols rows) =
     (if tm_observer s \<and> \<not> tm_disconnected s \<and> tm_active s
      then s\<lparr>tm_calls := tm_calls s @ [TResize cols rows]\<rparr> else s)"
| "term_step s (TmCallFailed e) = term_report e s"
| "term_step s (TmMessage m) = fst (remote_event m s)"
| "term_step s TmClose = term_close s"

section \<open>The device's side of a terminal\<close>

text \<open>\<open>terminalWriter.Write\<close>: the output in messages of at most 16000 bytes.\<close>

definition terminal_msg :: "byte list \<Rightarrow> json" where
  "terminal_msg b = JObj [(asc ''data'', JStr (b64_encode b)), (asc ''type'', JStr (asc ''terminal''))]"

function go_terminal :: "byte list \<Rightarrow> nat \<Rightarrow> json list" where
  "go_terminal b pos =
     (if pos < length b then
        (let e = (if length b < pos + 16000 then length b else pos + 16000)
         in terminal_msg (take (e - pos) (drop pos b)) # go_terminal b (pos + 16000))
      else [])"
  by pat_completeness auto
termination
  by (relation "measure (\<lambda>(b, pos). length b - pos)") auto

declare go_terminal.simps [simp del]

text \<open>
  \<open>Session.handle\<close> by its mode. What the SSH library and the desktop bridge answer are arguments:
  \<open>Some e\<close> is an error.
\<close>

record session_env =
  se_connect :: "jstext option"
  se_session :: "jstext option"
  se_pipe :: "jstext option"
  se_pty :: "jstext option"
  se_shell :: "jstext option"
  se_write :: "jstext option"
  se_change :: "jstext option"

record go_session =
  gs_mode :: string
  gs_client :: bool
  gs_terminal :: bool
  gs_stdin :: bool
  gs_input :: "byte list"
  gs_size :: "(int \<times> int) option"

datatype session_request =
  Session_Request jstext jstext int int

datatype session_reply = SReady | SNil | SStarted | SDesktop | SFiles

definition go_connect :: "session_env \<Rightarrow> go_session \<Rightarrow> jstext + go_session" where
  "go_connect env s =
     (if gs_client s then Inr s
      else case se_connect env of Some e \<Rightarrow> Inl e | None \<Rightarrow> Inr (s\<lparr>gs_client := True\<rparr>))"

definition go_start_terminal :: "session_env \<Rightarrow> go_session \<Rightarrow> go_session \<times> (jstext + session_reply)" where
  "go_start_terminal env s =
     (if gs_terminal s then (s, Inl (asc ''terminal already open''))
      else case se_session env of
             Some e \<Rightarrow> (s, Inl e)
           | None \<Rightarrow>
               (let s1 = s\<lparr>gs_terminal := True\<rparr> in
                case se_pipe env of
                  Some e \<Rightarrow> (s1\<lparr>gs_stdin := False\<rparr>, Inl e)
                | None \<Rightarrow>
                    (let s2 = s1\<lparr>gs_stdin := True\<rparr> in
                     case se_pty env of
                       Some e \<Rightarrow> (s2, Inl e)
                     | None \<Rightarrow>
                         (case se_shell env of Some e \<Rightarrow> (s2, Inl e) | None \<Rightarrow> (s2, Inr SStarted)))))"

definition go_stdin :: "session_env \<Rightarrow> go_session \<Rightarrow> jstext \<Rightarrow> go_session \<times> (jstext + session_reply)" where
  "go_stdin env s d =
     (if \<not> gs_stdin s then (s, Inl (asc ''terminal not open''))
      else case go_b64_decode d of
             None \<Rightarrow> (s, Inl (asc ''illegal base64 data''))
           | Some b \<Rightarrow>
               (case se_write env of
                  Some e \<Rightarrow> (s, Inl e)
                | None \<Rightarrow> (s\<lparr>gs_input := gs_input s @ b\<rparr>, Inr SNil)))"

definition go_resize :: "session_env \<Rightarrow> go_session \<Rightarrow> int \<Rightarrow> int \<Rightarrow> go_session \<times> (jstext + session_reply)" where
  "go_resize env s cols rows =
     (if \<not> gs_terminal s \<or> cols < 10 \<or> cols > 500 \<or> rows < 5 \<or> rows > 200
      then (s, Inl (asc ''invalid terminal size''))
      else case se_change env of
             Some e \<Rightarrow> (s, Inl e)
           | None \<Rightarrow> (s\<lparr>gs_size := Some (rows, cols)\<rparr>, Inr SNil))"

fun go_handle :: "session_env \<Rightarrow> go_session \<Rightarrow> session_request \<Rightarrow> go_session \<times> (jstext + session_reply)" where
  "go_handle env s (Session_Request op d cols rows) =
     (if op = asc ''ping'' then (s, Inr SReady)
      else if gs_mode s = ''desktop'' then
        (if op \<noteq> asc ''frame'' \<and> op \<noteq> asc ''input'' then (s, Inl (asc ''operation not allowed'')) else (s, Inr SDesktop))
      else
        (case go_connect env s of
           Inl e \<Rightarrow> (s, Inl e)
         | Inr s1 \<Rightarrow>
             if gs_mode s1 = ''files'' then (s1, Inr SFiles)
             else if op = asc ''terminal'' then go_start_terminal env s1
             else if op = asc ''stdin'' then go_stdin env s1 d
             else if op = asc ''resize'' then go_resize env s1 cols rows
             else (s1, Inl (asc ''operation not allowed''))))"

section \<open>The remote desktop\<close>

text \<open>A quotient the browser sends: \<open>None\<close> when it is not finite (\<open>JSON.stringify\<close> writes null).\<close>

definition js_quot :: "rat \<Rightarrow> rat \<Rightarrow> rat option" where
  "js_quot a b = (if b = 0 then None else Some (a / b))"

datatype desk_input =
    Move "rat option" "rat option" | Button int bool | Key jstext bool | Release | Wheel int

datatype desk_call = DInput desk_input | DFrame

text \<open>Where the loop of frames stands: before \<open>ready\<close>, in a call, in its pause, or over.\<close>

datatype desk_loop = AwaitReady | AwaitFrame | Pause | LoopOver

record desk =
  dk_active :: bool
  dk_move :: int
  dk_loop :: desk_loop
  dk_image :: "jstext option"
  dk_calls :: "(int \<times> desk_call) list"
  dk_error :: "link_err option"

text \<open>\<open>dk_calls\<close> are the calls with the clock (\<open>Date.now()\<close>) of their event.\<close>

definition desk_init :: desk where
  "desk_init =
     \<lparr>dk_active = True, dk_move = 0, dk_loop = AwaitReady, dk_image = None, dk_calls = [], dk_error = None\<rparr>"

record rect =
  rc_left :: rat
  rc_top :: rat
  rc_width :: rat
  rc_height :: rat

datatype desk_event =
    DkMove rat rat rect | DkDown int | DkUp int | DkKeyDown jstext | DkKeyUp jstext | DkBlur | DkWheel rat
  | DkReady "link_err option" | DkFrame jstext | DkFrameFailed link_err | DkPaused
  | DkInputFailed link_err | DkClose

definition desk_send :: "int \<Rightarrow> desk_call \<Rightarrow> desk \<Rightarrow> desk" where
  "desk_send now c s = s\<lparr>dk_calls := dk_calls s @ [(now, c)]\<rparr>"

definition desk_report :: "link_err \<Rightarrow> desk \<Rightarrow> desk" where
  "desk_report e s = (if dk_active s then s\<lparr>dk_error := Some e\<rparr> else s)"

text \<open>\<open>while (active)\<close>\<close>

definition frame_loop :: "int \<Rightarrow> desk \<Rightarrow> desk" where
  "frame_loop now s =
     (if dk_active s then desk_send now DFrame (s\<lparr>dk_loop := AwaitFrame\<rparr>) else s\<lparr>dk_loop := LoopOver\<rparr>)"

definition pointer_move :: "int \<Rightarrow> rat \<Rightarrow> rat \<Rightarrow> rect \<Rightarrow> desk \<Rightarrow> desk" where
  "pointer_move now x y r s =
     (if now - dk_move s < 80 then s
      else desk_send now (DInput (Move (js_quot (x - rc_left r) (rc_width r)) (js_quot (y - rc_top r) (rc_height r))))
             (s\<lparr>dk_move := now\<rparr>))"

fun desk_step :: "desk \<Rightarrow> int \<times> desk_event \<Rightarrow> desk" where
  "desk_step s (now, DkMove x y r) = pointer_move now x y r s"
| "desk_step s (now, DkDown b) = desk_send now (DInput (Button b True)) s"
| "desk_step s (now, DkUp b) = desk_send now (DInput (Button b False)) s"
| "desk_step s (now, DkKeyDown c) = desk_send now (DInput (Key c True)) s"
| "desk_step s (now, DkKeyUp c) = desk_send now (DInput (Key c False)) s"
| "desk_step s (now, DkBlur) = desk_send now (DInput Release) s"
| "desk_step s (now, DkWheel dy) = desk_send now (DInput (Wheel (if dy > 0 then - 120 else 120))) s"
| "desk_step s (now, DkReady r) =
     (if dk_loop s \<noteq> AwaitReady then s
      else case r of None \<Rightarrow> frame_loop now s | Some e \<Rightarrow> desk_report e (s\<lparr>dk_loop := LoopOver\<rparr>))"
| "desk_step s (now, DkFrame img) =
     (if dk_loop s \<noteq> AwaitFrame then s
      else if dk_active s then s\<lparr>dk_image := Some img, dk_loop := Pause\<rparr>
      else s\<lparr>dk_loop := LoopOver\<rparr>)"
| "desk_step s (now, DkFrameFailed e) =
     (if dk_loop s \<noteq> AwaitFrame then s else desk_report e (s\<lparr>dk_loop := LoopOver\<rparr>))"
| "desk_step s (now, DkPaused) = (if dk_loop s \<noteq> Pause then s else frame_loop now s)"
| "desk_step s (now, DkInputFailed e) = desk_report e s"
| "desk_step s (now, DkClose) = s\<lparr>dk_active := False\<rparr>"

abbreviation "desk_run \<equiv> run desk_step"

section \<open>What the terminal shows\<close>

lemma length_terminal_msg: "length b \<le> 16000 \<Longrightarrow> length (go_marshal (terminal_msg b)) \<le> 40000"
proof -
  assume l: "length b \<le> 16000"
  have t: "go_json (terminal_msg b) = asc ''{'' @ go_string (asc ''data'') @ asc '':'' @ 34 # b64_encode b @ [34]
      @ asc '','' @ go_string (asc ''type'') @ asc '':'' @ go_string (asc ''terminal'') @ asc ''}''"
    by (simp add: terminal_msg_def go_string_plain [OF plain_b64] js_eval)
  have k: "go_string (asc ''terminal'') = asc ''\"terminal\"''" "go_string (asc ''data'') = asc ''\"data\"''"
    "go_string (asc ''type'') = asc ''\"type\"''"
    by (simp_all add: json_string_def go_escape_def js_eval)
  have "\<forall>c \<in> set (b64_encode b). c < 0x80" using plain_b64 by (simp add: plain_ascii_def)
  then have "\<forall>c \<in> set (go_json (terminal_msg b)). c < 0x80"
    unfolding t k by (auto simp: js_eval)
  moreover have "(length b + 2) div 3 \<le> 5334" using l by presburger
  then have "length (go_json (terminal_msg b)) \<le> 40000"
    unfolding t k by (simp add: length_b64_encode)
  ultimately show ?thesis by (simp add: go_marshal_def length_utf8_ascii)
qed

lemma terminal_msg_simps [simp]:
  "terminal_msg b \<noteq> JNull" "\<not> is_type (terminal_msg b) ''chunk''" "\<not> is_type (terminal_msg b) ''result''"
  "is_type (terminal_msg b) ''terminal''" "jget (terminal_msg b) (asc ''data'') = Some (JStr (b64_encode b))"
  by (simp_all add: terminal_msg_def is_type_def)

lemma wf_terminal_msg: "wf_json (terminal_msg b)"
proof -
  have "\<forall>c \<in> set (b64_encode b). scalar c"
    using plain_b64 [of b] by (auto simp: plain_ascii_def scalar_def)
  then show ?thesis by (auto simp: terminal_msg_def dest: asc_scalar)
qed

text \<open>The messages, and the bytes they carry.\<close>

lemma go_terminal_chunks:
  "\<exists>bs. go_terminal b pos = map terminal_msg bs \<and> concat bs = drop pos b \<and> (\<forall>c \<in> set bs. length c \<le> 16000)"
proof (induction b pos rule: go_terminal.induct)
  case (1 b pos)
  show ?case
  proof (cases "pos < length b")
    case True
    with "1.IH" obtain bs where bs: "go_terminal b (pos + 16000) = map terminal_msg bs"
      "concat bs = drop (pos + 16000) b" "\<forall>c \<in> set bs. length c \<le> 16000" by auto
    have "go_terminal b pos = map terminal_msg (take 16000 (drop pos b) # bs)"
      using True bs(1) by (subst go_terminal.simps) (auto simp: Let_def)
    moreover have "concat (take 16000 (drop pos b) # bs) = drop pos b"
      using bs(2) append_take_drop_id [of 16000 "drop pos b"] by (simp add: add.commute)
    ultimately show ?thesis using bs(3) by (intro exI [of _ "take 16000 (drop pos b) # bs"]) auto
  qed (auto simp: go_terminal.simps [of b pos])
qed

lemma deliver_terminal:
  assumes "open_for t s" "tm_created tm"
  shows "link_run (\<lambda>m. snd (remote_event m tm)) s (map (deliver t) (map terminal_msg bs)) =
    s\<lparr>lk_out := lk_out s @ map (\<lambda>b. OEvent (terminal_msg b)) bs\<rparr>"
  using assms(1)
proof (induction bs arbitrary: s)
  case (Cons b bs)
  let ?s = "s\<lparr>lk_out := lk_out s @ [OEvent (terminal_msg b)]\<rparr>"
  have "receive (\<lambda>m. snd (remote_event m tm)) s (terminal_msg b) = (?s, None)"
    using assms(2) by (simp add: receive.simps [of _ s] remote_event_def data_text_def decode_b64_encode emit_def)
  then have "link_step (\<lambda>m. snd (remote_event m tm)) s (deliver t (terminal_msg b)) = ?s"
    using deliver_receive [OF Cons.prems wf_terminal_msg] by (cases t) simp_all
  moreover have "open_for t ?s" using Cons.prems by (cases t) auto
  ultimately show ?case using Cons.IH [of ?s] by simp
qed simp

lemma show_terminal:
  "tm_created tm \<Longrightarrow> foldl (\<lambda>tm m. fst (remote_event m tm)) tm (map terminal_msg bs) =
     tm\<lparr>tm_screen := tm_screen tm @ map WBytes bs\<rparr>"
  by (induction bs arbitrary: tm) (simp_all add: remote_event_def data_text_def decode_b64_encode)

text \<open>
  C36: the terminal shows what the shell writes: the bytes of one write of the device, however many,
  reach the terminal of the open dialog complete and in order, on either channel; the session is
  otherwise as before.
\<close>

theorem terminal_output_shown:
  assumes "open_for t s" "tm_created tm"
  shows "\<exists>bs. link_run (\<lambda>m. snd (remote_event m tm)) s
        (map (deliver t) (concat (map (go_messages cid) (go_terminal b 0)))) =
        s\<lparr>lk_out := lk_out s @ map OEvent (go_terminal b 0)\<rparr>
    \<and> tm_screen (foldl (\<lambda>tm m. fst (remote_event m tm)) tm (go_terminal b 0)) = tm_screen tm @ map WBytes bs
    \<and> concat bs = b"
proof -
  obtain bs where bs: "go_terminal b 0 = map terminal_msg bs" "concat bs = b" "\<forall>c \<in> set bs. length c \<le> 16000"
    using go_terminal_chunks [of b 0] by auto
  have "go_messages cid (terminal_msg c) = [terminal_msg c]" if "c \<in> set bs" for c
    using length_terminal_msg bs(3) that by (simp add: go_messages_def leD)
  then have "concat (map (go_messages cid) (map terminal_msg bs)) = map terminal_msg bs"
    by (induction bs) auto
  then show ?thesis
    using deliver_terminal [OF assms, of bs] show_terminal [OF assms(2), of bs] bs(1,2)
    by (intro exI [of _ bs]) (simp add: comp_def)
qed

theorem terminal_output_shown_witness:
  "\<exists>bs. tm_screen (foldl (\<lambda>tm m. fst (remote_event m tm)) term_open (go_terminal [104, 105] 0)) = map WBytes bs
    \<and> concat bs = [104, 105]"
proof -
  let ?s = "link_run (\<lambda>m. None) link_init [EWsOpen, EOffer None, EDcOpen :: nat link_event]"
  have "open_for ViaDc ?s" "tm_created term_open" "tm_screen term_open = []"
    by (simp_all add: step_defs link_init_def term_open_def term_init_def)
  with terminal_output_shown [OF this(1,2), of 7 "[104, 105]"] show ?thesis by auto
qed

section \<open>What the remote desktop sends\<close>

fun is_move :: "int \<times> desk_call \<Rightarrow> bool" where
  "is_move (n, DInput (Move x y)) = True"
| "is_move _ = False"

definition move_times :: "desk \<Rightarrow> int list" where
  "move_times s = map fst (filter is_move (dk_calls s))"

definition moves_ok :: "desk \<Rightarrow> bool" where
  "moves_ok s \<longleftrightarrow> sorted_wrt (\<lambda>a b. a + 80 \<le> b) (move_times s) \<and> (\<forall>a \<in> set (move_times s). a \<le> dk_move s)"

lemma moves_ok_same: "move_times s' = move_times s \<Longrightarrow> dk_move s' = dk_move s \<Longrightarrow> moves_ok s \<Longrightarrow> moves_ok s'"
  by (simp add: moves_ok_def)

lemma moves_ok_step: "moves_ok s \<Longrightarrow> moves_ok (desk_step s e)"
proof -
  assume ok: "moves_ok s"
  obtain now ev where e: "e = (now, ev)" by (cases e)
  have "moves_ok (pointer_move now x y r s)" for x y r
    using ok by (fastforce simp: pointer_move_def desk_send_def moves_ok_def move_times_def sorted_wrt_append)
  then show ?thesis
    unfolding e
    by (cases ev)
       (auto simp: desk_send_def desk_report_def frame_loop_def move_times_def
         intro: moves_ok_same [OF _ _ ok] split: option.split)
qed

interpretation desk_moves: event_system desk_step moves_ok
  by unfold_locales (rule moves_ok_step)

fun is_frame_call :: "int \<times> desk_call \<Rightarrow> bool" where
  "is_frame_call (n, DFrame) = True"
| "is_frame_call _ = False"

definition frame_calls :: "desk \<Rightarrow> (int \<times> desk_call) list" where
  "frame_calls s = filter is_frame_call (dk_calls s)"

lemma closed_desk_step:
  assumes "\<not> dk_active s"
  shows "\<not> dk_active (desk_step s e)" "frame_calls (desk_step s e) = frame_calls s"
proof -
  obtain now ev where e: "e = (now, ev)" by (cases e)
  show "\<not> dk_active (desk_step s e)" "frame_calls (desk_step s e) = frame_calls s"
    using assms unfolding e
    by (cases ev; auto simp: desk_send_def desk_report_def frame_loop_def pointer_move_def frame_calls_def
        split: option.split)+
qed

interpretation desk_frames: quiet_system desk_step "\<lambda>s. True" "\<lambda>s. \<not> dk_active s" frame_calls
  by unfold_locales (auto simp: closed_desk_step)

text \<open>
  However fast the pointer moves and whatever the clock does, two positions sent are at least
  80 ms apart; and once the dialog is closed no frame is asked for any more.
\<close>

theorem desktop_traffic_bounded:
  "sorted_wrt (\<lambda>a b. a + 80 \<le> b) (map fst (filter is_move (dk_calls (desk_run desk_init es))))
   \<and> filter is_frame_call (dk_calls (desk_run (desk_run desk_init es) ((now, DkClose) # fs)))
     = filter is_frame_call (dk_calls (desk_run desk_init es))"
proof -
  have "moves_ok desk_init" by (simp add: moves_ok_def move_times_def desk_init_def)
  then have "moves_ok (desk_run desk_init es)" by (rule desk_moves.run_inv)
  moreover have "frame_calls (desk_run (desk_step s (now, DkClose)) fs) = frame_calls (desk_step s (now, DkClose))" for s
    by (rule desk_frames.run_quiet) simp_all
  ultimately show ?thesis by (simp add: moves_ok_def move_times_def frame_calls_def)
qed

end
