(* ===== verification/Requests.thy ===== *)
theory Requests
  imports Wire File_Bounds Dialog
begin

text \<open>
  The requests of the file manager and of the terminal on the wire: the fields each call of
  \<open>web/static/remote-ui.js\<close> sends, and that \<open>json.Unmarshal\<close> on the device gives the request the models of
  the two ends exchange.
\<close>

section \<open>Fields\<close>

text \<open>\<open>list\<close>, \<open>create\<close>, \<open>mkdir\<close>, \<open>delete\<close> send a path; \<open>rename\<close> a target, \<open>read\<close> an offset, \<open>write\<close> an offset and data too.\<close>

definition file_fields :: "file_request \<Rightarrow> fields" where
  "file_fields rq =
     (asc ''path'', JStr (rq_path rq))
     # (if rq_op rq = ''rename'' then [(asc ''target'', JStr (rq_target rq))] else [])
     @ (if rq_op rq \<in> {''read'', ''write''} then [(asc ''offset'', JNum (rq_offset rq))] else [])
     @ (if rq_op rq = ''write'' then [(asc ''data'', JStr (rq_data rq))] else [])"

fun term_op :: "term_call \<Rightarrow> string" where
  "term_op TStart = ''terminal''" | "term_op (TStdin d) = ''stdin''" | "term_op (TResize cols rows) = ''resize''"

fun term_fields :: "term_call \<Rightarrow> fields" where
  "term_fields TStart = []"
| "term_fields (TStdin d) = [(asc ''data'', JStr d)]"
| "term_fields (TResize cols rows) = [(asc ''cols'', JNum (int cols)), (asc ''rows'', JNum (int rows))]"

section \<open>What arrives\<close>

text \<open>The bytes the device's session receives for a request, over either path.\<close>

definition arriving :: "nat \<Rightarrow> string \<Rightarrow> fields \<Rightarrow> byte list set" where
  "arriving i op fs = insert (dc_bytes i op fs) (case relayed (ws_bytes i op fs) of None \<Rightarrow> {} | Some b \<Rightarrow> {b})"

lemma unmarshal_arriving:
  "fields_ok fs \<Longrightarrow> b \<in> arriving i op fs \<Longrightarrow> go_unmarshal b = go_request_of (js_request i op fs)"
  by (auto simp: arriving_def relayed_ws unmarshal_dc unmarshal_ws)

definition go_file :: "nat \<Rightarrow> file_request \<Rightarrow> go_request" where
  "go_file i rq =
     \<lparr>gr_id = int i, gr_op = asc (rq_op rq), gr_path = rq_path rq, gr_target = rq_target rq, gr_data = rq_data rq,
      gr_offset = rq_offset rq, gr_cols = 0, gr_rows = 0, gr_input = None\<rparr>"

lemma b64_scalar: "\<forall>c \<in> set (b64_encode b). scalar c"
  using plain_b64 [of b] by (auto simp: plain_ascii_def scalar_def)

lemma file_fields_ok:
  assumes "request_typed rq" "\<forall>c \<in> set (rq_path rq @ rq_target rq). scalar c"
  shows "fields_ok (file_fields rq)"
  using assms b64_scalar
  by (auto simp: fields_ok_def file_fields_def request_typed_def dest: asc_scalar split: if_splits)

lemma file_request_of:
  assumes "request_typed rq" "fields_ok (file_fields rq)" "i < 2 ^ 63"
  shows "go_request_of (js_request i (rq_op rq) (file_fields rq)) = Some (go_file i rq)"
  unfolding js_request_fields [OF assms(2)] using assms(1,3)
  by (auto simp: go_request_of_def go_fields_def go_int_field_def go_text_field_def
      file_fields_def go_file_def request_typed_def file_limit_def split: if_splits)

text \<open>
  C23: what the file manager asks is what the device does: every request it makes arrives, over the
  data channel or over the relay, as the Go request with the same operation, path, target, offset and
  data, and zero in every other field, whatever characters the names contain.
\<close>

theorem file_requests_arrive:
  assumes "FCall k rq \<in> set (fm_out (fm_run coll fm_open es))"
    and "\<forall>c \<in> set (rq_path rq @ rq_target rq). scalar c" "i < 2 ^ 63"
    and "b \<in> arriving i (rq_op rq) (file_fields rq)"
  shows "go_unmarshal b = Some (go_file i rq)"
proof -
  have t: "request_typed rq" using file_requests_typed_shape [OF assms(1)] .
  then have f: "fields_ok (file_fields rq)" using assms(2) by (rule file_fields_ok)
  show ?thesis unfolding unmarshal_arriving [OF f assms(4)] by (rule file_request_of [OF t f assms(3)])
qed

theorem file_requests_arrive_witness:
  "go_unmarshal (dc_bytes 2 ''mkdir'' [(asc ''path'', JStr (asc ''/a/x''))]) = Some (go_file 2 (file_rq ''mkdir'' (asc ''/a/x'')))"
proof -
  have "FCall 1 (file_rq ''mkdir'' (asc ''/a/x''))
      \<in> set (fm_out (fm_run flat fm_open [FListed 0 (asc ''/a'') [], FMkdir (Some (asc ''x''))]))"
    by (simp add: fm_open_def fm_init_def fm_defs task_at_def Let_def bad_name_def js_eval join_def strip_slash_def)
  moreover have "\<forall>c \<in> set (rq_path (file_rq ''mkdir'' (asc ''/a/x'')) @ rq_target (file_rq ''mkdir'' (asc ''/a/x''))). scalar c"
    using asc_scalar by (auto simp: file_rq_def)
  moreover have "(2::nat) < 2 ^ 63" by simp
  moreover have "dc_bytes 2 ''mkdir'' [(asc ''path'', JStr (asc ''/a/x''))]
      \<in> arriving 2 (rq_op (file_rq ''mkdir'' (asc ''/a/x''))) (file_fields (file_rq ''mkdir'' (asc ''/a/x'')))"
    by (simp add: arriving_def file_fields_def file_rq_def)
  ultimately show ?thesis by (rule file_requests_arrive)
qed

text \<open>The same for the terminal: the operation, the data and the size arrive, and every other field is zero.\<close>

lemma terminal_requests_arrive:
  assumes "\<forall>d. c = TStdin d \<longrightarrow> (\<forall>x \<in> set d. scalar x)" "\<forall>cols rows. c = TResize cols rows \<longrightarrow> cols < 2 ^ 63 \<and> rows < 2 ^ 63"
    and "i < 2 ^ 63" "b \<in> arriving i (term_op c) (term_fields c)"
  shows "\<exists>r. go_unmarshal b = Some r \<and> gr_id r = int i \<and> gr_op r = asc (term_op c) \<and> gr_path r = []
    \<and> gr_data r = (case c of TStdin d \<Rightarrow> d | _ \<Rightarrow> [])
    \<and> (gr_cols r, gr_rows r) = (case c of TResize cols rows \<Rightarrow> (int cols, int rows) | _ \<Rightarrow> (0, 0))"
proof -
  have f: "fields_ok (term_fields c)" using assms(1) by (cases c) (auto simp: fields_ok_def dest: asc_scalar)
  show ?thesis unfolding unmarshal_arriving [OF f assms(4)] js_request_fields [OF f]
    using assms(2,3) by (cases c) (auto simp: go_request_of_def go_fields_def go_int_field_def go_text_field_def)
qed

end
