(* ===== verification/Keystrokes.thy ===== *)
theory Keystrokes
  imports Requests Go_Session
begin

text \<open>
  Typing, from end to end: the call a keystroke makes in the dialog, the bytes that arrive for it at the
  device's session, on either path, the size limit they pass there, and what \<open>Session.handle\<close> does with them.
\<close>

section \<open>Sizes\<close>

text \<open>The text of a request whose only field is \<open>data\<close>, as both writers make it.\<close>

definition plain_char :: "(nat \<Rightarrow> jstext) \<Rightarrow> nat \<Rightarrow> bool" where
  "plain_char esc c \<longleftrightarrow> c < 0x80 \<and> esc c = [c]"

lemma plain_chars: "\<forall>c \<in> set (b64_encode b). plain_char go_escape c \<and> plain_char js_escape c"
proof
  fix c assume "c \<in> set (b64_encode b)"
  then have "plain_ascii c" using plain_b64 by blast
  then show "plain_char go_escape c \<and> plain_char js_escape c"
    by (auto simp: plain_ascii_def plain_char_def js_escape_def go_escape_def split: if_splits)
qed

lemma plain_string: "\<forall>c \<in> set s. plain_char esc c \<Longrightarrow> json_string esc s = 34 # s @ [34]"
proof -
  assume "\<forall>c \<in> set s. plain_char esc c"
  then have "concat (map esc s) = s" by (induction s) (auto simp: plain_char_def)
  then show ?thesis by (simp add: json_string_def)
qed

lemma stdin_fields_ok: "fields_ok [(asc ''data'', JStr (b64_encode b))]"
  using b64_scalar [of b] asc_scalar by (auto simp: fields_ok_def)

lemma stdin_text:
  assumes "esc \<in> {go_escape, js_escape}"
  shows "json_text esc (js_request i ''stdin'' [(asc ''data'', JStr (b64_encode b))]) =
    asc ''{\"id\":'' @ nat_text i @ asc '',\"op\":\"stdin\",\"data\":\"'' @ b64_encode b @ asc ''\"}''"
proof -
  have "json_string esc (b64_encode b) = 34 # b64_encode b @ [34]"
    by (rule plain_string) (use plain_chars [of b] assms in auto)
  moreover have "json_string esc (asc ''id'') = asc ''\"id\"''" "json_string esc (asc ''op'') = asc ''\"op\"''"
    "json_string esc (asc ''stdin'') = asc ''\"stdin\"''" "json_string esc (asc ''data'') = asc ''\"data\"''"
    using assms by (auto simp: json_string_def go_escape_def js_escape_def js_eval)
  ultimately show ?thesis
    unfolding js_request_fields [OF stdin_fields_ok] by (simp add: int_text_def js_eval)
qed

lemma stdin_bytes:
  assumes "x \<in> arriving i ''stdin'' [(asc ''data'', JStr (b64_encode b))]"
  shows "length x = 30 + length (nat_text i) + 4 * ((length b + 2) div 3)"
proof -
  let ?t = "asc ''{\"id\":'' @ nat_text i @ asc '',\"op\":\"stdin\",\"data\":\"'' @ b64_encode b @ asc ''\"}''"
  have "x = utf8_encode ?t"
    using assms stdin_text [of go_escape i b] stdin_text [of js_escape i b]
    by (auto simp: arriving_def relayed_ws [OF stdin_fields_ok] go_marshal_def dc_bytes_def)
  moreover have "\<forall>c \<in> set ?t. c < 0x80"
    using plain_chars [of b] nat_text_digits [of i] by (auto simp: plain_char_def is_digit_def js_eval)
  ultimately show ?thesis using length_utf8_ascii [of ?t] by (simp add: length_b64_encode)
qed

section \<open>Typing\<close>

text \<open>The fields of a decoded request that the terminal's part of \<open>Session.handle\<close> reads.\<close>

definition session_request :: "go_request \<Rightarrow> session_request" where
  "session_request r = Session_Request (gr_op r) (gr_data r) (gr_cols r) (gr_rows r)"

lemma typed_call: "tm_hooked tm \<Longrightarrow> \<not> tm_disposed tm \<Longrightarrow>
    tm_calls (term_step tm (TmData t)) = tm_calls tm @ [TStdin (b64_encode (text_bytes t))]"
  by (simp add: stdin_data_def encode_eq)

text \<open>
  C37: what is typed reaches the shell as UTF-8: in an open terminal, text of up to 48000 bytes makes one
  call; whatever its identifier, and whether the data channel or the relay carries it, what arrives at the
  device is within the session's limit of 64 KiB, is read as the request to write to the terminal, and
  appends exactly the UTF-8 bytes of the text to the shell's input.
\<close>

theorem keystrokes_arrive:
  assumes "tm_hooked tm" "\<not> tm_disposed tm" "length (text_bytes t) \<le> 48000" "i < 2 ^ 63"
    and "gs_mode s = ''ssh''" "gs_client s" "gs_stdin s" "se_write env = None"
  shows "\<exists>c. tm_calls (term_step tm (TmData t)) = tm_calls tm @ [c]
    \<and> (\<forall>b \<in> arriving i (term_op c) (term_fields c). length b \<le> accept_limit
         \<and> (\<exists>r. go_unmarshal b = Some r \<and> gr_id r = int i
              \<and> go_handle env s (session_request r) = (s\<lparr>gs_input := gs_input s @ text_bytes t\<rparr>, Inr SNil)))"
proof -
  let ?c = "TStdin (b64_encode (text_bytes t))"
  have "length b \<le> accept_limit" if "b \<in> arriving i (term_op ?c) (term_fields ?c)" for b
  proof -
    have "i < 10 ^ 19" using assms(4) by simp
    then have "length (nat_text i) \<le> 19" by (rule length_nat_text) simp
    moreover have "(length (text_bytes t) + 2) div 3 \<le> 16000" using assms(3) by presburger
    ultimately show ?thesis using stdin_bytes [of b i "text_bytes t"] that by (simp add: accept_limit_def)
  qed
  moreover have "\<exists>r. go_unmarshal b = Some r \<and> gr_id r = int i
      \<and> go_handle env s (session_request r) = (s\<lparr>gs_input := gs_input s @ text_bytes t\<rparr>, Inr SNil)"
    if b: "b \<in> arriving i (term_op ?c) (term_fields ?c)" for b
  proof -
    obtain r where r: "go_unmarshal b = Some r" "gr_id r = int i" "gr_op r = asc ''stdin''" "gr_data r = b64_encode (text_bytes t)"
      using terminal_requests_arrive [OF _ _ assms(4) b] b64_scalar [of "text_bytes t"] by auto
    then have "go_handle env s (session_request r) = (s\<lparr>gs_input := gs_input s @ text_bytes t\<rparr>, Inr SNil)"
      using assms(5-8) by (simp add: session_request_def go_connect_def go_stdin_def go_b64_decode_encode)
    with r show ?thesis by blast
  qed
  ultimately show ?thesis using typed_call [OF assms(1,2), of t] by blast
qed

definition quiet_env :: session_env where
  "quiet_env = \<lparr>se_connect = None, se_session = None, se_pipe = None, se_pty = None, se_shell = None,
     se_write = None, se_change = None\<rparr>"

definition shell_session :: go_session where
  "shell_session = fst (go_handle quiet_env \<lparr>gs_mode = ''ssh'', gs_client = False, gs_terminal = False, gs_stdin = False,
     gs_input = [], gs_size = None\<rparr> (Session_Request (asc ''terminal'') [] 0 0))"

lemma shell_opened: "gs_mode shell_session = ''ssh''" "gs_client shell_session" "gs_stdin shell_session"
  "gs_input shell_session = []" "se_write quiet_env = None"
  by (simp_all add: shell_session_def quiet_env_def go_connect_def go_start_terminal_def)

theorem keystrokes_arrive_witness:
  "\<exists>c b r. tm_calls (term_step (term_step term_open TmStarted) (TmData (asc ''ls''))) = [TStart, c]
     \<and> b = dc_bytes 2 (term_op c) (term_fields c) \<and> go_unmarshal b = Some r
     \<and> gs_input (fst (go_handle quiet_env shell_session (session_request r))) = [108, 115]"
proof -
  let ?tm = "term_step term_open TmStarted"
  have tm: "tm_hooked ?tm" "\<not> tm_disposed ?tm" "tm_calls ?tm = [TStart]" by (simp_all add: term_open_def term_init_def)
  have t: "text_bytes (asc ''ls'') = [108, 115]" by (simp add: text_bytes_def utf8_encode_def utf8_char_def js_eval)
  then have len: "length (text_bytes (asc ''ls'')) \<le> 48000" by simp
  have i: "(2::nat) < 2 ^ 63" by simp
  from keystrokes_arrive [OF tm(1,2) len i shell_opened(1-3,5)] obtain c where
    c: "tm_calls (term_step ?tm (TmData (asc ''ls''))) = [TStart, c]" and
    all: "\<And>b. b \<in> arriving 2 (term_op c) (term_fields c) \<Longrightarrow> \<exists>r. go_unmarshal b = Some r
      \<and> go_handle quiet_env shell_session (session_request r) =
        (shell_session\<lparr>gs_input := gs_input shell_session @ text_bytes (asc ''ls'')\<rparr>, Inr SNil)"
    unfolding tm(3) by fastforce
  have "dc_bytes 2 (term_op c) (term_fields c) \<in> arriving 2 (term_op c) (term_fields c)" by (simp add: arriving_def)
  from all [OF this] obtain r where "go_unmarshal (dc_bytes 2 (term_op c) (term_fields c)) = Some r"
    "go_handle quiet_env shell_session (session_request r) =
        (shell_session\<lparr>gs_input := gs_input shell_session @ text_bytes (asc ''ls'')\<rparr>, Inr SNil)" by blast
  then have "gs_input (fst (go_handle quiet_env shell_session (session_request r))) = [108, 115]"
    by (simp add: t shell_opened(4) del: go_handle.simps)
  with c \<open>go_unmarshal _ = Some r\<close> show ?thesis by blast
qed

text \<open>A paste is one call: beyond 48 KiB it exceeds the limit, and accepting it cancels the session.\<close>

lemma large_paste_cancels:
  assumes "tm_hooked tm" "\<not> tm_disposed tm" "48 * 1024 \<le> length (text_bytes t)"
  shows "\<exists>c. tm_calls (term_step tm (TmData t)) = tm_calls tm @ [c]
    \<and> (\<forall>b \<in> arriving i (term_op c) (term_fields c). ss_cancelled (accept_data other b ss))"
proof -
  let ?c = "TStdin (b64_encode (text_bytes t))"
  have "accept_limit < length b" if "b \<in> arriving i (term_op ?c) (term_fields ?c)" for b
  proof -
    have "16384 \<le> (length (text_bytes t) + 2) div 3" using assms(3) by presburger
    then show ?thesis using stdin_bytes [of b i "text_bytes t"] that by (simp add: accept_limit_def)
  qed
  then show ?thesis using typed_call [OF assms(1,2), of t] by (auto simp: accept_data_def)
qed

end
