(* ===== verification/RemoteDesktop.thy ===== *)
theory RemoteDesktop
  imports Json_Lemmas
begin

text \<open>
  The Windows side of a remote desktop, \<open>start\<close> of \<open>desktop/remote-desktop.cjs\<close>: the loop that
  fetches jobs of the local agent, captures the screen or hands an input to the helper process, and
  posts the reply; the helper with its pending input and 2 s time-out; the interval that releases
  keys; the lock of the workstation.

  Helpers are numbered as they are spawned, inputs as they are made; an \<open>await\<close> splits the loop. What
  the code does to the outside (and the jobs it fetches) is the trace \<open>rd_out\<close>. \<open>ProgramFiles\<close> is set.
\<close>

section \<open>State\<close>

datatype rd_err =
    HelperUnavailable | HelperStopped | InputBusy | InputTimeout | InvalidReply | HelperError jstext
  | ScreenLocked | NoScreen | CaptureFailed jstext | UnknownOperation

type_synonym rd_frame = "jstext \<times> nat \<times> nat"

datatype rd_result = ResFrame rd_frame | ResOk

datatype rd_out =
    OSpawn nat | OEnd nat | OKill nat | OWrite nat json
  | OSettled nat "rd_err option"
  | OTip bool
  | OAsk | OJob jstext | OReply jstext "rd_err + rd_result"

datatype rd_loop = LpNext | LpCapture jstext | LpInput jstext nat | LpReply | LpPause | LpEnd

record rd =
  rd_stopped :: bool
  rd_locked :: bool
  rd_helper :: "nat option"
  rd_spawned :: nat
  rd_pending :: "nat option"
  rd_timers :: "nat list"
  rd_calls :: nat
  rd_last_input :: int
  rd_last_frame :: int
  rd_loop :: rd_loop
  rd_out :: "rd_out list"

record rd_job =
  jb_id :: jstext
  jb_op :: jstext
  jb_input :: json

section \<open>Input\<close>

definition rd_emit :: "rd_out list \<Rightarrow> rd \<Rightarrow> rd" where
  "rd_emit os s = s\<lparr>rd_out := rd_out s @ os\<rparr>"

text \<open>\<open>pending.resolve\<close> and \<open>pending.reject\<close>: they clear the timer.\<close>

definition rd_settle :: "nat \<Rightarrow> rd_err option \<Rightarrow> rd \<Rightarrow> rd" where
  "rd_settle c r s = rd_emit [OSettled c r] (s\<lparr>rd_timers := removeAll c (rd_timers s)\<rparr>)"

text \<open>\<open>pending?.reject(e); pending = null\<close>\<close>

definition reject_pending :: "rd_err option \<Rightarrow> rd \<Rightarrow> rd" where
  "reject_pending r s =
     (case rd_pending s of None \<Rightarrow> s | Some c \<Rightarrow> (rd_settle c r s)\<lparr>rd_pending := None\<rparr>)"

definition rd_spawn :: "rd \<Rightarrow> rd" where
  "rd_spawn s =
     (case rd_helper s of
        Some h \<Rightarrow> s
      | None \<Rightarrow> rd_emit [OSpawn (rd_spawned s)]
                  (s\<lparr>rd_helper := Some (rd_spawned s), rd_spawned := Suc (rd_spawned s)\<rparr>))"

definition rd_input :: "int \<Rightarrow> json \<Rightarrow> rd \<Rightarrow> rd" where
  "rd_input now data s =
     (let c = rd_calls s;
          s1 = rd_spawn (s\<lparr>rd_calls := Suc c\<rparr>)
      in if rd_pending s1 \<noteq> None then rd_emit [OSettled c (Some InputBusy)] s1
         else
           let s2 = s1\<lparr>rd_timers := rd_timers s1 @ [c], rd_pending := Some c, rd_last_input := now\<rparr>
           in (case rd_helper s2 of None \<Rightarrow> s2 | Some h \<Rightarrow> rd_emit [OWrite h data] s2))"

definition input_timeout :: "nat \<Rightarrow> rd \<Rightarrow> rd" where
  "input_timeout c s =
     (if c \<notin> set (rd_timers s) then s
      else
        let s1 = (case rd_helper s of None \<Rightarrow> s | Some h \<Rightarrow> rd_emit [OKill h] s)
        in rd_settle c (Some InputTimeout) (s1\<lparr>rd_pending := None, rd_helper := None\<rparr>))"

text \<open>The helper's line, read as JSON; \<open>null\<close> throws inside the \<open>try\<close>.\<close>

definition line_outcome :: "jstext \<Rightarrow> rd_err option" where
  "line_outcome line =
     (case json_parse line of
        None \<Rightarrow> Some InvalidReply
      | Some r \<Rightarrow>
          if r = JNull then Some InvalidReply
          else if js_truthy (jget r (asc ''ok'')) then None
          else Some (HelperError (case jget r (asc ''error'') of None \<Rightarrow> [] | Some v \<Rightarrow> js_to_string v)))"

definition helper_line :: "nat \<Rightarrow> jstext \<Rightarrow> rd \<Rightarrow> rd" where
  "helper_line h line s = (if rd_helper s \<noteq> Some h then s else reject_pending (line_outcome line) s)"

definition helper_gone :: "rd_err \<Rightarrow> nat \<Rightarrow> rd \<Rightarrow> rd" where
  "helper_gone e h s =
     (if rd_helper s \<noteq> Some h then s else (reject_pending (Some e) s)\<lparr>rd_helper := None\<rparr>)"

definition on_lock :: "rd \<Rightarrow> rd" where
  "on_lock s =
     (case rd_helper s of None \<Rightarrow> s\<lparr>rd_locked := True\<rparr>
      | Some h \<Rightarrow> rd_emit [OEnd h] (s\<lparr>rd_locked := True, rd_helper := None\<rparr>))"

definition release_input :: json where
  "release_input = JObj [(asc ''kind'', JStr (asc ''release''))]"

definition on_interval :: "int \<Rightarrow> rd \<Rightarrow> rd" where
  "on_interval now s =
     (if rd_stopped s then s
      else
        let s1 = (if rd_helper s \<noteq> None \<and> rd_pending s = None \<and> now - rd_last_input s > 3000
                  then rd_input now release_input s else s)
        in if now - rd_last_frame s1 > 4000 then rd_emit [OTip False] s1 else s1)"

section \<open>The loop\<close>

definition loop_head :: "rd \<Rightarrow> rd" where
  "loop_head s = (if rd_stopped s then s\<lparr>rd_loop := LpEnd\<rparr> else rd_emit [OAsk] (s\<lparr>rd_loop := LpNext\<rparr>))"

definition reply :: "jstext \<Rightarrow> rd_err + rd_result \<Rightarrow> rd \<Rightarrow> rd" where
  "reply i r s = rd_emit [OReply i r] (s\<lparr>rd_loop := LpReply\<rparr>)"

text \<open>\<open>idle\<close>: the system reports the locked state itself.\<close>

definition do_job :: "int \<Rightarrow> bool \<Rightarrow> rd_job \<Rightarrow> rd \<Rightarrow> rd" where
  "do_job now idle j s =
     (let s1 = rd_emit [OJob (jb_id j)] s
      in if rd_locked s \<or> idle then reply (jb_id j) (Inl ScreenLocked) s1
         else if jb_op j = asc ''frame'' then s1\<lparr>rd_loop := LpCapture (jb_id j)\<rparr>
         else if jb_op j = asc ''input'' then
           (rd_input now (jb_input j) s1)\<lparr>rd_loop := LpInput (jb_id j) (rd_calls s1)\<rparr>
         else reply (jb_id j) (Inl UnknownOperation) s1)"

definition on_next :: "int \<Rightarrow> bool \<Rightarrow> rd_job option \<Rightarrow> rd \<Rightarrow> rd" where
  "on_next now idle r s =
     (if rd_loop s \<noteq> LpNext then s
      else case r of
             None \<Rightarrow> s\<lparr>rd_loop := LpPause\<rparr>
           | Some j \<Rightarrow> if jb_id j = [] then loop_head s else do_job now idle j s)"

text \<open>\<open>getSources\<close> throws, or gives no source of the primary display or an empty picture (\<open>None\<close>).\<close>

definition on_captured :: "int \<Rightarrow> jstext + rd_frame option \<Rightarrow> rd \<Rightarrow> rd" where
  "on_captured now f s =
     (case rd_loop s of
        LpCapture i \<Rightarrow>
          (case f of
             Inl m \<Rightarrow> reply i (Inl (CaptureFailed m)) s
           | Inr None \<Rightarrow> reply i (Inl NoScreen) s
           | Inr (Some fr) \<Rightarrow> reply i (Inr (ResFrame fr)) (rd_emit [OTip True] (s\<lparr>rd_last_frame := now\<rparr>)))
      | _ \<Rightarrow> s)"

fun outcome_of :: "nat \<Rightarrow> rd_out list \<Rightarrow> rd_err option option" where
  "outcome_of c [] = None"
| "outcome_of c (OSettled d r # os) = (if d = c then Some r else outcome_of c os)"
| "outcome_of c (x # os) = outcome_of c os"

definition on_resume :: "rd \<Rightarrow> rd" where
  "on_resume s =
     (case rd_loop s of
        LpInput i c \<Rightarrow>
          (case outcome_of c (rd_out s) of
             None \<Rightarrow> s
           | Some None \<Rightarrow> reply i (Inr ResOk) s
           | Some (Some e) \<Rightarrow> reply i (Inl e) s)
      | _ \<Rightarrow> s)"

definition on_stop :: "rd \<Rightarrow> rd" where
  "on_stop s =
     (case rd_helper s of None \<Rightarrow> s\<lparr>rd_stopped := True\<rparr> | Some h \<Rightarrow> rd_emit [OEnd h] (s\<lparr>rd_stopped := True\<rparr>))"

datatype rd_event =
    ELock | EUnlock | ELine nat jstext | EHelperError nat | EHelperExit nat | EInputTimer nat
  | EInterval int | ENext int bool "rd_job option" | ECaptured int "jstext + rd_frame option" | EInputDone
  | EReplied bool | EPaused | EStop

fun rd_step :: "rd \<Rightarrow> rd_event \<Rightarrow> rd" where
  "rd_step s ELock = on_lock s"
| "rd_step s EUnlock = s\<lparr>rd_locked := False\<rparr>"
| "rd_step s (ELine h line) = helper_line h line s"
| "rd_step s (EHelperError h) = helper_gone HelperUnavailable h s"
| "rd_step s (EHelperExit h) = helper_gone HelperStopped h s"
| "rd_step s (EInputTimer c) = input_timeout c s"
| "rd_step s (EInterval now) = on_interval now s"
| "rd_step s (ENext now idle r) = on_next now idle r s"
| "rd_step s (ECaptured now f) = on_captured now f s"
| "rd_step s EInputDone = on_resume s"
| "rd_step s (EReplied ok) =
     (if rd_loop s \<noteq> LpReply then s else if ok then loop_head s else s\<lparr>rd_loop := LpPause\<rparr>)"
| "rd_step s EPaused = (if rd_loop s \<noteq> LpPause then s else loop_head s)"
| "rd_step s EStop = on_stop s"

definition rd_start :: rd where
  "rd_start = loop_head
     \<lparr>rd_stopped = False, rd_locked = False, rd_helper = None, rd_spawned = 0, rd_pending = None,
      rd_timers = [], rd_calls = 0, rd_last_input = 0, rd_last_frame = 0, rd_loop = LpEnd, rd_out = []\<rparr>"

abbreviation "rd_run \<equiv> run rd_step"

named_theorems rd_defs \<open>the handlers of the remote desktop\<close>

lemmas [rd_defs] =
  rd_emit_def rd_settle_def reject_pending_def rd_spawn_def rd_input_def input_timeout_def helper_line_def
  helper_gone_def on_lock_def on_interval_def loop_head_def reply_def do_job_def on_next_def on_captured_def
  on_resume_def on_stop_def

section \<open>The invariant\<close>

text \<open>The inputs settled, the jobs fetched and the jobs answered, in order.\<close>

definition settled_inputs :: "rd_out list \<Rightarrow> nat list" where
  "settled_inputs os = concat (map (\<lambda>x. case x of OSettled c r \<Rightarrow> [c] | _ \<Rightarrow> []) os)"

definition jobs_of :: "rd_out list \<Rightarrow> jstext list" where
  "jobs_of os = concat (map (\<lambda>x. case x of OJob i \<Rightarrow> [i] | _ \<Rightarrow> []) os)"

definition replies_of :: "rd_out list \<Rightarrow> jstext list" where
  "replies_of os = concat (map (\<lambda>x. case x of OReply i r \<Rightarrow> [i] | _ \<Rightarrow> []) os)"

fun current_job :: "rd_loop \<Rightarrow> jstext list" where
  "current_job (LpCapture i) = [i]"
| "current_job (LpInput i c) = [i]"
| "current_job _ = []"

definition rd_inv :: "rd \<Rightarrow> bool" where
  "rd_inv s \<longleftrightarrow>
     rd_timers s = (case rd_pending s of None \<Rightarrow> [] | Some c \<Rightarrow> [c])
     \<and> mset (settled_inputs (rd_out s)) + mset (rd_timers s) = mset [0..<rd_calls s]
     \<and> (rd_locked s \<longrightarrow> rd_helper s = None)
     \<and> jobs_of (rd_out s) = replies_of (rd_out s) @ current_job (rd_loop s)
     \<and> (\<forall>i c. rd_loop s = LpInput i c \<longrightarrow> c < rd_calls s)"

lemma trace_simps [simp]:
  "settled_inputs [] = []" "jobs_of [] = []" "replies_of [] = []"
  "settled_inputs (os @ ps) = settled_inputs os @ settled_inputs ps"
  "jobs_of (os @ ps) = jobs_of os @ jobs_of ps" "replies_of (os @ ps) = replies_of os @ replies_of ps"
  "settled_inputs (OSettled c r # os) = c # settled_inputs os"
  "jobs_of (OJob i # os) = i # jobs_of os" "replies_of (OReply i x # os) = i # replies_of os"
  by (simp_all add: settled_inputs_def jobs_of_def replies_of_def)

lemma trace_other [simp]:
  "settled_inputs (x # os) = (case x of OSettled c r \<Rightarrow> [c] | _ \<Rightarrow> []) @ settled_inputs os"
  "jobs_of (x # os) = (case x of OJob i \<Rightarrow> [i] | _ \<Rightarrow> []) @ jobs_of os"
  "replies_of (x # os) = (case x of OReply i r \<Rightarrow> [i] | _ \<Rightarrow> []) @ replies_of os"
  by (simp_all add: settled_inputs_def jobs_of_def replies_of_def)

declare mset_upt [simp del]

lemma rd_inv_start: "rd_inv rd_start"
  by (simp add: rd_inv_def rd_start_def loop_head_def rd_emit_def)

lemma rd_inv_input:
  "rd_inv s \<Longrightarrow> \<not> rd_locked s \<Longrightarrow> rd_inv (rd_input now d s)"
  by (auto simp: rd_inv_def rd_input_def rd_spawn_def rd_emit_def Let_def split: option.split)

lemma rd_input_frame [simp]:
  "rd_loop (rd_input now d s) = rd_loop s" "rd_locked (rd_input now d s) = rd_locked s"
  "rd_calls (rd_input now d s) = Suc (rd_calls s)"
  "jobs_of (rd_out (rd_input now d s)) = jobs_of (rd_out s)"
  "replies_of (rd_out (rd_input now d s)) = replies_of (rd_out s)"
  by (auto simp: rd_input_def rd_spawn_def rd_emit_def Let_def split: option.split)

lemma rd_inv_step:
  assumes "rd_inv s"
  shows "rd_inv (rd_step s e)"
proof (cases e)
  case (EInterval now)
  have "rd_inv (rd_emit [OTip False] s')" if "rd_inv s'" for s'
    using that by (auto simp: rd_inv_def rd_emit_def)
  moreover have "rd_helper s \<noteq> None \<Longrightarrow> rd_inv (rd_input now release_input s)"
    using assms by (intro rd_inv_input) (auto simp: rd_inv_def)
  ultimately show ?thesis using assms EInterval by (auto simp: on_interval_def Let_def)
next
  case (ENext now idle r)
  show ?thesis
  proof (cases "rd_loop s = LpNext \<and> (\<exists>j. r = Some j \<and> jb_id j \<noteq> [])")
    case False
    with assms ENext show ?thesis
      by (auto simp: on_next_def loop_head_def rd_emit_def rd_inv_def split: option.split)
  next
    case True
    then obtain j where j: "r = Some j" "jb_id j \<noteq> []" "rd_loop s = LpNext" by blast
    have "rd_inv ((rd_input now d s')\<lparr>rd_loop := LpInput (jb_id j) (rd_calls s')\<rparr>)"
      if "s' = rd_emit [OJob (jb_id j)] s" "\<not> rd_locked s" for s' d
    proof -
      let ?t = "s'\<lparr>rd_out := rd_out s\<rparr>"
      have i: "rd_inv (rd_input now d s)" using assms that(2) by (rule rd_inv_input)
      have "settled_inputs (rd_out (rd_input now d s')) = settled_inputs (rd_out (rd_input now d s))"
        "rd_timers (rd_input now d s') = rd_timers (rd_input now d s)"
        "rd_pending (rd_input now d s') = rd_pending (rd_input now d s)"
        using that(1) by (auto simp: rd_input_def rd_spawn_def rd_emit_def Let_def split: option.split)
      with i assms that j(3) show ?thesis
        by (auto simp: rd_inv_def rd_emit_def)
    qed
    with assms ENext j show ?thesis
      by (auto simp: on_next_def do_job_def reply_def Let_def) (auto simp: rd_inv_def rd_emit_def)
  qed
qed (use assms in \<open>auto simp: rd_defs rd_inv_def Let_def split: option.split sum.split rd_loop.split\<close>)

interpretation rd_sys: event_system rd_step rd_inv
  by unfold_locales (rule rd_inv_step)

lemma rd_run_inv: "rd_inv (rd_run rd_start es)"
  by (rule rd_sys.run_inv [OF rd_inv_start])

section \<open>Properties\<close>

text \<open>
  C18: whatever the helper, the timers and the lock do, every input is settled exactly once or is the
  one that is pending, and exactly the pending input has an armed timer; every job fetched is answered
  exactly once, in the order of the jobs, but for the one being worked on.
\<close>

theorem inputs_and_jobs_answered_once:
  "let s = rd_run rd_start es
   in mset (settled_inputs (rd_out s)) + mset (case rd_pending s of None \<Rightarrow> [] | Some c \<Rightarrow> [c]) = mset [0..<rd_calls s]
      \<and> rd_timers s = (case rd_pending s of None \<Rightarrow> [] | Some c \<Rightarrow> [c])
      \<and> jobs_of (rd_out s) = replies_of (rd_out s) @ current_job (rd_loop s)"
  using rd_run_inv [of es] by (auto simp: rd_inv_def Let_def split: option.splits)

lemma outcome_of_settled: "outcome_of c os = None \<longleftrightarrow> c \<notin> set (settled_inputs os)"
  by (induction c os rule: outcome_of.induct) auto

lemma outcome_of_append: "outcome_of c (os @ ps) = (case outcome_of c os of None \<Rightarrow> outcome_of c ps | Some r \<Rightarrow> Some r)"
  by (induction c os rule: outcome_of.induct) auto

lemma input_open_or_settled:
  assumes "rd_inv s" "rd_loop s = LpInput i c"
  shows "c \<in> set (settled_inputs (rd_out s)) \<or> c \<in> set (rd_timers s)"
proof -
  have "c \<in># mset [0..<rd_calls s]" using assms by (auto simp: rd_inv_def)
  then have "c \<in># mset (settled_inputs (rd_out s)) + mset (rd_timers s)"
    using assms(1) unfolding rd_inv_def by metis
  then show ?thesis by simp
qed

text \<open>
  An input of a remote administrator never blocks the desktop: from any state in which the loop
  awaits an input, at the latest the input's own timer leads to the reply of its job.
\<close>

theorem input_job_gets_reply:
  assumes "s = rd_run rd_start es" "rd_loop s = LpInput i c"
  shows "\<exists>os r. rd_out (rd_run s [EInputTimer c, EInputDone]) = rd_out s @ os @ [OReply i r]
    \<and> rd_loop (rd_run s [EInputTimer c, EInputDone]) = LpReply"
proof -
  have inv: "rd_inv s" using assms(1) rd_run_inv by simp
  let ?t = "input_timeout c s"
  have out: "\<exists>os. rd_out ?t = rd_out s @ os"
    by (auto simp: input_timeout_def rd_settle_def rd_emit_def Let_def split: option.split)
  have "rd_loop ?t = LpInput i c"
    using assms(2) by (auto simp: input_timeout_def rd_settle_def rd_emit_def Let_def split: option.split)
  moreover have "outcome_of c (rd_out ?t) \<noteq> None"
    using input_open_or_settled [OF inv assms(2)]
    by (auto simp: input_timeout_def rd_settle_def rd_emit_def Let_def outcome_of_append outcome_of_settled
        split: option.split)
  ultimately obtain r where "on_resume ?t = reply i r ?t"
    by (cases "outcome_of c (rd_out ?t)"; cases "the (outcome_of c (rd_out ?t))") (auto simp: on_resume_def)
  with out show ?thesis by (auto simp: reply_def rd_emit_def)
qed

theorem input_job_gets_reply_witness:
  "let s = rd_run rd_start [ENext 5 False (Some \<lparr>jb_id = asc ''j'', jb_op = asc ''input'', jb_input = JNull\<rparr>)]
   in \<exists>os r. rd_out (rd_run s [EInputTimer 0, EInputDone]) = rd_out s @ os @ [OReply (asc ''j'') r]"
proof -
  let ?es = "[ENext 5 False (Some \<lparr>jb_id = asc ''j'', jb_op = asc ''input'', jb_input = JNull\<rparr>)]"
  have "rd_loop (rd_run rd_start ?es) = LpInput (asc ''j'') 0"
    by (simp add: rd_start_def rd_defs Let_def js_eval)
  from input_job_gets_reply [OF refl this] show ?thesis unfolding Let_def by blast
qed

fun is_write :: "rd_out \<Rightarrow> bool" where
  "is_write (OWrite h d) = True"
| "is_write _ = False"

text \<open>
  While the workstation is locked no input is written to a helper and no capture of the screen is
  started, by any event: the jobs are answered with the lock's error instead.
\<close>

theorem locked_is_untouched:
  assumes "s = rd_run rd_start es" "rd_locked s"
  shows "filter is_write (rd_out (rd_step s e)) = filter is_write (rd_out s)
    \<and> (\<forall>i. rd_loop (rd_step s e) = LpCapture i \<longrightarrow> rd_loop s = LpCapture i)"
proof -
  have "rd_helper s = None" using assms rd_run_inv [of es] by (simp add: rd_inv_def)
  with assms(2) show ?thesis
    by (cases e) (auto simp: rd_defs Let_def split: option.split sum.split rd_loop.split)
qed

theorem locked_is_untouched_witness:
  "let s = rd_run rd_start [ELock];
       j = \<lparr>jb_id = asc ''j'', jb_op = asc ''input'', jb_input = JNull\<rparr>
   in filter is_write (rd_out (rd_step s (ENext 5 False (Some j)))) = []"
proof -
  have "rd_locked (rd_run rd_start [ELock])" "filter is_write (rd_out (rd_run rd_start [ELock])) = []"
    by (simp_all add: rd_start_def rd_defs)
  with locked_is_untouched [OF refl this(1)] show ?thesis by (simp add: Let_def del: rd_step.simps run_Cons)
qed

text \<open>
  The idle release occupies the helper like any input: one of the administrator's inputs that arrives
  before the helper has answered it is refused as busy, though nothing else is under way.
\<close>

lemma release_refuses_input:
  assumes "rd_helper s = Some h" "rd_pending s = None" "\<not> rd_stopped s" "now - rd_last_input s > 3000"
    and "rd_loop s = LpNext" "\<not> rd_locked s" "jb_op j = asc ''input''" "jb_id j \<noteq> []"
  shows "OSettled (Suc (rd_calls s)) (Some InputBusy)
    \<in> set (rd_out (rd_run s [EInterval now, ENext now' False (Some j)]))"
  using assms asc_inject [of "''input''" "''frame''"]
  by (auto simp: rd_defs Let_def simp del: asc_inject)

end
