(* ===== verification/Go_Bridge.thy ===== *)
theory Go_Bridge
  imports Json
begin

text \<open>
  The bridge between the sessions of the client service and the desktop's worker,
  \<open>desktopRequest\<close>, \<open>desktopNext\<close> and \<open>desktopReply\<close> of \<open>internal/agent/remote.go\<close>. They run
  concurrently; a step is what happens between two points where another goroutine can run: a section
  under the mutex, or one operation on a channel. The queue is made with the agent (\<open>agent.go\<close>), so it is
  never nil.

  \<open>token n\<close> is the \<open>n\<close>th identifier \<open>core.Token\<close> makes, 32 random bytes: they are assumed distinct.
\<close>

section \<open>State\<close>

text \<open>The result and the error of a \<open>desktopResult\<close>.\<close>

record bridge_reply =
  dr_result :: "json option"
  dr_error :: jstext

datatype bridge_err = NotAvailable | NotRunning | WorkerError jstext

datatype 'q bridge_out =
    BoAsked nat 'q | BoJob jstext 'q | BoNoJob
  | BoPosted jstext bridge_reply | BoOk
  | BoReturn nat "bridge_err + json option"

datatype stage = Offering | Awaiting | Returned

record 'q bridge =
  br_queue :: "(jstext \<times> 'q) list"
  br_pending :: "(jstext \<times> nat) list"
  br_slots :: "(nat \<times> bridge_reply) list"
  br_reqs :: "(nat \<times> 'q \<times> stage) list"
  br_next :: nat
  br_taken :: "(jstext \<times> 'q) list"
  br_posts :: "(nat option \<times> bridge_reply) list"
  br_out :: "'q bridge_out list"

text \<open>
  \<open>br_pending\<close> is the map of the bridge; the channel of a request has the request's number, and
  \<open>br_slots\<close> holds what its one-element buffer holds. \<open>br_reqs\<close> are the requests under way,
  \<open>br_taken\<close> the jobs taken from the queue and not yet looked up, \<open>br_posts\<close> the replies whose channel
  is looked up and which are not yet sent.
\<close>

definition bridge_init :: "'q bridge" where
  "bridge_init =
     \<lparr>br_queue = [], br_pending = [], br_slots = [], br_reqs = [], br_next = 0, br_taken = [],
      br_posts = [], br_out = []\<rparr>"

definition queue_limit :: nat where
  "queue_limit = 32"

definition br_emit :: "'q bridge_out list \<Rightarrow> 'q bridge \<Rightarrow> 'q bridge" where
  "br_emit os s = s\<lparr>br_out := br_out s @ os\<rparr>"

section \<open>desktopRequest\<close>

definition br_request :: "(nat \<Rightarrow> jstext) \<Rightarrow> 'q \<Rightarrow> 'q bridge \<Rightarrow> 'q bridge" where
  "br_request token q s =
     (let n = br_next s
      in br_emit [BoAsked n q]
           (s\<lparr>br_next := Suc n, br_pending := AList.update (token n) n (br_pending s),
              br_reqs := br_reqs s @ [(n, q, Offering)]\<rparr>))"

text \<open>\<open>case a.desktop.queue <- desktopJob{ID: id, Request: r}\<close>\<close>

definition br_offer :: "(nat \<Rightarrow> jstext) \<Rightarrow> nat \<Rightarrow> 'q bridge \<Rightarrow> 'q bridge" where
  "br_offer token n s =
     (case map_of (br_reqs s) n of
        Some (q, Offering) \<Rightarrow>
          if length (br_queue s) < queue_limit
          then s\<lparr>br_queue := br_queue s @ [(token n, q)], br_reqs := AList.update n (q, Awaiting) (br_reqs s)\<rparr>
          else s
      | _ \<Rightarrow> s)"

definition br_return :: "nat \<Rightarrow> 'q \<Rightarrow> bridge_err + json option \<Rightarrow> 'q bridge \<Rightarrow> 'q bridge" where
  "br_return n q r s = br_emit [BoReturn n r] (s\<lparr>br_reqs := AList.update n (q, Returned) (br_reqs s)\<rparr>)"

text \<open>\<open>case <-ctx.Done()\<close> of both selects.\<close>

definition br_give_up :: "nat \<Rightarrow> 'q bridge \<Rightarrow> 'q bridge" where
  "br_give_up n s =
     (case map_of (br_reqs s) n of
        Some (q, Offering) \<Rightarrow> br_return n q (Inl NotAvailable) s
      | Some (q, Awaiting) \<Rightarrow> br_return n q (Inl NotRunning) s
      | _ \<Rightarrow> s)"

definition reply_answer :: "bridge_reply \<Rightarrow> bridge_err + json option" where
  "reply_answer r = (if dr_error r \<noteq> [] then Inl (WorkerError (dr_error r)) else Inr (dr_result r))"

text \<open>\<open>case reply := <-result\<close>\<close>

definition br_receive :: "nat \<Rightarrow> 'q bridge \<Rightarrow> 'q bridge" where
  "br_receive n s =
     (case (map_of (br_reqs s) n, map_of (br_slots s) n) of
        (Some (q, Awaiting), Some r) \<Rightarrow>
          br_return n q (reply_answer r) (s\<lparr>br_slots := AList.delete n (br_slots s)\<rparr>)
      | _ \<Rightarrow> s)"

text \<open>The deferred \<open>delete(a.desktop.pending, id)\<close>.\<close>

definition br_forget :: "(nat \<Rightarrow> jstext) \<Rightarrow> nat \<Rightarrow> 'q bridge \<Rightarrow> 'q bridge" where
  "br_forget token n s =
     (case map_of (br_reqs s) n of
        Some (q, Returned) \<Rightarrow>
          s\<lparr>br_pending := AList.delete (token n) (br_pending s), br_reqs := AList.delete n (br_reqs s)\<rparr>
      | _ \<Rightarrow> s)"

section \<open>desktopNext\<close>

definition br_take :: "'q bridge \<Rightarrow> 'q bridge" where
  "br_take s =
     (case br_queue s of
        [] \<Rightarrow> s
      | j # js \<Rightarrow> s\<lparr>br_queue := js, br_taken := br_taken s @ [j]\<rparr>)"

text \<open>A job whose request has gone is dropped and the handler waits for the next one.\<close>

definition br_lookup :: "nat \<Rightarrow> 'q bridge \<Rightarrow> 'q bridge" where
  "br_lookup k s =
     (if k < length (br_taken s) then
        let (i, q) = br_taken s ! k;
            s1 = s\<lparr>br_taken := take k (br_taken s) @ drop (Suc k) (br_taken s)\<rparr>
        in if map_of (br_pending s) i \<noteq> None then br_emit [BoJob i q] s1 else s1
      else s)"

section \<open>desktopReply\<close>

definition br_post :: "jstext \<Rightarrow> bridge_reply \<Rightarrow> 'q bridge \<Rightarrow> 'q bridge" where
  "br_post i r s = br_emit [BoPosted i r] (s\<lparr>br_posts := br_posts s @ [(map_of (br_pending s) i, r)]\<rparr>)"

text \<open>\<open>select { case ch <- result: default: }\<close>\<close>

definition br_send :: "nat \<Rightarrow> 'q bridge \<Rightarrow> 'q bridge" where
  "br_send k s =
     (if k < length (br_posts s) then
        let (ch, r) = br_posts s ! k;
            s1 = s\<lparr>br_posts := take k (br_posts s) @ drop (Suc k) (br_posts s)\<rparr>
        in br_emit [BoOk]
             (case ch of
                None \<Rightarrow> s1
              | Some n \<Rightarrow> if map_of (br_slots s) n = None then s1\<lparr>br_slots := (n, r) # br_slots s\<rparr> else s1)
      else s)"

section \<open>Steps\<close>

datatype 'q bridge_event =
    BeRequest 'q | BeOffer nat | BeGiveUp nat | BeReceive nat | BeForget nat
  | BeTake | BeLookup nat | BeNextOver | BePost jstext bridge_reply | BeSend nat

fun bridge_step :: "(nat \<Rightarrow> jstext) \<Rightarrow> 'q bridge \<Rightarrow> 'q bridge_event \<Rightarrow> 'q bridge" where
  "bridge_step token s (BeRequest q) = br_request token q s"
| "bridge_step token s (BeOffer n) = br_offer token n s"
| "bridge_step token s (BeGiveUp n) = br_give_up n s"
| "bridge_step token s (BeReceive n) = br_receive n s"
| "bridge_step token s (BeForget n) = br_forget token n s"
| "bridge_step token s BeTake = br_take s"
| "bridge_step token s (BeLookup k) = br_lookup k s"
| "bridge_step token s BeNextOver = br_emit [BoNoJob] s"
| "bridge_step token s (BePost i r) = br_post i r s"
| "bridge_step token s (BeSend k) = br_send k s"

abbreviation "bridge_run token \<equiv> run (bridge_step token)"

section \<open>The invariant\<close>

definition returns_of :: "'q bridge_out list \<Rightarrow> nat list" where
  "returns_of os = concat (map (\<lambda>x. case x of BoReturn n r \<Rightarrow> [n] | _ \<Rightarrow> []) os)"

definition jobs_given :: "'q bridge_out list \<Rightarrow> (jstext \<times> 'q) list" where
  "jobs_given os = concat (map (\<lambda>x. case x of BoJob i q \<Rightarrow> [(i, q)] | _ \<Rightarrow> []) os)"

lemma returns_simps [simp]:
  "returns_of [] = []" "returns_of (os @ ps) = returns_of os @ returns_of ps"
  "returns_of (BoReturn n r # os) = n # returns_of os" "returns_of (BoAsked m q # os) = returns_of os"
  "returns_of (BoJob i q # os) = returns_of os" "returns_of (BoNoJob # os) = returns_of os"
  "returns_of (BoPosted i p # os) = returns_of os" "returns_of (BoOk # os) = returns_of os"
  by (simp_all add: returns_of_def)

lemma jobs_given_simps [simp]:
  "jobs_given [] = []" "jobs_given (os @ ps) = jobs_given os @ jobs_given ps"
  "jobs_given (BoReturn n r # os) = jobs_given os" "jobs_given (BoAsked m q # os) = jobs_given os"
  "jobs_given (BoJob i q # os) = (i, q) # jobs_given os" "jobs_given (BoNoJob # os) = jobs_given os"
  "jobs_given (BoPosted i p # os) = jobs_given os" "jobs_given (BoOk # os) = jobs_given os"
  by (simp_all add: jobs_given_def)

text \<open>Where a job can be: in the queue, taken by a handler, or given to the worker.\<close>

definition jobs_of_bridge :: "'q bridge \<Rightarrow> (jstext \<times> 'q) list" where
  "jobs_of_bridge s = br_queue s @ br_taken s @ jobs_given (br_out s)"

text \<open>
  The table of identifiers is exactly that of the requests under way; a job exists once, with the
  request it was asked for; what a channel holds was posted under its request's identifier; and
  every request has returned once or is still under way.
\<close>

definition table_ok :: "(nat \<Rightarrow> jstext) \<Rightarrow> 'q bridge \<Rightarrow> bool" where
  "table_ok token s \<longleftrightarrow>
     (\<forall>n x. map_of (br_reqs s) n = Some x \<longrightarrow> n < br_next s \<and> BoAsked n (fst x) \<in> set (br_out s))
     \<and> (\<forall>i n. map_of (br_pending s) i = Some n \<longleftrightarrow> i = token n \<and> map_of (br_reqs s) n \<noteq> None)"

definition job_ok :: "(nat \<Rightarrow> jstext) \<Rightarrow> 'q bridge \<Rightarrow> jstext \<times> 'q \<Rightarrow> bool" where
  "job_ok token s j \<longleftrightarrow>
     (\<exists>n < br_next s. fst j = token n \<and> BoAsked n (snd j) \<in> set (br_out s)
        \<and> (\<forall>q. map_of (br_reqs s) n \<noteq> Some (q, Offering)))"

definition jobs_ok :: "(nat \<Rightarrow> jstext) \<Rightarrow> 'q bridge \<Rightarrow> bool" where
  "jobs_ok token s \<longleftrightarrow>
     distinct (map fst (jobs_of_bridge s)) \<and> (\<forall>j \<in> set (jobs_of_bridge s). job_ok token s j)
     \<and> length (br_queue s) \<le> queue_limit"

definition posted :: "(nat \<Rightarrow> jstext) \<Rightarrow> 'q bridge \<Rightarrow> nat \<Rightarrow> bridge_reply \<Rightarrow> bool" where
  "posted token s n r \<longleftrightarrow> BoPosted (token n) r \<in> set (br_out s)"

definition replies_ok :: "(nat \<Rightarrow> jstext) \<Rightarrow> 'q bridge \<Rightarrow> bool" where
  "replies_ok token s \<longleftrightarrow>
     (\<forall>n r. (Some n, r) \<in> set (br_posts s) \<longrightarrow> posted token s n r)
     \<and> (\<forall>n r. map_of (br_slots s) n = Some r \<longrightarrow> posted token s n r)
     \<and> (\<forall>n r. BoReturn n r \<in> set (br_out s) \<longrightarrow>
          r \<in> {Inl NotAvailable, Inl NotRunning} \<or> (\<exists>p. posted token s n p \<and> r = reply_answer p))"

definition returns_ok :: "'q bridge \<Rightarrow> bool" where
  "returns_ok s \<longleftrightarrow>
     distinct (returns_of (br_out s))
     \<and> (\<forall>n. n \<in> set (returns_of (br_out s)) \<longleftrightarrow>
          n < br_next s \<and> (\<forall>x. map_of (br_reqs s) n = Some x \<longrightarrow> snd x = Returned))"

definition bridge_inv :: "(nat \<Rightarrow> jstext) \<Rightarrow> 'q bridge \<Rightarrow> bool" where
  "bridge_inv token s \<longleftrightarrow> inj token \<and> table_ok token s \<and> jobs_ok token s \<and> replies_ok token s \<and> returns_ok s"

lemma bridge_inv_init: "inj token \<Longrightarrow> bridge_inv token bridge_init"
  by (simp add: bridge_inv_def bridge_init_def table_ok_def jobs_ok_def jobs_of_bridge_def replies_ok_def returns_ok_def)

section \<open>What keeps the parts\<close>

lemma jobs_ok_mono:
  assumes "jobs_ok token s" "mset (jobs_of_bridge t) \<subseteq># mset (jobs_of_bridge s)" "length (br_queue t) \<le> queue_limit"
    and "br_next s \<le> br_next t" "\<And>n q. BoAsked n q \<in> set (br_out s) \<Longrightarrow> BoAsked n q \<in> set (br_out t)"
    and "\<And>n q. map_of (br_reqs t) n = Some (q, Offering) \<Longrightarrow> n < br_next s \<Longrightarrow> map_of (br_reqs s) n = Some (q, Offering)"
  shows "jobs_ok token t"
proof -
  have "mset (map fst (jobs_of_bridge t)) \<subseteq># mset (map fst (jobs_of_bridge s))"
    using image_mset_subseteq_mono [OF assms(2), of fst] by simp
  then have "distinct (map fst (jobs_of_bridge t))"
    by (rule distinct_sub) (use assms(1) in \<open>simp add: jobs_ok_def\<close>)
  moreover have "job_ok token t j" if "j \<in> set (jobs_of_bridge t)" for j
  proof -
    have "j \<in> set (jobs_of_bridge s)" using that set_mset_mono [OF assms(2)] by auto
    then have "job_ok token s j" using assms(1) by (simp add: jobs_ok_def)
    with assms(4-6) show ?thesis unfolding job_ok_def by (meson less_le_trans)
  qed
  ultimately show ?thesis using assms(3) by (simp add: jobs_ok_def)
qed

lemma replies_ok_mono:
  assumes "replies_ok token s" "\<And>i r. BoPosted i r \<in> set (br_out s) \<Longrightarrow> BoPosted i r \<in> set (br_out t)"
    and "\<And>n r. (Some n, r) \<in> set (br_posts t) \<Longrightarrow> (Some n, r) \<in> set (br_posts s) \<or> posted token t n r"
    and "\<And>n r. map_of (br_slots t) n = Some r \<Longrightarrow> map_of (br_slots s) n = Some r \<or> posted token t n r"
    and "\<And>n r. BoReturn n r \<in> set (br_out t) \<Longrightarrow> BoReturn n r \<in> set (br_out s)
            \<or> r \<in> {Inl NotAvailable, Inl NotRunning} \<or> (\<exists>p. posted token t n p \<and> r = reply_answer p)"
  shows "replies_ok token t"
  using assms unfolding replies_ok_def posted_def by meson

section \<open>Every step\<close>

lemmas inv_parts = bridge_inv_def table_ok_def returns_ok_def

lemma inv_request:
  assumes "bridge_inv token s"
  shows "bridge_inv token (br_request token q s)"
proof -
  let ?t = "br_request token q s"
  have new: "map_of (br_reqs s) (br_next s) = None"
    using assms unfolding inv_parts by (metis less_irrefl not_None_eq)
  have m: "map_of (br_reqs ?t) = (map_of (br_reqs s))(br_next s \<mapsto> (q, Offering))"
    using new by (auto simp: br_request_def br_emit_def Let_def map_add_def split: option.split)
  have "table_ok token ?t"
    using assms unfolding bridge_inv_def table_ok_def m
    by (auto simp: br_request_def br_emit_def Let_def update_conv' inj_eq less_Suc_eq split: if_splits)
  moreover have "jobs_ok token ?t"
    by (rule jobs_ok_mono [of token s])
      (use assms in \<open>auto simp: m bridge_inv_def jobs_ok_def, auto simp: br_request_def br_emit_def Let_def jobs_of_bridge_def\<close>)
  moreover have "replies_ok token ?t"
    by (rule replies_ok_mono [of token s]) (use assms in \<open>auto simp: bridge_inv_def br_request_def br_emit_def Let_def\<close>)
  moreover have "returns_ok ?t"
    using assms unfolding bridge_inv_def returns_ok_def m
    by (auto simp: br_request_def br_emit_def Let_def less_Suc_eq split: if_splits)
  ultimately show ?thesis using assms by (simp add: bridge_inv_def)
qed

lemma inv_offer:
  assumes "bridge_inv token s"
  shows "bridge_inv token (br_offer token n s)"
proof (cases "(\<exists>q. map_of (br_reqs s) n = Some (q, Offering)) \<and> length (br_queue s) < queue_limit")
  case True
  then obtain q where m: "map_of (br_reqs s) n = Some (q, Offering)" "length (br_queue s) < queue_limit" by blast
  let ?t = "s\<lparr>br_queue := br_queue s @ [(token n, q)], br_reqs := AList.update n (q, Awaiting) (br_reqs s)\<rparr>"
  have e: "br_offer token n s = ?t" using m by (simp add: br_offer_def)
  have lt: "n < br_next s" "BoAsked n q \<in> set (br_out s)" and inj: "inj token"
    using m(1) assms unfolding inv_parts by force+
  have new: "token n \<notin> set (map fst (jobs_of_bridge s))"
    using assms m(1) inj unfolding bridge_inv_def jobs_ok_def job_ok_def by (fastforce simp: inj_eq)
  have "job_ok token ?t j" if "j \<in> set (jobs_of_bridge s)" for j
    using that assms by (auto simp: bridge_inv_def jobs_ok_def job_ok_def update_conv')
  moreover have "job_ok token ?t (token n, q)" using lt by (auto simp: job_ok_def update_conv')
  moreover have "set (jobs_of_bridge ?t) = insert (token n, q) (set (jobs_of_bridge s))"
    by (auto simp: jobs_of_bridge_def)
  moreover have "mset (map fst (jobs_of_bridge ?t)) = mset (token n # map fst (jobs_of_bridge s))"
    by (simp add: jobs_of_bridge_def)
  then have "distinct (map fst (jobs_of_bridge ?t)) = distinct (token n # map fst (jobs_of_bridge s))"
    by (rule mset_eq_imp_distinct_iff)
  then have "distinct (map fst (jobs_of_bridge ?t))"
    using new assms by (simp add: bridge_inv_def jobs_ok_def)
  ultimately have "jobs_ok token ?t"
    using m(2) unfolding jobs_ok_def by auto
  moreover have "table_ok token ?t" using assms m(1) by (auto simp: bridge_inv_def table_ok_def update_conv')
  moreover have "replies_ok token ?t" using assms by (auto simp: bridge_inv_def replies_ok_def posted_def)
  moreover have "returns_ok ?t" using assms m(1) by (auto simp: bridge_inv_def returns_ok_def update_conv')
  ultimately show ?thesis using inj unfolding e bridge_inv_def by simp
next
  case False
  then have "br_offer token n s = s" by (auto simp: br_offer_def split: option.split stage.split)
  with assms show ?thesis by simp
qed

lemma inv_return:
  assumes "bridge_inv token s" "map_of (br_reqs s) n = Some (q, g)" "g \<noteq> Returned"
    and "r \<in> {Inl NotAvailable, Inl NotRunning} \<or> (\<exists>p. posted token s n p \<and> r = reply_answer p)"
  shows "bridge_inv token (br_return n q r s)"
proof -
  let ?t = "br_return n q r s"
  have n: "n < br_next s" "n \<notin> set (returns_of (br_out s))"
    using assms(1-3) unfolding inv_parts by force+
  have "table_ok token ?t"
    using assms(1,2) by (auto simp: bridge_inv_def table_ok_def br_return_def br_emit_def update_conv')
  moreover have "jobs_ok token ?t"
    by (rule jobs_ok_mono [of token s])
      (use assms(1) in \<open>auto simp: bridge_inv_def jobs_ok_def br_return_def br_emit_def jobs_of_bridge_def update_conv' split: if_splits\<close>)
  moreover have "replies_ok token ?t"
    by (rule replies_ok_mono [of token s])
      (use assms(1,4) in \<open>auto simp: bridge_inv_def br_return_def br_emit_def posted_def\<close>)
  moreover have "returns_ok ?t"
    using assms(1) n by (auto simp: bridge_inv_def returns_ok_def br_return_def br_emit_def update_conv')
  ultimately show ?thesis using assms(1) by (simp add: bridge_inv_def)
qed

lemma inv_give_up: "bridge_inv token s \<Longrightarrow> bridge_inv token (br_give_up n s)"
  by (auto simp: br_give_up_def intro: inv_return split: option.split stage.split)

lemma inv_receive:
  assumes "bridge_inv token s"
  shows "bridge_inv token (br_receive n s)"
proof (cases "\<exists>q r. map_of (br_reqs s) n = Some (q, Awaiting) \<and> map_of (br_slots s) n = Some r")
  case True
  then obtain q r where m: "map_of (br_reqs s) n = Some (q, Awaiting)" "map_of (br_slots s) n = Some r" by blast
  let ?t = "s\<lparr>br_slots := AList.delete n (br_slots s)\<rparr>"
  have "jobs_ok token ?t" "replies_ok token ?t"
    using assms by (auto simp: bridge_inv_def jobs_ok_def jobs_of_bridge_def job_ok_def replies_ok_def posted_def delete_conv')
  with assms have "bridge_inv token ?t" by (simp add: inv_parts)
  moreover have "posted token s n r" using assms m(2) unfolding bridge_inv_def replies_ok_def by blast
  ultimately have "bridge_inv token (br_return n q (reply_answer r) ?t)"
    using m(1) by (intro inv_return [of token ?t n q Awaiting]) (auto simp: posted_def)
  with m show ?thesis by (simp add: br_receive_def)
next
  case False
  then have "br_receive n s = s" by (auto simp: br_receive_def split: option.split stage.split)
  with assms show ?thesis by simp
qed

lemma inv_forget:
  assumes "bridge_inv token s"
  shows "bridge_inv token (br_forget token n s)"
proof (cases "\<exists>q. map_of (br_reqs s) n = Some (q, Returned)")
  case True
  then obtain q where m: "map_of (br_reqs s) n = Some (q, Returned)" by blast
  let ?t = "s\<lparr>br_pending := AList.delete (token n) (br_pending s), br_reqs := AList.delete n (br_reqs s)\<rparr>"
  have "table_ok token ?t" using assms by (auto simp: bridge_inv_def table_ok_def delete_conv' inj_eq)
  moreover have "jobs_ok token ?t"
    by (rule jobs_ok_mono [of token s])
      (use assms in \<open>auto simp: bridge_inv_def jobs_ok_def jobs_of_bridge_def delete_conv' split: if_splits\<close>)
  moreover have "replies_ok token ?t" using assms by (auto simp: bridge_inv_def replies_ok_def posted_def)
  moreover have "returns_ok ?t" using assms m by (auto simp: bridge_inv_def returns_ok_def delete_conv')
  ultimately show ?thesis using m assms by (simp add: bridge_inv_def br_forget_def)
next
  case False
  then have "br_forget token n s = s" by (auto simp: br_forget_def split: option.split stage.split)
  with assms show ?thesis by simp
qed

text \<open>A step that moves or drops jobs and touches nothing else.\<close>

lemma inv_move:
  assumes "bridge_inv token s" "mset (jobs_of_bridge (s\<lparr>br_queue := js, br_taken := ts\<rparr>)) \<subseteq># mset (jobs_of_bridge s)"
    and "length js \<le> queue_limit"
  shows "bridge_inv token (s\<lparr>br_queue := js, br_taken := ts\<rparr>)"
proof -
  have "jobs_ok token (s\<lparr>br_queue := js, br_taken := ts\<rparr>)"
    by (rule jobs_ok_mono [of token s]) (use assms in \<open>auto simp: bridge_inv_def\<close>)
  with assms(1) show ?thesis by (simp add: inv_parts replies_ok_def posted_def)
qed

lemma inv_take: "bridge_inv token s \<Longrightarrow> bridge_inv token (br_take s)"
proof (cases "br_queue s")
  case (Cons j js)
  assume i: "bridge_inv token s"
  then have "length js \<le> queue_limit" using Cons by (simp add: bridge_inv_def jobs_ok_def)
  with i Cons show ?thesis by (auto simp: br_take_def jobs_of_bridge_def intro!: inv_move)
qed (simp add: br_take_def)

lemma inv_out:
  assumes "bridge_inv token s" "returns_of [x] = []" "\<And>n q. x \<noteq> BoAsked n q" "\<And>n r. x \<noteq> BoReturn n r"
    and "jobs_ok token (br_emit [x] s)"
  shows "bridge_inv token (br_emit [x] s)"
proof -
  have "replies_ok token (br_emit [x] s)"
    by (rule replies_ok_mono [of token s]) (use assms in \<open>auto simp: bridge_inv_def br_emit_def\<close>)
  with assms show ?thesis by (auto simp: inv_parts br_emit_def)
qed

lemma inv_emit_plain:
  assumes "bridge_inv token s" "x = BoNoJob \<or> x = BoOk \<or> (\<exists>i r. x = BoPosted i r)"
  shows "bridge_inv token (br_emit [x] s)"
proof (rule inv_out [OF assms(1)])
  show "jobs_ok token (br_emit [x] s)"
    by (rule jobs_ok_mono [of token s])
      (use assms in \<open>auto simp: bridge_inv_def jobs_ok_def br_emit_def jobs_of_bridge_def\<close>)
qed (use assms(2) in auto)

lemma inv_lookup:
  assumes "bridge_inv token s"
  shows "bridge_inv token (br_lookup k s)"
proof (cases "k < length (br_taken s)")
  case True
  obtain i q where j: "br_taken s ! k = (i, q)" by fastforce
  let ?r = "take k (br_taken s) @ drop (Suc k) (br_taken s)"
  have "mset (br_taken s) = mset (take k (br_taken s) @ (i, q) # drop (Suc k) (br_taken s))"
    using id_take_nth_drop [OF True] j by simp
  then have ms: "mset (br_taken s) = add_mset (i, q) (mset ?r)" by simp
  have len: "length (br_queue s) \<le> queue_limit" using assms by (simp add: bridge_inv_def jobs_ok_def)
  have s1: "bridge_inv token (s\<lparr>br_taken := ?r\<rparr>)"
    using inv_move [OF assms, where js = "br_queue s" and ts = ?r] ms len by (simp add: jobs_of_bridge_def)
  moreover have "jobs_ok token (br_emit [BoJob i q] (s\<lparr>br_taken := ?r\<rparr>))"
    by (rule jobs_ok_mono [of token s])
      (use assms len ms in \<open>auto simp: bridge_inv_def jobs_of_bridge_def br_emit_def\<close>)
  ultimately have "bridge_inv token (br_emit [BoJob i q] (s\<lparr>br_taken := ?r\<rparr>))"
    by (intro inv_out) simp_all
  with s1 True j show ?thesis by (simp add: br_lookup_def Let_def)
qed (simp add: br_lookup_def assms)

lemma inv_post:
  assumes "bridge_inv token s"
  shows "bridge_inv token (br_post i r s)"
proof -
  have i: "bridge_inv token (br_emit [BoPosted i r] s)" using inv_emit_plain [OF assms] by blast
  have p: "posted token (br_post i r s) n r" if "map_of (br_pending s) i = Some n" for n
    using assms that by (simp add: inv_parts posted_def br_post_def br_emit_def)
  have posts: "br_posts (br_post i r s) = br_posts s @ [(map_of (br_pending s) i, r)]"
    by (simp add: br_post_def br_emit_def)
  have "replies_ok token (br_post i r s)"
  proof (rule replies_ok_mono [of token s])
    show "(Some n, x) \<in> set (br_posts s) \<or> posted token (br_post i r s) n x"
      if "(Some n, x) \<in> set (br_posts (br_post i r s))" for n x
      using that p [of n] unfolding posts by auto
  qed (use assms in \<open>auto simp: bridge_inv_def br_post_def br_emit_def\<close>)
  with i show ?thesis
    by (simp add: inv_parts jobs_ok_def job_ok_def jobs_of_bridge_def br_post_def br_emit_def)
qed

lemma inv_send:
  assumes "bridge_inv token s"
  shows "bridge_inv token (br_send k s)"
proof (cases "k < length (br_posts s)")
  case True
  obtain ch r where j: "br_posts s ! k = (ch, r)" by fastforce
  have p: "posted token s n r" if "ch = Some n" for n
  proof -
    have "(Some n, r) \<in> set (br_posts s)" using True j that nth_mem by metis
    with assms show ?thesis unfolding bridge_inv_def replies_ok_def by blast
  qed
  have go: "bridge_inv token (s\<lparr>br_posts := take k (br_posts s) @ drop (Suc k) (br_posts s), br_slots := sl\<rparr>)"
    if "\<And>n r. map_of sl n = Some r \<Longrightarrow> map_of (br_slots s) n = Some r \<or> posted token s n r" for sl
  proof -
    have "replies_ok token (s\<lparr>br_posts := take k (br_posts s) @ drop (Suc k) (br_posts s), br_slots := sl\<rparr>)"
      by (rule replies_ok_mono [of token s])
        (use assms that in \<open>auto simp: bridge_inv_def posted_def dest: in_set_takeD in_set_dropD\<close>)
    with assms show ?thesis by (simp add: inv_parts jobs_ok_def job_ok_def jobs_of_bridge_def)
  qed
  have "bridge_inv token (s\<lparr>br_posts := take k (br_posts s) @ drop (Suc k) (br_posts s), br_slots := (m, r) # br_slots s\<rparr>)"
    if "ch = Some m" for m
    by (rule go) (use p [OF that] in \<open>auto split: if_splits\<close>)
  with go [of "br_slots s"]
  have "bridge_inv token (case ch of None \<Rightarrow> s\<lparr>br_posts := take k (br_posts s) @ drop (Suc k) (br_posts s)\<rparr>
      | Some n \<Rightarrow> if map_of (br_slots s) n = None
          then s\<lparr>br_posts := take k (br_posts s) @ drop (Suc k) (br_posts s), br_slots := (n, r) # br_slots s\<rparr>
          else s\<lparr>br_posts := take k (br_posts s) @ drop (Suc k) (br_posts s)\<rparr>)"
    by (cases ch) auto
  from inv_emit_plain [OF this, of BoOk] True j show ?thesis by (simp add: br_send_def Let_def)
qed (simp add: br_send_def assms)

lemma bridge_inv_step: "bridge_inv token s \<Longrightarrow> bridge_inv token (bridge_step token s e)"
  by (cases e)
    (simp_all add: inv_request inv_offer inv_give_up inv_receive inv_forget inv_take inv_lookup inv_post inv_send
      inv_emit_plain)

interpretation bridge_sys: event_system "bridge_step token" "bridge_inv token" for token
  by unfold_locales (rule bridge_inv_step)

section \<open>Properties\<close>

lemma bridge_run_inv: "inj token \<Longrightarrow> bridge_inv token (bridge_run token bridge_init es)"
  by (rule bridge_sys.run_inv [OF bridge_inv_init])

text \<open>
  C19: nobody gets the answer of another: however requests, workers and replies interleave, a request of
  a session returns once, with its own time-out or with a reply that was posted under its own
  identifier; and a job is given to a worker once, with the request it was made for.
\<close>

theorem bridge_answers_own:
  assumes "inj token"
  shows "let os = br_out (bridge_run token bridge_init es)
    in (\<forall>n r. BoReturn n r \<in> set os \<longrightarrow>
          r \<in> {Inl NotAvailable, Inl NotRunning} \<or> (\<exists>p. BoPosted (token n) p \<in> set os \<and> r = reply_answer p))
       \<and> (\<forall>(i, q) \<in> set (jobs_given os). \<exists>n. i = token n \<and> BoAsked n q \<in> set os)
       \<and> distinct (map fst (jobs_given os)) \<and> distinct (returns_of os)"
proof -
  let ?s = "bridge_run token bridge_init es"
  have i: "bridge_inv token ?s" by (rule bridge_run_inv [OF assms])
  have j: "\<forall>j \<in> set (jobs_given (br_out ?s)). job_ok token ?s j" "distinct (map fst (jobs_given (br_out ?s)))"
    using i by (auto simp: bridge_inv_def jobs_ok_def jobs_of_bridge_def)
  from i have "\<forall>n r. BoReturn n r \<in> set (br_out ?s) \<longrightarrow>
      r \<in> {Inl NotAvailable, Inl NotRunning} \<or> (\<exists>p. BoPosted (token n) p \<in> set (br_out ?s) \<and> r = reply_answer p)"
    by (simp add: bridge_inv_def replies_ok_def posted_def)
  moreover from j(1) have "\<forall>(i, q) \<in> set (jobs_given (br_out ?s)). \<exists>n. i = token n \<and> BoAsked n q \<in> set (br_out ?s)"
    unfolding job_ok_def by fastforce
  moreover have "distinct (returns_of (br_out ?s))" using i by (simp add: bridge_inv_def returns_ok_def)
  ultimately show ?thesis using j(2) unfolding Let_def by (intro conjI)
qed

theorem bridge_answers_own_witness:
  "let os = br_out (bridge_run (\<lambda>n. [n]) bridge_init
      [BeRequest True, BeOffer 0, BeRequest False, BeOffer 1, BeTake, BeLookup 0,
       BePost [0] \<lparr>dr_result = Some JNull, dr_error = []\<rparr>, BeSend 0, BeReceive 0, BeGiveUp 1])
   in returns_of os = [0, 1] \<and> jobs_given os = [([0], True)]
      \<and> (\<forall>n r. BoReturn n r \<in> set os \<longrightarrow>
          r \<in> {Inl NotAvailable, Inl NotRunning} \<or> (\<exists>p. BoPosted [n] p \<in> set os \<and> r = reply_answer p))"
proof -
  let ?es = "[BeRequest True, BeOffer 0, BeRequest False, BeOffer 1, BeTake, BeLookup 0,
       BePost [0] \<lparr>dr_result = Some JNull, dr_error = []\<rparr>, BeSend 0, BeReceive 0, BeGiveUp 1]"
  have "inj (\<lambda>n :: nat. [n])" by (simp add: inj_def)
  from bridge_answers_own [OF this, of ?es]
  have "\<forall>n r. BoReturn n r \<in> set (br_out (bridge_run (\<lambda>n. [n]) bridge_init ?es)) \<longrightarrow>
      r \<in> {Inl NotAvailable, Inl NotRunning}
      \<or> (\<exists>p. BoPosted [n] p \<in> set (br_out (bridge_run (\<lambda>n. [n]) bridge_init ?es)) \<and> r = reply_answer p)"
    unfolding Let_def by blast
  moreover have "returns_of (br_out (bridge_run (\<lambda>n. [n]) bridge_init ?es)) = [0, 1]"
    "jobs_given (br_out (bridge_run (\<lambda>n. [n]) bridge_init ?es)) = [([0], True)]"
    by (simp_all add: bridge_init_def br_request_def br_offer_def br_take_def br_lookup_def br_post_def br_send_def
        br_receive_def br_give_up_def br_return_def br_emit_def queue_limit_def Let_def)
  ultimately show ?thesis unfolding Let_def by blast
qed

text \<open>
  The bridge keeps nothing: its table holds exactly the identifiers of the requests under way, at
  most 32 jobs wait, and every request ever made has returned or still can.
\<close>

theorem bridge_table_exact:
  assumes "inj token"
  shows "let s = bridge_run token bridge_init es
    in (\<forall>i n. map_of (br_pending s) i = Some n \<longleftrightarrow> i = token n \<and> map_of (br_reqs s) n \<noteq> None)
       \<and> length (br_queue s) \<le> 32
       \<and> (\<forall>n < br_next s. n \<in> set (returns_of (br_out s)) \<or> n \<in> set (returns_of (br_out (bridge_step token s (BeGiveUp n)))))"
proof -
  let ?s = "bridge_run token bridge_init es"
  have i: "bridge_inv token ?s" by (rule bridge_run_inv [OF assms])
  have "n \<in> set (returns_of (br_out ?s)) \<or> n \<in> set (returns_of (br_out (bridge_step token ?s (BeGiveUp n))))"
    if "n < br_next ?s" for n
  proof (cases "n \<in> set (returns_of (br_out ?s))")
    case False
    with i that obtain q g where "map_of (br_reqs ?s) n = Some (q, g)" "g \<noteq> Returned"
      by (auto simp: bridge_inv_def returns_ok_def)
    then show ?thesis by (cases g) (simp_all add: br_give_up_def br_return_def br_emit_def)
  qed simp
  moreover have "table_ok token ?s" "jobs_ok token ?s" using i by (simp_all add: bridge_inv_def)
  ultimately show ?thesis by (simp add: Let_def table_ok_def jobs_ok_def queue_limit_def)
qed

theorem bridge_table_exact_witness:
  "let s = bridge_run (\<lambda>n. [n]) bridge_init [BeRequest (), BeOffer 0]
   in map_of (br_pending s) [0] = Some 0 \<and> length (br_queue s) \<le> 32"
proof -
  have "inj (\<lambda>n :: nat. [n])" by (simp add: inj_def)
  from bridge_table_exact [OF this, of "[BeRequest (), BeOffer 0]"] show ?thesis
    unfolding Let_def
    by (simp add: bridge_init_def br_request_def br_offer_def br_emit_def queue_limit_def Let_def)
qed

end
