(* ===== verification/Desktop_Chain.thy ===== *)
theory Desktop_Chain
  imports RemoteDesktop Go_Bridge Wire
begin

text \<open>
  A desktop request from the session that asks it to the worker and back: the bridge of the client
  service, the remote-desktop worker of the Windows shell, and the local HTTP API between them. A job
  or a reply in transit is a pair; it arrives, or it is lost (a time-out of \<open>fetch\<close>, a body the bridge
  refuses), and arrivals come in any order.
\<close>

section \<open>The messages\<close>

text \<open>\<open>desktopJob\<close> as the agent writes it and the worker reads it.\<close>

definition request_json :: "go_request \<Rightarrow> json" where
  "request_json q =
     JObj [(asc ''id'', JNum (gr_id q)), (asc ''op'', JStr (gr_op q)), (asc ''path'', JStr (gr_path q)),
           (asc ''target'', JStr (gr_target q)), (asc ''data'', JStr (gr_data q)), (asc ''offset'', JNum (gr_offset q)),
           (asc ''cols'', JNum (gr_cols q)), (asc ''rows'', JNum (gr_rows q)),
           (asc ''input'', case gr_input q of None \<Rightarrow> JNull | Some v \<Rightarrow> v)]"

definition job_bytes :: "jstext \<Rightarrow> go_request \<Rightarrow> byte list" where
  "job_bytes i q = go_marshal (JObj [(asc ''id'', JStr i), (asc ''request'', request_json q)])"

definition json_text_at :: "json \<Rightarrow> string \<Rightarrow> jstext option" where
  "json_text_at m k = (case jget m (asc k) of Some (JStr t) \<Rightarrow> Some t | _ \<Rightarrow> None)"

definition read_job :: "byte list \<Rightarrow> rd_job option" where
  "read_job b = do {
     m \<leftarrow> json_parse (text_decode b); i \<leftarrow> json_text_at m ''id''; r \<leftarrow> jget m (asc ''request'');
     op \<leftarrow> json_text_at r ''op''; v \<leftarrow> jget r (asc ''input'');
     Some \<lparr>jb_id = i, jb_op = op, jb_input = v\<rparr>
   }"

text \<open>The messages of the errors of the worker.\<close>

fun rd_message :: "rd_err \<Rightarrow> jstext" where
  "rd_message HelperUnavailable = asc ''Input helper unavailable''"
| "rd_message HelperStopped = asc ''Input helper stopped''"
| "rd_message InputBusy = asc ''Input busy''"
| "rd_message InputTimeout = asc ''Input timeout''"
| "rd_message InvalidReply = asc ''Invalid input reply''"
| "rd_message (HelperError t) = t"
| "rd_message ScreenLocked =
     asc ''Windows '' @ [24050, 38145, 23631, 65292, 35831, 22312, 26412, 26426, 35299, 38145]"
| "rd_message NoScreen = [26080, 27861, 25429, 33719, 24403, 21069] @ asc '' Windows '' @ [26700, 38754]"
| "rd_message (CaptureFailed t) = t"
| "rd_message UnknownOperation = asc ''Unknown desktop operation''"

fun result_json :: "rd_result \<Rightarrow> json" where
  "result_json (ResFrame (img, w, h)) =
     JObj [(asc ''image'', JStr img), (asc ''width'', JNum (int w)), (asc ''height'', JNum (int h))]"
| "result_json ResOk = JObj [(asc ''ok'', JBool True)]"

text \<open>\<open>let result = null, error = ""\<close> and \<open>api("reply", { id: job.id, result, error })\<close>\<close>

definition reply_json :: "jstext \<Rightarrow> rd_err + rd_result \<Rightarrow> json" where
  "reply_json i w =
     JObj [(asc ''id'', JStr i), (asc ''result'', case w of Inl e \<Rightarrow> JNull | Inr r \<Rightarrow> result_json r),
           (asc ''error'', JStr (case w of Inl e \<Rightarrow> rd_message e | Inr r \<Rightarrow> []))]"

definition reply_bytes :: "jstext \<Rightarrow> rd_err + rd_result \<Rightarrow> byte list" where
  "reply_bytes i w = utf8_encode (js_stringify (reply_json i w))"

text \<open>\<open>Decode\<close> into a \<open>desktopResult\<close>; a body over 2 MiB is refused.\<close>

definition read_reply :: "byte list \<Rightarrow> (jstext \<times> bridge_reply) option" where
  "read_reply b =
     (if 2 * 1024 * 1024 < length b then None
      else do {
        m \<leftarrow> json_parse (text_decode b); i \<leftarrow> go_text_field m ''id''; e \<leftarrow> go_text_field m ''error'';
        Some (i, \<lparr>dr_result = jget m (asc ''result''), dr_error = e\<rparr>)
      })"

section \<open>The chain\<close>

record dchain =
  dk_bridge :: "go_request bridge"
  dk_worker :: rd
  dk_jobs :: "(jstext \<times> go_request) list"
  dk_replies :: "(jstext \<times> (rd_err + rd_result)) list"

definition dchain_init :: dchain where
  "dchain_init = \<lparr>dk_bridge = bridge_init, dk_worker = rd_start, dk_jobs = [], dk_replies = []\<rparr>"

definition answers_of :: "rd_out list \<Rightarrow> (jstext \<times> (rd_err + rd_result)) list" where
  "answers_of os = concat (map (\<lambda>x. case x of OReply i r \<Rightarrow> [(i, r)] | _ \<Rightarrow> []) os)"

definition bridge_moves :: "(nat \<Rightarrow> jstext) \<Rightarrow> go_request bridge_event \<Rightarrow> dchain \<Rightarrow> dchain" where
  "bridge_moves token e s =
     (let b = bridge_step token (dk_bridge s) e;
          os = drop (length (br_out (dk_bridge s))) (br_out b)
      in s\<lparr>dk_bridge := b, dk_jobs := dk_jobs s @ jobs_given os\<rparr>)"

definition worker_moves :: "rd_event \<Rightarrow> dchain \<Rightarrow> dchain" where
  "worker_moves e s =
     (let w = rd_step (dk_worker s) e;
          os = drop (length (rd_out (dk_worker s))) (rd_out w)
      in s\<lparr>dk_worker := w, dk_replies := dk_replies s @ answers_of os\<rparr>)"

definition drop_nth :: "nat \<Rightarrow> 'a list \<Rightarrow> 'a list" where
  "drop_nth k xs = take k xs @ drop (Suc k) xs"

definition job_arrives :: "nat \<Rightarrow> int \<Rightarrow> bool \<Rightarrow> dchain \<Rightarrow> dchain" where
  "job_arrives k now idle s =
     (if k < length (dk_jobs s) then
        case dk_jobs s ! k of (i, q) \<Rightarrow>
          worker_moves (ENext now idle (read_job (job_bytes i q))) (s\<lparr>dk_jobs := drop_nth k (dk_jobs s)\<rparr>)
      else s)"

definition reply_arrives :: "(nat \<Rightarrow> jstext) \<Rightarrow> nat \<Rightarrow> dchain \<Rightarrow> dchain" where
  "reply_arrives token k s =
     (if k < length (dk_replies s) then
        case dk_replies s ! k of (i, w) \<Rightarrow>
          let s1 = s\<lparr>dk_replies := drop_nth k (dk_replies s)\<rparr>
          in (case read_reply (reply_bytes i w) of None \<Rightarrow> s1 | Some (j, r) \<Rightarrow> bridge_moves token (BePost j r) s1)
      else s)"

text \<open>
  Jobs reach the worker and replies the bridge by arriving only: the other answers to the worker's
  \<open>next\<close> are a failure, or the empty identifier.
\<close>

definition bridge_own :: "go_request bridge_event \<Rightarrow> bool" where
  "bridge_own e \<longleftrightarrow> (case e of BePost i r \<Rightarrow> False | _ \<Rightarrow> True)"

definition worker_own :: "rd_event \<Rightarrow> bool" where
  "worker_own e \<longleftrightarrow> (case e of ENext now idle (Some j) \<Rightarrow> jb_id j = [] | _ \<Rightarrow> True)"

datatype dchain_event =
    DkBridge "go_request bridge_event" | DkWorker rd_event
  | DkJob nat int bool | DkJobLost nat | DkReply nat | DkReplyLost nat

fun dchain_step :: "(nat \<Rightarrow> jstext) \<Rightarrow> dchain \<Rightarrow> dchain_event \<Rightarrow> dchain" where
  "dchain_step token s (DkBridge e) = (if bridge_own e then bridge_moves token e s else s)"
| "dchain_step token s (DkWorker e) = (if worker_own e then worker_moves e s else s)"
| "dchain_step token s (DkJob k now idle) = job_arrives k now idle s"
| "dchain_step token s (DkJobLost k) = s\<lparr>dk_jobs := drop_nth k (dk_jobs s)\<rparr>"
| "dchain_step token s (DkReply k) = reply_arrives token k s"
| "dchain_step token s (DkReplyLost k) = s\<lparr>dk_replies := drop_nth k (dk_replies s)\<rparr>"

abbreviation "dchain_run token \<equiv> run (dchain_step token)"

section \<open>Round trips\<close>

definition scalars :: "jstext \<Rightarrow> bool" where
  "scalars t \<longleftrightarrow> (\<forall>c \<in> set t. scalar c)"

fun answer_ok :: "rd_err + rd_result \<Rightarrow> bool" where
  "answer_ok (Inl e) = scalars (rd_message e)"
| "answer_ok (Inr (ResFrame (img, w, h))) = scalars img"
| "answer_ok (Inr ResOk) = True"

definition worker_reply :: "rd_err + rd_result \<Rightarrow> bridge_reply" where
  "worker_reply a = (case a of Inl e \<Rightarrow> \<lparr>dr_result = Some JNull, dr_error = rd_message e\<rparr>
     | Inr r \<Rightarrow> \<lparr>dr_result = Some (result_json r), dr_error = []\<rparr>)"

definition job_of :: "jstext \<Rightarrow> go_request \<Rightarrow> rd_job" where
  "job_of i q = \<lparr>jb_id = i, jb_op = gr_op q, jb_input = (case gr_input q of None \<Rightarrow> JNull | Some v \<Rightarrow> v)\<rparr>"

lemma read_job_bytes:
  assumes "scalars i" "wf_json (request_json q)"
  shows "read_job (job_bytes i q) = Some (job_of i q)"
proof -
  have "wf_json (JObj [(asc ''id'', JStr i), (asc ''request'', request_json q)])"
    using assms asc_scalar by (auto simp: scalars_def)
  then show ?thesis
    by (simp add: read_job_def job_bytes_def json_parse_marshal json_text_at_def request_json_def job_of_def)
qed

lemma wf_result: "answer_ok (Inr r) \<Longrightarrow> wf_json (result_json r)"
proof (cases r)
  case (ResFrame f)
  assume "answer_ok (Inr r)"
  then show ?thesis using ResFrame asc_scalar by (cases f) (auto simp: scalars_def)
qed (auto dest: asc_scalar)

lemma read_reply_bytes:
  assumes "scalars i" "answer_ok a"
  shows "read_reply (reply_bytes i a) \<in> {None, Some (i, worker_reply a)}"
proof -
  have "wf_json (reply_json i a)"
    using assms asc_scalar wf_result by (auto simp: reply_json_def scalars_def split: sum.split)
  then have "json_parse (text_decode (reply_bytes i a)) = Some (reply_json i a)"
    unfolding reply_bytes_def by (rule json_parse_stringify)
  then show ?thesis
    by (cases a) (simp_all add: read_reply_def reply_json_def go_text_field_def worker_reply_def)
qed

section \<open>The worker serves the jobs it is given\<close>

text \<open>A frame answers a request for a frame, a done input one for an input; anything can fail.\<close>

fun answers :: "go_request \<Rightarrow> rd_err + rd_result \<Rightarrow> bool" where
  "answers q (Inr (ResFrame f)) = (gr_op q = asc ''frame'')"
| "answers q (Inr ResOk) = (gr_op q = asc ''input'')"
| "answers q (Inl UnknownOperation) = (gr_op q \<noteq> asc ''frame'' \<and> gr_op q \<noteq> asc ''input'')"
| "answers q (Inl e) = True"

definition served :: "(jstext \<times> go_request) set \<Rightarrow> jstext \<Rightarrow> rd_err + rd_result \<Rightarrow> bool" where
  "served js i a \<longleftrightarrow> answer_ok a \<and> (\<exists>q. (i, q) \<in> js \<and> answers q a)"

text \<open>The errors an input can end with.\<close>

definition input_err :: "rd_err \<Rightarrow> bool" where
  "input_err e \<longleftrightarrow> scalars (rd_message e) \<and> e \<noteq> UnknownOperation"

definition worker_inv :: "(jstext \<times> go_request) set \<Rightarrow> rd \<Rightarrow> bool" where
  "worker_inv js w \<longleftrightarrow>
     (\<forall>c e. OSettled c (Some e) \<in> set (rd_out w) \<longrightarrow> input_err e)
     \<and> (\<forall>i a. OReply i a \<in> set (rd_out w) \<longrightarrow> served js i a)
     \<and> (\<forall>i. rd_loop w = LpCapture i \<longrightarrow> (\<exists>q. (i, q) \<in> js \<and> gr_op q = asc ''frame''))
     \<and> (\<forall>i c. rd_loop w = LpInput i c \<longrightarrow> (\<exists>q. (i, q) \<in> js \<and> gr_op q = asc ''input''))"

text \<open>What the worker hears from the helper and the screen is text without lone surrogates.\<close>

definition heard_ok :: "rd_event \<Rightarrow> bool" where
  "heard_ok e \<longleftrightarrow>
     (case e of
        ELine h line \<Rightarrow> (case line_outcome line of None \<Rightarrow> True | Some x \<Rightarrow> scalars (rd_message x))
      | ECaptured now (Inl t) \<Rightarrow> scalars t
      | ECaptured now (Inr (Some (img, w, h))) \<Rightarrow> scalars img
      | _ \<Rightarrow> True)"

lemma outcome_settled: "outcome_of c os = Some (Some e) \<Longrightarrow> OSettled c (Some e) \<in> set os"
  by (induction c os rule: outcome_of.induct) (auto split: if_splits)

lemma fixed_messages [simp]:
  "scalars (rd_message HelperUnavailable)" "scalars (rd_message HelperStopped)" "scalars (rd_message InputBusy)"
  "scalars (rd_message InputTimeout)" "scalars (rd_message InvalidReply)" "scalars (rd_message ScreenLocked)"
  "scalars (rd_message NoScreen)" "scalars (rd_message UnknownOperation)"
  using asc_scalar by (auto simp: scalars_def scalar_def)

lemma line_not_unknown: "line_outcome line \<noteq> Some UnknownOperation"
  by (auto simp: line_outcome_def split: option.split)

lemma worker_inv_input: "worker_inv js w \<Longrightarrow> worker_inv js (rd_input now d w)"
  by (auto simp: worker_inv_def rd_input_def rd_spawn_def rd_emit_def Let_def input_err_def
      simp del: rd_message.simps split: option.split)

lemma worker_inv_job:
  assumes "worker_inv js w" "(jb_id j, q) \<in> js" "jb_op j = gr_op q"
  shows "worker_inv js (do_job now idle j w)"
proof -
  let ?w = "rd_emit [OJob (jb_id j)] w"
  have w: "worker_inv js ?w" using assms(1) by (auto simp: worker_inv_def rd_emit_def)
  have re: "worker_inv js (reply (jb_id j) a ?w)" if "answer_ok a" "answers q a" for a
    using w assms(2) that by (auto simp: worker_inv_def served_def reply_def rd_emit_def)
  have lp: "worker_inv js (v\<lparr>rd_loop := LpInput (jb_id j) c\<rparr>)" if "worker_inv js v" "gr_op q = asc ''input''" for v c
    using that assms(2) by (auto simp: worker_inv_def)
  show ?thesis
    using w assms(2,3) re [of "Inl ScreenLocked"] re [of "Inl UnknownOperation"] lp [OF worker_inv_input [OF w]]
    by (auto simp: do_job_def Let_def simp del: rd_message.simps) (auto simp: worker_inv_def)
qed

lemma worker_inv_step:
  assumes "worker_inv js w" "heard_ok e"
    and "\<And>now idle j. e = ENext now idle (Some j) \<Longrightarrow> jb_id j \<noteq> [] \<Longrightarrow> \<exists>q. (jb_id j, q) \<in> js \<and> jb_op j = gr_op q"
  shows "worker_inv js (rd_step w e)"
proof (cases e)
  case (ENext now idle r)
  have h: "worker_inv js (loop_head w)" "worker_inv js (w\<lparr>rd_loop := LpPause\<rparr>)"
    using assms(1) by (auto simp: worker_inv_def loop_head_def rd_emit_def)
  then show ?thesis
    using ENext assms(1,3) worker_inv_job by (auto simp: on_next_def split: option.split)
next
  case (EInterval now)
  have "worker_inv js (rd_emit [OTip False] v)" if "worker_inv js v" for v
    using that by (auto simp: worker_inv_def rd_emit_def)
  then show ?thesis using assms(1) EInterval worker_inv_input by (auto simp: on_interval_def Let_def)
next
  case (ELine h line)
  then show ?thesis using assms(1,2) line_not_unknown [of line]
    by (auto simp: worker_inv_def heard_ok_def rd_defs input_err_def split: option.splits)
next
  case (ECaptured now f)
  then show ?thesis using assms(1,2)
    by (auto simp: worker_inv_def served_def heard_ok_def rd_defs simp del: rd_message.simps simp add: rd_message.simps(9) split: sum.splits option.splits rd_loop.splits)
next
  case EInputDone
  show ?thesis
  proof (cases "rd_loop w")
    case (LpInput i c)
    have "input_err x" if "outcome_of c (rd_out w) = Some (Some x)" for x
      using assms(1) outcome_settled [OF that] by (auto simp: worker_inv_def)
    moreover have "answers q (Inl x)" if "input_err x" for q x
      using that by (cases x) (auto simp: input_err_def)
    ultimately show ?thesis using assms(1) EInputDone LpInput
      by (auto simp: worker_inv_def served_def on_resume_def reply_def rd_emit_def input_err_def
          simp del: rd_message.simps split: option.splits)
  qed (use assms(1) EInputDone in \<open>simp_all add: on_resume_def\<close>)
qed (use assms(1) in \<open>auto simp: worker_inv_def rd_defs Let_def input_err_def simp del: rd_message.simps split: option.splits\<close>)

section \<open>The invariant\<close>

lemma worker_grows: "\<exists>os. rd_out (rd_step w e) = rd_out w @ os"
  by (cases e) (auto simp: rd_defs Let_def split: option.split sum.split rd_loop.split)

lemma bridge_grows:
  "\<exists>os. br_out (bridge_step token b e) = br_out b @ os \<and> (\<forall>i p. BoPosted i p \<in> set os \<longrightarrow> e = BePost i p)
     \<and> (\<forall>n q. BoAsked n q \<in> set os \<longrightarrow> e = BeRequest q)"
  by (cases e) (auto simp: br_request_def br_offer_def br_give_up_def br_receive_def br_forget_def br_take_def
      br_lookup_def br_post_def br_send_def br_return_def br_emit_def Let_def
      split: option.split stage.split list.split prod.split)

definition taken_job :: "rd_event \<Rightarrow> jstext list" where
  "taken_job e = (case e of ENext now idle (Some j) \<Rightarrow> if jb_id j = [] then [] else [jb_id j] | _ \<Rightarrow> [])"

lemma worker_takes: "mset (jobs_of (rd_out (rd_step w e))) \<subseteq># mset (jobs_of (rd_out w)) + mset (taken_job e)"
proof (cases e)
  case (ENext now idle r)
  then show ?thesis
    by (auto simp: on_next_def loop_head_def do_job_def reply_def Let_def rd_emit_def taken_job_def split: option.split)
qed (auto simp: rd_defs Let_def taken_job_def split: option.split sum.split rd_loop.split)

lemma in_answers: "(i, a) \<in> set (answers_of os) \<longleftrightarrow> OReply i a \<in> set os"
  by (auto simp: answers_of_def split: rd_out.split)

abbreviation given :: "dchain \<Rightarrow> (jstext \<times> go_request) list" where
  "given s \<equiv> jobs_given (br_out (dk_bridge s))"

text \<open>Every request asked is well-formed and has a number of its own.\<close>

definition asked_ok :: "go_request bridge \<Rightarrow> bool" where
  "asked_ok b \<longleftrightarrow>
     (\<forall>n q. BoAsked n q \<in> set (br_out b) \<longrightarrow>
        n < br_next b \<and> wf_json (request_json q) \<and> (\<forall>q'. BoAsked n q' \<in> set (br_out b) \<longrightarrow> q' = q))"

lemma asked_ok_step:
  assumes "asked_ok b" "\<forall>q. e = BeRequest q \<longrightarrow> wf_json (request_json q)"
  shows "asked_ok (bridge_step token b e)"
proof (cases "\<exists>q. e = BeRequest q")
  case True
  then obtain q where q: "e = BeRequest q" by blast
  then have out: "set (br_out (bridge_step token b e)) = insert (BoAsked (br_next b) q) (set (br_out b))"
    "br_next (bridge_step token b e) = Suc (br_next b)"
    by (simp_all add: br_request_def br_emit_def Let_def)
  have "BoAsked (br_next b) q' \<notin> set (br_out b)" for q' using assms(1) unfolding asked_ok_def by blast
  with assms q show ?thesis unfolding asked_ok_def out by (auto intro: less_SucI)
next
  case False
  then have "br_next (bridge_step token b e) = br_next b"
    by (cases e) (auto simp: br_offer_def br_give_up_def br_receive_def br_forget_def br_take_def
      br_lookup_def br_post_def br_send_def br_return_def br_emit_def Let_def
      split: option.split stage.split list.split prod.split)
  with False bridge_grows [of token b e] assms(1) show ?thesis
    unfolding asked_ok_def by (metis (no_types, lifting) Un_iff set_append)
qed

text \<open>
  Every job in transit or taken by the worker was handed out by the bridge, once; every reply in transit
  or posted is one the worker gave; the worker serves what it was given.
\<close>

definition dchain_inv :: "(nat \<Rightarrow> jstext) \<Rightarrow> dchain \<Rightarrow> bool" where
  "dchain_inv token s \<longleftrightarrow>
     bridge_inv token (dk_bridge s)
     \<and> asked_ok (dk_bridge s)
     \<and> mset (map fst (dk_jobs s)) + mset (jobs_of (rd_out (dk_worker s))) \<subseteq># mset (map fst (given s))
     \<and> set (dk_jobs s) \<subseteq> set (given s)
     \<and> set (dk_replies s) \<subseteq> set (answers_of (rd_out (dk_worker s)))
     \<and> worker_inv (set (given s)) (dk_worker s)
     \<and> (\<forall>i p. BoPosted i p \<in> set (br_out (dk_bridge s)) \<longrightarrow>
          (\<exists>a. OReply i a \<in> set (rd_out (dk_worker s)) \<and> p = worker_reply a))"

lemma worker_inv_mono: "worker_inv js w \<Longrightarrow> js \<subseteq> ks \<Longrightarrow> worker_inv ks w"
  unfolding worker_inv_def served_def by blast

lemma dchain_inv_init: "inj token \<Longrightarrow> dchain_inv token dchain_init"
  using bridge_inv_init [of token]
  by (simp add: dchain_inv_def dchain_init_def worker_inv_def) 
    (auto simp: asked_ok_def bridge_init_def rd_start_def loop_head_def rd_emit_def)

lemma dchain_inv_bridge:
  assumes "dchain_inv token s" "\<forall>q. e = BeRequest q \<longrightarrow> wf_json (request_json q)"
    and "\<forall>i p. e = BePost i p \<longrightarrow> (\<exists>a. OReply i a \<in> set (rd_out (dk_worker s)) \<and> p = worker_reply a)"
  shows "dchain_inv token (bridge_moves token e s)"
proof -
  let ?b = "bridge_step token (dk_bridge s) e"
  obtain os where os: "br_out ?b = br_out (dk_bridge s) @ os"
    and new: "\<And>i p. BoPosted i p \<in> set os \<Longrightarrow> e = BePost i p"
    using bridge_grows [of token "dk_bridge s" e] by blast
  then have g: "given (bridge_moves token e s) = given s @ jobs_given os"
    "dk_jobs (bridge_moves token e s) = dk_jobs s @ jobs_given os"
    by (simp_all add: bridge_moves_def Let_def)
  have f: "dk_bridge (bridge_moves token e s) = ?b" "dk_worker (bridge_moves token e s) = dk_worker s"
    "dk_replies (bridge_moves token e s) = dk_replies s"
    by (simp_all add: bridge_moves_def Let_def)
  have "worker_inv (set (given s @ jobs_given os)) (dk_worker s)"
    by (rule worker_inv_mono [of "set (given s)"]) (use assms(1) in \<open>auto simp: dchain_inv_def\<close>)
  moreover have "bridge_inv token ?b" using assms(1) bridge_inv_step by (auto simp: dchain_inv_def)
  moreover have "asked_ok ?b" using assms(1,2) by (intro asked_ok_step) (simp_all add: dchain_inv_def)
  moreover have "\<exists>a. OReply i a \<in> set (rd_out (dk_worker s)) \<and> p = worker_reply a"
    if "BoPosted i p \<in> set (br_out (dk_bridge s) @ os)" for i p
    using that new assms(1,3) unfolding dchain_inv_def by auto
  moreover have "mset (map fst (dk_jobs s @ jobs_given os)) + mset (jobs_of (rd_out (dk_worker s)))
      \<subseteq># mset (map fst (given s @ jobs_given os))"
    using assms(1) by (simp add: dchain_inv_def)
  moreover have "set (dk_jobs s @ jobs_given os) \<subseteq> set (given s @ jobs_given os)"
    "set (dk_replies s) \<subseteq> set (answers_of (rd_out (dk_worker s)))"
    using assms(1) by (auto simp: dchain_inv_def)
  ultimately show ?thesis unfolding dchain_inv_def f g os jobs_given_simps(2) by blast
qed

lemma dchain_inv_worker:
  assumes "dchain_inv token s" "heard_ok e"
    and "\<And>now idle j. e = ENext now idle (Some j) \<Longrightarrow> jb_id j \<noteq> [] \<Longrightarrow> \<exists>q. (jb_id j, q) \<in> set (given s) \<and> jb_op j = gr_op q"
    and "mset (taken_job e) + mset (map fst (dk_jobs s)) + mset (jobs_of (rd_out (dk_worker s))) \<subseteq># mset (map fst (given s))"
  shows "dchain_inv token (worker_moves e s)"
proof -
  let ?w = "rd_step (dk_worker s) e"
  obtain os where os: "rd_out ?w = rd_out (dk_worker s) @ os" using worker_grows by blast
  then have g: "dk_replies (worker_moves e s) = dk_replies s @ answers_of os"
    by (simp add: worker_moves_def Let_def)
  have f: "dk_worker (worker_moves e s) = ?w" "dk_bridge (worker_moves e s) = dk_bridge s"
    "dk_jobs (worker_moves e s) = dk_jobs s"
    by (simp_all add: worker_moves_def Let_def)
  have "mset (map fst (dk_jobs s)) + mset (jobs_of (rd_out ?w))
      \<subseteq># mset (map fst (dk_jobs s)) + (mset (jobs_of (rd_out (dk_worker s))) + mset (taken_job e))"
    by (rule subset_mset.add_left_mono [OF worker_takes])
  also have "\<dots> \<subseteq># mset (map fst (given s))" using assms(4) by (simp add: ac_simps)
  finally have "mset (map fst (dk_jobs s)) + mset (jobs_of (rd_out ?w)) \<subseteq># mset (map fst (given s))" .
  moreover have "worker_inv (set (given s)) ?w"
    by (rule worker_inv_step) (use assms in \<open>auto simp: dchain_inv_def\<close>)
  moreover have "answers_of (rd_out ?w) = answers_of (rd_out (dk_worker s)) @ answers_of os"
    unfolding os by (simp add: answers_of_def)
  moreover have "OReply i a \<in> set (rd_out ?w)" if "OReply i a \<in> set (rd_out (dk_worker s))" for i a
    using that unfolding os by simp
  moreover have "set (dk_replies s @ answers_of os) \<subseteq> set (answers_of (rd_out (dk_worker s)) @ answers_of os)"
    using assms(1) by (auto simp: dchain_inv_def)
  ultimately show ?thesis using assms(1) unfolding dchain_inv_def f g by metis
qed

section \<open>Every step\<close>

lemma mset_drop_nth: "k < length xs \<Longrightarrow> mset xs = add_mset (xs ! k) (mset (drop_nth k xs))"
  using id_take_nth_drop [of k xs] unfolding drop_nth_def by (metis mset.simps(2) mset_append union_mset_add_mset_right)

lemma mset_drop_nth_sub: "mset (drop_nth k xs) \<subseteq># mset xs"
proof (cases "k < length xs")
  case True
  then show ?thesis using mset_drop_nth [OF True] by simp
qed (simp add: drop_nth_def)

lemma set_drop_nth: "set (drop_nth k xs) \<subseteq> set xs"
  using set_mset_mono [OF mset_drop_nth_sub [of k xs]] by simp

fun dchain_event_ok :: "dchain_event \<Rightarrow> bool" where
  "dchain_event_ok (DkBridge (BeRequest q)) = wf_json (request_json q)"
| "dchain_event_ok (DkWorker e) = heard_ok e"
| "dchain_event_ok _ = True"

lemma given_ok:
  assumes "dchain_inv token s" "\<forall>n. scalars (token n)" "(i, q) \<in> set (given s)"
  shows "scalars i" "wf_json (request_json q)" "\<exists>n < br_next (dk_bridge s). i = token n \<and> BoAsked n q \<in> set (br_out (dk_bridge s))"
proof -
  have "job_ok token (dk_bridge s) (i, q)"
    using assms(1,3) by (auto simp: dchain_inv_def bridge_inv_def jobs_ok_def jobs_of_bridge_def)
  then show "\<exists>n < br_next (dk_bridge s). i = token n \<and> BoAsked n q \<in> set (br_out (dk_bridge s))"
    by (auto simp: job_ok_def)
  with assms(1,2) show "scalars i" "wf_json (request_json q)" by (auto simp: dchain_inv_def asked_ok_def)
qed

lemma dchain_inv_job:
  assumes "dchain_inv token s" "\<forall>n. scalars (token n)"
  shows "dchain_inv token (job_arrives k now idle s)"
proof (cases "k < length (dk_jobs s)")
  case True
  obtain i q where j: "dk_jobs s ! k = (i, q)" by fastforce
  have g: "(i, q) \<in> set (given s)" using assms(1) True j nth_mem unfolding dchain_inv_def by (metis subsetD)
  have r: "read_job (job_bytes i q) = Some (job_of i q)"
    by (rule read_job_bytes [OF given_ok(1,2) [OF assms g]])
  let ?s = "s\<lparr>dk_jobs := drop_nth k (dk_jobs s)\<rparr>" and ?e = "ENext now idle (Some (job_of i q))"
  have m: "mset (map fst (dk_jobs s)) = add_mset i (mset (map fst (drop_nth k (dk_jobs s))))"
    using mset_drop_nth [OF True] j by simp
  have "mset (map fst (dk_jobs s)) + mset (jobs_of (rd_out (dk_worker s))) \<subseteq># mset (map fst (given s))"
    using assms(1) by (simp add: dchain_inv_def)
  then have sub: "add_mset i (mset (map fst (drop_nth k (dk_jobs s))) + mset (jobs_of (rd_out (dk_worker s)))) \<subseteq># mset (map fst (given s))"
    unfolding m by simp
  then have s1: "dchain_inv token ?s"
    using assms(1) set_drop_nth [of k "dk_jobs s"] mset_subset_eq_insertD [OF sub] by (auto simp: dchain_inv_def subset_mset.less_imp_le)
  have t1: "mset (taken_job ?e) + mset (map fst (dk_jobs ?s)) + mset (jobs_of (rd_out (dk_worker ?s))) \<subseteq># mset (map fst (given ?s))"
    using sub subset_mset.order_trans [OF _ sub] by (simp add: taken_job_def job_of_def)
  have "dchain_inv token (worker_moves ?e ?s)"
    by (rule dchain_inv_worker [OF s1 _ _ t1]) (use g in \<open>auto simp: heard_ok_def job_of_def\<close>)
  with True j r show ?thesis by (simp add: job_arrives_def)
qed (simp add: job_arrives_def assms(1))

lemma dchain_inv_reply:
  assumes "dchain_inv token s" "\<forall>n. scalars (token n)"
  shows "dchain_inv token (reply_arrives token k s)"
proof (cases "k < length (dk_replies s)")
  case True
  obtain i a where j: "dk_replies s ! k = (i, a)" by fastforce
  have o: "OReply i a \<in> set (rd_out (dk_worker s))"
    using assms(1) True j nth_mem in_answers unfolding dchain_inv_def by (metis subsetD)
  then have "served (set (given s)) i a" using assms(1) by (auto simp: dchain_inv_def worker_inv_def)
  then have r: "read_reply (reply_bytes i a) \<in> {None, Some (i, worker_reply a)}"
    using given_ok(1) [OF assms] by (intro read_reply_bytes) (auto simp: served_def)
  let ?s = "s\<lparr>dk_replies := drop_nth k (dk_replies s)\<rparr>"
  have s1: "dchain_inv token ?s" using assms(1) set_drop_nth [of k "dk_replies s"] by (auto simp: dchain_inv_def)
  then have "dchain_inv token (bridge_moves token (BePost i (worker_reply a)) ?s)"
    by (rule dchain_inv_bridge) (use o in auto)
  with s1 True j r show ?thesis by (auto simp: reply_arrives_def Let_def)
qed (simp add: reply_arrives_def assms(1))

lemma dchain_inv_step:
  assumes "dchain_inv token s" "\<forall>n. scalars (token n)" "dchain_event_ok e"
  shows "dchain_inv token (dchain_step token s e)"
proof (cases e)
  case (DkBridge b)
  then have "bridge_own b \<Longrightarrow> dchain_inv token (bridge_moves token b s)"
    using assms(1,3) by (intro dchain_inv_bridge) (auto simp: bridge_own_def)
  with DkBridge assms(1) show ?thesis by simp
next
  case (DkWorker x)
  have "dchain_inv token (worker_moves x s)" if w: "worker_own x"
  proof (rule dchain_inv_worker)
    show "mset (taken_job x) + mset (map fst (dk_jobs s)) + mset (jobs_of (rd_out (dk_worker s))) \<subseteq># mset (map fst (given s))"
      using w assms(1) by (auto simp: taken_job_def worker_own_def dchain_inv_def split: rd_event.splits option.splits)
  qed (use w assms DkWorker in \<open>auto simp: worker_own_def\<close>)
  with DkWorker assms(1) show ?thesis by simp
next
  case (DkJobLost k)
  have "mset (map fst (drop_nth k (dk_jobs s))) \<subseteq># mset (map fst (dk_jobs s))"
    using image_mset_subseteq_mono [OF mset_drop_nth_sub, of fst] by simp
  then have "mset (map fst (drop_nth k (dk_jobs s))) + mset (jobs_of (rd_out (dk_worker s))) \<subseteq># mset (map fst (given s))"
    using assms(1) subset_mset.add_right_mono subset_mset.order_trans unfolding dchain_inv_def by blast
  with DkJobLost assms(1) set_drop_nth [of k "dk_jobs s"] show ?thesis by (auto simp: dchain_inv_def)
next
  case (DkReplyLost k)
  with assms(1) set_drop_nth [of k "dk_replies s"] show ?thesis by (auto simp: dchain_inv_def)
qed (simp_all add: dchain_inv_job [OF assms(1,2)] dchain_inv_reply [OF assms(1,2)])

interpretation dchain_sys: event_system "\<lambda>s e. if dchain_event_ok e then dchain_step token s e else s"
    "\<lambda>s. (\<forall>n. scalars (token n)) \<and> dchain_inv token s" for token
  by unfold_locales (simp add: dchain_inv_step)

lemma dchain_run_inv:
  assumes "dchain_inv token s" "\<forall>n. scalars (token n)" "\<forall>e \<in> set es. dchain_event_ok e"
  shows "dchain_inv token (dchain_run token s es)"
proof -
  have "run (\<lambda>s e. if dchain_event_ok e then dchain_step token s e else s) s es = dchain_run token s es"
    using assms(3) by (induction es arbitrary: s) simp_all
  with dchain_sys.run_inv [of token s es] assms(1,2) show ?thesis by simp
qed

section \<open>End to end\<close>

lemma desktop_answers:
  assumes "inj token" "\<forall>n. scalars (token n)" "\<forall>e \<in> set es. dchain_event_ok e"
  shows "let s = dchain_run token dchain_init es; bo = br_out (dk_bridge s); wo = rd_out (dk_worker s)
    in (\<forall>n r. BoReturn n r \<in> set bo \<longrightarrow>
          r \<in> {Inl NotAvailable, Inl NotRunning}
          \<or> (\<exists>q a. BoAsked n q \<in> set bo \<and> OReply (token n) a \<in> set wo \<and> answers q a
                \<and> r = reply_answer (worker_reply a)))"
proof -
  let ?s = "dchain_run token dchain_init es"
  have i: "dchain_inv token ?s" by (rule dchain_run_inv [OF dchain_inv_init [OF assms(1)] assms(2,3)])
  have "\<exists>q a. BoAsked n q \<in> set (br_out (dk_bridge ?s)) \<and> OReply (token n) a \<in> set (rd_out (dk_worker ?s)) \<and> answers q a
      \<and> r = reply_answer (worker_reply a)"
    if "BoReturn n r \<in> set (br_out (dk_bridge ?s))" "r \<notin> {Inl NotAvailable, Inl NotRunning}" for n r
  proof -
    have "replies_ok token (dk_bridge ?s)" using i by (simp add: dchain_inv_def bridge_inv_def)
    with that obtain p where "BoPosted (token n) p \<in> set (br_out (dk_bridge ?s))" "r = reply_answer p"
      unfolding replies_ok_def posted_def by blast
    with i obtain a where a: "OReply (token n) a \<in> set (rd_out (dk_worker ?s))" "r = reply_answer (worker_reply a)"
      unfolding dchain_inv_def by blast
    with i obtain q where q: "(token n, q) \<in> set (given ?s)" "answers q a"
      unfolding dchain_inv_def worker_inv_def served_def by blast
    from given_ok(3) [OF i assms(2) q(1)] assms(1) have "BoAsked n q \<in> set (br_out (dk_bridge ?s))"
      by (auto simp: inj_eq)
    with a q(2) show ?thesis by blast
  qed
  then show ?thesis unfolding Let_def by blast
qed

text \<open>
  C8: a desktop request is answered by the work done for it: however the sessions, the local API and
  the worker interleave, and whatever is lost, a request that returns got a time-out of its own or what
  the worker answered to exactly this request: a frame only for a frame, success only for an input that
  was carried out; and no request is worked on twice.
\<close>

theorem desktop_answers_end_to_end:
  assumes "inj token" "\<forall>n. scalars (token n)" "\<forall>e \<in> set es. dchain_event_ok e"
  shows "let s = dchain_run token dchain_init es; bo = br_out (dk_bridge s); wo = rd_out (dk_worker s)
    in (\<forall>n r. BoReturn n r \<in> set bo \<longrightarrow>
          r \<in> {Inl NotAvailable, Inl NotRunning}
          \<or> (\<exists>q a. BoAsked n q \<in> set bo \<and> OReply (token n) a \<in> set wo \<and> answers q a
                \<and> r = reply_answer (worker_reply a)))
       \<and> distinct (jobs_of wo)"
proof -
  let ?s = "dchain_run token dchain_init es"
  have i: "dchain_inv token ?s" by (rule dchain_run_inv [OF dchain_inv_init [OF assms(1)] assms(2,3)])
  have "distinct (map fst (given ?s))"
    using i by (auto simp: dchain_inv_def bridge_inv_def jobs_ok_def jobs_of_bridge_def)
  then have "distinct (map fst (dk_jobs ?s) @ jobs_of (rd_out (dk_worker ?s)))"
    by (rule distinct_sub [rotated]) (use i in \<open>simp add: dchain_inv_def\<close>)
  with desktop_answers [OF assms] show ?thesis unfolding Let_def by auto
qed

text \<open>A frame is asked for, captured and returned.\<close>

definition frame_request :: go_request where
  "frame_request = \<lparr>gr_id = 1, gr_op = asc ''frame'', gr_path = [], gr_target = [], gr_data = [], gr_offset = 0,
     gr_cols = 0, gr_rows = 0, gr_input = None\<rparr>"

definition frame_shown :: "dchain_event list" where
  "frame_shown =
     [DkBridge (BeRequest frame_request), DkBridge (BeOffer 0), DkBridge BeTake, DkBridge (BeLookup 0),
      DkJob 0 5 False, DkWorker (ECaptured 6 (Inr (Some (asc ''/9j/'', 2, 1)))), DkReply 0,
      DkBridge (BeSend 0), DkBridge (BeReceive 0)]"

lemma letters_scalar: "scalars (letters n)"
  by (simp add: scalars_def letters_def scalar_def)

lemma frame_shown_ok: "\<forall>e \<in> set frame_shown. dchain_event_ok e" "wf_json (request_json frame_request)"
  using asc_scalar by (auto simp: frame_shown_def heard_ok_def request_json_def frame_request_def scalars_def)

lemma small_reply: "length (reply_bytes (letters 0) (Inr (ResFrame (asc ''/9j/'', 2, 1)))) \<le> 2 * 1024 * 1024"
  by (simp add: reply_bytes_def reply_json_def letters_def json_string_def js_escape_def js_eval int_text_def
      nat_text.simps [of "Suc 0"] nat_text.simps [of 2] utf8_encode_def utf8_char_def)

lemma frame_read:
  "read_reply (reply_bytes (letters 0) (Inr (ResFrame (asc ''/9j/'', 2, 1)))) =
     Some (letters 0, worker_reply (Inr (ResFrame (asc ''/9j/'', 2, 1))))"
proof -
  let ?a = "Inr (ResFrame (asc ''/9j/'', 2, 1))"
  have a: "answer_ok ?a" using asc_scalar by (auto simp: scalars_def)
  have "wf_json (reply_json (letters 0) ?a)"
    using letters_scalar asc_scalar by (auto simp: reply_json_def scalars_def)
  then have "json_parse (text_decode (reply_bytes (letters 0) ?a)) = Some (reply_json (letters 0) ?a)"
    unfolding reply_bytes_def by (rule json_parse_stringify)
  with small_reply read_reply_bytes [OF letters_scalar a, of 0] show ?thesis
    by (auto simp: read_reply_def reply_json_def go_text_field_def)
qed

theorem desktop_answers_end_to_end_witness:
  "let s = dchain_run letters dchain_init frame_shown
   in BoReturn 0 (Inr (Some (result_json (ResFrame (asc ''/9j/'', 2, 1))))) \<in> set (br_out (dk_bridge s))
      \<and> (\<exists>q a. BoAsked 0 q \<in> set (br_out (dk_bridge s)) \<and> OReply (letters 0) a \<in> set (rd_out (dk_worker s)) \<and> answers q a)"
proof -
  let ?s = "dchain_run letters dchain_init frame_shown"
  have "letters 0 \<noteq> []" by (simp add: letters_def)
  then have "BoReturn 0 (Inr (Some (result_json (ResFrame (asc ''/9j/'', 2, 1))))) \<in> set (br_out (dk_bridge ?s))"
    using read_job_bytes [OF letters_scalar frame_shown_ok(2), of 0] frame_read
    by (simp add: frame_shown_def dchain_init_def bridge_init_def rd_start_def bridge_moves_def worker_moves_def job_arrives_def
        reply_arrives_def bridge_own_def worker_own_def Let_def rd_defs job_of_def frame_request_def answers_of_def drop_nth_def
        br_request_def br_offer_def br_take_def br_lookup_def br_post_def br_send_def br_receive_def br_return_def br_emit_def
        queue_limit_def reply_answer_def worker_reply_def)
  moreover have "\<forall>n. scalars (letters n)" using letters_scalar by blast
  note desktop_answers_end_to_end [OF inj_letters this frame_shown_ok(1)]
  ultimately show ?thesis unfolding Let_def by blast
qed

section \<open>A locked workstation\<close>

lemma locked_worker:
  assumes "rd_locked w" "e \<noteq> EUnlock"
  shows "rd_locked (rd_step w e)"
    and "OReply i a \<in> set (rd_out (rd_step w e)) \<Longrightarrow>
      OReply i a \<in> set (rd_out w) \<or> a = Inl ScreenLocked \<or> current_job (rd_loop w) = [i]"
    and "current_job (rd_loop (rd_step w e)) = [i] \<Longrightarrow> current_job (rd_loop w) = [i]"
  using assms
  by (cases e; auto simp: rd_defs Let_def split: option.splits sum.splits rd_loop.splits if_splits)+

text \<open>The requests from number \<open>n\<close> on are answered with the lock's error only.\<close>

definition shut_from :: "(nat \<Rightarrow> jstext) \<Rightarrow> nat \<Rightarrow> dchain \<Rightarrow> bool" where
  "shut_from token n s \<longleftrightarrow>
     rd_locked (dk_worker s)
     \<and> (\<forall>m a. n \<le> m \<longrightarrow> OReply (token m) a \<in> set (rd_out (dk_worker s)) \<longrightarrow> a = Inl ScreenLocked)
     \<and> (\<forall>m. n \<le> m \<longrightarrow> current_job (rd_loop (dk_worker s)) \<noteq> [token m])"

lemma shut_worker: "shut_from token n s \<Longrightarrow> e \<noteq> EUnlock \<Longrightarrow> shut_from token n (worker_moves e s)"
  using locked_worker [of "dk_worker s" e] unfolding shut_from_def worker_moves_def Let_def by simp blast

lemma shut_bridge: "shut_from token n (bridge_moves token e s) = shut_from token n s"
  by (simp add: shut_from_def bridge_moves_def Let_def)

lemma shut_updates [simp]:
  "shut_from token n (s\<lparr>dk_jobs := js\<rparr>) = shut_from token n s" "shut_from token n (s\<lparr>dk_replies := rs\<rparr>) = shut_from token n s"
  by (simp_all add: shut_from_def)

lemma shut_step: "shut_from token n s \<Longrightarrow> e \<noteq> DkWorker EUnlock \<Longrightarrow> shut_from token n (dchain_step token s e)"
  by (cases e) (auto simp: shut_worker shut_bridge job_arrives_def reply_arrives_def Let_def split: prod.split option.split)

lemma shut_run: "shut_from token n s \<Longrightarrow> DkWorker EUnlock \<notin> set es \<Longrightarrow> shut_from token n (dchain_run token s es)"
  by (induction es arbitrary: s) (auto simp: shut_step simp del: dchain_step.simps)

lemma lock_shuts:
  assumes "dchain_inv token s" "\<forall>n. scalars (token n)" "inj token" "rd_locked (dk_worker s)"
  shows "shut_from token (br_next (dk_bridge s)) s"
proof -
  have no: "(token m, q) \<notin> set (given s)" if "br_next (dk_bridge s) \<le> m" for m q
    using given_ok(3) [OF assms(1,2), of "token m" q] that assms(3) by (auto simp: inj_eq)
  have w: "worker_inv (set (given s)) (dk_worker s)" using assms(1) by (simp add: dchain_inv_def)
  have "current_job (rd_loop (dk_worker s)) \<noteq> [token m]" if "br_next (dk_bridge s) \<le> m" for m
    using w no [OF that] by (cases "rd_loop (dk_worker s)") (auto simp: worker_inv_def)
  with w no assms(4) show ?thesis unfolding shut_from_def worker_inv_def served_def by blast
qed

text \<open>
  C25: a locked workstation shows nothing to anybody: as long as it stays locked, every desktop request
  made since ends with an error, its own time-out or the lock's message, whatever was under way.
\<close>

theorem locked_desktop_answers_nobody:
  assumes "inj token" "\<forall>n. scalars (token n)" "\<forall>e \<in> set (es @ fs). dchain_event_ok e"
    and "s = dchain_run token dchain_init es" "rd_locked (dk_worker s)" "DkWorker EUnlock \<notin> set fs"
    and "br_next (dk_bridge s) \<le> n" "BoReturn n r \<in> set (br_out (dk_bridge (dchain_run token s fs)))"
  shows "r \<in> {Inl NotAvailable, Inl NotRunning, Inl (WorkerError (rd_message ScreenLocked))}"
proof -
  have "dchain_inv token s"
    unfolding assms(4) by (rule dchain_run_inv [OF dchain_inv_init [OF assms(1)] assms(2)]) (use assms(3) in auto)
  from lock_shuts [OF this assms(2,1,5)] have shut: "shut_from token (br_next (dk_bridge s)) (dchain_run token s fs)"
    using assms(6) by (rule shut_run)
  show ?thesis
  proof (rule ccontr)
    assume no: "r \<notin> {Inl NotAvailable, Inl NotRunning, Inl (WorkerError (rd_message ScreenLocked))}"
    from desktop_answers [OF assms(1-3)] no assms(8) obtain a where
      "OReply (token n) a \<in> set (rd_out (dk_worker (dchain_run token s fs)))" "r = reply_answer (worker_reply a)"
      unfolding Let_def assms(4) by auto
    moreover from this(1) shut assms(7) have "a = Inl ScreenLocked" unfolding shut_from_def by blast
    ultimately show False using no by (simp add: reply_answer_def worker_reply_def)
  qed
qed

theorem locked_desktop_answers_nobody_witness:
  "let s = dchain_run letters dchain_init [DkWorker ELock]
   in \<forall>r. BoReturn 0 r \<in> set (br_out (dk_bridge (dchain_run letters s frame_shown))) \<longrightarrow>
        r \<in> {Inl NotAvailable, Inl NotRunning, Inl (WorkerError (rd_message ScreenLocked))}"
proof -
  let ?s = "dchain_run letters dchain_init [DkWorker ELock]"
  have "rd_locked (dk_worker ?s)" "DkWorker EUnlock \<notin> set frame_shown" "br_next (dk_bridge ?s) \<le> 0"
    by (simp_all add: dchain_init_def rd_start_def worker_moves_def worker_own_def frame_shown_def bridge_init_def rd_defs Let_def)
  moreover have "\<forall>n. scalars (letters n)" "\<forall>e \<in> set ([DkWorker ELock] @ frame_shown). dchain_event_ok e"
    using letters_scalar frame_shown_ok(1) by (auto simp: heard_ok_def)
  ultimately show ?thesis unfolding Let_def using locked_desktop_answers_nobody [OF inj_letters _ _ refl] by blast
qed

end
