(* ===== verification/Hub.thy ===== *)
theory Hub
  imports Wire
begin

text \<open>
  The signalling hub of the server, \<open>remoteAgent\<close> and \<open>remoteBrowser\<close> of \<open>internal/server/remote.go\<close>:
  the tables of device connections and of browser sessions, and the handlers of both kinds of
  connections. Handlers run concurrently; a step is one read and what the handler does with it, or one
  of the sections before and after its loop.

  Connections are numbered as they are accepted. Of the outside the events carry: whether the
  credentials are (still) valid, what the device list says, whether a write succeeded and whether
  \<open>remote.New\<close> made a session. The audit log, deadlines and HTTP upgrades are left out.
\<close>

section \<open>State\<close>

record message =
  ms_sid :: jstext
  ms_type :: jstext
  ms_data :: "json option"

datatype hub_stage = HubChecked | HubServing | HubLeaving

record browser_handler =
  bh_device :: jstext
  bh_os :: jstext
  bh_mode :: jstext
  bh_agent :: "nat option"
  bh_offered :: bool
  bh_local :: bool
  bh_stage :: hub_stage

text \<open>
  The trace: what is read from and written to the connections, connections closed, sessions of the
  server itself, errors answered, and connections accepted.
\<close>

datatype hub_out =
    AgentUp nat jstext | Opened nat jstext jstext jstext
  | FromAgent nat message | FromBrowser nat message
  | ToAgent nat message | ToBrowser nat message
  | CloseAgent nat | CloseBrowser nat
  | LocalNew nat json | LocalRelay nat "json option" | LocalClose nat
  | HttpError nat

record hub =
  hb_agents :: "(jstext \<times> nat) list"
  hb_browsers :: "(jstext \<times> nat \<times> jstext) list"
  hb_conns :: "(nat \<times> jstext) list"
  hb_handlers :: "(nat \<times> browser_handler) list"
  hb_next_conn :: nat
  hb_next_handler :: nat
  hb_out :: "hub_out list"

text \<open>
  \<open>hb_agents\<close> and \<open>hb_browsers\<close> are the two maps of \<open>remoteHub\<close>; \<open>hb_conns\<close> and \<open>hb_handlers\<close> are
  the handlers that run, with their local variables. \<open>token n\<close> is the identifier made for handler \<open>n\<close>.
\<close>

definition hub_init :: hub where
  "hub_init = \<lparr>hb_agents = [], hb_browsers = [], hb_conns = [], hb_handlers = [], hb_next_conn = 0,
     hb_next_handler = 0, hb_out = []\<rparr>"

definition hub_emit :: "hub_out list \<Rightarrow> hub \<Rightarrow> hub" where
  "hub_emit os s = s\<lparr>hb_out := hb_out s @ os\<rparr>"

definition plain_msg :: "string \<Rightarrow> message" where
  "plain_msg t = \<lparr>ms_sid = [], ms_type = asc t, ms_data = None\<rparr>"

section \<open>Devices\<close>

text \<open>\<open>id\<close> is the device the request's token belongs to (\<open>None\<close> when it belongs to none).\<close>

definition agent_connect :: "jstext option \<Rightarrow> hub \<Rightarrow> hub" where
  "agent_connect who s =
     (case who of
        None \<Rightarrow> hub_emit [HttpError 401] s
      | Some d \<Rightarrow>
          if d = asc ''cloud'' then hub_emit [HttpError 401] s
          else
            let c = hb_next_conn s
            in hub_emit (AgentUp c d # (case map_of (hb_agents s) d of None \<Rightarrow> [] | Some old \<Rightarrow> [CloseAgent old]))
                 (s\<lparr>hb_next_conn := Suc c, hb_agents := AList.update d c (hb_agents s),
                    hb_conns := (c, d) # hb_conns s\<rparr>))"

text \<open>The deferred function: only the device's current connection takes its browsers down.\<close>

definition agent_leave :: "nat \<Rightarrow> hub \<Rightarrow> hub" where
  "agent_leave c s =
     (case map_of (hb_conns s) c of
        None \<Rightarrow> s
      | Some d \<Rightarrow>
          let s1 = hub_emit [CloseAgent c] (s\<lparr>hb_conns := AList.delete c (hb_conns s)\<rparr>)
          in if map_of (hb_agents s1) d = Some c
             then hub_emit (map (\<lambda>(sid, n, d'). CloseBrowser n) (filter (\<lambda>(sid, n, d'). d' = d) (hb_browsers s1)))
                    (s1\<lparr>hb_agents := AList.delete d (hb_agents s1)\<rparr>)
             else s1)"

text \<open>\<open>valid\<close>: the device still has this token; \<open>sent\<close>: the write succeeds.\<close>

definition agent_message :: "nat \<Rightarrow> message \<Rightarrow> bool \<Rightarrow> bool \<Rightarrow> hub \<Rightarrow> hub" where
  "agent_message c m valid sent s =
     (case map_of (hb_conns s) c of
        None \<Rightarrow> s
      | Some d \<Rightarrow>
          let s1 = hub_emit [FromAgent c m] s
          in if \<not> valid then agent_leave c s1
             else if ms_type m = asc ''ping'' then (if sent then hub_emit [ToAgent c (plain_msg ''pong'')] s1 else s1)
             else if ms_type m \<notin> {asc ''answer'', asc ''relay'', asc ''error''} then s1
             else (case map_of (hb_browsers s1) (ms_sid m) of
                     None \<Rightarrow> s1
                   | Some (n, d') \<Rightarrow>
                       if d' \<noteq> d then s1
                       else if sent then hub_emit [ToBrowser n m] s1 else hub_emit [CloseBrowser n] s1))"

section \<open>Browsers\<close>

definition session_limit :: nat where
  "session_limit = 32"

text \<open>\<open>os\<close>: the operating system of the device, if it is known.\<close>

definition browser_check :: "jstext \<Rightarrow> jstext \<Rightarrow> jstext option \<Rightarrow> hub \<Rightarrow> hub" where
  "browser_check d mode os s =
     (if mode \<notin> {asc ''ssh'', asc ''files'', asc ''desktop''} then hub_emit [HttpError 400] s
      else case os of
             None \<Rightarrow> hub_emit [HttpError 404] s
           | Some o1 \<Rightarrow>
               if mode = asc ''desktop'' \<and> o1 \<noteq> asc ''windows'' then hub_emit [HttpError 400] s
               else if session_limit \<le> length (hb_browsers s) then hub_emit [HttpError 429] s
               else if d \<noteq> asc ''cloud'' \<and> map_of (hb_agents s) d = None then hub_emit [HttpError 503] s
               else
                 s\<lparr>hb_next_handler := Suc (hb_next_handler s),
                   hb_handlers := (hb_next_handler s,
                     \<lparr>bh_device = d, bh_os = o1, bh_mode = mode, bh_agent = map_of (hb_agents s) d, bh_offered = False,
                      bh_local = False, bh_stage = HubChecked\<rparr>) # hb_handlers s\<rparr>)"

definition set_handler :: "nat \<Rightarrow> browser_handler \<Rightarrow> hub \<Rightarrow> hub" where
  "set_handler n h s = s\<lparr>hb_handlers := AList.update n h (hb_handlers s)\<rparr>"

text \<open>After the upgrade: the session is entered under its new identifier.\<close>

definition browser_open :: "(nat \<Rightarrow> jstext) \<Rightarrow> nat \<Rightarrow> bool \<Rightarrow> hub \<Rightarrow> hub" where
  "browser_open token n upgraded s =
     (case map_of (hb_handlers s) n of
        None \<Rightarrow> s
      | Some h \<Rightarrow>
          if bh_stage h \<noteq> HubChecked then s
          else if \<not> upgraded then s\<lparr>hb_handlers := AList.delete n (hb_handlers s)\<rparr>
          else hub_emit [Opened n (bh_device h) (bh_mode h) (bh_os h)]
                 (set_handler n (h\<lparr>bh_stage := HubServing\<rparr>)
                    (s\<lparr>hb_browsers := AList.update (token n) (n, bh_device h) (hb_browsers s)\<rparr>)))"

text \<open>The deferred functions, in two steps: the close message, then the table.\<close>

definition browser_leave :: "(nat \<Rightarrow> jstext) \<Rightarrow> nat \<Rightarrow> browser_handler \<Rightarrow> bool \<Rightarrow> hub \<Rightarrow> hub" where
  "browser_leave token n h sent s =
     hub_emit
       ((if bh_local h then [LocalClose n] else [])
        @ (case bh_agent h of
             None \<Rightarrow> []
           | Some a \<Rightarrow> if sent then [ToAgent a \<lparr>ms_sid = token n, ms_type = asc ''close'', ms_data = None\<rparr>] else []))
       (set_handler n (h\<lparr>bh_stage := HubLeaving\<rparr>) s)"

definition browser_forget :: "(nat \<Rightarrow> jstext) \<Rightarrow> nat \<Rightarrow> hub \<Rightarrow> hub" where
  "browser_forget token n s =
     (case map_of (hb_handlers s) n of
        None \<Rightarrow> s
      | Some h \<Rightarrow>
          if bh_stage h \<noteq> HubLeaving then s
          else hub_emit [CloseBrowser n]
                 (s\<lparr>hb_browsers := AList.delete (token n) (hb_browsers s), hb_handlers := AList.delete n (hb_handlers s)\<rparr>))"

text \<open>
  \<open>json.Unmarshal\<close> into an \<open>Offer\<close> and \<open>json.Marshal\<close> of it with the handler's mode. What the WebRTC
  library makes of the description is the parameter \<open>sdp\<close>.
\<close>

definition read_offer :: "(json option \<Rightarrow> json option) \<Rightarrow> json option \<Rightarrow> json option" where
  "read_offer sdp d =
     (case d of
        None \<Rightarrow> None
      | Some m \<Rightarrow>
          (case m of
             JObj kvs \<Rightarrow> (case go_text_field m ''mode'' of None \<Rightarrow> None | Some t \<Rightarrow> sdp (jget m (asc ''sdp'')))
           | JNull \<Rightarrow> sdp None
           | _ \<Rightarrow> None))"

definition offer_json :: "json \<Rightarrow> jstext \<Rightarrow> json" where
  "offer_json sdp mode = JObj [(asc ''sdp'', sdp), (asc ''mode'', JStr mode)]"

text \<open>\<open>made\<close>: what \<open>remote.New\<close> returned on the server's own session.\<close>

definition on_offer_msg :: "(nat \<Rightarrow> jstext) \<Rightarrow> (json option \<Rightarrow> json option) \<Rightarrow> nat \<Rightarrow> browser_handler \<Rightarrow> message \<Rightarrow>
    bool \<Rightarrow> jstext option \<Rightarrow> hub \<Rightarrow> hub" where
  "on_offer_msg token sdp n h m sent made s =
     (if bh_offered h then browser_leave token n h sent s
      else
        let h1 = h\<lparr>bh_offered := True\<rparr>
        in case read_offer sdp (ms_data m) of
             None \<Rightarrow> browser_leave token n h1 sent s
           | Some o1 \<Rightarrow>
               let d = offer_json o1 (bh_mode h)
               in if bh_device h = asc ''cloud'' then
                    (case made of
                       None \<Rightarrow> hub_emit [LocalNew n d] (set_handler n (h1\<lparr>bh_local := True\<rparr>) s)
                     | Some e \<Rightarrow>
                         browser_leave token n h1 sent
                           (hub_emit [ToBrowser n \<lparr>ms_sid = [], ms_type = asc ''error'', ms_data = Some (JStr e)\<rparr>] s))
                  else
                    (case bh_agent h of
                       Some a \<Rightarrow>
                         if sent then hub_emit [ToAgent a (m\<lparr>ms_sid := token n, ms_data := Some d\<rparr>)] (set_handler n h1 s)
                         else browser_leave token n h1 sent s
                     | None \<Rightarrow> browser_leave token n h1 sent s))"

definition on_relay_msg :: "(nat \<Rightarrow> jstext) \<Rightarrow> nat \<Rightarrow> browser_handler \<Rightarrow> message \<Rightarrow> bool \<Rightarrow> hub \<Rightarrow> hub" where
  "on_relay_msg token n h m sent s =
     (if \<not> bh_offered h then browser_leave token n h sent s
      else if bh_local h then hub_emit [LocalRelay n (ms_data m)] s
      else case bh_agent h of
             Some a \<Rightarrow> if sent then hub_emit [ToAgent a (m\<lparr>ms_sid := token n\<rparr>)] s else browser_leave token n h sent s
           | None \<Rightarrow> browser_leave token n h sent s)"

definition browser_message :: "(nat \<Rightarrow> jstext) \<Rightarrow> (json option \<Rightarrow> json option) \<Rightarrow> nat \<Rightarrow> message \<Rightarrow> bool \<Rightarrow>
    bool \<Rightarrow> jstext option \<Rightarrow> hub \<Rightarrow> hub" where
  "browser_message token sdp n m admin sent made s =
     (case map_of (hb_handlers s) n of
        None \<Rightarrow> s
      | Some h \<Rightarrow>
          if bh_stage h \<noteq> HubServing then s
          else
            let s1 = hub_emit [FromBrowser n m] s
            in if \<not> admin then browser_leave token n h sent s1
               else if ms_type m = asc ''offer'' then on_offer_msg token sdp n h m sent made s1
               else if ms_type m = asc ''relay'' then on_relay_msg token n h m sent s1
               else if ms_type m = asc ''ping'' then
                 (if sent then hub_emit [ToBrowser n (plain_msg ''pong'')] s1 else s1)
               else browser_leave token n h sent s1)"

text \<open>A read fails (the connection is closed, a time-out, the 30 minutes are over).\<close>

definition browser_gone :: "(nat \<Rightarrow> jstext) \<Rightarrow> nat \<Rightarrow> bool \<Rightarrow> hub \<Rightarrow> hub" where
  "browser_gone token n sent s =
     (case map_of (hb_handlers s) n of
        None \<Rightarrow> s
      | Some h \<Rightarrow> if bh_stage h \<noteq> HubServing then s else browser_leave token n h sent s)"

text \<open>The server's own session sends an answer, an error or a relayed message.\<close>

definition local_send :: "nat \<Rightarrow> jstext \<Rightarrow> json \<Rightarrow> hub \<Rightarrow> hub" where
  "local_send n kind v s =
     (if \<exists>d \<in> set (hb_out s). (case d of LocalNew k x \<Rightarrow> k = n | _ \<Rightarrow> False)
      then hub_emit [ToBrowser n \<lparr>ms_sid = [], ms_type = kind, ms_data = Some v\<rparr>] s else s)"

section \<open>Steps\<close>

datatype hub_event =
    HuAgent "jstext option" | HuAgentMsg nat message bool bool | HuAgentGone nat
  | HuCheck jstext jstext "jstext option" | HuOpen nat bool
  | HuBrowserMsg nat message bool bool "jstext option" | HuBrowserGone nat bool | HuForget nat
  | HuLocal nat jstext json

fun hub_step :: "(nat \<Rightarrow> jstext) \<Rightarrow> (json option \<Rightarrow> json option) \<Rightarrow> hub \<Rightarrow> hub_event \<Rightarrow> hub" where
  "hub_step token sdp s (HuAgent who) = agent_connect who s"
| "hub_step token sdp s (HuAgentMsg c m valid sent) = agent_message c m valid sent s"
| "hub_step token sdp s (HuAgentGone c) = agent_leave c s"
| "hub_step token sdp s (HuCheck d mode os) = browser_check d mode os s"
| "hub_step token sdp s (HuOpen n ok) = browser_open token n ok s"
| "hub_step token sdp s (HuBrowserMsg n m admin sent made) = browser_message token sdp n m admin sent made s"
| "hub_step token sdp s (HuBrowserGone n sent) = browser_gone token n sent s"
| "hub_step token sdp s (HuForget n) = browser_forget token n s"
| "hub_step token sdp s (HuLocal n kind v) = local_send n kind v s"

abbreviation "hub_run token sdp \<equiv> run (hub_step token sdp)"

named_theorems hub_defs \<open>the handlers of the hub\<close>

lemmas [hub_defs] =
  hub_emit_def agent_connect_def agent_leave_def agent_message_def browser_check_def set_handler_def browser_open_def
  browser_leave_def browser_forget_def on_offer_msg_def on_relay_msg_def browser_message_def browser_gone_def local_send_def

end
