(* ===== verification/Hub_Props.thy ===== *)
theory Hub_Props
  imports Hub
begin

text \<open>
  The invariant of the signalling hub and what it promises: sessions are isolated from each other, the
  mode a device is asked for is the one the server checked, and nothing stays in the tables.
\<close>

section \<open>What is sent\<close>

text \<open>The sessions whose offer went to a device, in order.\<close>

fun offer_in :: "hub_out \<Rightarrow> jstext list" where
  "offer_in (ToAgent c m) = (if ms_type m = asc ''offer'' then [ms_sid m] else [])" | "offer_in _ = []"

definition offers_of :: "hub_out list \<Rightarrow> jstext list" where
  "offers_of os = concat (map offer_in os)"

lemma offers_simps [simp]: "offers_of [] = []" "offers_of (x # os) = offer_in x @ offers_of os"
  "offers_of (os @ ps) = offers_of os @ offers_of ps"
  by (simp_all add: offers_of_def)

definition modes :: "jstext set" where
  "modes = {asc ''ssh'', asc ''files'', asc ''desktop''}"

definition mode_ok :: "jstext \<Rightarrow> jstext \<Rightarrow> bool" where
  "mode_ok mode os \<longleftrightarrow> mode \<in> modes \<and> (mode = asc ''desktop'' \<longrightarrow> os = asc ''windows'')"

text \<open>A message of the session's own device, under the session's identifier; or the server's own.\<close>

definition from_device :: "(nat \<Rightarrow> jstext) \<Rightarrow> hub_out set \<Rightarrow> nat \<Rightarrow> message \<Rightarrow> bool" where
  "from_device token os n m \<longleftrightarrow>
     (\<exists>c d mode sys. AgentUp c d \<in> os \<and> Opened n d mode sys \<in> os \<and> FromAgent c m \<in> os \<and> ms_sid m = token n
        \<and> ms_type m \<in> {asc ''answer'', asc ''relay'', asc ''error''})"

definition from_server :: "hub_out set \<Rightarrow> nat \<Rightarrow> message \<Rightarrow> bool" where
  "from_server os n m \<longleftrightarrow>
     m = plain_msg ''pong'' \<or> (ms_sid m = [] \<and> (\<exists>mode sys. Opened n (asc ''cloud'') mode sys \<in> os))"

text \<open>
  What a session of the device may make the server send: its own relayed messages, its offer with the
  mode that was checked, and the close message.
\<close>

definition passed_on :: "(nat \<Rightarrow> jstext) \<Rightarrow> (json option \<Rightarrow> json option) \<Rightarrow> hub_out set \<Rightarrow> nat \<Rightarrow> jstext \<Rightarrow> message \<Rightarrow> bool" where
  "passed_on token sdp os n mode m \<longleftrightarrow>
     ms_sid m = token n
     \<and> (ms_type m = asc ''close''
        \<or> (\<exists>m0. FromBrowser n m0 \<in> os \<and> ms_type m = ms_type m0
              \<and> (ms_type m0 = asc ''relay'' \<and> ms_data m = ms_data m0
                 \<or> ms_type m0 = asc ''offer'' \<and> (\<exists>x. read_offer sdp (ms_data m0) = Some x \<and> ms_data m = Some (offer_json x mode)))))"

fun out_ok :: "(nat \<Rightarrow> jstext) \<Rightarrow> (json option \<Rightarrow> json option) \<Rightarrow> hub_out set \<Rightarrow> hub_out \<Rightarrow> bool" where
  "out_ok token sdp os (ToBrowser n m) = (from_device token os n m \<or> from_server os n m)"
| "out_ok token sdp os (ToAgent c m) =
     (m = plain_msg ''pong''
      \<or> (\<exists>n d mode sys. AgentUp c d \<in> os \<and> Opened n d mode sys \<in> os \<and> passed_on token sdp os n mode m))"
| "out_ok token sdp os (Opened n d mode sys) = mode_ok mode sys"
| "out_ok token sdp os (LocalNew n v) = (\<exists>mode sys. Opened n (asc ''cloud'') mode sys \<in> os)"
| "out_ok token sdp os _ = True"

lemma sent_mono:
  assumes "os \<subseteq> ps"
  shows "from_device token os n m \<Longrightarrow> from_device token ps n m" "from_server os n m \<Longrightarrow> from_server ps n m"
    "passed_on token sdp os n mode m \<Longrightarrow> passed_on token sdp ps n mode m"
proof -
  show "from_device token os n m \<Longrightarrow> from_device token ps n m" using assms unfolding from_device_def by blast
  show "from_server os n m \<Longrightarrow> from_server ps n m" using assms unfolding from_server_def by blast
  show "passed_on token sdp os n mode m \<Longrightarrow> passed_on token sdp ps n mode m" using assms unfolding passed_on_def by blast
qed

lemma out_ok_mono: "os \<subseteq> ps \<Longrightarrow> out_ok token sdp os x \<Longrightarrow> out_ok token sdp ps x"
  using sent_mono [of os ps] by (cases x) (simp, blast | simp)+

section \<open>The invariant\<close>

definition handler_ok :: "(nat \<Rightarrow> jstext) \<Rightarrow> hub_out list \<Rightarrow> nat \<Rightarrow> browser_handler \<Rightarrow> bool" where
  "handler_ok token os n h \<longleftrightarrow>
     mode_ok (bh_mode h) (bh_os h)
     \<and> (bh_stage h \<noteq> HubChecked \<longrightarrow> Opened n (bh_device h) (bh_mode h) (bh_os h) \<in> set os)
     \<and> (\<forall>a. bh_agent h = Some a \<longrightarrow> AgentUp a (bh_device h) \<in> set os)
     \<and> (\<not> bh_offered h \<longrightarrow> token n \<notin> set (offers_of os))
     \<and> (bh_stage h = HubChecked \<longrightarrow> \<not> bh_offered h \<and> (\<forall>d mode sys. Opened n d mode sys \<notin> set os))"

definition tables_ok :: "(nat \<Rightarrow> jstext) \<Rightarrow> hub \<Rightarrow> bool" where
  "tables_ok token s \<longleftrightarrow>
     (\<forall>d c. map_of (hb_agents s) d = Some c \<longrightarrow> map_of (hb_conns s) c = Some d)
     \<and> (\<forall>c d. map_of (hb_conns s) c = Some d \<longrightarrow> c < hb_next_conn s \<and> AgentUp c d \<in> set (hb_out s))
     \<and> (\<forall>i x. map_of (hb_browsers s) i = Some x \<longleftrightarrow>
          (\<exists>n h. map_of (hb_handlers s) n = Some h \<and> bh_stage h \<noteq> HubChecked \<and> i = token n \<and> x = (n, bh_device h)))
     \<and> (\<forall>n h. map_of (hb_handlers s) n = Some h \<longrightarrow> n < hb_next_handler s \<and> handler_ok token (hb_out s) n h)"

definition trace_ok :: "(nat \<Rightarrow> jstext) \<Rightarrow> (json option \<Rightarrow> json option) \<Rightarrow> hub \<Rightarrow> bool" where
  "trace_ok token sdp s \<longleftrightarrow>
     (\<forall>x \<in> set (hb_out s). out_ok token sdp (set (hb_out s)) x)
     \<and> distinct (offers_of (hb_out s)) \<and> set (offers_of (hb_out s)) \<subseteq> token ` {..<hb_next_handler s}
     \<and> (\<forall>c d. AgentUp c d \<in> set (hb_out s) \<longrightarrow> c < hb_next_conn s \<and> (\<forall>d'. AgentUp c d' \<in> set (hb_out s) \<longrightarrow> d' = d))
     \<and> (\<forall>n d mode sys. Opened n d mode sys \<in> set (hb_out s) \<longrightarrow>
          n < hb_next_handler s \<and> (\<forall>d' mode' sys'. Opened n d' mode' sys' \<in> set (hb_out s) \<longrightarrow> d' = d \<and> mode' = mode \<and> sys' = sys))"

definition hub_inv :: "(nat \<Rightarrow> jstext) \<Rightarrow> (json option \<Rightarrow> json option) \<Rightarrow> hub \<Rightarrow> bool" where
  "hub_inv token sdp s \<longleftrightarrow> inj token \<and> tables_ok token s \<and> trace_ok token sdp s"

lemma hub_inv_init: "inj token \<Longrightarrow> hub_inv token sdp hub_init"
  by (simp add: hub_inv_def tables_ok_def trace_ok_def hub_init_def)

lemma hub_facts:
  assumes "hub_inv token sdp s"
  shows "map_of (hb_browsers s) i = Some (n, d) \<Longrightarrow>
      \<exists>h. map_of (hb_handlers s) n = Some h \<and> bh_stage h \<noteq> HubChecked \<and> i = token n \<and> d = bh_device h"
    and "map_of (hb_handlers s) n = Some h \<Longrightarrow> handler_ok token (hb_out s) n h"
    and "map_of (hb_conns s) c = Some d \<Longrightarrow> AgentUp c d \<in> set (hb_out s)"
  using assms by (simp_all add: hub_inv_def tables_ok_def)

text \<open>Writing to the trace, other than accepting a connection or passing an offer on.\<close>

definition plain_out :: "hub_out \<Rightarrow> bool" where
  "plain_out x \<longleftrightarrow> offer_in x = [] \<and> (\<forall>c d. x \<noteq> AgentUp c d) \<and> (\<forall>n d mode sys. x \<noteq> Opened n d mode sys)"

lemma plain_offers: "\<forall>x \<in> set xs. plain_out x \<Longrightarrow> offers_of xs = []"
  by (induction xs) (auto simp: plain_out_def)

lemma handler_mono:
  "handler_ok token os n h \<Longrightarrow> set os \<subseteq> set ps \<Longrightarrow> token n \<notin> set (offers_of ps) \<or> bh_offered h \<Longrightarrow>
     \<forall>d mode sys. Opened n d mode sys \<in> set ps \<longrightarrow> Opened n d mode sys \<in> set os \<Longrightarrow> handler_ok token ps n h"
  by (auto simp: handler_ok_def)

lemma inv_emit:
  assumes "hub_inv token sdp s" "\<forall>x \<in> set xs. plain_out x \<and> out_ok token sdp (set (hb_out s @ xs)) x"
  shows "hub_inv token sdp (hub_emit xs s)"
proof -
  have o: "offers_of (hb_out s @ xs) = offers_of (hb_out s)" using assms(2) plain_offers [of xs] by simp
  have h: "handler_ok token (hb_out s @ xs) n h" if "handler_ok token (hb_out s) n h" for n h
    by (rule handler_mono [OF that]) (use that o assms(2) in \<open>auto simp: handler_ok_def plain_out_def simp del: offers_simps\<close>)
  have "tables_ok token (hub_emit xs s)"
    using assms(1) h by (auto simp: hub_inv_def tables_ok_def hub_emit_def)
  moreover have "\<forall>x \<in> set (hb_out s @ xs). out_ok token sdp (set (hb_out s @ xs)) x"
    using assms out_ok_mono [of "set (hb_out s)" "set (hb_out s @ xs)" token sdp]
    by (auto simp: hub_inv_def trace_ok_def)
  moreover have "AgentUp c d \<in> set (hb_out s @ xs) \<longleftrightarrow> AgentUp c d \<in> set (hb_out s)"
    "Opened n d mode sys \<in> set (hb_out s @ xs) \<longleftrightarrow> Opened n d mode sys \<in> set (hb_out s)" for c d n mode sys
    using assms(2) by (auto simp: plain_out_def)
  ultimately show ?thesis
    using assms(1) o unfolding hub_inv_def trace_ok_def by (simp add: hub_emit_def del: offers_simps)
qed

lemma inv_set:
  assumes "hub_inv token sdp s" "map_of (hb_handlers s) n = Some h" "handler_ok token (hb_out s) n h'"
    and "bh_device h' = bh_device h" "bh_stage h' = HubChecked \<longleftrightarrow> bh_stage h = HubChecked"
  shows "hub_inv token sdp (set_handler n h' s)"
proof -
  have "tables_ok token (set_handler n h' s)"
    using assms unfolding hub_inv_def tables_ok_def set_handler_def by (auto simp: update_conv' split: if_splits)
  with assms(1) show ?thesis by (simp add: hub_inv_def trace_ok_def set_handler_def)
qed

section \<open>Devices come and go\<close>

lemma hub_emit_emit: "hub_emit ys (hub_emit xs s) = hub_emit (xs @ ys) s"
  by (simp add: hub_emit_def)

lemma inv_connect:
  assumes "hub_inv token sdp s"
  shows "hub_inv token sdp (agent_connect who s)"
proof (cases "who = None \<or> who = Some (asc ''cloud'')")
  case True
  have "hub_inv token sdp (hub_emit [HttpError 401] s)" by (rule inv_emit) (use assms in \<open>simp_all add: plain_out_def\<close>)
  with True show ?thesis by (auto simp: agent_connect_def)
next
  case False
  then obtain d where d: "who = Some d" "d \<noteq> asc ''cloud''" by (cases who) auto
  let ?c = "hb_next_conn s"
  let ?t = "hub_emit [AgentUp ?c d] (s\<lparr>hb_next_conn := Suc ?c, hb_agents := AList.update d ?c (hb_agents s),
      hb_conns := (?c, d) # hb_conns s\<rparr>)"
  have new: "map_of (hb_conns s) ?c = None" "AgentUp ?c d' \<notin> set (hb_out s)" for d'
    using assms unfolding hub_inv_def tables_ok_def trace_ok_def by (metis less_irrefl not_None_eq, metis less_irrefl)
  have "tables_ok token ?t"
    using assms new(1) handler_mono [of token "hb_out s" _ _ "hb_out s @ [AgentUp ?c d]"]
    unfolding hub_inv_def tables_ok_def
    by (auto simp: hub_emit_def update_conv' handler_ok_def less_Suc_eq split: if_splits)
  moreover have "trace_ok token sdp ?t"
    using assms new(2) out_ok_mono [of "set (hb_out s)" "set (hb_out ?t)" token sdp]
    unfolding hub_inv_def trace_ok_def by (auto simp: hub_emit_def less_Suc_eq)
  ultimately have t: "hub_inv token sdp ?t" using assms by (simp add: hub_inv_def)
  have "hub_inv token sdp (hub_emit (case map_of (hb_agents s) d of None \<Rightarrow> [] | Some old \<Rightarrow> [CloseAgent old]) ?t)"
    by (rule inv_emit [OF t]) (auto simp: plain_out_def split: option.split)
  with d show ?thesis by (simp add: agent_connect_def Let_def hub_emit_emit)
qed

lemma inv_agent_leave:
  assumes "hub_inv token sdp s"
  shows "hub_inv token sdp (agent_leave c s)"
proof (cases "map_of (hb_conns s) c")
  case (Some d)
  let ?s = "s\<lparr>hb_conns := AList.delete c (hb_conns s)\<rparr>"
  show ?thesis
  proof (cases "map_of (hb_agents s) d = Some c")
    case True
    let ?t = "?s\<lparr>hb_agents := AList.delete d (hb_agents s)\<rparr>"
    let ?xs = "map (\<lambda>(sid, n, d'). CloseBrowser n) (filter (\<lambda>(sid, n, d'). d' = d) (hb_browsers s))"
    have "hub_inv token sdp ?t"
      using assms Some unfolding hub_inv_def tables_ok_def trace_ok_def by (auto simp: delete_conv' split: if_splits)
    then have "hub_inv token sdp (hub_emit (CloseAgent c # ?xs) ?t)"
      by (rule inv_emit) (auto simp: plain_out_def)
    with Some True show ?thesis by (simp add: agent_leave_def Let_def hub_emit_def)
  next
    case False
    then have "hub_inv token sdp ?s"
      using assms Some unfolding hub_inv_def tables_ok_def trace_ok_def by (auto simp: delete_conv')
    then have "hub_inv token sdp (hub_emit [CloseAgent c] ?s)"
      by (rule inv_emit) (simp add: plain_out_def)
    with Some False show ?thesis by (simp add: agent_leave_def Let_def hub_emit_def)
  qed
qed (simp add: agent_leave_def assms)

lemma inv_agent_message:
  assumes "hub_inv token sdp s"
  shows "hub_inv token sdp (agent_message c m valid sent s)"
proof (cases "map_of (hb_conns s) c")
  case (Some d)
  let ?s = "hub_emit [FromAgent c m] s"
  have s: "hub_inv token sdp ?s" by (rule inv_emit) (use assms in \<open>simp_all add: plain_out_def\<close>)
  have "hub_inv token sdp (hub_emit [ToAgent c (plain_msg ''pong'')] ?s)"
    "hub_inv token sdp (hub_emit [CloseBrowser n] ?s)" for n
    by (rule inv_emit [OF s], simp add: plain_out_def plain_msg_def)+
  moreover have "hub_inv token sdp (hub_emit [ToBrowser n m] ?s)"
    if b: "map_of (hb_browsers s) (ms_sid m) = Some (n, d)" and t: "ms_type m \<in> {asc ''answer'', asc ''relay'', asc ''error''}" for n
  proof (rule inv_emit [OF s])
    obtain h where h: "map_of (hb_handlers s) n = Some h" "bh_stage h \<noteq> HubChecked" "ms_sid m = token n" "d = bh_device h"
      using hub_facts(1) [OF assms b] by blast
    then have "Opened n d (bh_mode h) (bh_os h) \<in> set (hb_out s)" "AgentUp c d \<in> set (hb_out s)"
      using hub_facts(2,3) [OF assms] Some unfolding handler_ok_def by blast+
    then have "from_device token (set (hb_out ?s @ [ToBrowser n m])) n m"
      using h(3) t unfolding from_device_def by (auto simp: hub_emit_def)
    then show "\<forall>x \<in> set [ToBrowser n m]. plain_out x \<and> out_ok token sdp (set (hb_out ?s @ [ToBrowser n m])) x"
      by (simp add: plain_out_def)
  qed
  ultimately show ?thesis using s inv_agent_leave [OF s] Some
    by (auto simp: agent_message_def Let_def hub_emit_def [of "[FromAgent c m]"] split: option.split)
qed (simp add: agent_message_def assms)

section \<open>Browsers come and go\<close>

lemma inv_http: "hub_inv token sdp s \<Longrightarrow> hub_inv token sdp (hub_emit [HttpError k] s)"
  by (rule inv_emit) (simp_all add: plain_out_def)

lemma inv_check:
  assumes "hub_inv token sdp s"
  shows "hub_inv token sdp (browser_check d mode sys s)"
proof -
  have "hub_inv token sdp (s\<lparr>hb_next_handler := Suc (hb_next_handler s),
      hb_handlers := (hb_next_handler s,
        \<lparr>bh_device = d, bh_os = o1, bh_mode = mode, bh_agent = map_of (hb_agents s) d, bh_offered = False,
         bh_local = False, bh_stage = HubChecked\<rparr>) # hb_handlers s\<rparr>)" if m: "mode_ok mode o1" for o1
  proof -
    have new: "map_of (hb_handlers s) (hb_next_handler s) = None"
      using assms unfolding hub_inv_def tables_ok_def by (metis less_irrefl not_None_eq)
    have off: "token (hb_next_handler s) \<notin> set (offers_of (hb_out s))"
      using assms unfolding hub_inv_def trace_ok_def by (auto simp: inj_eq)
    have op: "Opened (hb_next_handler s) d' mode' sys' \<notin> set (hb_out s)" for d' mode' sys'
      using assms unfolding hub_inv_def trace_ok_def by blast
    have "AgentUp a d \<in> set (hb_out s)" if "map_of (hb_agents s) d = Some a" for a
      using assms that unfolding hub_inv_def tables_ok_def by blast
    with assms new off op m show ?thesis
      unfolding hub_inv_def tables_ok_def trace_ok_def by (auto simp: handler_ok_def less_Suc_eq split: if_splits)
  qed
  with assms inv_http show ?thesis
    by (auto simp: browser_check_def mode_ok_def modes_def split: option.split)
qed

lemma inv_browser_open:
  assumes "hub_inv token sdp s"
  shows "hub_inv token sdp (browser_open token n ok s)"
proof (cases "\<exists>h. map_of (hb_handlers s) n = Some h \<and> bh_stage h = HubChecked")
  case True
  then obtain h where h: "map_of (hb_handlers s) n = Some h" "bh_stage h = HubChecked" by blast
  let ?x = "Opened n (bh_device h) (bh_mode h) (bh_os h)" and ?h = "h\<lparr>bh_stage := HubServing\<rparr>"
  let ?t = "hub_emit [?x] (s\<lparr>hb_browsers := AList.update (token n) (n, bh_device h) (hb_browsers s),
      hb_handlers := AList.update n ?h (hb_handlers s)\<rparr>)"
  have ho: "handler_ok token (hb_out s) n h" using hub_facts(2) [OF assms h(1)] .
  have "handler_ok token (hb_out s @ [?x]) k g" if "handler_ok token (hb_out s) k g" "k \<noteq> n" for k g
    by (rule handler_mono [OF that(1)]) (use that in \<open>auto simp: handler_ok_def\<close>)
  moreover have "handler_ok token (hb_out s @ [?x]) n ?h" using ho h(2) by (auto simp: handler_ok_def)
  moreover have "inj token" using assms by (simp add: hub_inv_def)
  ultimately have "tables_ok token ?t"
    using assms h unfolding hub_inv_def tables_ok_def
    by (auto simp: hub_emit_def update_conv' inj_eq split: if_splits)
  moreover have "trace_ok token sdp ?t"
  proof -
    have "Opened n d mode sys \<notin> set (hb_out s)" for d mode sys using ho h(2) by (simp add: handler_ok_def)
    moreover have "n < hb_next_handler s" using assms h(1) by (auto simp: hub_inv_def tables_ok_def)
    moreover have "out_ok token sdp (set (hb_out ?t)) ?x" using ho by (simp add: handler_ok_def)
    moreover have t: "hb_out ?t = hb_out s @ [?x]" "hb_next_handler ?t = hb_next_handler s" "hb_next_conn ?t = hb_next_conn s"
      by (simp_all add: hub_emit_def)
    moreover have "out_ok token sdp (set (hb_out ?t)) x" if "out_ok token sdp (set (hb_out s)) x" for x
      by (rule out_ok_mono [OF _ that]) (auto simp: t)
    ultimately show ?thesis using assms unfolding hub_inv_def trace_ok_def by auto
  qed
  ultimately have "hub_inv token sdp ?t" using assms by (simp add: hub_inv_def)
  moreover have "hub_inv token sdp (s\<lparr>hb_handlers := AList.delete n (hb_handlers s)\<rparr>)"
    using assms h unfolding hub_inv_def tables_ok_def trace_ok_def by (auto simp: delete_conv' split: if_splits)
  ultimately show ?thesis using h by (simp add: browser_open_def set_handler_def)
next
  case False
  then have "browser_open token n ok s = s" by (auto simp: browser_open_def split: option.split)
  with assms show ?thesis by simp
qed

lemma inv_browser_forget:
  assumes "hub_inv token sdp s"
  shows "hub_inv token sdp (browser_forget token n s)"
proof (cases "\<exists>h. map_of (hb_handlers s) n = Some h \<and> bh_stage h = HubLeaving")
  case True
  then obtain h where h: "map_of (hb_handlers s) n = Some h" "bh_stage h = HubLeaving" by blast
  have "inj token" using assms by (simp add: hub_inv_def)
  then have "hub_inv token sdp (s\<lparr>hb_browsers := AList.delete (token n) (hb_browsers s), hb_handlers := AList.delete n (hb_handlers s)\<rparr>)"
    using assms h unfolding hub_inv_def tables_ok_def trace_ok_def by (auto simp: delete_conv' inj_eq split: if_splits)
  then have "hub_inv token sdp (hub_emit [CloseBrowser n]
      (s\<lparr>hb_browsers := AList.delete (token n) (hb_browsers s), hb_handlers := AList.delete n (hb_handlers s)\<rparr>))"
    by (rule inv_emit) (simp add: plain_out_def)
  with h show ?thesis by (simp add: browser_forget_def)
next
  case False
  then have "browser_forget token n s = s" by (auto simp: browser_forget_def split: option.split)
  with assms show ?thesis by simp
qed

text \<open>A serving handler may set its flags and leave.\<close>

lemma inv_leave:
  assumes "hub_inv token sdp s" "map_of (hb_handlers s) n = Some g" "bh_stage g = HubServing"
    and "handler_ok token (hb_out s) n h" "bh_device h = bh_device g" "bh_stage h = HubServing"
  shows "hub_inv token sdp (browser_leave token n h sent s)"
proof -
  let ?s = "set_handler n (h\<lparr>bh_stage := HubLeaving\<rparr>) s"
  have s: "hub_inv token sdp ?s"
    by (rule inv_set [OF assms(1,2)]) (use assms(3-6) in \<open>auto simp: handler_ok_def\<close>)
  have c: "out_ok token sdp os (ToAgent a \<lparr>ms_sid = token n, ms_type = asc ''close'', ms_data = None\<rparr>)"
    if "bh_agent h = Some a" "set (hb_out s) \<subseteq> os" for a os
  proof -
    have "AgentUp a (bh_device h) \<in> os" "Opened n (bh_device h) (bh_mode h) (bh_os h) \<in> os"
      using assms(4,6) that unfolding handler_ok_def by auto
    then show ?thesis by (auto simp: passed_on_def)
  qed
  show ?thesis unfolding browser_leave_def
  proof (rule inv_emit [OF s])
    let ?xs = "(if bh_local h then [LocalClose n] else []) @ (case bh_agent h of None \<Rightarrow> []
        | Some a \<Rightarrow> if sent then [ToAgent a \<lparr>ms_sid = token n, ms_type = asc ''close'', ms_data = None\<rparr>] else [])"
    have "set (hb_out s) \<subseteq> set (hb_out ?s @ ?xs)" by (auto simp: set_handler_def)
    with c show "\<forall>x \<in> set ?xs. plain_out x \<and> out_ok token sdp (set (hb_out ?s @ ?xs)) x"
      by (cases "bh_agent h") (auto simp: plain_out_def simp del: out_ok.simps(2))
  qed
qed

text \<open>Passing an offer and a relayed message on.\<close>

lemma inv_pass_offer:
  assumes "hub_inv token sdp s" "map_of (hb_handlers s) n = Some h" "bh_stage h = HubServing" "\<not> bh_offered h"
    and "bh_agent h = Some a" "FromBrowser n m \<in> set (hb_out s)" "ms_type m = asc ''offer''"
    and "read_offer sdp (ms_data m) = Some v"
  shows "hub_inv token sdp (hub_emit [ToAgent a (m\<lparr>ms_sid := token n, ms_data := Some (offer_json v (bh_mode h))\<rparr>)]
      (set_handler n (h\<lparr>bh_offered := True\<rparr>) s))"
proof -
  let ?x = "ToAgent a (m\<lparr>ms_sid := token n, ms_data := Some (offer_json v (bh_mode h))\<rparr>)"
  let ?t = "hub_emit [?x] (set_handler n (h\<lparr>bh_offered := True\<rparr>) s)"
  have ho: "handler_ok token (hb_out s) n h" using hub_facts(2) [OF assms(1,2)] .
  have inj: "inj token" using assms(1) by (simp add: hub_inv_def)
  have off: "offers_of (hb_out ?t) = offers_of (hb_out s) @ [token n]" using assms(7) by (simp add: hub_emit_def set_handler_def)
  have "handler_ok token (hb_out s @ [?x]) k g" if "handler_ok token (hb_out s) k g" "k \<noteq> n" for k g
    by (rule handler_mono [OF that(1)]) (use that inj in \<open>auto simp: handler_ok_def inj_eq\<close>)
  moreover have "handler_ok token (hb_out s @ [?x]) n (h\<lparr>bh_offered := True\<rparr>)"
    using ho assms(3) by (auto simp: handler_ok_def)
  ultimately have "tables_ok token ?t"
    using assms(1-3) unfolding hub_inv_def tables_ok_def set_handler_def
    by (auto simp: hub_emit_def update_conv' split: if_splits)
  moreover have "trace_ok token sdp ?t"
  proof -
    have "out_ok token sdp (set (hb_out s @ [?x])) ?x"
      using ho assms(3,5-8) by (fastforce simp: handler_ok_def passed_on_def)
    moreover have "n < hb_next_handler s" using assms(1,2) by (auto simp: hub_inv_def tables_ok_def)
    moreover have "token n \<notin> set (offers_of (hb_out s))" using ho assms(4) by (simp add: handler_ok_def)
    moreover have "hb_out ?t = hb_out s @ [?x]" "hb_next_handler ?t = hb_next_handler s" "hb_next_conn ?t = hb_next_conn s"
      by (simp_all add: hub_emit_def set_handler_def)
    ultimately show ?thesis
      using assms(1) off out_ok_mono [of "set (hb_out s)" "set (hb_out ?t)" token sdp]
      unfolding hub_inv_def trace_ok_def by auto
  qed
  ultimately show ?thesis using inj by (simp add: hub_inv_def)
qed

lemma inv_browser_message:
  assumes "hub_inv token sdp s"
  shows "hub_inv token sdp (browser_message token sdp n m admin sent made s)"
proof (cases "\<exists>h. map_of (hb_handlers s) n = Some h \<and> bh_stage h = HubServing")
  case True
  then obtain h where h: "map_of (hb_handlers s) n = Some h" "bh_stage h = HubServing" by blast
  let ?s = "hub_emit [FromBrowser n m] s" and ?h = "h\<lparr>bh_offered := True\<rparr>"
  have s: "hub_inv token sdp ?s" by (rule inv_emit [OF assms]) (simp add: plain_out_def)
  have hs: "map_of (hb_handlers ?s) n = Some h" using h(1) by (simp add: hub_emit_def)
  have ho: "handler_ok token (hb_out ?s) n h" using hub_facts(2) [OF s hs] .
  have ho1: "handler_ok token (hb_out ?s) n ?h" using ho h(2) by (auto simp: handler_ok_def)
  have op: "Opened n (bh_device h) (bh_mode h) (bh_os h) \<in> set (hb_out ?s)" using ho h(2) by (auto simp: handler_ok_def)
  note leave = inv_leave [OF s hs h(2) ho refl h(2)] inv_leave [OF s hs h(2) ho1]
  have pong: "hub_inv token sdp (hub_emit [ToBrowser n (plain_msg ''pong'')] ?s)"
    by (rule inv_emit [OF s]) (simp add: plain_out_def from_server_def)
  have relay: "hub_inv token sdp (on_relay_msg token n h m sent ?s)" if "ms_type m = asc ''relay''"
  proof -
    have "hub_inv token sdp (hub_emit [LocalRelay n (ms_data m)] ?s)"
      by (rule inv_emit [OF s]) (simp add: plain_out_def)
    moreover have "hub_inv token sdp (hub_emit [ToAgent a (m\<lparr>ms_sid := token n\<rparr>)] ?s)" if "bh_agent h = Some a" for a
    proof (rule inv_emit [OF s])
      have "AgentUp a (bh_device h) \<in> set (hb_out ?s)" using ho that by (simp add: handler_ok_def)
      moreover have "passed_on token sdp (set (hb_out ?s @ [ToAgent a (m\<lparr>ms_sid := token n\<rparr>)])) n (bh_mode h) (m\<lparr>ms_sid := token n\<rparr>)"
        using \<open>ms_type m = asc ''relay''\<close> unfolding passed_on_def by (auto simp: hub_emit_def)
      ultimately show "\<forall>x \<in> set [ToAgent a (m\<lparr>ms_sid := token n\<rparr>)].
          plain_out x \<and> out_ok token sdp (set (hb_out ?s @ [ToAgent a (m\<lparr>ms_sid := token n\<rparr>)])) x"
        using op \<open>ms_type m = asc ''relay''\<close> by (auto simp: plain_out_def)
    qed
    ultimately show ?thesis using leave by (simp add: on_relay_msg_def split: option.split)
  qed
  have offer: "hub_inv token sdp (on_offer_msg token sdp n h m sent made ?s)" if t: "ms_type m = asc ''offer''"
  proof (cases "\<exists>v. \<not> bh_offered h \<and> read_offer sdp (ms_data m) = Some v")
    case True
    then obtain v where v: "\<not> bh_offered h" "read_offer sdp (ms_data m) = Some v" by blast
    let ?l = "h\<lparr>bh_offered := True, bh_local := True\<rparr>"
    have l: "hub_inv token sdp (set_handler n ?l ?s)"
      by (rule inv_set [OF s hs]) (use ho1 in \<open>simp_all add: handler_ok_def\<close>)
    have local: "hub_inv token sdp (hub_emit [LocalNew n x] (set_handler n ?l ?s))" if "bh_device h = asc ''cloud''" for x
      by (rule inv_emit [OF l]) (use op that in \<open>auto simp: plain_out_def set_handler_def\<close>)
    let ?e = "\<lambda>e. ToBrowser n \<lparr>ms_sid = [], ms_type = asc ''error'', ms_data = Some (JStr e)\<rparr>"
    have err: "hub_inv token sdp (browser_leave token n ?h sent (hub_emit [?e e] ?s))" if "bh_device h = asc ''cloud''" for e
    proof (rule inv_leave)
      show e: "hub_inv token sdp (hub_emit [?e e] ?s)"
        by (rule inv_emit [OF s]) (use op that in \<open>auto simp: plain_out_def from_server_def\<close>)
      show m: "map_of (hb_handlers (hub_emit [?e e] ?s)) n = Some h" using hs by (simp add: hub_emit_def)
      show "handler_ok token (hb_out (hub_emit [?e e] ?s)) n ?h"
        using hub_facts(2) [OF e m] h(2) by (auto simp: handler_ok_def)
    qed (use h(2) in simp_all)
    have "FromBrowser n m \<in> set (hb_out ?s)" by (simp add: hub_emit_def)
    from inv_pass_offer [OF s hs h(2) v(1) _ this t v(2)] v leave local err h(2)
    show ?thesis by (simp add: on_offer_msg_def Let_def split: option.split)
  next
    case False
    then show ?thesis using leave h(2) by (auto simp: on_offer_msg_def Let_def split: option.split)
  qed
  from True h s pong relay offer leave(1) show ?thesis
    by (auto simp: browser_message_def Let_def)
next
  case False
  then have "browser_message token sdp n m admin sent made s = s" by (auto simp: browser_message_def split: option.split)
  with assms show ?thesis by simp
qed

section \<open>Every step\<close>

lemma inv_gone: "hub_inv token sdp s \<Longrightarrow> hub_inv token sdp (browser_gone token n sent s)"
  using hub_facts(2) [of token sdp s n] inv_leave [of token sdp s n]
  by (auto simp: browser_gone_def split: option.split)

lemma inv_local:
  assumes "hub_inv token sdp s"
  shows "hub_inv token sdp (local_send n kind v s)"
proof (cases "\<exists>x. LocalNew n x \<in> set (hb_out s)")
  case True
  then obtain x where "LocalNew n x \<in> set (hb_out s)" by blast
  then have "out_ok token sdp (set (hb_out s)) (LocalNew n x)" using assms unfolding hub_inv_def trace_ok_def by blast
  then obtain mode sys where o: "Opened n (asc ''cloud'') mode sys \<in> set (hb_out s)" by auto
  have "hub_inv token sdp (hub_emit [ToBrowser n \<lparr>ms_sid = [], ms_type = kind, ms_data = Some v\<rparr>] s)"
    by (rule inv_emit [OF assms]) (use o in \<open>auto simp: plain_out_def from_server_def\<close>)
  with assms show ?thesis by (simp add: local_send_def)
next
  case False
  then have "local_send n kind v s = s" by (auto simp: local_send_def split: hub_out.splits)
  with assms show ?thesis by simp
qed

lemma hub_inv_step: "hub_inv token sdp s \<Longrightarrow> hub_inv token sdp (hub_step token sdp s e)"
  by (cases e) (simp_all add: inv_connect inv_agent_message inv_agent_leave inv_check inv_browser_open inv_browser_message
      inv_gone inv_browser_forget inv_local)

interpretation hub_sys: event_system "hub_step token sdp" "hub_inv token sdp" for token sdp
  by unfold_locales (rule hub_inv_step)

lemma hub_run_inv: "inj token \<Longrightarrow> hub_inv token sdp (hub_run token sdp hub_init es)"
  by (rule hub_sys.run_inv [OF hub_inv_init])

section \<open>Isolation\<close>

text \<open>
  C12: sessions do not mix, whatever the devices and the browsers send: what a browser receives was
  written by the server itself or came over a connection of this session's own device, under this
  session's identifier; and what a device receives is a \<open>pong\<close> or comes from a session that was opened
  for this very device, under that session's identifier, which a browser cannot choose.
\<close>

theorem hub_isolates_sessions:
  assumes "inj token"
  shows "let os = set (hb_out (hub_run token sdp hub_init es))
    in (\<forall>n m. ToBrowser n m \<in> os \<longrightarrow> from_device token os n m \<or> from_server os n m)
       \<and> (\<forall>c m. ToAgent c m \<in> os \<longrightarrow>
            m = plain_msg ''pong''
            \<or> (\<exists>n d mode sys. AgentUp c d \<in> os \<and> Opened n d mode sys \<in> os \<and> passed_on token sdp os n mode m))
       \<and> (\<forall>c d d'. AgentUp c d \<in> os \<longrightarrow> AgentUp c d' \<in> os \<longrightarrow> d = d')"
proof -
  let ?os = "hb_out (hub_run token sdp hub_init es)"
  have t: "trace_ok token sdp (hub_run token sdp hub_init es)" using hub_run_inv [OF assms] by (simp add: hub_inv_def)
  then have o: "out_ok token sdp (set ?os) x" if "x \<in> set ?os" for x using that unfolding trace_ok_def by blast
  show ?thesis unfolding Let_def
  proof (intro conjI allI impI)
    show "from_device token (set ?os) n m \<or> from_server (set ?os) n m" if "ToBrowser n m \<in> set ?os" for n m
      using o [OF that] by simp
    show "m = plain_msg ''pong''
        \<or> (\<exists>n d mode sys. AgentUp c d \<in> set ?os \<and> Opened n d mode sys \<in> set ?os \<and> passed_on token sdp (set ?os) n mode m)"
      if "ToAgent c m \<in> set ?os" for c m
      using o [OF that] by simp
    show "d = d'" if "AgentUp c d \<in> set ?os" "AgentUp c d' \<in> set ?os" for c d d'
      using t that unfolding trace_ok_def by blast
  qed
qed

text \<open>A browser that asks for a terminal in its offer is given the desktop session it was admitted for.\<close>

definition pc :: jstext where
  "pc = asc ''pc''"

definition one_session :: "hub_event list" where
  "one_session =
     [HuAgent (Some pc), HuCheck pc (asc ''desktop'') (Some (asc ''windows'')), HuOpen 0 True,
      HuBrowserMsg 0 \<lparr>ms_sid = asc ''x'', ms_type = asc ''offer'',
        ms_data = Some (JObj [(asc ''sdp'', JNull), (asc ''mode'', JStr (asc ''ssh''))])\<rparr> True True None,
      HuAgentMsg 0 \<lparr>ms_sid = letters 0, ms_type = asc ''answer'', ms_data = Some JNull\<rparr> True True]"

lemma one_session_out:
  "hb_out (hub_run letters (\<lambda>d. d) hub_init one_session) =
     [AgentUp 0 pc, Opened 0 pc (asc ''desktop'') (asc ''windows''),
      FromBrowser 0 \<lparr>ms_sid = asc ''x'', ms_type = asc ''offer'',
        ms_data = Some (JObj [(asc ''sdp'', JNull), (asc ''mode'', JStr (asc ''ssh''))])\<rparr>,
      ToAgent 0 \<lparr>ms_sid = letters 0, ms_type = asc ''offer'', ms_data = Some (offer_json JNull (asc ''desktop''))\<rparr>,
      FromAgent 0 \<lparr>ms_sid = letters 0, ms_type = asc ''answer'', ms_data = Some JNull\<rparr>,
      ToBrowser 0 \<lparr>ms_sid = letters 0, ms_type = asc ''answer'', ms_data = Some JNull\<rparr>]"
  by (simp add: one_session_def hub_init_def hub_defs Let_def pc_def session_limit_def read_offer_def go_text_field_def)

theorem hub_isolates_sessions_witness:
  "let os = set (hb_out (hub_run letters (\<lambda>d. d) hub_init one_session))
   in ToBrowser 0 \<lparr>ms_sid = letters 0, ms_type = asc ''answer'', ms_data = Some JNull\<rparr> \<in> os
      \<and> (\<forall>n m. ToBrowser n m \<in> os \<longrightarrow> from_device letters os n m \<or> from_server os n m)"
  using hub_isolates_sessions [OF inj_letters, of "\<lambda>d. d" one_session] one_session_out unfolding Let_def by simp

text \<open>
  C24: a device is only asked for what the server admitted: the offer of a session goes to its device at
  most once, with the mode the server checked (the desktop only where it runs Windows), whatever the
  browser wrote into it.
\<close>

theorem offers_are_as_admitted:
  assumes "inj token"
  shows "let os = hb_out (hub_run token sdp hub_init es)
    in distinct (offers_of os)
       \<and> (\<forall>c m. ToAgent c m \<in> set os \<longrightarrow> ms_type m = asc ''offer'' \<longrightarrow>
            (\<exists>n d mode sys v. AgentUp c d \<in> set os \<and> Opened n d mode sys \<in> set os \<and> ms_sid m = token n
               \<and> ms_data m = Some (offer_json v mode) \<and> mode_ok mode sys
               \<and> (\<forall>d' mode' sys'. Opened n d' mode' sys' \<in> set os \<longrightarrow> mode' = mode)))"
proof -
  let ?os = "hb_out (hub_run token sdp hub_init es)"
  have t: "trace_ok token sdp (hub_run token sdp hub_init es)" using hub_run_inv [OF assms] by (simp add: hub_inv_def)
  then have o: "out_ok token sdp (set ?os) x" if "x \<in> set ?os" for x using that unfolding trace_ok_def by blast
  have "\<exists>n d mode sys v. AgentUp c d \<in> set ?os \<and> Opened n d mode sys \<in> set ?os \<and> ms_sid m = token n
      \<and> ms_data m = Some (offer_json v mode) \<and> mode_ok mode sys
      \<and> (\<forall>d' mode' sys'. Opened n d' mode' sys' \<in> set ?os \<longrightarrow> mode' = mode)"
    if m: "ToAgent c m \<in> set ?os" "ms_type m = asc ''offer''" for c m
  proof -
    have "m \<noteq> plain_msg ''pong''" using m(2) by (auto simp: plain_msg_def)
    with o [OF m(1)] obtain n d mode sys where
      n: "AgentUp c d \<in> set ?os" "Opened n d mode sys \<in> set ?os" "passed_on token sdp (set ?os) n mode m" by auto
    from n(3) m(2) obtain v where "ms_sid m = token n" "ms_data m = Some (offer_json v mode)"
      by (auto simp: passed_on_def)
    moreover have "mode_ok mode sys" using o [OF n(2)] by simp
    moreover have "\<forall>d' mode' sys'. Opened n d' mode' sys' \<in> set ?os \<longrightarrow> mode' = mode"
      using t n(2) unfolding trace_ok_def by blast
    ultimately show ?thesis using n(1,2) by blast
  qed
  with t show ?thesis unfolding Let_def trace_ok_def by blast
qed

theorem offers_are_as_admitted_witness:
  "let os = hb_out (hub_run letters (\<lambda>d. d) hub_init one_session)
   in ToAgent 0 \<lparr>ms_sid = letters 0, ms_type = asc ''offer'', ms_data = Some (offer_json JNull (asc ''desktop''))\<rparr> \<in> set os
      \<and> offers_of os = [letters 0] \<and> distinct (offers_of os)"
  using offers_are_as_admitted [OF inj_letters, of "\<lambda>d. d" one_session] unfolding Let_def one_session_out by simp

section \<open>Nothing stays\<close>

lemma not_entered:
  assumes "hub_inv token sdp s" "\<forall>h. map_of (hb_handlers s) n = Some h \<longrightarrow> bh_stage h = HubChecked"
  shows "map_of (hb_browsers s) (token n) = None"
proof (cases "map_of (hb_browsers s) (token n)")
  case (Some x)
  obtain k d where "x = (k, d)" by fastforce
  from hub_facts(1) [OF assms(1) Some [unfolded this]] assms show ?thesis
    by (auto simp: hub_inv_def inj_eq)
qed simp

text \<open>
  The tables hold what runs: an identifier is in the table of sessions exactly while its handler
  serves or leaves, a device has a connection entered only while that connection's handler runs, and
  from every reachable state a session whose connection fails takes itself out.
\<close>

theorem hub_tables_exact:
  assumes "inj token"
  shows "let s = hub_run token sdp hub_init es
    in (\<forall>i n d. map_of (hb_browsers s) i = Some (n, d) \<longleftrightarrow>
          (\<exists>h. map_of (hb_handlers s) n = Some h \<and> bh_stage h \<noteq> HubChecked \<and> i = token n \<and> d = bh_device h))
       \<and> (\<forall>d c. map_of (hb_agents s) d = Some c \<longrightarrow> map_of (hb_conns s) c = Some d)
       \<and> (\<forall>n. map_of (hb_browsers (hub_run token sdp s [HuBrowserGone n sent, HuForget n])) (token n) = None)"
proof -
  let ?s = "hub_run token sdp hub_init es"
  have i: "tables_ok token ?s" using hub_run_inv [OF assms] by (simp add: hub_inv_def)
  have t: "map_of (hb_browsers ?s) i = Some (n, d) \<longleftrightarrow>
      (\<exists>h. map_of (hb_handlers ?s) n = Some h \<and> bh_stage h \<noteq> HubChecked \<and> i = token n \<and> d = bh_device h)" for i n d
    using i by (simp add: tables_ok_def)
  moreover have "map_of (hb_agents ?s) d = Some c \<Longrightarrow> map_of (hb_conns ?s) c = Some d" for d c
    using i by (simp add: tables_ok_def)
  moreover have "map_of (hb_browsers (hub_run token sdp ?s [HuBrowserGone n sent, HuForget n])) (token n) = None" for n
  proof (cases "map_of (hb_handlers ?s) n")
    case None
    with not_entered [OF hub_run_inv [OF assms]] show ?thesis by (simp add: browser_gone_def browser_forget_def)
  next
    case (Some h)
    have "map_of (hb_browsers ?s) (token n) = None" if "bh_stage h = HubChecked"
      by (rule not_entered [OF hub_run_inv [OF assms]]) (use Some that in simp)
    with Some show ?thesis
      by (cases "bh_stage h")
        (simp_all add: browser_gone_def browser_forget_def browser_leave_def set_handler_def hub_emit_def delete_conv' update_conv')
  qed
  ultimately show ?thesis unfolding Let_def by blast
qed

theorem hub_tables_exact_witness:
  "let s = hub_run letters (\<lambda>d. d) hub_init one_session
   in map_of (hb_browsers s) (letters 0) = Some (0, pc)
      \<and> map_of (hb_browsers (hub_run letters (\<lambda>d. d) s [HuBrowserGone 0 True, HuForget 0])) (letters 0) = None"
proof -
  have "map_of (hb_browsers (hub_run letters (\<lambda>d. d) hub_init one_session)) (letters 0) = Some (0, pc)"
    by (simp add: one_session_def hub_init_def hub_defs Let_def pc_def session_limit_def read_offer_def go_text_field_def)
  moreover note hub_tables_exact [OF inj_letters, of "\<lambda>d. d" one_session True]
  ultimately show ?thesis unfolding Let_def by blast
qed

section \<open>The limit of sessions\<close>

text \<open>
  The table is measured before the connection is upgraded and entered after: connections that are
  checked together are all admitted, however many.
\<close>

lemma opens_enter:
  assumes "hub_inv token sdp s" "distinct ns" "\<forall>n \<in> set ns. \<exists>h. map_of (hb_handlers s) n = Some h \<and> bh_stage h = HubChecked"
  shows "length (hb_browsers (hub_run token sdp s (map (\<lambda>n. HuOpen n True) ns))) = length (hb_browsers s) + length ns"
  using assms
proof (induction ns arbitrary: s)
  case (Cons n ns)
  then obtain h where h: "map_of (hb_handlers s) n = Some h" "bh_stage h = HubChecked" by auto
  let ?t = "hub_step token sdp s (HuOpen n True)"
  have "map_of (hb_browsers s) (token n) = None" by (rule not_entered [OF Cons.prems(1)]) (use h in simp)
  then have "length (hb_browsers ?t) = Suc (length (hb_browsers s))"
    using h update_fresh [of "token n" "hb_browsers s" "(n, bh_device h)"]
    by (auto simp: browser_open_def set_handler_def hub_emit_def map_of_eq_None_iff)
  moreover have "map_of (hb_handlers ?t) k = map_of (hb_handlers s) k" if "k \<noteq> n" for k
    using h that by (simp add: browser_open_def set_handler_def hub_emit_def update_conv')
  then have "\<forall>m \<in> set ns. \<exists>h. map_of (hb_handlers ?t) m = Some h \<and> bh_stage h = HubChecked"
    using Cons.prems(2,3) by (metis distinct.simps(2) list.set_intros(2))
  ultimately show ?case
    using Cons.IH [of ?t] Cons.prems(1,2) hub_inv_step [of token sdp s "HuOpen n True"] by (simp del: hub_step.simps)
qed simp

lemma checks_admit:
  assumes "map_of (hb_agents s) pc = Some a" "hb_browsers s = []"
  shows "let t = hub_run token sdp s (replicate k (HuCheck pc (asc ''ssh'') (Some [])))
    in map_of (hb_agents t) pc = Some a \<and> hb_browsers t = [] \<and> hb_next_handler t = hb_next_handler s + k
       \<and> (\<forall>n. hb_next_handler s \<le> n \<and> n < hb_next_handler s + k \<longrightarrow>
            (\<exists>h. map_of (hb_handlers t) n = Some h \<and> bh_stage h = HubChecked))"
proof (induction k)
  case (Suc k)
  then show ?case
    unfolding replicate_append_same [symmetric] replicate_Suc run_append Let_def
    by (auto simp: browser_check_def session_limit_def)
qed (use assms in auto)

lemma session_limit_passed:
  "inj token \<Longrightarrow> length (hb_browsers (hub_run token sdp hub_init
     (HuAgent (Some pc) # replicate k (HuCheck pc (asc ''ssh'') (Some [])) @ map (\<lambda>n. HuOpen n True) [0..<k]))) = k"
proof -
  assume i: "inj token"
  let ?s = "hub_step token sdp hub_init (HuAgent (Some pc))" and ?cs = "replicate k (HuCheck pc (asc ''ssh'') (Some []))"
  have s: "map_of (hb_agents ?s) pc = Some 0" "hb_browsers ?s = []" "hb_next_handler ?s = 0"
    by (simp_all add: hub_init_def agent_connect_def hub_emit_def pc_def)
  have inv: "hub_inv token sdp (hub_run token sdp ?s ?cs)"
    by (intro hub_sys.run_inv hub_inv_step hub_inv_init i)
  from opens_enter [OF inv, of "[0..<k]"] checks_admit [OF s(1,2), of token sdp k] s(3)
  show ?thesis by (simp add: Let_def del: hub_step.simps)
qed

end
