(* ===== verification/Agent_Sessions.thy ===== *)
theory Agent_Sessions
  imports Hub
begin

text \<open>
  The device's end of the signalling connection, \<open>remoteConnect\<close> of \<open>internal/agent/remote.go\<close>: one
  connection to the server and the table of the sessions it carries. The loop reads one message at a
  time; the signal callbacks of the sessions and the ticker that sends a \<open>ping\<close> run beside it.

  Sessions are numbered as they are made. \<open>made\<close> is what the WebRTC part of \<open>remote.New\<close> returns (the
  mode is checked first); the dialing of the connection and the event log are left out.
\<close>

section \<open>State\<close>

datatype client_out =
    AcRead message | AcSend "nat option" message
  | AcNew nat jstext jstext | AcRelay nat "json option" | AcClose nat

record client =
  ac_up :: bool
  ac_sessions :: "(jstext \<times> nat) list"
  ac_made :: "(nat \<times> jstext) list"
  ac_next :: nat
  ac_out :: "client_out list"

text \<open>\<open>ac_sessions\<close> is the map; \<open>ac_made\<close> are the sessions ever made, with the \<open>sid\<close> their callback holds.\<close>

definition client_init :: client where
  "client_init = \<lparr>ac_up = True, ac_sessions = [], ac_made = [], ac_next = 0, ac_out = []\<rparr>"

definition client_emit :: "client_out list \<Rightarrow> client \<Rightarrow> client" where
  "client_emit os s = s\<lparr>ac_out := ac_out s @ os\<rparr>"

lemma client_emit_fields [simp]:
  "ac_up (client_emit os s) = ac_up s" "ac_sessions (client_emit os s) = ac_sessions s" "ac_made (client_emit os s) = ac_made s"
  "ac_next (client_emit os s) = ac_next s" "ac_out (client_emit os s) = ac_out s @ os"
  by (simp_all add: client_emit_def)

definition client_sessions :: nat where
  "client_sessions = 8"

section \<open>The loop\<close>

definition offer_mode :: "json option \<Rightarrow> jstext" where
  "offer_mode d =
     (case d of
        Some m \<Rightarrow> (case m of JObj kvs \<Rightarrow> (case go_text_field m ''mode'' of Some t \<Rightarrow> t | None \<Rightarrow> []) | _ \<Rightarrow> [])
      | None \<Rightarrow> [])"

text \<open>\<open>send(sid, kind, v)\<close>\<close>

definition client_msg :: "jstext \<Rightarrow> jstext \<Rightarrow> json \<Rightarrow> message" where
  "client_msg sid kind v = \<lparr>ms_sid = sid, ms_type = kind, ms_data = Some v\<rparr>"

definition client_error :: "jstext \<Rightarrow> jstext \<Rightarrow> message" where
  "client_error sid t = client_msg sid (asc ''error'') (JStr t)"

definition new_error :: "jstext \<Rightarrow> jstext option \<Rightarrow> jstext option" where
  "new_error mode made =
     (if mode \<notin> {asc ''ssh'', asc ''files'', asc ''desktop''} then Some (asc ''invalid remote mode'') else made)"

definition client_offer :: "(json option \<Rightarrow> json option) \<Rightarrow> message \<Rightarrow> jstext option \<Rightarrow> client \<Rightarrow> client" where
  "client_offer sdp m made s =
     (let sid = ms_sid m
      in if map_of (ac_sessions s) sid \<noteq> None \<or> client_sessions \<le> length (ac_sessions s)
         then client_emit [AcSend None (client_error sid (asc ''Too many remote sessions''))] s
         else if read_offer sdp (ms_data m) = None then s
         else (case new_error (offer_mode (ms_data m)) made of
                 Some e \<Rightarrow> client_emit [AcSend None (client_error sid e)] s
               | None \<Rightarrow>
                   client_emit [AcNew (ac_next s) sid (offer_mode (ms_data m))]
                     (s\<lparr>ac_next := Suc (ac_next s), ac_made := (ac_next s, sid) # ac_made s,
                        ac_sessions := AList.update sid (ac_next s) (ac_sessions s)\<rparr>)))"

definition client_read :: "(json option \<Rightarrow> json option) \<Rightarrow> message \<Rightarrow> jstext option \<Rightarrow> client \<Rightarrow> client" where
  "client_read sdp m made s =
     (if \<not> ac_up s then s
      else
        let s1 = client_emit [AcRead m] s
        in if ms_type m = asc ''offer'' then client_offer sdp m made s1
           else if ms_type m = asc ''relay'' then
             (case map_of (ac_sessions s1) (ms_sid m) of
                None \<Rightarrow> s1
              | Some k \<Rightarrow> client_emit [AcRelay k (ms_data m)] s1)
           else if ms_type m = asc ''close'' then
             (case map_of (ac_sessions s1) (ms_sid m) of
                None \<Rightarrow> s1
              | Some k \<Rightarrow> client_emit [AcClose k] (s1\<lparr>ac_sessions := AList.delete (ms_sid m) (ac_sessions s1)\<rparr>))
           else s1)"

text \<open>The deferred function closes every session; the table is gone with the connection.\<close>

definition client_gone :: "client \<Rightarrow> client" where
  "client_gone s =
     (if \<not> ac_up s then s
      else client_emit (map (\<lambda>(sid, k). AcClose k) (ac_sessions s)) (s\<lparr>ac_up := False, ac_sessions := []\<rparr>))"

text \<open>The ticker: when its write fails it closes the connection, and the loop's next read fails.\<close>

definition client_tick :: "bool \<Rightarrow> client \<Rightarrow> client" where
  "client_tick sent s = (if ac_up s \<and> sent then client_emit [AcSend None (client_msg [] (asc ''ping'') JNull)] s else s)"

text \<open>A session's callback, also of one that is closed: \<open>sent\<close> is whether the write succeeds.\<close>

definition client_signal :: "nat \<Rightarrow> jstext \<Rightarrow> json \<Rightarrow> bool \<Rightarrow> client \<Rightarrow> client" where
  "client_signal k kind v sent s =
     (case map_of (ac_made s) k of
        None \<Rightarrow> s
      | Some sid \<Rightarrow> if sent then client_emit [AcSend (Some k) (client_msg sid kind v)] s else s)"

datatype client_event =
    CeRead message "jstext option" | CeGone | CeSignal nat jstext json bool | CeTick bool

fun client_step :: "(json option \<Rightarrow> json option) \<Rightarrow> client \<Rightarrow> client_event \<Rightarrow> client" where
  "client_step sdp s (CeRead m made) = client_read sdp m made s"
| "client_step sdp s CeGone = client_gone s"
| "client_step sdp s (CeSignal k kind v sent) = client_signal k kind v sent s"
| "client_step sdp s (CeTick sent) = client_tick sent s"

abbreviation "client_run sdp \<equiv> run (client_step sdp)"

named_theorems client_defs \<open>the handlers of the device's connection\<close>

lemmas [client_defs] =
  client_emit_def client_offer_def client_read_def client_gone_def client_signal_def client_tick_def

section \<open>The invariant\<close>

fun closed_in :: "client_out \<Rightarrow> nat list" where
  "closed_in (AcClose k) = [k]" | "closed_in _ = []"

definition closed_of :: "client_out list \<Rightarrow> nat list" where
  "closed_of os = concat (map closed_in os)"

lemma closed_simps [simp]:
  "closed_of [] = []" "closed_of (x # os) = closed_in x @ closed_of os" "closed_of (os @ ps) = closed_of os @ closed_of ps"
  by (simp_all add: closed_of_def)

lemma closed_all [simp]: "closed_of (map (\<lambda>(sid, k). AcClose k) ps) = map snd ps"
  by (induction ps) auto

text \<open>
  What may be written: by the connection itself a ping or an error to an offer, by a session its messages
  under the identifier it was made for.
\<close>

definition may_send :: "client_out set \<Rightarrow> nat option \<Rightarrow> message \<Rightarrow> bool" where
  "may_send os by m \<longleftrightarrow>
     (case by of
        Some k \<Rightarrow> \<exists>mode. AcNew k (ms_sid m) mode \<in> os
      | None \<Rightarrow> m = client_msg [] (asc ''ping'') JNull
          \<or> ms_type m = asc ''error'' \<and> (\<exists>m0. AcRead m0 \<in> os \<and> ms_type m0 = asc ''offer'' \<and> ms_sid m0 = ms_sid m))"

fun client_ok :: "client_out set \<Rightarrow> (nat \<Rightarrow> jstext option) \<Rightarrow> client_out \<Rightarrow> bool" where
  "client_ok os own (AcSend by m) = may_send os by m"
| "client_ok os own (AcRelay k d) =
     (\<exists>m. AcRead m \<in> os \<and> ms_type m = asc ''relay'' \<and> own k = Some (ms_sid m) \<and> ms_data m = d)"
| "client_ok os own (AcNew k sid mode) =
     (own k = Some sid \<and> mode \<in> {asc ''ssh'', asc ''files'', asc ''desktop''}
      \<and> (\<exists>m. AcRead m \<in> os \<and> ms_type m = asc ''offer'' \<and> ms_sid m = sid \<and> offer_mode (ms_data m) = mode))"
| "client_ok os own _ = True"

definition made_in :: "client_out set \<Rightarrow> nat \<Rightarrow> jstext \<Rightarrow> bool" where
  "made_in os k sid \<longleftrightarrow> (\<exists>mode. AcNew k sid mode \<in> os)"

lemma made_in_simps [simp]:
  "made_in (os \<union> ps) k sid \<longleftrightarrow> made_in os k sid \<or> made_in ps k sid"
  "made_in (insert (AcNew j i mode) os) k sid \<longleftrightarrow> j = k \<and> i = sid \<or> made_in os k sid"
  by (auto simp: made_in_def)

lemma made_in_insert: "made_in os k sid \<Longrightarrow> made_in (insert x os) k sid"
  by (auto simp: made_in_def)

definition client_inv :: "client \<Rightarrow> bool" where
  "client_inv s \<longleftrightarrow>
     distinct (map fst (ac_sessions s)) \<and> length (ac_sessions s) \<le> client_sessions
     \<and> (\<not> ac_up s \<longrightarrow> ac_sessions s = [])
     \<and> (\<forall>k \<in> fst ` set (ac_made s). k < ac_next s)
     \<and> (\<forall>sid k. map_of (ac_sessions s) sid = Some k \<longrightarrow> map_of (ac_made s) k = Some sid)
     \<and> mset (closed_of (ac_out s)) + mset (map snd (ac_sessions s)) = mset [0..<ac_next s]
     \<and> (\<forall>x \<in> set (ac_out s). client_ok (set (ac_out s)) (map_of (ac_made s)) x)
     \<and> (\<forall>k sid. map_of (ac_made s) k = Some sid \<longrightarrow> made_in (set (ac_out s)) k sid)"

lemma client_inv_init: "client_inv client_init"
  by (simp add: client_inv_def client_init_def)

lemma client_ok_mono:
  "client_ok os own x \<Longrightarrow> os \<subseteq> ps \<Longrightarrow> (\<And>k sid. own k = Some sid \<Longrightarrow> own' k = Some sid) \<Longrightarrow> client_ok ps own' x"
  by (cases x) (auto simp: may_send_def split: option.splits; blast)+

declare mset_upt [simp del]

text \<open>Writing to the trace.\<close>

lemma client_inv_emit:
  assumes "client_inv s" "closed_of xs = []" "\<forall>x \<in> set xs. client_ok (set (ac_out s @ xs)) (map_of (ac_made s)) x"
  shows "client_inv (client_emit xs s)"
proof -
  have "client_ok (set (ac_out s @ xs)) (map_of (ac_made s)) x" if "x \<in> set (ac_out s)" for x
    by (rule client_ok_mono [of "set (ac_out s)" "map_of (ac_made s)"]) (use assms(1) that in \<open>auto simp: client_inv_def\<close>)
  with assms show ?thesis by (auto simp: client_inv_def client_emit_def)
qed

lemma client_inv_offer:
  assumes "client_inv s" "AcRead m \<in> set (ac_out s)" "ms_type m = asc ''offer''" "ac_up s"
  shows "client_inv (client_offer sdp m made s)"
proof -
  have err: "client_inv (client_emit [AcSend None (client_error (ms_sid m) e)] s)" for e
    by (rule client_inv_emit [OF assms(1)])
      (use assms(2,3) in \<open>auto simp: may_send_def client_error_def client_msg_def\<close>)
  let ?k = "ac_next s" and ?md = "offer_mode (ms_data m)"
  let ?x = "AcNew ?k (ms_sid m) ?md"
  let ?t = "client_emit [?x] (s\<lparr>ac_next := Suc ?k, ac_made := (?k, ms_sid m) # ac_made s,
      ac_sessions := AList.update (ms_sid m) ?k (ac_sessions s)\<rparr>)"
  have "client_inv ?t" if free: "map_of (ac_sessions s) (ms_sid m) = None" "length (ac_sessions s) < client_sessions"
    and md: "?md \<in> {asc ''ssh'', asc ''files'', asc ''desktop''}"
  proof -
    have new: "map_of (ac_made s) ?k = None" using assms(1) by (auto simp: client_inv_def map_of_eq_None_iff)
    have up: "AList.update (ms_sid m) ?k (ac_sessions s) = ac_sessions s @ [(ms_sid m, ?k)]"
      using free(1) by (intro update_fresh) (simp add: map_of_eq_None_iff)
    have "client_ok (set (ac_out s @ [?x])) (map_of ((?k, ms_sid m) # ac_made s)) x" if "x \<in> set (ac_out s)" for x
      by (rule client_ok_mono [of "set (ac_out s)" "map_of (ac_made s)"])
        (use assms(1) that new in \<open>auto simp: client_inv_def\<close>)
    moreover have "client_ok (set (ac_out s @ [?x])) (map_of ((?k, ms_sid m) # ac_made s)) ?x"
      using assms(2,3) md by auto
    moreover have "map_of (ac_made s) k = Some sid" "k \<noteq> ?k" if "map_of (ac_sessions s) sid = Some k" for sid k
      using assms(1) that new by (auto simp: client_inv_def)
    ultimately show ?thesis
      using assms(1,4) free new unfolding client_inv_def
      by (auto simp: client_emit_def up map_add_def map_of_eq_None_iff less_Suc_eq split: if_splits option.splits)
  qed
  with err assms(1) show ?thesis
    by (auto simp: client_offer_def Let_def new_error_def split: option.split)
qed

lemma client_inv_step:
  assumes "client_inv s"
  shows "client_inv (client_step sdp s e)"
proof (cases e)
  case (CeRead m made)
  let ?s = "client_emit [AcRead m] s"
  have s: "client_inv ?s" by (rule client_inv_emit [OF assms]) simp_all
  have r: "AcRead m \<in> set (ac_out ?s)" "ac_up ?s = ac_up s" by (simp_all add: client_emit_def)
  have relay: "client_inv (client_emit [AcRelay k (ms_data m)] ?s)"
    if "map_of (ac_sessions s) (ms_sid m) = Some k" "ms_type m = asc ''relay''" for k
    by (rule client_inv_emit [OF s]) (use s that in \<open>auto simp: client_inv_def client_emit_def\<close>)
  have close: "client_inv (client_emit [AcClose k] (?s\<lparr>ac_sessions := AList.delete (ms_sid m) (ac_sessions ?s)\<rparr>))"
    if k: "map_of (ac_sessions s) (ms_sid m) = Some k" for k
  proof -
    have d: "distinct (map fst (ac_sessions s))" using assms by (simp add: client_inv_def)
    have "client_ok (set (ac_out ?s @ [AcClose k])) (map_of (ac_made s)) x" if "x \<in> set (ac_out ?s)" for x
      by (rule client_ok_mono [of "set (ac_out ?s)" "map_of (ac_made s)"])
        (use s that in \<open>auto simp: client_inv_def client_emit_def\<close>)
    then show ?thesis using assms d delete_notin_dom
      using mset_snd_delete [OF d k] length_delete_le [of "ms_sid m" "ac_sessions s"]
      by (auto simp: client_inv_def client_emit_def delete_conv' distinct_delete made_in_insert split: if_splits)
  qed
  show ?thesis
    using CeRead assms s relay close client_inv_offer [OF s r(1)] r(2)
    by (auto simp: client_read_def Let_def split: option.split)
next
  case CeGone
  have "client_ok (set (ac_out s) \<union> ys) (map_of (ac_made s)) x" if "x \<in> set (ac_out s)" for x ys
    by (rule client_ok_mono [of "set (ac_out s)" "map_of (ac_made s)"]) (use assms that in \<open>auto simp: client_inv_def\<close>)
  with CeGone assms show ?thesis by (auto simp: client_inv_def client_gone_def client_emit_def)
next
  case (CeSignal k kind v sent)
  have "client_inv (client_emit [AcSend (Some k) (client_msg sid kind v)] s)" if "map_of (ac_made s) k = Some sid" for sid
    by (rule client_inv_emit [OF assms])
      (use assms that in \<open>auto simp: may_send_def client_msg_def client_inv_def made_in_def\<close>)
  with CeSignal assms show ?thesis by (auto simp: client_signal_def split: option.split)
next
  case (CeTick sent)
  have "client_inv (client_emit [AcSend None (client_msg [] (asc ''ping'') JNull)] s)"
    by (rule client_inv_emit [OF assms]) (simp_all add: may_send_def)
  with CeTick assms show ?thesis by (simp add: client_tick_def)
qed

interpretation client_sys: event_system "client_step sdp" client_inv for sdp
  by unfold_locales (rule client_inv_step)

section \<open>Properties\<close>


definition two_messages :: "client_event list" where
  "two_messages =
     [CeRead \<lparr>ms_sid = letters 0, ms_type = asc ''offer'', ms_data = Some (offer_json JNull (asc ''files''))\<rparr> None,
      CeRead \<lparr>ms_sid = letters 0, ms_type = asc ''relay'', ms_data = Some (JNum 1)\<rparr> None,
      CeRead \<lparr>ms_sid = letters 1, ms_type = asc ''relay'', ms_data = Some (JNum 2)\<rparr> None, CeGone]"


end
