(* ===== verification/Relay_Order.thy ===== *)
theory Relay_Order
  imports Hub_Props Agent_Sessions "HOL-Library.Sublist"
begin

text \<open>
  Both ends of a connection keep the order of a session's messages: the server's hub passes a browser's
  messages on in order, its offer first, over one connection; the device's loop makes at most one session
  of them and hands the relayed ones to it in order.
\<close>

section \<open>The messages of a session\<close>

definition session_msg :: "jstext \<Rightarrow> message \<Rightarrow> bool" where
  "session_msg i m \<longleftrightarrow> ms_sid m = i \<and> ms_type m \<in> {asc ''offer'', asc ''relay''}"

fun sess_in :: "jstext \<Rightarrow> hub_out \<Rightarrow> (nat \<times> message) list" where
  "sess_in i (ToAgent c m) = (if session_msg i m then [(c, m)] else [])" | "sess_in i _ = []"

fun from_in :: "nat \<Rightarrow> hub_out \<Rightarrow> json option list" where
  "from_in n (FromBrowser k m) = (if k = n \<and> ms_type m = asc ''relay'' then [ms_data m] else [])" | "from_in n _ = []"

text \<open>What the hub passed on of a session, with the connections; what its browser sent to be relayed.\<close>

definition sess_of :: "jstext \<Rightarrow> hub_out list \<Rightarrow> (nat \<times> message) list" where
  "sess_of i os = concat (map (sess_in i) os)"

definition relays_from :: "nat \<Rightarrow> hub_out list \<Rightarrow> json option list" where
  "relays_from n os = concat (map (from_in n) os)"

lemma sess_simps [simp]:
  "sess_of i [] = []" "sess_of i (x # os) = sess_in i x @ sess_of i os" "sess_of i (os @ ps) = sess_of i os @ sess_of i ps"
  "relays_from n [] = []" "relays_from n (x # os) = from_in n x @ relays_from n os"
  "relays_from n (os @ ps) = relays_from n os @ relays_from n ps"
  by (simp_all add: sess_of_def relays_from_def)

text \<open>An offer, then relayed messages.\<close>

definition offered_first :: "message list \<Rightarrow> bool" where
  "offered_first ms \<longleftrightarrow>
     ms = [] \<or> ms_type (hd ms) = asc ''offer'' \<and> (\<forall>m \<in> set (tl ms). ms_type m = asc ''relay'')"

section \<open>The hub keeps the order\<close>

definition ended_ok :: "(nat \<times> message) list \<Rightarrow> json option list \<Rightarrow> bool" where
  "ended_ok xs ds \<longleftrightarrow>
     (\<exists>c ms. xs = map (Pair c) ms \<and> offered_first ms \<and> prefix (map ms_data (tl ms)) ds)"

definition live_ok :: "browser_handler \<Rightarrow> (nat \<times> message) list \<Rightarrow> json option list \<Rightarrow> bool" where
  "live_ok h xs ds \<longleftrightarrow>
     (if \<not> bh_offered h then xs = [] \<and> ds = [] \<and> \<not> bh_local h
      else if bh_local h then xs = []
      else \<exists>c m ms. bh_agent h = Some c \<and> xs = map (Pair c) (m # ms) \<and> offered_first (m # ms) \<and> map ms_data ms = ds)"

definition fifo_at :: "(nat \<Rightarrow> jstext) \<Rightarrow> hub \<Rightarrow> nat \<Rightarrow> bool" where
  "fifo_at token s n \<longleftrightarrow>
     (let xs = sess_of (token n) (hb_out s); ds = relays_from n (hb_out s)
      in case map_of (hb_handlers s) n of
           Some h \<Rightarrow>
             if bh_stage h = HubChecked then xs = [] \<and> ds = [] \<and> \<not> bh_offered h \<and> \<not> bh_local h
             else if bh_stage h = HubServing then live_ok h xs ds else ended_ok xs ds
         | None \<Rightarrow> if hb_next_handler s \<le> n then xs = [] \<and> ds = [] else ended_ok xs ds)"

lemma live_shut: "live_ok h xs ds \<Longrightarrow> ended_ok xs (ds @ es)"
proof -
  assume l: "live_ok h xs ds"
  have nil: "ended_ok [] ds'" for ds' unfolding ended_ok_def offered_first_def by force
  have "ended_ok (map (Pair c) (m # ms)) (map ms_data ms @ es)" if "offered_first (m # ms)" for c m ms
    unfolding ended_ok_def using that by (intro exI [of _ c] exI [of _ "m # ms"]) simp
  with nil l show ?thesis unfolding live_ok_def by (auto split: if_splits)
qed

lemma fifo_shut: "fifo_at token s n \<Longrightarrow> ended_ok (sess_of (token n) (hb_out s)) (relays_from n (hb_out s))"
proof -
  have "ended_ok [] []" unfolding ended_ok_def offered_first_def by force
  then show "fifo_at token s n \<Longrightarrow> ?thesis"
    using live_shut [of _ _ "relays_from n (hb_out s)" "[]"]
    by (auto simp: fifo_at_def Let_def split: option.splits if_splits)
qed

text \<open>A step that does not concern a session.\<close>

lemma fifo_same:
  assumes "fifo_at token s n" "hb_out t = hb_out s @ xs" "sess_of (token n) xs = []" "relays_from n xs = []"
    and "map_of (hb_handlers t) n = map_of (hb_handlers s) n" "hb_next_handler t = hb_next_handler s"
  shows "fifo_at token t n"
proof -
  have "sess_of (token n) (hb_out t) = sess_of (token n) (hb_out s)" "relays_from n (hb_out t) = relays_from n (hb_out s)"
    using assms(2-4) by simp_all
  with assms(1) show ?thesis unfolding fifo_at_def by (simp only: assms(5,6))
qed

lemma plain_step:
  "\<exists>xs. hb_out (agent_connect who s) = hb_out s @ xs \<and> sess_of i xs = [] \<and> relays_from n xs = []"
  "\<exists>xs. hb_out (agent_leave c s) = hb_out s @ xs \<and> sess_of i xs = [] \<and> relays_from n xs = []"
proof -
  show "\<exists>xs. hb_out (agent_connect who s) = hb_out s @ xs \<and> sess_of i xs = [] \<and> relays_from n xs = []"
    by (auto simp: agent_connect_def hub_emit_def Let_def split: option.split)
  have "sess_of i (map (\<lambda>(sid, n, d'). CloseBrowser n) bs) = []" "relays_from n (map (\<lambda>(sid, n, d'). CloseBrowser n) bs) = []"
    for bs :: "(jstext \<times> nat \<times> jstext) list"
    by (induction bs) auto
  then show "\<exists>xs. hb_out (agent_leave c s) = hb_out s @ xs \<and> sess_of i xs = [] \<and> relays_from n xs = []"
    by (auto simp: agent_leave_def hub_emit_def Let_def split: option.split)
qed

lemma plain_fields [simp]:
  "hb_handlers (agent_connect who s) = hb_handlers s" "hb_next_handler (agent_connect who s) = hb_next_handler s"
  "hb_handlers (agent_leave c s) = hb_handlers s" "hb_next_handler (agent_leave c s) = hb_next_handler s"
  by (simp_all add: agent_connect_def agent_leave_def hub_emit_def Let_def split: option.split)

lemma agent_message_plain:
  "\<exists>xs. hb_out (agent_message c m valid sent s) = hb_out s @ xs \<and> sess_of i xs = [] \<and> relays_from n xs = []"
  "hb_handlers (agent_message c m valid sent s) = hb_handlers s"
  "hb_next_handler (agent_message c m valid sent s) = hb_next_handler s"
proof -
  let ?s = "hub_emit [FromAgent c m] s"
  obtain xs where xs: "hb_out (agent_leave c ?s) = hb_out ?s @ xs" "sess_of i xs = []" "relays_from n xs = []"
    using plain_step(2) by blast
  show "\<exists>xs. hb_out (agent_message c m valid sent s) = hb_out s @ xs \<and> sess_of i xs = [] \<and> relays_from n xs = []"
    using xs by (auto simp: agent_message_def hub_emit_def session_msg_def plain_msg_def Let_def split: option.split)
  show "hb_handlers (agent_message c m valid sent s) = hb_handlers s"
    "hb_next_handler (agent_message c m valid sent s) = hb_next_handler s"
    by (auto simp: agent_message_def Let_def split: option.split) (auto simp: hub_emit_def)
qed

text \<open>The end of a handler.\<close>

lemma leave_out:
  "\<exists>xs. hb_out (browser_leave token n h sent s) = hb_out s @ xs \<and> sess_of i xs = [] \<and> relays_from k xs = []"
  by (auto simp: browser_leave_def hub_emit_def set_handler_def session_msg_def split: option.split)

lemma leave_fields:
  "map_of (hb_handlers (browser_leave token n h sent s)) k = (if k = n then Some (h\<lparr>bh_stage := HubLeaving\<rparr>) else map_of (hb_handlers s) k)"
  "hb_next_handler (browser_leave token n h sent s) = hb_next_handler s"
  by (simp_all add: browser_leave_def hub_emit_def set_handler_def update_conv')

lemma fifo_leave:
  assumes "ended_ok (sess_of (token n) (hb_out s)) (relays_from n (hb_out s))"
  shows "fifo_at token (browser_leave token n h sent s) n"
proof -
  obtain xs where "hb_out (browser_leave token n h sent s) = hb_out s @ xs" "sess_of (token n) xs = []" "relays_from n xs = []"
    using leave_out by blast
  with assms show ?thesis by (simp add: fifo_at_def leave_fields)
qed

lemma fifo_leave_other:
  "fifo_at token s k \<Longrightarrow> k \<noteq> n \<Longrightarrow> fifo_at token (browser_leave token n h sent s) k"
  using leave_out [of token n h sent s "token k" k] by (auto intro: fifo_same simp: leave_fields)

text \<open>A message of the browser of another session.\<close>

lemma fifo_update_other:
  assumes "fifo_at token s k" "k \<noteq> n" "sess_of (token k) xs = []" "relays_from k xs = []"
  shows "fifo_at token (hub_emit xs (set_handler n h s)) k" "fifo_at token (hub_emit xs s) k"
  by (rule fifo_same [OF assms(1) _ assms(3,4)]; use assms(2) in \<open>simp add: hub_emit_def set_handler_def update_conv'\<close>)+

lemma fifo_message_other:
  assumes "fifo_at token s k" "k \<noteq> n" "inj token"
  shows "fifo_at token (browser_message token sdp n m admin sent made s) k"
proof -
  let ?s = "hub_emit [FromBrowser n m] s"
  have t: "token n \<noteq> token k" using assms by (simp add: inj_eq)
  have s: "fifo_at token ?s k" by (rule fifo_update_other [OF assms(1,2)]) (use assms(2) in simp_all)
  note leave = fifo_leave_other [OF s assms(2)]
  have e: "fifo_at token (hub_emit [x] (set_handler n h ?s)) k" "fifo_at token (hub_emit [x] ?s) k"
    if "sess_in (token k) x = []" "from_in k x = []" for x h
    by (rule fifo_update_other [OF s assms(2)]; use that in simp)+
  have err: "fifo_at token (browser_leave token n h sent (hub_emit [ToBrowser n y] ?s)) k" for h y
    by (rule fifo_leave_other [OF e(2) assms(2)]) simp_all
  have "fifo_at token (on_offer_msg token sdp n h m sent made ?s) k" for h
    using leave e err t by (simp add: on_offer_msg_def session_msg_def Let_def split: option.split)
  moreover have "fifo_at token (on_relay_msg token n h m sent ?s) k" for h
    using leave e t by (simp add: on_relay_msg_def session_msg_def split: option.split)
  ultimately show ?thesis using assms(1) s leave e(2)
    by (auto simp: browser_message_def Let_def split: option.split)
qed

text \<open>A message of the session's own browser.\<close>

lemma fifo_read:
  assumes "fifo_at token s n" "map_of (hb_handlers s) n = Some h" "bh_stage h = HubServing"
    and "ms_type m = asc ''relay'' \<Longrightarrow> bh_offered h \<and> bh_local h"
  shows "fifo_at token (hub_emit [FromBrowser n m] s) n"
  using assms by (auto simp: fifo_at_def hub_emit_def live_ok_def)

lemma fifo_message_own:
  assumes "fifo_at token s n"
  shows "fifo_at token (browser_message token sdp n m admin sent made s) n"
proof (cases "\<exists>h. map_of (hb_handlers s) n = Some h \<and> bh_stage h = HubServing")
  case True
  then obtain h where h: "map_of (hb_handlers s) n = Some h" "bh_stage h = HubServing" by blast
  let ?s = "hub_emit [FromBrowser n m] s" and ?xs = "sess_of (token n) (hb_out s)" and ?ds = "relays_from n (hb_out s)"
  have live: "live_ok h ?xs ?ds" using assms h by (simp add: fifo_at_def)
  have out: "sess_of (token n) (hb_out ?s) = ?xs" "relays_from n (hb_out ?s) = ?ds @ from_in n (FromBrowser n m)"
    by (simp_all add: hub_emit_def)
  have leave: "fifo_at token (browser_leave token n g b ?s) n" for g b
    by (rule fifo_leave) (use live_shut [OF live] out in simp)
  have err: "fifo_at token (browser_leave token n g sent (hub_emit [ToBrowser n y] ?s)) n" for g y
    by (rule fifo_leave) (use live_shut [OF live] out in \<open>simp add: hub_emit_def\<close>)
  have offer: "fifo_at token (on_offer_msg token sdp n h m sent made ?s) n" if t: "ms_type m = asc ''offer''"
  proof (cases "bh_offered h")
    case False
    then have l: "?xs = []" "?ds = []" "\<not> bh_local h" using live by (simp_all add: live_ok_def)
    then have "fifo_at token (hub_emit [ToAgent a (m\<lparr>ms_sid := token n, ms_data := d\<rparr>)] (set_handler n (h\<lparr>bh_offered := True\<rparr>) ?s)) n"
      if "bh_agent h = Some a" for a d
      using h(2) t that l by (simp add: fifo_at_def hub_emit_def set_handler_def update_conv' live_ok_def session_msg_def offered_first_def)
    moreover have "fifo_at token (hub_emit [LocalNew n d] (set_handler n (h\<lparr>bh_offered := True, bh_local := True\<rparr>) ?s)) n" for d
      using h(2) t l(1) by (simp add: fifo_at_def hub_emit_def set_handler_def update_conv' live_ok_def)
    ultimately show ?thesis using leave err
      by (auto simp: on_offer_msg_def Let_def split: option.split)
  qed (use leave in \<open>simp add: on_offer_msg_def\<close>)
  have relay: "fifo_at token (on_relay_msg token n h m sent ?s) n" if t: "ms_type m = asc ''relay''"
  proof (cases "bh_offered h")
    case True
    have "fifo_at token (hub_emit [LocalRelay n d] ?s) n" if "bh_local h" for d
      using h live True that by (simp add: fifo_at_def hub_emit_def live_ok_def)
    moreover have "fifo_at token (hub_emit [ToAgent a (m\<lparr>ms_sid := token n\<rparr>)] ?s) n" if "\<not> bh_local h" "bh_agent h = Some a" for a
    proof -
      from live True that obtain o1 ms where l: "?xs = map (Pair a) (o1 # ms)" "offered_first (o1 # ms)" "map ms_data ms = ?ds"
        by (auto simp: live_ok_def)
      then have "live_ok h (?xs @ [(a, m\<lparr>ms_sid := token n\<rparr>)]) (?ds @ [ms_data m])"
        using True that t unfolding live_ok_def
        by (intro if_not_P [THEN iffD2]) (auto simp: offered_first_def intro!: exI [of _ "ms @ [m\<lparr>ms_sid := token n\<rparr>]"])
      then show ?thesis using h t by (simp add: fifo_at_def hub_emit_def session_msg_def)
    qed
    ultimately show ?thesis using leave True by (simp add: on_relay_msg_def split: option.split)
  qed (use leave in \<open>simp add: on_relay_msg_def\<close>)
  have "fifo_at token (hub_emit [ToBrowser n (plain_msg ''pong'')] ?s) n" "fifo_at token ?s n" if "ms_type m = asc ''ping''"
    using assms h that by (simp_all add: fifo_at_def hub_emit_def)
  with h leave offer relay show ?thesis by (simp add: browser_message_def Let_def)
next
  case False
  then have "browser_message token sdp n m admin sent made s = s" by (auto simp: browser_message_def split: option.split)
  with assms show ?thesis by simp
qed

section \<open>Every step of the hub\<close>

lemma fifo_open:
  assumes "fifo_at token s k"
  shows "fifo_at token (browser_open token n ok s) k"
  using assms
  by (auto simp: browser_open_def fifo_at_def live_ok_def Let_def hub_emit_def set_handler_def update_conv' delete_conv' ended_ok_def
      offered_first_def split: option.splits)

lemma fifo_forget:
  assumes "fifo_at token s k" "hub_inv token sdp s"
  shows "fifo_at token (browser_forget token n s) k"
proof (cases "k = n")
  case True
  have "n < hb_next_handler s" if "map_of (hb_handlers s) n = Some h" for h
    using assms(2) that by (auto simp: hub_inv_def tables_ok_def)
  with True assms(1) show ?thesis
    by (auto simp: browser_forget_def fifo_at_def hub_emit_def delete_conv' Let_def split: option.splits)
next
  case False
  with assms(1) show ?thesis
    by (auto simp: browser_forget_def hub_emit_def delete_conv' intro!: fifo_same [OF assms(1)] split: option.splits)
qed

lemma fifo_check:
  assumes "fifo_at token s k" "hub_inv token sdp s"
  shows "fifo_at token (browser_check d mode sys s) k"
proof -
  have new: "map_of (hb_handlers s) (hb_next_handler s) = None"
    using assms(2) unfolding hub_inv_def tables_ok_def by (metis less_irrefl not_None_eq)
  let ?h = "\<lambda>o1. \<lparr>bh_device = d, bh_os = o1, bh_mode = mode, bh_agent = map_of (hb_agents s) d, bh_offered = False,
      bh_local = False, bh_stage = HubChecked\<rparr>"
  have "fifo_at token (s\<lparr>hb_next_handler := Suc (hb_next_handler s), hb_handlers := (hb_next_handler s, ?h o1) # hb_handlers s\<rparr>) k" for o1
    using assms(1) new by (cases "k = hb_next_handler s") (auto simp: fifo_at_def Let_def split: option.splits if_splits)
  moreover have "fifo_at token (hub_emit [HttpError e] s) k" for e
    by (rule fifo_same [OF assms(1), where xs = "[HttpError e]"]) (simp_all add: hub_emit_def)
  ultimately show ?thesis by (auto simp: browser_check_def split: option.split)
qed

lemma fifo_step:
  assumes "\<forall>k. fifo_at token s k" "hub_inv token sdp s"
  shows "fifo_at token (hub_step token sdp s e) k"
proof (cases e)
  case (HuAgent who)
  then show ?thesis using assms(1) plain_step(1) [of who s "token k" k] by (auto intro: fifo_same)
next
  case (HuAgentMsg c m valid sent)
  then show ?thesis using assms(1) agent_message_plain(1) [of c m valid sent s "token k" k]
    by (auto intro: fifo_same simp: agent_message_plain(2,3))
next
  case (HuAgentGone c)
  then show ?thesis using assms(1) plain_step(2) [of c s "token k" k] by (auto intro: fifo_same)
next
  case (HuBrowserMsg n m admin sent made)
  have "inj token" using assms(2) by (simp add: hub_inv_def)
  with HuBrowserMsg assms(1) show ?thesis using fifo_message_own fifo_message_other by (cases "k = n") auto
next
  case (HuBrowserGone n sent)
  have "fifo_at token (browser_leave token n h sent s) k" for h
  proof (cases "k = n")
    case True
    with assms(1) show ?thesis by (simp add: fifo_leave fifo_shut)
  qed (use assms(1) fifo_leave_other in blast)
  with HuBrowserGone assms(1) show ?thesis by (simp add: browser_gone_def split: option.split)
next
  case (HuLocal n kind v)
  have "fifo_at token (hub_emit [ToBrowser n x] s) k" for x
    by (rule fifo_same [where s = s and xs = "[ToBrowser n x]"]) (use assms(1) in \<open>simp_all add: hub_emit_def\<close>)
  with HuLocal assms(1) show ?thesis by (simp add: local_send_def)
qed (use assms in \<open>auto simp: fifo_open fifo_forget fifo_check\<close>)

interpretation fifo_sys: event_system "hub_step token sdp" "\<lambda>s. hub_inv token sdp s \<and> (\<forall>k. fifo_at token s k)" for token sdp
  by unfold_locales (simp add: hub_inv_step fifo_step del: hub_step.simps)

section \<open>The device keeps the order\<close>

fun read_in :: "client_out \<Rightarrow> message list" where
  "read_in (AcRead m) = [m]" | "read_in _ = []"

fun relay_in :: "nat \<Rightarrow> client_out \<Rightarrow> json option list" where
  "relay_in k (AcRelay j d) = (if j = k then [d] else [])" | "relay_in k _ = []"

definition reads_of :: "client_out list \<Rightarrow> message list" where
  "reads_of os = concat (map read_in os)"

definition relayed_to :: "nat \<Rightarrow> client_out list \<Rightarrow> json option list" where
  "relayed_to k os = concat (map (relay_in k) os)"

lemma read_simps [simp]:
  "reads_of [] = []" "reads_of (x # os) = read_in x @ reads_of os" "reads_of (os @ ps) = reads_of os @ reads_of ps"
  "relayed_to k [] = []" "relayed_to k (x # os) = relay_in k x @ relayed_to k os"
  "relayed_to k (os @ ps) = relayed_to k os @ relayed_to k ps"
  by (simp_all add: reads_of_def relayed_to_def)

lemma closes_simps [simp]:
  "reads_of (map (\<lambda>(sid, k). AcClose k) ps) = []" "relayed_to k (map (\<lambda>(sid, k). AcClose k) ps) = []"
  by (induction ps) auto

lemma in_reads: "m \<in> set (reads_of os) \<longleftrightarrow> AcRead m \<in> set os"
proof -
  have "m \<in> set (read_in x) \<longleftrightarrow> x = AcRead m" for x by (cases x) auto
  then show ?thesis by (auto simp: reads_of_def)
qed

lemma no_relay: "\<forall>d. AcRelay k d \<notin> set os \<Longrightarrow> relayed_to k os = []"
proof (induction os)
  case (Cons x os)
  then show ?case by (cases x) auto
qed simp

text \<open>What the client read of a session, and that it has made at most one session of it and kept the order.\<close>

definition kept_order :: "message list \<Rightarrow> jstext \<Rightarrow> client \<Rightarrow> bool" where
  "kept_order ms i s \<longleftrightarrow>
     (ms = [] \<longrightarrow> (\<forall>k. map_of (ac_made s) k \<noteq> Some i))
     \<and> (\<forall>k. map_of (ac_made s) k = Some i \<longrightarrow>
          (\<forall>j. map_of (ac_made s) j = Some i \<longrightarrow> j = k)
          \<and> prefix (relayed_to k (ac_out s)) (map ms_data (tl ms))
          \<and> (map_of (ac_sessions s) i = Some k \<longrightarrow> relayed_to k (ac_out s) = map ms_data (tl ms)))"

abbreviation read_for :: "jstext \<Rightarrow> client \<Rightarrow> message list" where
  "read_for i s \<equiv> filter (session_msg i) (reads_of (ac_out s))"

definition client_fifo :: "client \<Rightarrow> jstext \<Rightarrow> bool" where
  "client_fifo s i \<longleftrightarrow> (offered_first (read_for i s) \<longrightarrow> kept_order (read_for i s) i s)"

lemma offered_snoc:
  assumes "offered_first (ms @ [m])"
  shows "offered_first ms" "ms = [] \<Longrightarrow> ms_type m = asc ''offer''" "ms \<noteq> [] \<Longrightarrow> ms_type m = asc ''relay''"
  using assms by (cases ms; auto simp: offered_first_def)+

lemma fifo_kept:
  assumes "client_fifo s i" "read_for i t = read_for i s" "\<And>k. map_of (ac_made t) k = Some i \<longleftrightarrow> map_of (ac_made s) k = Some i"
    and "\<And>k. map_of (ac_made s) k = Some i \<Longrightarrow> relayed_to k (ac_out t) = relayed_to k (ac_out s)"
    and "map_of (ac_sessions t) i \<in> {map_of (ac_sessions s) i, None}"
  shows "client_fifo t i"
proof -
  have "kept_order ms i t" if "kept_order ms i s" for ms
    using that assms(3-5) by (auto simp: kept_order_def)
  with assms(1) show ?thesis unfolding client_fifo_def assms(2) by blast
qed

lemma kept_more:
  assumes "kept_order ms i s" "map_of (ac_sessions s) i = None" "ms \<noteq> []"
  shows "kept_order (ms @ [m]) i s"
  using assms by (auto simp: kept_order_def intro: prefix_prefix)

lemma client_facts:
  assumes "client_inv s"
  shows "map_of (ac_sessions s) i = Some k \<Longrightarrow> map_of (ac_made s) k = Some i"
    and "map_of (ac_made s) (ac_next s) = None" and "relayed_to (ac_next s) (ac_out s) = []"
proof -
  show "map_of (ac_sessions s) i = Some k \<Longrightarrow> map_of (ac_made s) k = Some i" using assms by (simp add: client_inv_def)
  show n: "map_of (ac_made s) (ac_next s) = None" using assms by (auto simp: client_inv_def map_of_eq_None_iff)
  have "AcRelay (ac_next s) d \<notin> set (ac_out s)" for d
    using assms n unfolding client_inv_def by fastforce
  then show "relayed_to (ac_next s) (ac_out s) = []" by (simp add: no_relay)
qed

text \<open>An offer: the first message of its session, so no session of it is there yet.\<close>

lemma offer_keeps:
  assumes "client_inv s" "client_fifo s i" "ms_type m = asc ''offer''"
  shows "client_fifo (client_offer sdp m made (client_emit [AcRead m] s)) i"
proof -
  let ?s = "client_emit [AcRead m] s" and ?k = "ac_next s"
  let ?new = "\<lambda>x. client_emit [AcNew ?k (ms_sid m) x] (?s\<lparr>ac_next := Suc ?k, ac_made := (?k, ms_sid m) # ac_made s,
      ac_sessions := AList.update (ms_sid m) ?k (ac_sessions s)\<rparr>)"
  note f = client_facts [OF assms(1)]
  have both: "client_fifo ?s i \<and> client_fifo (?new x) i" for x
  proof (cases "ms_sid m = i")
    case True
    then have r: "read_for i ?s = read_for i s @ [m]" "read_for i (?new x) = read_for i s @ [m]"
      using assms(3) by (simp_all add: client_emit_def session_msg_def)
    have "kept_order (read_for i s @ [m]) i ?s \<and> kept_order (read_for i s @ [m]) i (?new x)"
      if o: "offered_first (read_for i s @ [m])"
    proof -
      have e: "read_for i s = []" using offered_snoc(3) [OF o] assms(3) by auto
      then have "kept_order [] i s" using assms(2) by (simp add: client_fifo_def offered_first_def)
      then have "map_of (ac_made s) k \<noteq> Some i" for k by (simp add: kept_order_def)
      with True f(3) show ?thesis unfolding e by (auto simp: kept_order_def client_emit_def)
    qed
    with r show ?thesis unfolding client_fifo_def r by blast
  next
    case False
    have "client_fifo ?s i" by (rule fifo_kept [OF assms(2)]) (use False in \<open>simp_all add: client_emit_def session_msg_def\<close>)
    moreover have "client_fifo (?new x) i"
      by (rule fifo_kept [OF assms(2)]) (use False f(2) in \<open>auto simp: client_emit_def session_msg_def update_conv'\<close>)
    ultimately show ?thesis by blast
  qed
  then have s: "client_fifo ?s i" by blast
  have "client_fifo (client_emit [AcSend x y] ?s) i" for x y
    by (rule fifo_kept [OF s]) simp_all
  with both show ?thesis
    by (simp add: client_offer_def Let_def split: option.split)
qed

lemma client_fifo_step:
  assumes "client_inv s" "client_fifo s i"
  shows "client_fifo (client_step sdp s e) i"
proof (cases e)
  case (CeRead m made)
  let ?s = "client_emit [AcRead m] s"
  note f = client_facts [OF assms(1)]
  have read: "client_fifo ?s i" if "\<not> session_msg i m"
    by (rule fifo_kept [OF assms(2)]) (use that in \<open>simp_all add: client_emit_def\<close>)
  have first: "kept_order (read_for i s) i s" "read_for i s \<noteq> []"
    if "offered_first (read_for i s @ [m])" "ms_type m = asc ''relay''"
    using offered_snoc(1,2) [OF that(1)] that(2) assms(2) by (auto simp: client_fifo_def)
  have relay_none: "client_fifo ?s i" if t: "ms_type m = asc ''relay''" "map_of (ac_sessions s) (ms_sid m) = None"
  proof (cases "ms_sid m = i")
    case True
    with t have r: "read_for i ?s = read_for i s @ [m]" by (simp add: client_emit_def session_msg_def)
    have "kept_order (read_for i s @ [m]) i ?s" if o: "offered_first (read_for i s @ [m])"
      using kept_more [OF first(1) [OF o t(1)] _ first(2) [OF o t(1)], of m] True t(2)
      by (simp add: kept_order_def client_emit_def)
    with r show ?thesis unfolding client_fifo_def r by blast
  qed (use read in \<open>simp add: session_msg_def\<close>)
  have relay_some: "client_fifo (client_emit [AcRelay k (ms_data m)] ?s) i"
    if t: "ms_type m = asc ''relay''" "map_of (ac_sessions s) (ms_sid m) = Some k" for k
  proof (cases "ms_sid m = i")
    case True
    let ?t = "client_emit [AcRelay k (ms_data m)] ?s"
    have r: "read_for i ?t = read_for i s @ [m]" using True t by (simp add: client_emit_def session_msg_def)
    have "kept_order (read_for i s @ [m]) i ?t" if o: "offered_first (read_for i s @ [m])"
      using first [OF o t(1)] f(1) [of i k] t(2) True by (auto simp: kept_order_def client_emit_def)
    then show ?thesis unfolding client_fifo_def r by blast
  next
    case False
    have "map_of (ac_made s) j = Some i \<Longrightarrow> j \<noteq> k" for j using f(1) [OF t(2)] False by auto
    with False show ?thesis
      by (intro fifo_kept [OF assms(2)]) (auto simp: client_emit_def session_msg_def)
  qed
  have close: "client_fifo (client_emit [AcClose k] (?s\<lparr>ac_sessions := AList.delete (ms_sid m) (ac_sessions s)\<rparr>)) i"
    if "ms_type m = asc ''close''" for k
    by (rule fifo_kept [OF assms(2)]) (use that in \<open>auto simp: client_emit_def session_msg_def delete_conv'\<close>)
  have other: "client_fifo ?s i" if "ms_type m \<noteq> asc ''offer''" "ms_type m \<noteq> asc ''relay''"
    by (rule read) (use that in \<open>simp add: session_msg_def\<close>)
  show ?thesis
    using CeRead assms(2) other relay_none relay_some close offer_keeps [OF assms]
    by (auto simp: client_read_def Let_def split: option.split)
next
  case CeGone
  have "client_fifo (client_emit (map (\<lambda>(sid, k). AcClose k) (ac_sessions s)) (s\<lparr>ac_up := False, ac_sessions := []\<rparr>)) i"
    by (rule fifo_kept [OF assms(2)]) (simp_all add: client_emit_def)
  with CeGone assms(2) show ?thesis by (simp add: client_gone_def)
next
  case (CeSignal k kind v sent)
  have "client_fifo (client_emit [AcSend x y] s) i" for x y
    by (rule fifo_kept [OF assms(2)]) (simp_all add: client_emit_def)
  with CeSignal assms(2) show ?thesis by (simp add: client_signal_def split: option.split)
next
  case (CeTick sent)
  have "client_fifo (client_emit [AcSend x y] s) i" for x y
    by (rule fifo_kept [OF assms(2)]) (simp_all add: client_emit_def)
  with CeTick assms(2) show ?thesis by (simp add: client_tick_def)
qed

end
