(* ===== verification/Relay_Path.thy ===== *)
theory Relay_Path
  imports Relay_Order
begin

text \<open>
  The relay from a browser to the device's session: the hub, the devices' ends of the connections and
  what is in transit to them. A connection keeps its order; when it breaks, what is in transit is lost
  with it (the device's end reads nothing more).
\<close>

section \<open>The network\<close>

record relay_net =
  nt_hub :: hub
  nt_clients :: "nat \<Rightarrow> client"
  nt_down :: "nat \<Rightarrow> message list"

definition net_init :: relay_net where
  "net_init = \<lparr>nt_hub = hub_init, nt_clients = (\<lambda>c. client_init), nt_down = (\<lambda>c. [])\<rparr>"

fun to_in :: "nat \<Rightarrow> hub_out \<Rightarrow> message list" where
  "to_in c (ToAgent a m) = (if a = c then [m] else [])" | "to_in c _ = []"

definition to_agent :: "nat \<Rightarrow> hub_out list \<Rightarrow> message list" where
  "to_agent c os = concat (map (to_in c) os)"

lemma to_agent_simps [simp]:
  "to_agent c [] = []" "to_agent c (x # os) = to_in c x @ to_agent c os" "to_agent c (os @ ps) = to_agent c os @ to_agent c ps"
  by (simp_all add: to_agent_def)

definition net_hub :: "(nat \<Rightarrow> jstext) \<Rightarrow> (json option \<Rightarrow> json option) \<Rightarrow> hub_event \<Rightarrow> relay_net \<Rightarrow> relay_net" where
  "net_hub token sdp e s =
     (let h = hub_step token sdp (nt_hub s) e;
          os = drop (length (hb_out (nt_hub s))) (hb_out h)
      in s\<lparr>nt_hub := h, nt_down := (\<lambda>c. nt_down s c @ to_agent c os)\<rparr>)"

definition net_read :: "(json option \<Rightarrow> json option) \<Rightarrow> nat \<Rightarrow> jstext option \<Rightarrow> relay_net \<Rightarrow> relay_net" where
  "net_read sdp c made s =
     (case nt_down s c of
        [] \<Rightarrow> s
      | m # ms \<Rightarrow>
          if ac_up (nt_clients s c)
          then s\<lparr>nt_clients := (nt_clients s)(c := client_step sdp (nt_clients s c) (CeRead m made)),
                 nt_down := (nt_down s)(c := ms)\<rparr>
          else s)"

datatype net_event = NtHub hub_event | NtRead nat "jstext option" | NtClient nat client_event

text \<open>A device's end does by itself everything but reading.\<close>

definition client_own :: "client_event \<Rightarrow> bool" where
  "client_own e \<longleftrightarrow> (case e of CeRead m made \<Rightarrow> False | _ \<Rightarrow> True)"

fun net_step :: "(nat \<Rightarrow> jstext) \<Rightarrow> (json option \<Rightarrow> json option) \<Rightarrow> relay_net \<Rightarrow> net_event \<Rightarrow> relay_net" where
  "net_step token sdp s (NtHub e) = net_hub token sdp e s"
| "net_step token sdp s (NtRead c made) = net_read sdp c made s"
| "net_step token sdp s (NtClient c e) =
     (if client_own e then s\<lparr>nt_clients := (nt_clients s)(c := client_step sdp (nt_clients s c) e)\<rparr> else s)"

abbreviation "net_run token sdp \<equiv> run (net_step token sdp)"

section \<open>The invariant\<close>

lemma leave_grows: "\<exists>xs. hb_out (browser_leave token n h sent s) = hb_out s @ xs"
  using leave_out by blast

lemma hub_grows: "\<exists>xs. hb_out (hub_step token sdp s e) = hb_out s @ xs"
proof (cases e)
  case (HuAgent who)
  then show ?thesis using plain_step(1) by fastforce
next
  case (HuAgentMsg c m valid sent)
  then show ?thesis using agent_message_plain(1) by fastforce
next
  case (HuAgentGone c)
  then show ?thesis using plain_step(2) by fastforce
next
  case (HuBrowserMsg n m admin sent made)
  have "\<exists>xs. hb_out (browser_leave token n h sent s') = hb_out s @ xs" if "\<exists>ys. hb_out s' = hb_out s @ ys" for h s'
    using leave_grows [of token n h sent s'] that by fastforce
  with HuBrowserMsg show ?thesis
    by (auto simp: browser_message_def on_offer_msg_def on_relay_msg_def Let_def hub_emit_def set_handler_def split: option.split)
next
  case (HuBrowserGone n sent)
  then show ?thesis using leave_grows by (auto simp: browser_gone_def split: option.split)
qed (auto simp: browser_check_def browser_open_def browser_forget_def local_send_def hub_emit_def set_handler_def split: option.split)

lemma client_reads:
  "client_own e \<Longrightarrow> reads_of (ac_out (client_step sdp s e)) = reads_of (ac_out s)"
  "ac_up s \<Longrightarrow> reads_of (ac_out (client_step sdp s (CeRead m made))) = reads_of (ac_out s) @ [m]"
proof -
  show "client_own e \<Longrightarrow> reads_of (ac_out (client_step sdp s e)) = reads_of (ac_out s)"
    by (cases e) (auto simp: client_own_def client_gone_def client_signal_def client_tick_def split: option.split)
  have "reads_of (ac_out (client_offer sdp m made s')) = reads_of (ac_out s')" for s'
    by (simp add: client_offer_def Let_def split: option.split)
  then show "ac_up s \<Longrightarrow> reads_of (ac_out (client_step sdp s (CeRead m made))) = reads_of (ac_out s) @ [m]"
    by (auto simp: client_read_def Let_def split: option.split)
qed

definition client_good :: "client \<Rightarrow> bool" where
  "client_good s \<longleftrightarrow> client_inv s \<and> (\<forall>i. client_fifo s i)"

lemma client_good_step: "client_good s \<Longrightarrow> client_good (client_step sdp s e)"
  using client_inv_step client_fifo_step by (simp add: client_good_def del: client_step.simps)

definition net_inv :: "(nat \<Rightarrow> jstext) \<Rightarrow> (json option \<Rightarrow> json option) \<Rightarrow> relay_net \<Rightarrow> bool" where
  "net_inv token sdp s \<longleftrightarrow>
     hub_inv token sdp (nt_hub s) \<and> (\<forall>k. fifo_at token (nt_hub s) k)
     \<and> (\<forall>c. client_good (nt_clients s c)
          \<and> to_agent c (hb_out (nt_hub s)) = reads_of (ac_out (nt_clients s c)) @ nt_down s c)"

lemma net_inv_init: "inj token \<Longrightarrow> net_inv token sdp net_init"
  using hub_inv_init [of token sdp] client_inv_init
  by (auto simp: net_inv_def net_init_def fifo_at_def hub_init_def client_good_def client_fifo_def kept_order_def client_init_def)

lemma net_inv_step:
  assumes "net_inv token sdp s"
  shows "net_inv token sdp (net_step token sdp s e)"
proof (cases e)
  case (NtHub x)
  let ?h = "hub_step token sdp (nt_hub s) x"
  obtain xs where xs: "hb_out ?h = hb_out (nt_hub s) @ xs" using hub_grows by blast
  have "hub_inv token sdp ?h \<and> (\<forall>k. fifo_at token ?h k)"
    using fifo_sys.step_inv [of token sdp "nt_hub s" x] assms by (simp add: net_inv_def)
  with assms NtHub xs show ?thesis by (simp add: net_inv_def net_hub_def Let_def del: hub_step.simps)
next
  case (NtRead c made)
  show ?thesis
  proof (cases "nt_down s c = [] \<or> \<not> ac_up (nt_clients s c)")
    case True
    with assms NtRead show ?thesis by (auto simp: net_read_def split: list.split)
  next
    case False
    then obtain m ms where m: "nt_down s c = m # ms" "ac_up (nt_clients s c)" by (cases "nt_down s c") auto
    let ?c = "client_step sdp (nt_clients s c) (CeRead m made)"
    have "client_good ?c" "reads_of (ac_out ?c) = reads_of (ac_out (nt_clients s c)) @ [m]"
      using assms client_good_step client_reads(2) [OF m(2)] unfolding net_inv_def by blast+
    with assms NtRead m show ?thesis by (simp add: net_inv_def net_read_def del: client_step.simps)
  qed
next
  case (NtClient c x)
  let ?c = "client_step sdp (nt_clients s c) x"
  have "client_own x \<Longrightarrow> client_good ?c \<and> reads_of (ac_out ?c) = reads_of (ac_out (nt_clients s c))"
    using assms client_good_step client_reads(1) unfolding net_inv_def by blast
  with assms NtClient show ?thesis by (simp add: net_inv_def del: client_step.simps)
qed

interpretation net_sys: event_system "net_step token sdp" "net_inv token sdp" for token sdp
  by unfold_locales (rule net_inv_step)

section \<open>End to end\<close>

lemma to_agent_session: "filter (session_msg i) (to_agent c os) = map snd (filter (\<lambda>x. fst x = c) (sess_of i os))"
proof (induction os)
  case (Cons x os)
  then show ?case by (cases x) auto
qed simp

lemma offered_prefix:
  assumes "prefix xs ms" "offered_first ms"
  shows "offered_first xs" "prefix (map ms_data (tl xs)) (map ms_data (tl ms))"
proof -
  obtain zs where z: "ms = xs @ zs" using assms(1) by (auto simp: prefix_def)
  show "offered_first xs" using assms(2) unfolding z by (cases xs) (auto simp: offered_first_def)
  show "prefix (map ms_data (tl xs)) (map ms_data (tl ms))" unfolding z by (cases xs) auto
qed

text \<open>What a device's end has read of a session.\<close>

lemma read_of_session:
  assumes "net_inv token sdp s"
  obtains c0 ms where "sess_of (token n) (hb_out (nt_hub s)) = map (Pair c0) ms" "offered_first ms"
    "prefix (map ms_data (tl ms)) (relays_from n (hb_out (nt_hub s)))"
    "\<And>c. prefix (read_for (token n) (nt_clients s c)) (if c = c0 then ms else [])"
proof -
  have "ended_ok (sess_of (token n) (hb_out (nt_hub s))) (relays_from n (hb_out (nt_hub s)))"
    using assms by (intro fifo_shut) (simp add: net_inv_def)
  then obtain c0 ms where ms: "sess_of (token n) (hb_out (nt_hub s)) = map (Pair c0) ms" "offered_first ms"
    "prefix (map ms_data (tl ms)) (relays_from n (hb_out (nt_hub s)))" by (auto simp: ended_ok_def)
  have "prefix (read_for (token n) (nt_clients s c)) (if c = c0 then ms else [])" for c
  proof -
    have "to_agent c (hb_out (nt_hub s)) = reads_of (ac_out (nt_clients s c)) @ nt_down s c" using assms by (simp add: net_inv_def)
    then have "filter (session_msg (token n)) (to_agent c (hb_out (nt_hub s)))
        = read_for (token n) (nt_clients s c) @ filter (session_msg (token n)) (nt_down s c)" by simp
    moreover have "map snd (filter (\<lambda>x. fst x = c) (map (Pair c0) ms)) = (if c = c0 then ms else [])"
      by (induction ms) auto
    ultimately show ?thesis unfolding to_agent_session ms(1) by (simp add: prefix_def)
  qed
  with that ms show ?thesis by blast
qed

lemma offer_mode_json [simp]: "offer_mode (Some (offer_json v mode)) = mode"
  by (simp add: offer_mode_def offer_json_def go_text_field_def)

lemma made_as_admitted:
  assumes "net_inv token sdp s" "map_of (ac_made (nt_clients s c)) k = Some (token n)"
  shows "\<exists>d mode sys. AgentUp c d \<in> set (hb_out (nt_hub s)) \<and> Opened n d mode sys \<in> set (hb_out (nt_hub s))
    \<and> AcNew k (token n) mode \<in> set (ac_out (nt_clients s c))"
proof -
  have ci: "client_inv (nt_clients s c)" using assms(1) by (simp add: net_inv_def client_good_def)
  with assms(2) obtain mode where new: "AcNew k (token n) mode \<in> set (ac_out (nt_clients s c))"
    unfolding client_inv_def made_in_def by blast
  with ci have "client_ok (set (ac_out (nt_clients s c))) (map_of (ac_made (nt_clients s c))) (AcNew k (token n) mode)"
    unfolding client_inv_def by blast
  then obtain m where m: "AcRead m \<in> set (ac_out (nt_clients s c))" "ms_type m = asc ''offer''" "ms_sid m = token n"
    "offer_mode (ms_data m) = mode" by auto
  have sent: "ToAgent c m \<in> set (hb_out (nt_hub s))"
  proof -
    have "m \<in> set (to_agent c (hb_out (nt_hub s)))" using assms(1) m(1) by (simp add: net_inv_def in_reads)
    moreover have "m \<in> set (to_in c x) \<longleftrightarrow> x = ToAgent c m" for x by (cases x) auto
    ultimately show ?thesis by (auto simp: to_agent_def)
  qed
  have h: "hub_inv token sdp (nt_hub s)" using assms(1) by (simp add: net_inv_def)
  then have "out_ok token sdp (set (hb_out (nt_hub s))) (ToAgent c m)" using sent unfolding hub_inv_def trace_ok_def by blast
  then obtain n' d mode' sys where o: "AgentUp c d \<in> set (hb_out (nt_hub s))" "Opened n' d mode' sys \<in> set (hb_out (nt_hub s))"
    "passed_on token sdp (set (hb_out (nt_hub s))) n' mode' m"
    using m(2) by (auto simp: plain_msg_def)
  from o(3) m(3) have "n' = n" using h by (auto simp: passed_on_def hub_inv_def inj_eq)
  moreover from o(3) m(2) obtain v where "ms_data m = Some (offer_json v mode')" by (auto simp: passed_on_def)
  with m(4) have "mode' = mode" by simp
  ultimately show ?thesis using o(1,2) new
    by (intro exI [of _ d] exI [of _ mode] exI [of _ sys]) simp
qed

text \<open>
  C2: the relay delivers in order: what a device's session is handed through the relay is, in order and
  without gaps or repetitions, the beginning of what the browser it was made for has sent; the session
  is on the device the browser was admitted to, in the mode it was admitted for; and a browser has at
  most one session in the whole network.
\<close>

theorem relay_delivers_in_order:
  assumes "inj token"
  shows "let s = net_run token sdp net_init es; os = hb_out (nt_hub s)
    in \<forall>c k n. map_of (ac_made (nt_clients s c)) k = Some (token n) \<longrightarrow>
         prefix (relayed_to k (ac_out (nt_clients s c))) (relays_from n os)
         \<and> (\<exists>d mode sys. AgentUp c d \<in> set os \<and> Opened n d mode sys \<in> set os
               \<and> AcNew k (token n) mode \<in> set (ac_out (nt_clients s c)))
         \<and> (\<forall>c' k'. map_of (ac_made (nt_clients s c')) k' = Some (token n) \<longrightarrow> c' = c \<and> k' = k)"
proof -
  let ?s = "net_run token sdp net_init es"
  have i: "net_inv token sdp ?s" by (rule net_sys.run_inv [OF net_inv_init [OF assms]])
  have "prefix (relayed_to k (ac_out (nt_clients ?s c))) (relays_from n (hb_out (nt_hub ?s)))
      \<and> (\<forall>c' k'. map_of (ac_made (nt_clients ?s c')) k' = Some (token n) \<longrightarrow> c' = c \<and> k' = k)"
    if k: "map_of (ac_made (nt_clients ?s c)) k = Some (token n)" for c k n
  proof -
    obtain c0 ms where ms: "offered_first ms" "prefix (map ms_data (tl ms)) (relays_from n (hb_out (nt_hub ?s)))"
      "\<And>c. prefix (read_for (token n) (nt_clients ?s c)) (if c = c0 then ms else [])"
      using read_of_session [OF i] by metis
    have f: "c' = c0 \<and> kept_order (read_for (token n) (nt_clients ?s c')) (token n) (nt_clients ?s c')
        \<and> prefix (map ms_data (tl (read_for (token n) (nt_clients ?s c')))) (map ms_data (tl ms))"
      if "map_of (ac_made (nt_clients ?s c')) k' = Some (token n)" for c' k'
    proof -
      have o: "offered_first (if c' = c0 then ms else [])" using ms(1) by (simp add: offered_first_def)
      have kept: "kept_order (read_for (token n) (nt_clients ?s c')) (token n) (nt_clients ?s c')"
        using i offered_prefix(1) [OF ms(3) o] by (simp add: net_inv_def client_good_def client_fifo_def)
      then have "read_for (token n) (nt_clients ?s c') \<noteq> []" using that unfolding kept_order_def by blast
      then have "c' = c0" using ms(3) [of c'] by (cases "c' = c0") auto
      with kept offered_prefix(2) [OF ms(3) o] show ?thesis by simp
    qed
    from f [OF k] k have "prefix (relayed_to k (ac_out (nt_clients ?s c))) (map ms_data (tl ms))"
      unfolding kept_order_def using prefix_order.trans by blast
    moreover have "c' = c \<and> k' = k" if "map_of (ac_made (nt_clients ?s c')) k' = Some (token n)" for c' k'
      using f [OF k] f [OF that] k that unfolding kept_order_def by blast
    ultimately show ?thesis using ms(2) prefix_order.trans by blast
  qed
  with made_as_admitted [OF i] show ?thesis unfolding Let_def by blast
qed

text \<open>A browser offers a session of files and relays two messages; the second is still in transit.\<close>

definition relayed_once :: "net_event list" where
  "relayed_once =
     [NtHub (HuAgent (Some pc)), NtHub (HuCheck pc (asc ''files'') (Some [])), NtHub (HuOpen 0 True),
      NtHub (HuBrowserMsg 0 \<lparr>ms_sid = [], ms_type = asc ''offer'',
        ms_data = Some (JObj [(asc ''sdp'', JNull), (asc ''mode'', JStr [])])\<rparr> True True None),
      NtHub (HuBrowserMsg 0 \<lparr>ms_sid = [], ms_type = asc ''relay'', ms_data = Some (JNum 1)\<rparr> True True None),
      NtHub (HuBrowserMsg 0 \<lparr>ms_sid = [], ms_type = asc ''relay'', ms_data = Some (JNum 2)\<rparr> True True None),
      NtRead 0 None, NtRead 0 None]"

theorem relay_delivers_in_order_witness:
  "let s = net_run letters (\<lambda>d. d) net_init relayed_once
   in relayed_to 0 (ac_out (nt_clients s 0)) = [Some (JNum 1)]
      \<and> relays_from 0 (hb_out (nt_hub s)) = [Some (JNum 1), Some (JNum 2)]
      \<and> (\<exists>d mode sys. Opened 0 d mode sys \<in> set (hb_out (nt_hub s)) \<and> AcNew 0 (letters 0) mode \<in> set (ac_out (nt_clients s 0)))"
proof -
  let ?s = "net_run letters (\<lambda>d. d) net_init relayed_once"
  have "map_of (ac_made (nt_clients ?s 0)) 0 = Some (letters 0) \<and> relayed_to 0 (ac_out (nt_clients ?s 0)) = [Some (JNum 1)]
      \<and> relays_from 0 (hb_out (nt_hub ?s)) = [Some (JNum 1), Some (JNum 2)]"
    by (simp add: relayed_once_def net_init_def hub_init_def client_init_def net_hub_def net_read_def hub_defs Let_def pc_def
        session_limit_def read_offer_def go_text_field_def offer_json_def client_read_def client_offer_def client_sessions_def
        offer_mode_def new_error_def)
  with relay_delivers_in_order [OF inj_letters, of "\<lambda>d. d" relayed_once] show ?thesis unfolding Let_def by blast
qed

end
