(* ===== verification/Shell.thy ===== *)
theory Shell
  imports Json_Lemmas
begin

text \<open>
  The Electron shell, \<open>desktop/main.cjs\<close> (and \<open>preload.cjs\<close>): the local configuration it trusts, the
  system-proxy request of the page, the token it adds to requests of the page, and the life of the
  window and the tray. Electron, the file system and PowerShell are outside: what they report is an
  event or an argument, what the shell asks of them is the trace \<open>sh_out\<close>.
\<close>

section \<open>Configuration\<close>

datatype config_err = ReadFailed | BadJson | NullConfig | BadAddress

text \<open>The text a value has in a template or a concatenation; a missing property is \<open>undefined\<close>.\<close>

definition field_text :: "json \<Rightarrow> string \<Rightarrow> jstext" where
  "field_text c k = (case jget c (asc k) of None \<Rightarrow> asc ''undefined'' | Some v \<Rightarrow> js_to_string v)"

text \<open>\<open>/^127\.0\.0\.1:\d+$/\<close>\<close>

definition local_address :: "jstext \<Rightarrow> bool" where
  "local_address t \<longleftrightarrow>
     take 10 t = asc ''127.0.0.1:'' \<and> drop 10 t \<noteq> [] \<and> (\<forall>c \<in> set (drop 10 t). is_digit c)"

definition read_config :: "jstext option \<Rightarrow> config_err + json" where
  "read_config file =
     (case file of
        None \<Rightarrow> Inl ReadFailed
      | Some t \<Rightarrow>
          (case json_parse t of
             None \<Rightarrow> Inl BadJson
           | Some c \<Rightarrow>
               if c = JNull then Inl NullConfig
               else if local_address (field_text c ''localListen'') then Inr c
               else Inl BadAddress))"

definition origin_of :: "json \<Rightarrow> jstext" where
  "origin_of c = asc ''http://'' @ field_text c ''localListen''"

section \<open>The page's requests\<close>

definition desktop_url :: "jstext \<Rightarrow> jstext" where
  "desktop_url origin = origin @ asc ''/#desktop''"

definition powershell_args :: "jstext \<Rightarrow> jstext \<Rightarrow> jstext list" where
  "powershell_args script action =
     [asc ''-NoProfile'', asc ''-NonInteractive'', asc ''-ExecutionPolicy'', asc ''Bypass'', asc ''-File'',
      script, asc ''-Action'', action]"

text \<open>
  \<open>ipcMain.handle("system-proxy")\<close>: \<open>None\<close> is the refusal. \<open>url\<close> is the sender frame's, \<open>action\<close>
  any value the page passes.
\<close>

definition system_proxy :: "jstext \<Rightarrow> jstext \<Rightarrow> jstext option \<Rightarrow> json option \<Rightarrow> jstext list option" where
  "system_proxy origin script url action =
     (if url \<noteq> Some (desktop_url origin)
         \<or> action \<notin> {Some (JStr (asc ''enable'')), Some (JStr (asc ''restore'')), Some (JStr (asc ''status''))}
      then None
      else case action of Some (JStr a) \<Rightarrow> Some (powershell_args script a) | _ \<Rightarrow> None)"

datatype proxy_err = ProxyFailed | ProxyBadResponse

definition proxy_answer :: "bool \<Rightarrow> jstext \<Rightarrow> proxy_err + json" where
  "proxy_answer failed out =
     (if failed then Inl ProxyFailed
      else case json_parse out of None \<Rightarrow> Inl ProxyBadResponse | Some v \<Rightarrow> Inr v)"

text \<open>\<open>onBeforeSendHeaders\<close>, for a request whose URL matches the filter \<open>origin/api/*\<close>.\<close>

definition add_token :: "jstext option \<Rightarrow> (jstext \<times> jstext) list \<Rightarrow> (jstext \<times> jstext) list" where
  "add_token file headers =
     (case read_config file of
        Inl e \<Rightarrow> headers
      | Inr c \<Rightarrow> AList.update (asc ''Authorization'') (asc ''Bearer '' @ field_text c ''localToken'') headers)"

text \<open>\<open>will-navigate\<close> prevents a navigation to another origin; \<open>url_origin\<close> is \<open>new URL(url).origin\<close>.\<close>

definition navigation_prevented :: "(jstext \<Rightarrow> jstext) \<Rightarrow> jstext \<Rightarrow> jstext \<Rightarrow> bool" where
  "navigation_prevented url_origin origin url \<longleftrightarrow> url_origin url \<noteq> origin"

section \<open>The window and the tray\<close>

datatype shell_out =
    SoCreate | SoShow | SoHide | SoLoad jstext | SoQuit | SoErrorBox config_err | SoTray
  | SoStartRemote | SoStopRemote

record shell =
  sh_primary :: bool
  sh_ready :: bool
  sh_origin :: jstext
  sh_window :: "bool option"
  sh_closing :: bool
  sh_tray :: bool
  sh_quitting :: bool
  sh_reload :: bool
  sh_remote :: bool
  sh_out :: "shell_out list"

text \<open>
  \<open>sh_window\<close>: the window, and whether it is shown; \<open>sh_closing\<close>: its close event was not prevented;
  \<open>sh_reload\<close>: the reload timer is armed; \<open>sh_remote\<close>: \<open>stopRemoteDesktop\<close> is set.
\<close>

definition sh_emit :: "shell_out list \<Rightarrow> shell \<Rightarrow> shell" where
  "sh_emit os s = s\<lparr>sh_out := sh_out s @ os\<rparr>"

text \<open>\<open>locked\<close>: \<open>requestSingleInstanceLock\<close> succeeds.\<close>

definition shell_start :: "bool \<Rightarrow> shell" where
  "shell_start locked =
     \<lparr>sh_primary = locked, sh_ready = False, sh_origin = asc ''http://127.0.0.1:18765'', sh_window = None,
      sh_closing = False, sh_tray = False, sh_quitting = False, sh_reload = False, sh_remote = False,
      sh_out = (if locked then [] else [SoQuit])\<rparr>"

definition sh_show :: "shell \<Rightarrow> shell" where
  "sh_show s =
     (case sh_window s of
        Some v \<Rightarrow> sh_emit [SoShow] (s\<lparr>sh_window := Some True\<rparr>)
      | None \<Rightarrow> sh_emit [SoCreate, SoLoad (desktop_url (sh_origin s))]
                  (s\<lparr>sh_window := Some True, sh_closing := False\<rparr>))"

text \<open>\<open>app.whenReady().then\<close>\<close>

definition on_ready :: "jstext option \<Rightarrow> bool \<Rightarrow> shell \<Rightarrow> shell" where
  "on_ready file startup s =
     (if \<not> sh_primary s \<or> sh_ready s then s
      else
        let s1 = s\<lparr>sh_ready := True\<rparr>
        in case read_config file of
             Inl e \<Rightarrow> sh_emit [SoErrorBox e, SoQuit] s1
           | Inr c \<Rightarrow>
               let s2 = sh_emit [SoTray, SoStartRemote] (s1\<lparr>sh_origin := origin_of c, sh_tray := True, sh_remote := True\<rparr>)
               in if startup then s2 else sh_show s2)"

definition on_fail_load :: "int \<Rightarrow> bool \<Rightarrow> shell \<Rightarrow> shell" where
  "on_fail_load code main s =
     (if sh_window s = None \<or> \<not> main \<or> code = - 3 \<or> sh_quitting s then s else s\<lparr>sh_reload := True\<rparr>)"

definition on_reload :: "shell \<Rightarrow> shell" where
  "on_reload s =
     (if \<not> sh_reload s then s
      else
        let s1 = s\<lparr>sh_reload := False\<rparr>
        in if sh_window s1 \<noteq> None then sh_emit [SoLoad (desktop_url (sh_origin s1))] s1 else s1)"

definition on_close :: "shell \<Rightarrow> shell" where
  "on_close s =
     (case sh_window s of
        None \<Rightarrow> s
      | Some v \<Rightarrow>
          if sh_quitting s then s\<lparr>sh_closing := True\<rparr>
          else sh_emit [SoHide] (s\<lparr>sh_window := Some False\<rparr>))"

definition on_closed :: "shell \<Rightarrow> shell" where
  "on_closed s =
     (if sh_window s = None \<or> \<not> sh_closing s then s
      else s\<lparr>sh_reload := False, sh_window := None, sh_closing := False\<rparr>)"

definition on_before_quit :: "shell \<Rightarrow> shell" where
  "on_before_quit s =
     (if \<not> sh_primary s then s
      else
        let s1 = s\<lparr>sh_quitting := True\<rparr> in if sh_remote s1 then sh_emit [SoStopRemote] s1 else s1)"

datatype shell_event =
    SeReady "jstext option" bool | SeSecondInstance | SeTrayOpen | SeTrayQuit | SeTrayDouble
  | SeFailLoad int bool | SeFinishLoad | SeReload | SeClose | SeClosed | SeBeforeQuit

text \<open>A second instance is announced after \<open>ready\<close> only.\<close>

fun shell_step :: "shell \<Rightarrow> shell_event \<Rightarrow> shell" where
  "shell_step s (SeReady file startup) = on_ready file startup s"
| "shell_step s SeSecondInstance = (if sh_primary s \<and> sh_ready s then sh_show s else s)"
| "shell_step s SeTrayOpen = (if sh_tray s then sh_show s else s)"
| "shell_step s SeTrayQuit = (if sh_tray s then sh_emit [SoQuit] (s\<lparr>sh_quitting := True\<rparr>) else s)"
| "shell_step s SeTrayDouble = (if sh_tray s then sh_show s else s)"
| "shell_step s (SeFailLoad code main) = on_fail_load code main s"
| "shell_step s SeFinishLoad = (if sh_window s = None then s else s\<lparr>sh_reload := False\<rparr>)"
| "shell_step s SeReload = on_reload s"
| "shell_step s SeClose = on_close s"
| "shell_step s SeClosed = on_closed s"
| "shell_step s SeBeforeQuit = on_before_quit s"

abbreviation "shell_run \<equiv> run shell_step"

named_theorems sh_defs \<open>the handlers of the shell\<close>

lemmas [sh_defs] =
  sh_emit_def sh_show_def on_ready_def on_fail_load_def on_reload_def on_close_def on_closed_def on_before_quit_def

section \<open>The invariant\<close>

text \<open>An origin on the loopback address, and nothing after its port.\<close>

definition loopback :: "jstext \<Rightarrow> bool" where
  "loopback u \<longleftrightarrow> (\<exists>ds. u = asc ''http://127.0.0.1:'' @ ds \<and> ds \<noteq> [] \<and> (\<forall>c \<in> set ds. is_digit c))"

fun loads_local :: "shell_out \<Rightarrow> bool" where
  "loads_local (SoLoad u) = (\<exists>o'. loopback o' \<and> u = desktop_url o')"
| "loads_local _ = True"

definition shell_inv :: "shell \<Rightarrow> bool" where
  "shell_inv s \<longleftrightarrow>
     loopback (sh_origin s) \<and> (\<forall>x \<in> set (sh_out s). loads_local x)
     \<and> (sh_reload s \<longrightarrow> sh_window s \<noteq> None) \<and> (sh_closing s \<longrightarrow> sh_quitting s)"

lemma loopback_config: "read_config file = Inr c \<Longrightarrow> loopback (origin_of c)"
proof -
  assume "read_config file = Inr c"
  then have l: "local_address (field_text c ''localListen'')"
    by (auto simp: read_config_def split: option.splits if_splits)
  let ?t = "field_text c ''localListen''"
  have "?t = asc ''127.0.0.1:'' @ drop 10 ?t"
    using l append_take_drop_id [of 10 ?t] by (simp add: local_address_def)
  then have "origin_of c = asc ''http://'' @ asc ''127.0.0.1:'' @ drop 10 ?t"
    unfolding origin_of_def by argo
  then have "origin_of c = asc ''http://127.0.0.1:'' @ drop 10 ?t"
    by (simp add: asc_def)
  with l show ?thesis unfolding loopback_def local_address_def by blast
qed

lemma shell_inv_start: "shell_inv (shell_start locked)"
proof -
  have "asc ''http://127.0.0.1:18765'' = asc ''http://127.0.0.1:'' @ asc ''18765''"
    by (simp add: asc_def)
  moreover have "\<forall>c \<in> set (asc ''18765''). is_digit c" "asc ''18765'' \<noteq> []"
    by (simp_all add: js_eval is_digit_def)
  ultimately have "loopback (asc ''http://127.0.0.1:18765'')" unfolding loopback_def by blast
  then show ?thesis by (simp add: shell_inv_def shell_start_def)
qed

lemma shell_inv_show: "shell_inv s \<Longrightarrow> \<not> sh_closing s \<or> sh_window s \<noteq> None \<Longrightarrow> shell_inv (sh_show s)"
  by (auto simp: shell_inv_def sh_show_def sh_emit_def split: option.split)

lemma shell_inv_step: "shell_inv s \<Longrightarrow> shell_inv (shell_step s e)"
proof -
  assume i: "shell_inv s"
  have disp: "shell_inv (sh_show s')" if "shell_inv s'" for s'
    using that by (auto simp: shell_inv_def sh_show_def sh_emit_def split: option.split)
  show ?thesis
  proof (cases e)
    case (SeReady cf startup)
    show ?thesis
    proof (cases "read_config cf")
      case (Inr c)
      have "shell_inv (sh_emit [SoTray, SoStartRemote]
          (s\<lparr>sh_ready := True, sh_origin := origin_of c, sh_tray := True, sh_remote := True\<rparr>))"
        using i loopback_config [OF Inr] by (simp add: shell_inv_def sh_emit_def)
      with i disp Inr SeReady show ?thesis by (auto simp: on_ready_def Let_def)
    qed (use i SeReady in \<open>auto simp: on_ready_def shell_inv_def sh_emit_def\<close>)
  qed (use i disp in \<open>auto simp: sh_defs shell_inv_def Let_def split: option.splits\<close>)
qed

interpretation shell_sys: event_system shell_step shell_inv
  by unfold_locales (rule shell_inv_step)

section \<open>Properties\<close>

text \<open>
  C35: the shell only ever loads the local agent's page: whatever is in the configuration file and in
  whatever order the events come, every page loaded is the desktop view of an origin that is the
  loopback address with a numeric port, and the system proxy is changed only on the request of that
  page, by one of the three fixed actions.
\<close>

theorem shell_is_local:
  "let s = shell_run (shell_start locked) es
   in (\<forall>u. SoLoad u \<in> set (sh_out s) \<longrightarrow>
         (\<exists>ds. u = asc ''http://127.0.0.1:'' @ ds @ asc ''/#desktop'' \<and> ds \<noteq> [] \<and> (\<forall>c \<in> set ds. is_digit c)))
      \<and> (\<forall>url action args. system_proxy (sh_origin s) script url action = Some args \<longrightarrow>
         (\<exists>ds a. url = Some (asc ''http://127.0.0.1:'' @ ds @ asc ''/#desktop'') \<and> (\<forall>c \<in> set ds. is_digit c)
            \<and> action = Some (JStr (asc a)) \<and> a \<in> {''enable'', ''restore'', ''status''}
            \<and> args = powershell_args script (asc a)))"
proof -
  let ?s = "shell_run (shell_start locked) es"
  have i: "shell_inv ?s" by (rule shell_sys.run_inv [OF shell_inv_start])
  have "\<exists>ds. u = asc ''http://127.0.0.1:'' @ ds @ asc ''/#desktop'' \<and> ds \<noteq> [] \<and> (\<forall>c \<in> set ds. is_digit c)"
    if "SoLoad u \<in> set (sh_out ?s)" for u
    using i that by (force simp: shell_inv_def loopback_def desktop_url_def)
  moreover obtain ds where "sh_origin ?s = asc ''http://127.0.0.1:'' @ ds" "\<forall>c \<in> set ds. is_digit c"
    using i by (auto simp: shell_inv_def loopback_def)
  ultimately show ?thesis
    unfolding Let_def system_proxy_def desktop_url_def by (auto split: if_splits)
qed

theorem shell_is_local_witness:
  "let s = shell_run (shell_start True) [SeReady (Some (asc ''{\"localListen\":\"127.0.0.1:80\"}'')) False]
   in \<forall>u. SoLoad u \<in> set (sh_out s) \<longrightarrow> (\<exists>ds. u = asc ''http://127.0.0.1:'' @ ds @ asc ''/#desktop'')"
  using shell_is_local [of True "[SeReady (Some (asc ''{\"localListen\":\"127.0.0.1:80\"}'')) False]"]
  unfolding Let_def by blast

text \<open>
  Closing the window does not end the client: until the user quits from the tray or the system
  ends the application, a window that exists keeps existing whatever happens to it; closing only hides
  it.
\<close>

theorem window_survives_close:
  assumes "sh_window s \<noteq> None" "\<not> sh_quitting s" "\<not> sh_closing s"
    and "SeTrayQuit \<notin> set es" "SeBeforeQuit \<notin> set es"
  shows "sh_window (shell_run s es) \<noteq> None \<and> \<not> sh_quitting (shell_run s es)
    \<and> sh_window (shell_step (shell_run s es) SeClose) = Some False"
proof -
  have "sh_window (shell_run s es) \<noteq> None \<and> \<not> sh_quitting (shell_run s es) \<and> \<not> sh_closing (shell_run s es)"
    using assms
  proof (induction es arbitrary: s)
    case (Cons e es)
    have "sh_window (shell_step s e) \<noteq> None \<and> \<not> sh_quitting (shell_step s e) \<and> \<not> sh_closing (shell_step s e)"
      using Cons.prems by (cases e) (auto simp: sh_defs Let_def split: option.splits sum.split)
    with Cons show ?case by simp
  qed simp
  then show ?thesis by (auto simp: on_close_def sh_emit_def)
qed

theorem window_survives_close_witness:
  "let s = shell_step (shell_start True\<lparr>sh_ready := True\<rparr>) SeSecondInstance
   in sh_window (shell_step (shell_run s [SeClose, SeFailLoad (- 2) True, SeReload]) SeClose) = Some False"
  using window_survives_close [of "shell_step (shell_start True\<lparr>sh_ready := True\<rparr>) SeSecondInstance"
      "[SeClose, SeFailLoad (- 2) True, SeReload]"]
  by (simp add: shell_start_def sh_defs Let_def)

end
