(* ===== verification/App_Forms.thy ===== *)
theory App_Forms
  imports Json_Lemmas
begin

text \<open>
  The pure parts of the console, \<open>web/static/app.js\<close>: how values are written (\<open>bytes\<close>, \<open>date\<close>,
  \<open>deviceName\<close>), which devices the browser can reach (\<open>canRemote\<close>), what a form holds when it opens
  (\<open>field\<close>, \<open>select\<close>) and the request each dialog of \<open>action\<close> sends for what it holds.

  A form is the list of its named controls with their values; \<open>Object.fromEntries(new FormData(form))\<close>
  is the same list, as the names of a form are distinct. \<open>locale_date\<close> is \<open>toLocaleString\<close>.
\<close>

section \<open>Numbers of text\<close>

text \<open>
  \<open>Number(text)\<close>, with exact values: blanks around are dropped, the empty text is 0, then a decimal
  literal with an optional sign, or a literal with a radix prefix.
\<close>

datatype jsnum = NaN | Fin rat | PInf | NInf

definition js_blank :: "nat \<Rightarrow> bool" where
  "js_blank c \<longleftrightarrow> c \<in> {9, 10, 11, 12, 13, 32, 0xA0, 0x1680, 0x2028, 0x2029, 0x202F, 0x205F, 0x3000, 0xFEFF}
     \<or> 0x2000 \<le> c \<and> c \<le> 0x200A"

definition trim_blank :: "jstext \<Rightarrow> jstext" where
  "trim_blank t = rev (dropWhile js_blank (rev (dropWhile js_blank t)))"

definition radix_digit :: "nat \<Rightarrow> nat option" where
  "radix_digit c =
     (if 48 \<le> c \<and> c \<le> 57 then Some (c - 48)
      else if 65 \<le> c \<and> c \<le> 90 then Some (c - 55)
      else if 97 \<le> c \<and> c \<le> 122 then Some (c - 87) else None)"

definition radix_number :: "nat \<Rightarrow> jstext \<Rightarrow> jsnum" where
  "radix_number b ds =
     (if ds \<noteq> [] \<and> (\<forall>c \<in> set ds. \<exists>n \<in> set_option (radix_digit c). n < b)
      then Fin (of_nat (foldl (\<lambda>a c. a * b + the (radix_digit c)) 0 ds)) else NaN)"

definition exponent :: "jstext \<Rightarrow> int option" where
  "exponent t =
     (let (neg, ds) = (if t \<noteq> [] \<and> hd t = 45 then (True, tl t)
                       else if t \<noteq> [] \<and> hd t = 43 then (False, tl t) else (False, t))
      in if ds \<noteq> [] \<and> (\<forall>c \<in> set ds. is_digit c)
         then Some (if neg then - int (digits_val ds) else int (digits_val ds)) else None)"

definition pow10 :: "int \<Rightarrow> rat" where
  "pow10 e = (if 0 \<le> e then 10 ^ nat e else 1 / 10 ^ nat (- e))"

definition decimal_number :: "jstext \<Rightarrow> jsnum" where
  "decimal_number u =
     (if u = asc ''Infinity'' then PInf
      else
        let i = takeWhile is_digit u; r = dropWhile is_digit u;
            (f, r2) = (if r \<noteq> [] \<and> hd r = 46 then (takeWhile is_digit (tl r), dropWhile is_digit (tl r)) else ([], r));
            v = of_nat (digits_val (i @ f)) * pow10 (- int (length f))
        in if i = [] \<and> f = [] then NaN
           else case r2 of
                  [] \<Rightarrow> Fin v
                | c # t \<Rightarrow>
                    if c = 69 \<or> c = 101 then (case exponent t of None \<Rightarrow> NaN | Some e \<Rightarrow> Fin (v * pow10 e))
                    else NaN)"

definition negate :: "jsnum \<Rightarrow> jsnum" where
  "negate x = (case x of NaN \<Rightarrow> NaN | Fin r \<Rightarrow> Fin (- r) | PInf \<Rightarrow> NInf | NInf \<Rightarrow> PInf)"

definition js_number :: "jstext \<Rightarrow> jsnum" where
  "js_number t =
     (case trim_blank t of
        [] \<Rightarrow> Fin 0
      | c # u \<Rightarrow>
          if c = 45 then negate (decimal_number u)
          else if c = 43 then decimal_number u
          else if c = 48 \<and> u \<noteq> [] \<and> hd u \<in> {120, 88} then radix_number 16 (tl u)
          else if c = 48 \<and> u \<noteq> [] \<and> hd u \<in> {111, 79} then radix_number 8 (tl u)
          else if c = 48 \<and> u \<noteq> [] \<and> hd u \<in> {98, 66} then radix_number 2 (tl u)
          else decimal_number (c # u))"

fun num_greater :: "jsnum \<Rightarrow> rat \<Rightarrow> bool" where
  "num_greater (Fin a) b = (a > b)"
| "num_greater PInf b = True"
| "num_greater _ b = False"

fun num_at_least :: "jsnum \<Rightarrow> rat \<Rightarrow> bool" where
  "num_at_least (Fin a) b = (a \<ge> b)"
| "num_at_least PInf b = True"
| "num_at_least _ b = False"

section \<open>The state of the network\<close>

record dev =
  dv_id :: jstext
  dv_name :: jstext
  dv_ip :: jstext
  dv_os :: jstext
  dv_online :: bool
  dv_latency :: int
  dv_tx :: int
  dv_rx :: int
  dv_handshake :: int
  dv_version :: jstext
  dv_proxy_port :: int
  dv_proxy_type :: jstext
  dv_proxy_ok :: bool
  dv_ssh_user :: jstext
  dv_ssh_port :: int
  dv_ssh_print :: jstext

text \<open>\<open>po_nil\<close>: the list of exits is Go's nil slice, which is shown as \<open>null\<close>.\<close>

record policy =
  po_source :: jstext
  po_exits :: "jstext list"
  po_failure :: jstext
  po_active :: jstext
  po_nil :: bool

record mapping =
  mp_id :: jstext
  mp_name :: jstext
  mp_protocol :: jstext
  mp_listen :: int
  mp_device :: jstext
  mp_target :: int
  mp_domain :: jstext
  mp_enabled :: bool
  mp_error :: jstext

record event_entry =
  ev_at :: jstext
  ev_action :: jstext
  ev_detail :: jstext

record net =
  nt_server_ip :: jstext
  nt_devices :: "dev list"
  nt_policies :: "policy list"
  nt_mappings :: "mapping list"
  nt_events :: "event_entry list"

text \<open>An absent string property reads as the empty text: the code tests it with \<open>||\<close> or \<open>?:\<close> only.\<close>

definition device :: "net \<Rightarrow> jstext \<Rightarrow> dev option" where
  "device st i = find (\<lambda>d. dv_id d = i) (nt_devices st)"

text \<open>\<open>id === "DIRECT" ? ... : device(id)?.name || id || ...\<close>; the literals are Chinese.\<close>

definition direct_text :: jstext where
  "direct_text = [0x76F4, 0x63A5, 0x8FDE, 0x63A5]"

definition none_text :: jstext where
  "none_text = [0x6682, 0x65E0]"

definition device_name :: "net \<Rightarrow> jstext \<Rightarrow> jstext" where
  "device_name st i =
     (if i = asc ''DIRECT'' then direct_text
      else case device st i of
             Some d \<Rightarrow> if dv_name d \<noteq> [] then dv_name d else if i \<noteq> [] then i else none_text
           | None \<Rightarrow> if i \<noteq> [] then i else none_text)"

text \<open>\<open>String(version || "0.0").split(".").map(Number)\<close>\<close>

fun split_dots :: "jstext \<Rightarrow> jstext list" where
  "split_dots [] = [[]]"
| "split_dots (c # cs) =
     (if c = 46 then [] # split_dots cs
      else case split_dots cs of [] \<Rightarrow> [[c]] | p # ps \<Rightarrow> (c # p) # ps)"

definition can_remote :: "dev option \<Rightarrow> bool" where
  "can_remote d =
     (let v = (case d of None \<Rightarrow> [] | Some x \<Rightarrow> dv_version x);
          ns = map js_number (split_dots (if v = [] then asc ''0.0'' else v));
          major = (case ns of [] \<Rightarrow> NaN | n # _ \<Rightarrow> n);
          minor = (case ns of _ # n # _ \<Rightarrow> n | _ \<Rightarrow> NaN)
      in (\<exists>x \<in> set_option d. dv_id x = asc ''cloud'') \<or> num_greater major 0 \<or> num_at_least minor 2)"

section \<open>Formatting\<close>

definition round_half_up :: "rat \<Rightarrow> int" where
  "round_half_up x = \<lfloor>x + 1 / 2\<rfloor>"

definition pad_zero :: "nat \<Rightarrow> jstext \<Rightarrow> jstext" where
  "pad_zero k t = replicate (k - length t) 48 @ t"

text \<open>\<open>x.toFixed(k)\<close> of a non-negative \<open>x\<close>, \<open>k > 0\<close>.\<close>

definition to_fixed :: "nat \<Rightarrow> rat \<Rightarrow> jstext" where
  "to_fixed k x =
     (let m = nat (round_half_up (x * 10 ^ k))
      in nat_text (m div 10 ^ k) @ 46 # pad_zero k (nat_text (m mod 10 ^ k)))"

definition bytes_text :: "int \<Rightarrow> jstext" where
  "bytes_text n =
     (if n > 1073741824 then to_fixed 2 (of_int n / 1073741824) @ asc '' GB''
      else if n > 1048576 then to_fixed 1 (of_int n / 1048576) @ asc '' MB''
      else int_text (round_half_up (of_int n / 1024)) @ asc '' KB'')"

definition no_record :: jstext where
  "no_record = [0x5C1A, 0x65E0, 0x8BB0, 0x5F55]"

definition date_text :: "(jstext \<Rightarrow> jstext) \<Rightarrow> jstext \<Rightarrow> jstext" where
  "date_text locale_date s = (if s = [] \<or> take 4 s = asc ''0001'' then no_record else locale_date s)"

section \<open>Controls\<close>

type_synonym form = "(jstext \<times> jstext) list"

text \<open>
  The value of an \<open>input\<close> as rendered by \<open>field\<close>, and of a \<open>select\<close>: the option marked as selected, else the
  first. An \<open>input\<close> holds one line: the browser takes line breaks out of the value it is given, and the
  HTML parser replaces a NUL.
\<close>

definition input_text :: "jstext \<Rightarrow> jstext" where
  "input_text t = map (\<lambda>c. if c = 0 then 0xFFFD else c) (filter (\<lambda>c. c \<noteq> 10 \<and> c \<noteq> 13) t)"

definition field_value :: "jstext \<Rightarrow> jstext \<Rightarrow> jstext \<times> jstext" where
  "field_value name value = (name, input_text value)"

definition plain_text :: "jstext \<Rightarrow> bool" where
  "plain_text t \<longleftrightarrow> list_all (\<lambda>c. c \<notin> {0, 10, 13}) t"

lemma input_plain: "plain_text t \<Longrightarrow> input_text t = t"
  by (induction t) (auto simp: plain_text_def input_text_def)

definition select_value :: "jstext \<Rightarrow> (jstext \<times> jstext) list \<Rightarrow> jstext \<Rightarrow> jstext \<times> jstext" where
  "select_value name options value =
     (name, if value \<in> fst ` set options then value else case options of [] \<Rightarrow> [] | (v, t) # _ \<Rightarrow> v)"

section \<open>Requests\<close>

datatype fval = FText jstext | FNum jsnum | FBool bool | FList "jstext list"

type_synonym payload = "(jstext \<times> fval) list"

datatype http_method = GET | POST | PUT | DELETE

record api_request =
  ar_path :: jstext
  ar_method :: http_method
  ar_data :: "payload option"

definition form_get :: "form \<Rightarrow> string \<Rightarrow> jstext option" where
  "form_get v k = map_of v (asc k)"

text \<open>\<open>+v.k\<close>\<close>

definition form_num :: "form \<Rightarrow> string \<Rightarrow> fval" where
  "form_num v k = FNum (case form_get v k of None \<Rightarrow> NaN | Some t \<Rightarrow> js_number t)"

text \<open>\<open>{...v, k: x}\<close>\<close>

definition spread :: "form \<Rightarrow> payload" where
  "spread v = map (\<lambda>(k, t). (k, FText t)) v"

definition with_field :: "string \<Rightarrow> fval \<Rightarrow> payload \<Rightarrow> payload" where
  "with_field k x p = AList.update (asc k) x p"

definition device_form :: "dev \<Rightarrow> form" where
  "device_form d =
     [field_value (asc ''name'') (dv_name d),
      select_value (asc ''proxyType'') [(asc ''socks5'', asc ''SOCKS5''), (asc ''http'', asc ''HTTP'')]
        (if dv_proxy_type d = [] then asc ''socks5'' else dv_proxy_type d),
      field_value (asc ''proxyPort'') (int_text (dv_proxy_port d)),
      field_value (asc ''sshUser'') (dv_ssh_user d),
      field_value (asc ''sshPort'') (int_text (if dv_ssh_port d = 0 then 22 else dv_ssh_port d)),
      field_value (asc ''sshFingerprint'') (dv_ssh_print d)]"

definition device_request :: "jstext \<Rightarrow> form \<Rightarrow> api_request" where
  "device_request i v =
     \<lparr>ar_path = asc ''/api/devices/'' @ i, ar_method = PUT,
      ar_data = Some (with_field ''sshPort'' (form_num v ''sshPort'')
                       (with_field ''proxyPort'' (form_num v ''proxyPort'') (spread v)))\<rparr>"

text \<open>
  The dialog of a policy: one select per exit and at least three, then the choice on failure. Where the
  exits are \<open>null\<close>, \<open>p.exits.length\<close> throws and there is no dialog (\<open>can_open\<close>).
\<close>

definition policy_of :: "net \<Rightarrow> jstext \<Rightarrow> policy" where
  "policy_of st i =
     (case find (\<lambda>p. po_source p = i) (nt_policies st) of
        Some p \<Rightarrow> p
      | None \<Rightarrow> \<lparr>po_source = [], po_exits = [], po_failure = asc ''block'', po_active = [], po_nil = False\<rparr>)"

definition unset_text :: jstext where
  "unset_text = [0x4E0D, 0x8BBE, 0x7F6E]"

definition stop_text :: jstext where
  "stop_text = [0x505C, 0x6B62, 0x4EE3, 0x7406]"

definition exit_options :: "net \<Rightarrow> (jstext \<times> jstext) list" where
  "exit_options st =
     ([], unset_text) # map (\<lambda>d. (dv_id d, dv_name d)) (filter (\<lambda>d. dv_proxy_port d \<noteq> 0) (nt_devices st))"

definition exit_name :: "nat \<Rightarrow> jstext" where
  "exit_name i = asc ''exit'' @ nat_text i"

definition policy_form :: "net \<Rightarrow> jstext \<Rightarrow> form" where
  "policy_form st i =
     (let p = policy_of st i
      in map (\<lambda>k. select_value (exit_name k) (exit_options st)
                    (if k < length (po_exits p) then po_exits p ! k else []))
           [0..<max 3 (length (po_exits p) + 1)]
         @ [select_value (asc ''onFailure'') [(asc ''block'', stop_text), (asc ''direct'', direct_text)] (po_failure p)])"

definition policy_request :: "jstext \<Rightarrow> form \<Rightarrow> api_request" where
  "policy_request i v =
     \<lparr>ar_path = asc ''/api/policies/'' @ i, ar_method = PUT,
      ar_data = Some [(asc ''source'', FText i),
                      (asc ''exits'', FList (map snd (filter (\<lambda>(k, x). take 4 k = asc ''exit'' \<and> x \<noteq> []) v))),
                      (asc ''onFailure'', FText (case form_get v ''onFailure'' of None \<Rightarrow> [] | Some t \<Rightarrow> t)),
                      (asc ''active'', FText [])]\<rparr>"

definition mapping_form :: "net \<Rightarrow> form" where
  "mapping_form st =
     [field_value (asc ''name'') [],
      select_value (asc ''protocol'') [(asc ''tcp'', asc ''TCP''), (asc ''udp'', asc ''UDP''), (asc ''http'', asc ''HTTP'')]
        (asc ''tcp''),
      field_value (asc ''listenPort'') [],
      select_value (asc ''device'') (map (\<lambda>d. (dv_id d, dv_name d)) (nt_devices st)) [],
      field_value (asc ''targetPort'') [], field_value (asc ''domain'') []]"

definition mapping_request :: "form \<Rightarrow> api_request" where
  "mapping_request v =
     \<lparr>ar_path = asc ''/api/mappings'', ar_method = POST,
      ar_data = Some (with_field ''error'' (FText []) (with_field ''id'' (FText [])
        (with_field ''enabled'' (FBool True) (with_field ''targetPort'' (form_num v ''targetPort'')
          (with_field ''listenPort'' (form_num v ''listenPort'') (spread v))))))\<rparr>"

definition delete_request :: "jstext \<Rightarrow> api_request" where
  "delete_request i = \<lparr>ar_path = asc ''/api/mappings/'' @ i, ar_method = DELETE, ar_data = None\<rparr>"

definition enroll_request :: "form \<Rightarrow> api_request" where
  "enroll_request v = \<lparr>ar_path = asc ''/api/enrollment'', ar_method = POST, ar_data = Some (spread v)\<rparr>"

definition join_form :: "jstext \<Rightarrow> jstext \<Rightarrow> form" where
  "join_form name iface =
     [field_value (asc ''server'') [], field_value (asc ''name'') name, field_value (asc ''code'') [],
      (asc ''certificate'', []), field_value (asc ''interface'') iface,
      select_value (asc ''adopt'')
        [(asc ''false'', [0x521B, 0x5EFA, 0x65B0, 0x96A7, 0x9053]),
         (asc ''true'', [0x63A5, 0x5165, 0x5DF2, 0x6709, 0x96A7, 0x9053])] (asc ''false'')]"

definition join_request :: "form \<Rightarrow> api_request" where
  "join_request v =
     \<lparr>ar_path = asc ''/api/local/join'', ar_method = POST,
      ar_data = Some (with_field ''adopt'' (FBool (form_get v ''adopt'' = Some (asc ''true''))) (spread v))\<rparr>"

definition share_form :: form where
  "share_form = [field_value (asc ''port'') (int_text 33211), field_value (asc ''listenPort'') (int_text 34211)]"

definition share_request :: "form \<Rightarrow> api_request" where
  "share_request v =
     \<lparr>ar_path = asc ''/api/local/share'', ar_method = POST,
      ar_data = Some [(asc ''port'', form_num v ''port''), (asc ''listenPort'', form_num v ''listenPort'')]\<rparr>"

end
