(* ===== verification/App.thy ===== *)
theory App
  imports App_Forms Utf8
begin

text \<open>
  The console as a state machine, \<open>web/static/app.js\<close>: the API client and its sign-out on 401, the
  refresh and its guard, login and logout, the one dialog element that every form, the enrolment code
  and the SSH terminal share, and the legacy SSH terminal (\<open>openSSH\<close>).

  A handler is split at its awaits: what it waits for is a task, resumed by \<open>AvReply\<close>. What is drawn
  is abstracted to which of the views is on the page; the requests sent and the writes to terminals
  are the trace \<open>ap_out\<close>. The network's state is opaque here (\<open>'s\<close>).
\<close>

section \<open>State\<close>

datatype view = VEmpty | VLogin | VShell

datatype app_err = AeServer jstext | AeStatus int | AeNetwork | AeType | AeNative

datatype toast = TsSaved | TsChecked | TsReconnected | TsNeedDesktop | TsError app_err

datatype dialog =
    DgEnroll | DgDevice jstext | DgPolicy jstext | DgMapping | DgDelete jstext | DgJoin | DgShare | DgProxy bool

datatype dialog_body = BNone | BModal nat dialog | BCode jstext | BTerminal nat

datatype after_refresh = AfNone | AfLogin | AfSaved nat | AfToast toast

datatype app_task =
    TkRefresh after_refresh | TkLogin | TkLogout | TkModal nat dialog | TkPost toast | TkProxyStatus

datatype app_call = CallApi api_request | CallNative jstext

datatype term_note = NoteConnecting | NoteClosed | NoteFailed

datatype app_out =
    AoCall app_call
  | AoRemote jstext string
  | AoTermNote nat term_note | AoTermWrite nat "byte list" | AoTermClear nat | AoTermDispose nat
  | AoSockOpen nat jstext | AoSockClose nat | AoSockSize nat | AoSockData nat "byte list"

record 's app =
  ap_agent :: bool
  ap_auth :: bool
  ap_refreshing :: bool
  ap_state :: "'s option"
  ap_tab :: string
  ap_view :: view
  ap_live_failed :: bool
  ap_unreachable :: bool
  ap_login_error :: "app_err option"
  ap_open :: bool
  ap_body :: dialog_body
  ap_form_error :: "app_err option"
  ap_modals :: nat
  ap_disabled :: "nat list"
  ap_toast :: "toast option"
  ap_codes :: "jstext list"
  ap_term :: "nat option"
  ap_socket :: "nat option"
  ap_terms :: nat
  ap_connecting :: "nat list"
  ap_connected :: "nat list"
  ap_next :: nat
  ap_tasks :: "(nat \<times> app_task) list"
  ap_out :: "app_out list"

text \<open>
  \<open>ap_live_failed\<close> and \<open>ap_unreachable\<close>: the messages of a failed refresh are on the page;
  \<open>ap_modals\<close> counts the forms opened, \<open>ap_disabled\<close> are those whose submit button is disabled;
  \<open>ap_codes\<close> are the enrolment codes whose 30 ms timer runs; a terminal and its socket have the same
  number.
\<close>

definition app_init :: "bool \<Rightarrow> 's app" where
  "app_init agent =
     \<lparr>ap_agent = agent, ap_auth = False, ap_refreshing = False, ap_state = None, ap_tab = ''home'',
      ap_view = VEmpty, ap_live_failed = False, ap_unreachable = False, ap_login_error = None,
      ap_open = False, ap_body = BNone, ap_form_error = None, ap_modals = 0, ap_disabled = [],
      ap_toast = None, ap_codes = [], ap_term = None, ap_socket = None, ap_terms = 0,
      ap_connecting = [], ap_connected = [], ap_next = 0, ap_tasks = [], ap_out = []\<rparr>"

section \<open>Calls\<close>

definition ap_emit :: "app_out list \<Rightarrow> 's app \<Rightarrow> 's app" where
  "ap_emit os s = s\<lparr>ap_out := ap_out s @ os\<rparr>"

definition ap_call :: "app_call \<Rightarrow> app_task \<Rightarrow> 's app \<Rightarrow> 's app" where
  "ap_call c k s =
     ap_emit [AoCall c] (s\<lparr>ap_next := Suc (ap_next s), ap_tasks := ap_tasks s @ [(ap_next s, k)]\<rparr>)"

definition simple_request :: "string \<Rightarrow> http_method \<Rightarrow> payload option \<Rightarrow> app_call" where
  "simple_request path m d = CallApi \<lparr>ar_path = asc path, ar_method = m, ar_data = d\<rparr>"

text \<open>\<open>login()\<close> draws the login form, but not in the desktop client.\<close>

definition ap_login :: "'s app \<Rightarrow> 's app" where
  "ap_login s =
     (if ap_agent s then s
      else s\<lparr>ap_view := VLogin, ap_login_error := None, ap_live_failed := False, ap_unreachable := False\<rparr>)"

text \<open>What \<open>api\<close> does with an answer that is not ok, and the error it throws.\<close>

definition api_denied :: "int \<Rightarrow> 's app \<Rightarrow> 's app" where
  "api_denied status s = (if status = 401 \<and> \<not> ap_agent s then ap_login (s\<lparr>ap_auth := False\<rparr>) else s)"

definition api_error :: "int \<Rightarrow> jstext \<Rightarrow> app_err" where
  "api_error status e = (if e \<noteq> [] then AeServer e else AeStatus status)"

text \<open>\<open>render()\<close>: nothing without a state; it draws the shell when there is no content element.\<close>

definition ap_render :: "'s app \<Rightarrow> 's app" where
  "ap_render s =
     (if ap_state s = None then s
      else s\<lparr>ap_view := VShell, ap_live_failed := False, ap_unreachable := False\<rparr>)"

definition ap_toast_show :: "toast \<Rightarrow> 's app \<Rightarrow> 's app" where
  "ap_toast_show t s = s\<lparr>ap_toast := Some t\<rparr>"

section \<open>refresh\<close>

text \<open>What follows \<open>await refresh()\<close>, when it returns and when it throws.\<close>

definition after_ok :: "after_refresh \<Rightarrow> 's app \<Rightarrow> 's app" where
  "after_ok a s =
     (case a of
        AfSaved n \<Rightarrow> ap_toast_show TsSaved (s\<lparr>ap_disabled := removeAll n (ap_disabled s)\<rparr>)
      | AfToast t \<Rightarrow> ap_toast_show t s
      | _ \<Rightarrow> s)"

definition form_failed :: "nat \<Rightarrow> app_err \<Rightarrow> 's app \<Rightarrow> 's app" where
  "form_failed n e s =
     (let s1 = (case ap_body s of BModal k d \<Rightarrow> s\<lparr>ap_form_error := Some e\<rparr> | _ \<Rightarrow> s)
      in s1\<lparr>ap_disabled := removeAll n (ap_disabled s1)\<rparr>)"

definition login_failed :: "app_err \<Rightarrow> 's app \<Rightarrow> 's app" where
  "login_failed e s = (if ap_view s = VLogin then s\<lparr>ap_login_error := Some e\<rparr> else s)"

definition after_throw :: "after_refresh \<Rightarrow> app_err \<Rightarrow> 's app \<Rightarrow> 's app" where
  "after_throw a e s =
     (case a of
        AfNone \<Rightarrow> s
      | AfLogin \<Rightarrow> login_failed e s
      | AfSaved n \<Rightarrow> form_failed n e s
      | AfToast t \<Rightarrow> ap_toast_show (TsError e) s)"

definition ap_refresh :: "after_refresh \<Rightarrow> 's app \<Rightarrow> 's app" where
  "ap_refresh a s =
     (if ap_refreshing s then after_ok a s
      else ap_call (simple_request (if ap_agent s then ''/api/local/state'' else ''/api/state'') GET None)
             (TkRefresh a) (s\<lparr>ap_refreshing := True\<rparr>))"

definition refresh_ok :: "after_refresh \<Rightarrow> 's \<Rightarrow> 's app \<Rightarrow> 's app" where
  "refresh_ok a v s =
     after_ok a ((ap_render (s\<lparr>ap_state := Some v, ap_auth := True\<rparr>))\<lparr>ap_refreshing := False\<rparr>)"

text \<open>
  The \<open>catch\<close> of \<open>refresh\<close>. The element \<open>#live\<close> is part of the shell; without the shell the handler
  itself throws.
\<close>

definition refresh_failed :: "after_refresh \<Rightarrow> 's app \<Rightarrow> 's app" where
  "refresh_failed a s =
     (if ap_agent s then
        after_ok a (s\<lparr>ap_view := VShell, ap_unreachable := True, ap_refreshing := False\<rparr>)
      else if ap_auth s then
        (if ap_view s = VShell then after_ok a (s\<lparr>ap_live_failed := True, ap_refreshing := False\<rparr>)
         else after_throw a AeType (s\<lparr>ap_refreshing := False\<rparr>))
      else after_ok a (s\<lparr>ap_refreshing := False\<rparr>))"

section \<open>Dialogs\<close>

text \<open>The request of a dialog's form; the system proxy goes to the shell instead.\<close>

definition dialog_call :: "dialog \<Rightarrow> form \<Rightarrow> app_call" where
  "dialog_call d v =
     (case d of
        DgEnroll \<Rightarrow> CallApi (enroll_request v)
      | DgDevice i \<Rightarrow> CallApi (device_request i v)
      | DgPolicy i \<Rightarrow> CallApi (policy_request i v)
      | DgMapping \<Rightarrow> CallApi (mapping_request v)
      | DgDelete i \<Rightarrow> CallApi (delete_request i)
      | DgJoin \<Rightarrow> CallApi (join_request v)
      | DgShare \<Rightarrow> CallApi (share_request v)
      | DgProxy e \<Rightarrow> CallNative (case form_get v ''action'' of None \<Rightarrow> [] | Some t \<Rightarrow> t))"

text \<open>Opening a dialog looks things up in the state; where they are missing the action throws.\<close>

definition can_open :: "net option \<Rightarrow> dialog \<Rightarrow> bool" where
  "can_open st d =
     (case d of
        DgDevice i \<Rightarrow> (\<exists>n \<in> set_option st. device n i \<noteq> None)
      | DgPolicy i \<Rightarrow> (\<exists>n \<in> set_option st. \<not> po_nil (policy_of n i))
      | DgMapping \<Rightarrow> st \<noteq> None
      | DgDelete i \<Rightarrow> (\<exists>n \<in> set_option st. \<exists>m \<in> set (nt_mappings n). mp_id m = i)
      | DgJoin \<Rightarrow> st \<noteq> None
      | _ \<Rightarrow> True)"

definition ap_modal :: "dialog \<Rightarrow> 's app \<Rightarrow> 's app" where
  "ap_modal d s =
     s\<lparr>ap_open := True, ap_body := BModal (ap_modals s) d, ap_modals := Suc (ap_modals s), ap_form_error := None\<rparr>"

text \<open>The submit handler of the form shown.\<close>

definition ap_submit :: "form \<Rightarrow> 's app \<Rightarrow> 's app" where
  "ap_submit v s =
     (case ap_body s of
        BModal n d \<Rightarrow>
          if \<not> ap_open s \<or> n \<in> set (ap_disabled s) then s
          else ap_call (dialog_call d v) (TkModal n d) (s\<lparr>ap_disabled := ap_disabled s @ [n]\<rparr>)
      | _ \<Rightarrow> s)"

text \<open>\<open>dlg.close(); await refresh(); toast(...)\<close>\<close>

definition form_saved :: "nat \<Rightarrow> 's app \<Rightarrow> 's app" where
  "form_saved n s = ap_refresh (AfSaved n) (s\<lparr>ap_open := False\<rparr>)"

section \<open>The terminal\<close>

definition close_socket :: "'s app \<Rightarrow> 's app" where
  "close_socket s =
     (case ap_socket s of
        None \<Rightarrow> s
      | Some i \<Rightarrow> ap_emit [AoSockClose i]
                   (s\<lparr>ap_connecting := removeAll i (ap_connecting s), ap_connected := removeAll i (ap_connected s)\<rparr>))"

definition dispose_term :: "'s app \<Rightarrow> 's app" where
  "dispose_term s =
     (case ap_term s of None \<Rightarrow> s | Some i \<Rightarrow> ap_emit [AoTermDispose i] (s\<lparr>ap_term := None\<rparr>))"

definition close_dialog :: "'s app \<Rightarrow> 's app" where
  "close_dialog s = (dispose_term ((close_socket s)\<lparr>ap_socket := None\<rparr>))\<lparr>ap_open := False\<rparr>"

definition open_ssh :: "jstext \<Rightarrow> 's app \<Rightarrow> 's app" where
  "open_ssh i s =
     (let s1 = close_dialog s; t = ap_terms s1
      in ap_emit [AoTermNote t NoteConnecting, AoSockOpen t i]
           (s1\<lparr>ap_open := True, ap_body := BTerminal t, ap_term := Some t, ap_socket := Some t,
               ap_terms := Suc t, ap_connecting := ap_connecting s1 @ [t]\<rparr>))"

text \<open>The callbacks write to the terminal that is current when they run.\<close>

definition term_note :: "term_note \<Rightarrow> 's app \<Rightarrow> 's app" where
  "term_note n s = (case ap_term s of None \<Rightarrow> s | Some t \<Rightarrow> ap_emit [AoTermNote t n] s)"

definition sock_opened :: "nat \<Rightarrow> 's app \<Rightarrow> 's app" where
  "sock_opened i s =
     (if i \<notin> set (ap_connecting s) then s
      else
        let s1 = s\<lparr>ap_connecting := removeAll i (ap_connecting s), ap_connected := ap_connected s @ [i]\<rparr>
        in case ap_term s1 of None \<Rightarrow> s1 | Some t \<Rightarrow> ap_emit [AoTermClear t, AoSockSize i] s1)"

definition sock_message :: "nat \<Rightarrow> byte list \<Rightarrow> 's app \<Rightarrow> 's app" where
  "sock_message i b s =
     (if i \<notin> set (ap_connected s) then s
      else case ap_term s of None \<Rightarrow> s | Some t \<Rightarrow> ap_emit [AoTermWrite t b] s)"

definition sock_closed :: "nat \<Rightarrow> 's app \<Rightarrow> 's app" where
  "sock_closed i s =
     term_note NoteClosed
       (s\<lparr>ap_connecting := removeAll i (ap_connecting s), ap_connected := removeAll i (ap_connected s)\<rparr>)"

definition term_typed :: "jstext \<Rightarrow> 's app \<Rightarrow> 's app" where
  "term_typed x s =
     (case ap_term s of
        None \<Rightarrow> s
      | Some t \<Rightarrow> if t \<in> set (ap_connected s) then ap_emit [AoSockData t (utf8_encode x)] s else s)"

definition term_resized :: "'s app \<Rightarrow> 's app" where
  "term_resized s =
     (case ap_term s of
        None \<Rightarrow> s
      | Some t \<Rightarrow> if ap_open s \<and> t \<in> set (ap_connected s) then ap_emit [AoSockSize t] s else s)"

section \<open>Answers\<close>

datatype 's app_reply = RpState 's | RpCode jstext | RpProxy bool | RpDone | RpFail int jstext | RpNet | RpNative

definition reply_state :: "'s app_reply \<Rightarrow> 's app \<Rightarrow> 's app" where
  "reply_state r s = (case r of RpFail st e \<Rightarrow> api_denied st s | _ \<Rightarrow> s)"

fun reply_error :: "'s app_reply \<Rightarrow> app_err option" where
  "reply_error (RpFail st e) = Some (api_error st e)"
| "reply_error RpNet = Some AeNetwork"
| "reply_error RpNative = Some AeNative"
| "reply_error _ = None"

definition task_error :: "app_task \<Rightarrow> app_err \<Rightarrow> 's app \<Rightarrow> 's app" where
  "task_error k e s =
     (case k of
        TkRefresh a \<Rightarrow> refresh_failed a s
      | TkLogin \<Rightarrow> login_failed e s
      | TkModal n d \<Rightarrow> form_failed n e s
      | _ \<Rightarrow> ap_toast_show (TsError e) s)"

definition task_done :: "app_task \<Rightarrow> 's app_reply \<Rightarrow> 's app \<Rightarrow> 's app" where
  "task_done k r s =
     (case k of
        TkRefresh a \<Rightarrow> (case r of RpState v \<Rightarrow> refresh_ok a v s | _ \<Rightarrow> refresh_failed a s)
      | TkLogin \<Rightarrow> ap_refresh AfLogin (s\<lparr>ap_auth := True\<rparr>)
      | TkLogout \<Rightarrow> ap_login (s\<lparr>ap_auth := False\<rparr>)
      | TkModal n d \<Rightarrow>
          form_saved n (case (d, r) of (DgEnroll, RpCode c) \<Rightarrow> s\<lparr>ap_codes := ap_codes s @ [c]\<rparr> | _ \<Rightarrow> s)
      | TkPost t \<Rightarrow> ap_refresh (AfToast t) s
      | TkProxyStatus \<Rightarrow> (case r of RpProxy e \<Rightarrow> ap_modal (DgProxy e) s | _ \<Rightarrow> ap_modal (DgProxy False) s))"

definition on_reply :: "nat \<Rightarrow> 's app_reply \<Rightarrow> 's app \<Rightarrow> 's app" where
  "on_reply i r s =
     (case map_of (ap_tasks s) i of
        None \<Rightarrow> s
      | Some k \<Rightarrow>
          let s1 = reply_state r (s\<lparr>ap_tasks := AList.delete i (ap_tasks s)\<rparr>)
          in case reply_error r of None \<Rightarrow> task_done k r s1 | Some e \<Rightarrow> task_error k e s1)"

section \<open>Events\<close>

datatype 's app_event =
    AvInterval | AvTab string | AvLogin jstext
  | AvLogout | AvCloseDialog | AvOpen dialog | AvDiagnose | AvRepair | AvProxy bool
  | AvSsh jstext bool | AvRemote jstext string
  | AvSubmit form | AvCancel | AvCodeTimer | AvToastOver
  | AvReply nat "'s app_reply"
  | AvSockOpen nat | AvSockMessage nat "byte list" | AvSockClosed nat | AvSockError
  | AvTyped jstext | AvResized

fun app_step :: "('s option \<Rightarrow> dialog \<Rightarrow> bool) \<Rightarrow> 's app \<Rightarrow> 's app_event \<Rightarrow> 's app" where
  "app_step ok s AvInterval = (if ap_agent s \<or> ap_auth s then ap_refresh AfNone s else s)"
| "app_step ok s (AvTab t) = (if ap_view s = VShell then ap_render (s\<lparr>ap_tab := t\<rparr>) else s)"
| "app_step ok s (AvLogin pw) =
     (if ap_view s = VLogin
      then ap_call (simple_request ''/api/login'' POST (Some [(asc ''password'', FText pw)])) TkLogin s else s)"
| "app_step ok s AvLogout =
     (if ap_view s = VShell \<and> \<not> ap_agent s then ap_call (simple_request ''/api/logout'' POST (Some [])) TkLogout s else s)"
| "app_step ok s AvCloseDialog = (if ap_open s then close_dialog s else s)"
| "app_step ok s (AvOpen d) = (if ok (ap_state s) d then ap_modal d s else ap_toast_show (TsError AeType) s)"
| "app_step ok s AvDiagnose = ap_call (simple_request ''/api/local/diagnose'' POST (Some [])) (TkPost TsChecked) s"
| "app_step ok s AvRepair = ap_call (simple_request ''/api/local/repair'' POST (Some [])) (TkPost TsReconnected) s"
| "app_step ok s (AvProxy native) =
     (if native then ap_call (CallNative (asc ''status'')) TkProxyStatus s else ap_toast_show TsNeedDesktop s)"
| "app_step ok s (AvSsh i remote) = (if remote then ap_emit [AoRemote i ''ssh''] s else open_ssh i s)"
| "app_step ok s (AvRemote i mode) = ap_emit [AoRemote i mode] s"
| "app_step ok s (AvSubmit v) = ap_submit v s"
| "app_step ok s AvCancel = (if ap_open s then (dispose_term (close_socket s))\<lparr>ap_open := False\<rparr> else s)"
| "app_step ok s AvCodeTimer =
     (case ap_codes s of [] \<Rightarrow> s | c # cs \<Rightarrow> s\<lparr>ap_codes := cs, ap_body := BCode c, ap_open := True\<rparr>)"
| "app_step ok s AvToastOver = s\<lparr>ap_toast := None\<rparr>"
| "app_step ok s (AvReply i r) = on_reply i r s"
| "app_step ok s (AvSockOpen i) = sock_opened i s"
| "app_step ok s (AvSockMessage i b) = sock_message i b s"
| "app_step ok s (AvSockClosed i) = sock_closed i s"
| "app_step ok s AvSockError = term_note NoteFailed s"
| "app_step ok s (AvTyped x) = term_typed x s"
| "app_step ok s AvResized = term_resized s"

text \<open>The page starts with a refresh.\<close>

definition app_start :: "bool \<Rightarrow> 's app" where
  "app_start agent = ap_refresh AfNone (app_init agent)"

abbreviation "app_run ok \<equiv> run (app_step ok)"

end
