(* ===== verification/App_Props.thy ===== *)
theory App_Props
  imports App
begin

text \<open>
  The console's invariant and its properties: one request for the state at a time, forms sent once,
  the end of a session, and what the shared dialog and a late answer can break.
\<close>

section \<open>The invariant\<close>

fun refresh_mark :: "app_task \<Rightarrow> unit list" where
  "refresh_mark (TkRefresh a) = [()]"
| "refresh_mark _ = []"

text \<open>The form a task will enable again.\<close>

fun form_of :: "app_task \<Rightarrow> nat list" where
  "form_of (TkModal n d) = [n]"
| "form_of (TkRefresh (AfSaved n)) = [n]"
| "form_of _ = []"

definition app_inv :: "'s app \<Rightarrow> bool" where
  "app_inv s \<longleftrightarrow>
     ids_ok (ap_tasks s) (ap_next s)
     \<and> length (collect refresh_mark (ap_tasks s)) = (if ap_refreshing s then 1 else 0)
     \<and> mset (collect form_of (ap_tasks s)) = mset (ap_disabled s)
     \<and> distinct (ap_disabled s)
     \<and> (ap_agent s \<longrightarrow> ap_view s \<noteq> VLogin)"

text \<open>The same with the task \<open>k\<close> taken out, from which its continuation starts.\<close>

definition app_taken :: "app_task \<Rightarrow> 's app \<Rightarrow> bool" where
  "app_taken k s \<longleftrightarrow>
     ids_ok (ap_tasks s) (ap_next s)
     \<and> length (refresh_mark k) + length (collect refresh_mark (ap_tasks s)) = (if ap_refreshing s then 1 else 0)
     \<and> mset (form_of k) + mset (collect form_of (ap_tasks s)) = mset (ap_disabled s)
     \<and> distinct (ap_disabled s)
     \<and> (ap_agent s \<longrightarrow> ap_view s \<noteq> VLogin)"

lemma app_taken_drop:
  assumes "app_inv s" "map_of (ap_tasks s) i = Some k"
  shows "app_taken k (s\<lparr>ap_tasks := AList.delete i (ap_tasks s)\<rparr>)"
proof -
  have d: "distinct (map fst (ap_tasks s))" using assms(1) by (simp add: app_inv_def ids_ok_def)
  have "length (collect refresh_mark (ap_tasks s)) =
      length (refresh_mark k) + length (collect refresh_mark (AList.delete i (ap_tasks s)))"
    using arg_cong [OF mset_collect_delete [OF d assms(2), of refresh_mark], of size] by simp
  with assms mset_collect_delete [OF d assms(2), of form_of] show ?thesis
    by (simp add: app_taken_def app_inv_def ids_ok_delete)
qed

text \<open>Fields the invariant does not read.\<close>

lemma app_inv_frame:
  assumes "app_inv s" "ap_tasks t = ap_tasks s" "ap_next t = ap_next s" "ap_refreshing t = ap_refreshing s"
    "ap_disabled t = ap_disabled s" "ap_agent t = ap_agent s" "ap_view t = ap_view s \<or> ap_view t = VShell \<or> \<not> ap_agent t"
  shows "app_inv t"
  using assms by (auto simp: app_inv_def)

lemma app_taken_frame:
  assumes "app_taken k s" "ap_tasks t = ap_tasks s" "ap_next t = ap_next s" "ap_refreshing t = ap_refreshing s"
    "ap_disabled t = ap_disabled s" "ap_agent t = ap_agent s" "ap_view t = ap_view s \<or> ap_view t = VShell \<or> \<not> ap_agent t"
  shows "app_taken k t"
  using assms by (auto simp: app_taken_def)

lemma app_inv_call:
  "app_inv s \<Longrightarrow> refresh_mark k = [] \<Longrightarrow> form_of k = [] \<Longrightarrow> app_inv (ap_call c k s)"
  by (auto simp: app_inv_def ap_call_def ap_emit_def)

lemma app_inv_refresh:
  "app_inv s \<Longrightarrow> form_of (TkRefresh a) = [] \<Longrightarrow> app_inv (ap_refresh a s)"
  by (cases a) (auto simp: app_inv_def ap_refresh_def ap_call_def ap_emit_def after_ok_def ap_toast_show_def)

lemma app_inv_submit: "app_inv s \<Longrightarrow> app_inv (ap_submit v s)"
  by (auto simp: app_inv_def ap_submit_def ap_call_def ap_emit_def split: dialog_body.split)

section \<open>Continuations\<close>

lemma app_taken_none: "app_taken k s \<Longrightarrow> refresh_mark k = [] \<Longrightarrow> form_of k = [] \<Longrightarrow> app_inv s"
  by (simp add: app_taken_def app_inv_def)

lemma removeAll_mset: "distinct xs \<Longrightarrow> mset xs = add_mset n M \<Longrightarrow> mset (removeAll n xs) = M"
proof -
  assume d: "distinct xs" and m: "mset xs = add_mset n M"
  then have "n \<in> set xs" by (metis set_mset_mset union_single_eq_member)
  with d m show ?thesis by (simp add: distinct_remove1_removeAll [symmetric])
qed

lemma app_taken_forms:
  assumes "app_taken k s" "form_of k = [n]"
  shows "mset (collect form_of (ap_tasks s)) = mset (removeAll n (ap_disabled s))"
  using assms removeAll_mset [of "ap_disabled s" n "mset (collect form_of (ap_tasks s))"]
  by (simp add: app_taken_def)

lemma app_taken_form:
  assumes "app_taken (TkModal n d) s"
  shows "app_inv (s\<lparr>ap_disabled := removeAll n (ap_disabled s)\<rparr>)"
  using assms app_taken_forms [OF assms, of n] by (simp add: app_taken_def app_inv_def distinct_removeAll)

lemma app_taken_refreshed:
  assumes "app_taken (TkRefresh a) s"
  shows "ap_refreshing s" "collect refresh_mark (ap_tasks s) = []"
    "form_of (TkRefresh a) = [] \<Longrightarrow> app_inv (s\<lparr>ap_refreshing := False\<rparr>)"
    "a = AfSaved n \<Longrightarrow> app_inv (s\<lparr>ap_refreshing := False, ap_disabled := removeAll n (ap_disabled s)\<rparr>)"
proof -
  show r: "ap_refreshing s" and c: "collect refresh_mark (ap_tasks s) = []"
    using assms by (auto simp: app_taken_def split: if_splits)
  show "app_inv (s\<lparr>ap_refreshing := False\<rparr>)" if "form_of (TkRefresh a) = []"
    using assms that c by (simp add: app_taken_def app_inv_def)
  show "app_inv (s\<lparr>ap_refreshing := False, ap_disabled := removeAll n (ap_disabled s)\<rparr>)" if "a = AfSaved n"
    using assms that c app_taken_forms [OF assms, of n] by (simp add: app_taken_def app_inv_def distinct_removeAll)
qed

lemma app_inv_unread [simp]:
  "app_inv (s\<lparr>ap_toast := x\<rparr>) = app_inv s" "app_inv (s\<lparr>ap_login_error := y\<rparr>) = app_inv s"
  "app_inv (s\<lparr>ap_form_error := y\<rparr>) = app_inv s"
  by (simp_all add: app_inv_def)

lemma app_inv_form_failed:
  "app_inv (s\<lparr>ap_disabled := removeAll n (ap_disabled s)\<rparr>) \<Longrightarrow> app_inv (form_failed n e s)"
  by (cases "ap_body s") (auto simp: form_failed_def app_inv_def Let_def)

lemma app_taken_after:
  assumes "app_taken (TkRefresh a) s"
  shows "app_inv (after_ok a (s\<lparr>ap_refreshing := False\<rparr>))"
    "app_inv (after_throw a e (s\<lparr>ap_refreshing := False\<rparr>))"
proof -
  note r = app_taken_refreshed(3,4) [OF assms]
  show "app_inv (after_ok a (s\<lparr>ap_refreshing := False\<rparr>))"
    using r by (cases a) (simp_all add: after_ok_def ap_toast_show_def)
  show "app_inv (after_throw a e (s\<lparr>ap_refreshing := False\<rparr>))"
    using r by (cases a) (simp_all add: after_throw_def ap_toast_show_def login_failed_def app_inv_form_failed)
qed

lemma app_taken_refresh_failed: "app_taken (TkRefresh a) s \<Longrightarrow> app_inv (refresh_failed a s)"
proof -
  assume t: "app_taken (TkRefresh a) s"
  have "app_taken (TkRefresh a) (s\<lparr>ap_view := VShell, ap_unreachable := True\<rparr>)"
    "app_taken (TkRefresh a) (s\<lparr>ap_live_failed := True\<rparr>)"
    by (rule app_taken_frame [OF t]; simp)+
  from app_taken_after [OF this(1)] app_taken_after [OF this(2)] app_taken_after [OF t]
  show ?thesis by (simp add: refresh_failed_def)
qed

lemma app_taken_refresh_ok: "app_taken (TkRefresh a) s \<Longrightarrow> app_inv (refresh_ok a v s)"
proof -
  assume t: "app_taken (TkRefresh a) s"
  have "app_taken (TkRefresh a) (ap_render (s\<lparr>ap_state := Some v, ap_auth := True\<rparr>))"
    by (rule app_taken_frame [OF t]) (simp_all add: ap_render_def)
  from app_taken_after(1) [OF this] show ?thesis by (simp add: refresh_ok_def)
qed

lemma app_taken_saved: "app_taken (TkModal n d) s \<Longrightarrow> app_inv (form_saved n s)"
proof -
  assume t: "app_taken (TkModal n d) s"
  show ?thesis
  proof (cases "ap_refreshing s")
    case True
    have "app_taken (TkModal n d) (s\<lparr>ap_open := False\<rparr>)" by (rule app_taken_frame [OF t]) simp_all
    from app_taken_form [OF this] have "app_inv (ap_toast_show TsSaved (s\<lparr>ap_open := False, ap_disabled := removeAll n (ap_disabled s)\<rparr>))"
      by (simp add: app_inv_def ap_toast_show_def)
    with True show ?thesis by (simp add: form_saved_def ap_refresh_def after_ok_def)
  next
    case False
    with t show ?thesis
      by (auto simp: form_saved_def ap_refresh_def ap_call_def ap_emit_def app_taken_def app_inv_def)
  qed
qed

lemma app_taken_failed: "app_taken (TkModal n d) s \<Longrightarrow> app_inv (form_failed n e s)"
  by (rule app_inv_form_failed [OF app_taken_form])

lemma app_taken_done: "app_taken k s \<Longrightarrow> app_inv (task_done k r s)"
proof (cases k)
  case (TkModal n d)
  assume t: "app_taken k s"
  have "app_taken k (case (d, r) of (DgEnroll, RpCode c) \<Rightarrow> s\<lparr>ap_codes := ap_codes s @ [c]\<rparr> | _ \<Rightarrow> s)"
    by (rule app_taken_frame [OF t]) (auto split: dialog.split app_reply.split)
  with TkModal app_taken_saved show ?thesis by (auto simp: task_done_def)
next
  case (TkRefresh a)
  assume "app_taken k s"
  with TkRefresh app_taken_refresh_ok app_taken_refresh_failed show ?thesis
    by (auto simp: task_done_def split: app_reply.split)
next
  case TkLogin
  assume t: "app_taken k s"
  then have "app_inv (s\<lparr>ap_auth := True\<rparr>)" using TkLogin by (simp add: app_taken_def app_inv_def)
  with TkLogin show ?thesis by (simp add: task_done_def app_inv_refresh)
next
  case (TkPost x)
  assume t: "app_taken k s"
  with TkPost show ?thesis by (simp add: task_done_def app_inv_refresh app_taken_none)
qed (auto simp: task_done_def app_taken_def app_inv_def ap_login_def ap_modal_def split: app_reply.split)

lemma app_taken_error: "app_taken k s \<Longrightarrow> app_inv (task_error k e s)"
proof (cases k)
  case (TkModal n d)
  assume "app_taken k s"
  with TkModal app_taken_failed show ?thesis by (auto simp: task_error_def)
next
  case (TkRefresh a)
  assume "app_taken k s"
  with TkRefresh app_taken_refresh_failed show ?thesis by (auto simp: task_error_def)
qed (auto simp: task_error_def app_taken_def app_inv_def login_failed_def ap_toast_show_def)

lemma app_inv_reply: "app_inv s \<Longrightarrow> app_inv (on_reply i r s)"
proof (cases "map_of (ap_tasks s) i")
  case (Some k)
  assume "app_inv s"
  note t = app_taken_drop [OF this Some]
  have "app_taken k (reply_state r (s\<lparr>ap_tasks := AList.delete i (ap_tasks s)\<rparr>))"
    by (rule app_taken_frame [OF t]) (auto simp: reply_state_def api_denied_def ap_login_def split: app_reply.split)
  with Some app_taken_done app_taken_error show ?thesis
    by (auto simp: on_reply_def Let_def split: option.split)
qed (simp add: on_reply_def)

section \<open>Every event\<close>

lemma socket_frame [simp]:
  "ap_tasks (close_socket s) = ap_tasks s" "ap_next (close_socket s) = ap_next s"
  "ap_refreshing (close_socket s) = ap_refreshing s" "ap_disabled (close_socket s) = ap_disabled s"
  "ap_agent (close_socket s) = ap_agent s" "ap_view (close_socket s) = ap_view s"
  "ap_tasks (dispose_term s) = ap_tasks s" "ap_next (dispose_term s) = ap_next s"
  "ap_refreshing (dispose_term s) = ap_refreshing s" "ap_disabled (dispose_term s) = ap_disabled s"
  "ap_agent (dispose_term s) = ap_agent s" "ap_view (dispose_term s) = ap_view s"
  by (simp_all add: close_socket_def dispose_term_def ap_emit_def split: option.split)

lemma app_inv_step: "app_inv s \<Longrightarrow> app_inv (app_step ok s ev)"
proof -
  assume i: "app_inv s"
  show ?thesis
  proof (cases ev)
    case (AvReply j r)
    with app_inv_reply [OF i] show ?thesis by simp
  next
    case (AvSubmit v)
    with app_inv_submit [OF i] show ?thesis by simp
  next
    case AvInterval
    with i app_inv_refresh [OF i, of AfNone] show ?thesis by simp
  next
    case (AvLogin pw)
    with i show ?thesis by (simp add: app_inv_call)
  next
    case AvLogout
    with i show ?thesis by (simp add: app_inv_call)
  next
    case AvDiagnose
    with i show ?thesis by (simp add: app_inv_call)
  next
    case AvRepair
    with i show ?thesis by (simp add: app_inv_call)
  next
    case (AvProxy native)
    with i show ?thesis by (auto simp: app_inv_call ap_toast_show_def intro: app_inv_frame)
  qed (use i in \<open>auto intro!: app_inv_frame [OF i]
        simp: ap_render_def ap_modal_def ap_toast_show_def close_dialog_def open_ssh_def Let_def ap_emit_def
          sock_opened_def sock_message_def sock_closed_def term_note_def term_typed_def term_resized_def
        split: option.split list.split\<close>)
qed

interpretation app_sys: event_system "app_step ok" app_inv for ok
  by unfold_locales (rule app_inv_step)

lemma app_inv_start: "app_inv (app_start agent)"
  by (simp add: app_start_def app_init_def ap_refresh_def ap_call_def ap_emit_def app_inv_def ids_ok_def)

lemma app_run_inv: "app_inv (app_run ok (app_start agent) es)"
  by (rule app_sys.run_inv [OF app_inv_start])

section \<open>Properties\<close>

fun is_refresh :: "app_task \<Rightarrow> bool" where
  "is_refresh (TkRefresh a) = True"
| "is_refresh _ = False"

lemma length_refresh_marks: "length (collect refresh_mark ts) = length (filter (\<lambda>(i, k). is_refresh k) ts)"
proof (induction ts)
  case (Cons p ts)
  then show ?case by (cases p; cases "snd p") auto
qed simp

text \<open>
  C38: the guard of refresh works whatever is clicked and answered: at most one request for the state
  is under way, the flag says whether one is, and so the three-second timer never piles requests up.
\<close>

theorem one_state_request:
  "let s = app_run ok (app_start agent) es
   in length (filter (\<lambda>(i, k). is_refresh k) (ap_tasks s)) = (if ap_refreshing s then 1 else 0)
      \<and> ap_tasks (app_step ok s AvInterval) =
          ap_tasks s @ (if \<not> ap_refreshing s \<and> (ap_agent s \<or> ap_auth s) then [(ap_next s, TkRefresh AfNone)] else [])"
proof -
  let ?s = "app_run ok (app_start agent) es"
  have "app_inv ?s" by (rule app_run_inv)
  then have "length (filter (\<lambda>(i, k). is_refresh k) (ap_tasks ?s)) = (if ap_refreshing ?s then 1 else 0)"
    by (simp add: app_inv_def length_refresh_marks)
  then show ?thesis
    by (simp add: Let_def ap_refresh_def after_ok_def ap_call_def ap_emit_def)
qed

text \<open>
  C39: an answer 401 to any request signs the browser out: the login form is shown, no session is
  assumed, and the timer asks for nothing until somebody logs in.
\<close>

theorem signed_out_on_401:
  assumes "\<not> ap_agent s" "map_of (ap_tasks s) i = Some k"
  shows "let t = app_step ok s (AvReply i (RpFail 401 e))
         in \<not> ap_auth t \<and> ap_view t = VLogin \<and> app_step ok t AvInterval = t"
proof -
  let ?s1 = "reply_state (RpFail 401 e) (s\<lparr>ap_tasks := AList.delete i (ap_tasks s)\<rparr>)"
  let ?t = "task_error k (api_error 401 e) ?s1"
  have out: "\<not> ap_auth ?s1" "ap_view ?s1 = VLogin" "\<not> ap_agent ?s1"
    using assms(1) by (simp_all add: reply_state_def api_denied_def ap_login_def)
  have frame: "ap_auth (form_failed n x ?s1) = ap_auth ?s1" "ap_view (form_failed n x ?s1) = ap_view ?s1"
    "ap_agent (form_failed n x ?s1) = ap_agent ?s1" for n x
    by (simp_all add: form_failed_def Let_def split: dialog_body.split)
  have "\<not> ap_auth ?t \<and> ap_view ?t = VLogin \<and> \<not> ap_agent ?t"
    using out frame
    by (cases k) (simp_all add: task_error_def refresh_failed_def after_ok_def ap_toast_show_def login_failed_def
        split: after_refresh.split)
  with assms(2) show ?thesis by (simp add: on_reply_def Let_def)
qed

theorem signed_out_on_401_witness:
  "let t = app_step can_open (app_start False) (AvReply 0 (RpFail 401 []))
   in \<not> ap_auth t \<and> ap_view t = VLogin \<and> app_step can_open t AvInterval = t"
  by (rule signed_out_on_401)
    (simp_all add: app_start_def app_init_def ap_refresh_def ap_call_def ap_emit_def)

text \<open>
  C29: a form is sent once: while the dialog shows a form, its submit button works exactly when no
  earlier request of that form, nor the refresh that follows it, is outstanding. It is neither sent
  twice nor left disabled.
\<close>

theorem form_sent_once:
  assumes "s = app_run ok (app_start agent) es" "ap_body s = BModal n d" "ap_open s"
  shows "app_step ok s (AvSubmit v) = s \<longleftrightarrow> (\<exists>(i, k) \<in> set (ap_tasks s). n \<in> set (form_of k))"
proof -
  have "app_inv s" using assms(1) app_run_inv by simp
  then have "set_mset (mset (collect form_of (ap_tasks s))) = set_mset (mset (ap_disabled s))"
    by (simp add: app_inv_def)
  then have "n \<in> set (ap_disabled s) \<longleftrightarrow> (\<exists>(i, k) \<in> set (ap_tasks s). n \<in> set (form_of k))"
    by (auto simp: collect_def)
  moreover have "app_step ok s (AvSubmit v) = s \<longleftrightarrow> n \<in> set (ap_disabled s)"
  proof (cases "n \<in> set (ap_disabled s)")
    case False
    have "ap_next (app_step ok s (AvSubmit v)) = Suc (ap_next s)"
      using assms(2,3) False by (simp add: ap_submit_def ap_call_def ap_emit_def)
    then have "app_step ok s (AvSubmit v) \<noteq> s" by (metis n_not_Suc_n)
    with False show ?thesis by simp
  qed (simp add: ap_submit_def assms(2))
  ultimately show ?thesis by simp
qed

definition empty_net :: net where
  "empty_net = \<lparr>nt_server_ip = [], nt_devices = [], nt_policies = [], nt_mappings = [], nt_events = []\<rparr>"

theorem form_sent_once_witness:
  "let s = app_run can_open (app_start False) [AvReply 0 (RpState empty_net), AvOpen DgEnroll, AvSubmit []]
   in app_step can_open s (AvSubmit []) = s"
proof -
  let ?es = "[AvReply 0 (RpState empty_net), AvOpen DgEnroll, AvSubmit []]"
  have "ap_body (app_run can_open (app_start False) ?es) = BModal 0 DgEnroll"
    "ap_open (app_run can_open (app_start False) ?es)"
    "(1, TkModal 0 DgEnroll) \<in> set (ap_tasks (app_run can_open (app_start False) ?es))"
    by (simp_all add: app_start_def app_init_def ap_refresh_def ap_call_def ap_emit_def on_reply_def task_done_def
        refresh_ok_def ap_render_def after_ok_def reply_state_def can_open_def ap_modal_def ap_submit_def)
  moreover from this(3) have "\<exists>(i, k) \<in> set (ap_tasks (app_run can_open (app_start False) ?es)). 0 \<in> set (form_of k)"
    by (rule bexI [rotated]) simp
  ultimately show ?thesis unfolding Let_def using form_sent_once [OF refl, of can_open False ?es] by blast
qed

named_theorems app_eval \<open>the handlers of the console\<close>

lemmas [app_eval] =
  app_start_def app_init_def ap_refresh_def ap_call_def ap_emit_def on_reply_def task_done_def refresh_ok_def
  ap_render_def after_ok_def reply_state_def can_open_def ap_modal_def ap_submit_def form_saved_def
  dispose_term_def close_socket_def close_dialog_def open_ssh_def sock_opened_def ap_login_def ap_toast_show_def

text \<open>
  The answer to a form closes the dialog element whatever it shows by then. A form that is
  cancelled while its request is under way and followed by an SSH terminal takes the terminal off the
  screen, and its connection stays open.
\<close>

theorem stale_reply_closes_other_dialog:
  "let s = app_run can_open (app_start False)
             [AvReply 0 (RpState st), AvOpen DgEnroll, AvSubmit f, AvCancel, AvSsh i False, AvSockOpen 0,
              AvReply 1 (RpCode c)]
   in \<not> ap_open s \<and> ap_body s = BTerminal 0 \<and> ap_socket s = Some 0 \<and> ap_connected s = [0] \<and> ap_term s = Some 0"
  by (simp add: app_eval Let_def)

text \<open>
  A refresh that was answered before a logout but arrives after it signs the console in again:
  the shell with the old state replaces the login form.
\<close>

theorem late_refresh_undoes_logout:
  "let s = app_run can_open (app_start False)
             [AvReply 0 (RpState st), AvInterval, AvLogout, AvReply 2 RpDone]
   in ap_view s = VLogin \<and> \<not> ap_auth s
      \<and> ap_view (app_step can_open s (AvReply 1 (RpState st))) = VShell
      \<and> ap_auth (app_step can_open s (AvReply 1 (RpState st)))"
  by (simp add: app_eval Let_def)

end
