(* ===== verification/Html.thy ===== *)
theory Html
  imports Prelude
begin

text \<open>
  How the program puts data into HTML: \<open>esc\<close> of \<open>app.js\<close> and \<open>escape\<close> of \<open>remote-ui.js\<close>, template
  literals as lists of pieces, and a reader that tells what a browser makes of the result. The main
  lemma: where a template places its data at positions the check \<open>ctx\<close> accepts, the browser reads
  exactly the markup of the template's literals and, in the data's places, exactly the data.
\<close>

section \<open>Escaping\<close>

definition esc_char :: "nat \<Rightarrow> jstext" where
  "esc_char c =
     (if c = 38 then asc ''&amp;''
      else if c = 60 then asc ''&lt;''
      else if c = 62 then asc ''&gt;''
      else if c = 34 then asc ''&quot;''
      else if c = 39 then asc ''&#39;''
      else [c])"

definition esc :: "jstext \<Rightarrow> jstext" where
  "esc s = concat (map esc_char s)"

text \<open>The helper of \<open>remote-ui.js\<close> has the same pattern and the same table.\<close>

definition escape :: "jstext \<Rightarrow> jstext" where
  "escape s = concat (map esc_char s)"

text \<open>Text that can stand anywhere in a template as it is.\<close>

definition special :: "nat set" where
  "special = {34, 38, 39, 60, 62}"

definition inert :: "jstext \<Rightarrow> bool" where
  "inert t \<longleftrightarrow> set t \<inter> special = {}"

lemma inert_simps [simp]:
  "inert []" "inert (c # t) \<longleftrightarrow> c \<notin> special \<and> inert t" "inert (s @ t) \<longleftrightarrow> inert s \<and> inert t"
  by (auto simp: inert_def)

lemma inert_sub: "inert t \<Longrightarrow> set s \<subseteq> set t \<Longrightarrow> inert s"
  by (auto simp: inert_def)

lemma esc_simps [simp]: "esc [] = []" "esc (c # s) = esc_char c @ esc s" "esc (s @ t) = esc s @ esc t"
  by (simp_all add: esc_def)

lemma esc_inert: "inert s \<Longrightarrow> esc s = s"
  by (induction s) (auto simp: esc_char_def special_def)

section \<open>Templates\<close>

text \<open>
  A template literal: ASCII source text \<open>T\<close>, other source text \<open>U\<close>, \<open>${esc(x)}\<close> as \<open>E x\<close> and \<open>${x}\<close>
  as \<open>R x\<close>.
\<close>

datatype piece = T string | U jstext | E jstext | R jstext

fun piece_text :: "piece \<Rightarrow> jstext" where
  "piece_text (T s) = asc s"
| "piece_text (U t) = t"
| "piece_text (E t) = esc t"
| "piece_text (R t) = t"

definition html :: "piece list \<Rightarrow> jstext" where
  "html ps = concat (map piece_text ps)"

lemma html_simps [simp]: "html [] = []" "html (p # ps) = piece_text p @ html ps" "html (ps @ qs) = html ps @ html qs"
  by (simp_all add: html_def)

section \<open>What a browser reads\<close>

text \<open>
  The places of the HTML tokenizer the program's pages use: text, the inside of a tag, and attribute
  values in double and in single quotes. Comments, scripts and raw text elements do not occur.
\<close>

datatype place = Data | Tag | Double | Single

fun next_place :: "place \<Rightarrow> nat \<Rightarrow> place" where
  "next_place Data c = (if c = 60 then Tag else Data)"
| "next_place Tag c = (if c = 62 then Data else if c = 34 then Double else if c = 39 then Single else Tag)"
| "next_place Double c = (if c = 34 then Tag else Double)"
| "next_place Single c = (if c = 39 then Tag else Single)"

text \<open>A character of the markup, of the text shown, or of the value of an attribute.\<close>

datatype token = Markup nat | Shown nat | Value nat

fun shown :: "place \<Rightarrow> nat \<Rightarrow> token" where
  "shown Data c = Shown c"
| "shown Tag c = Markup c"
| "shown Double c = Value c"
| "shown Single c = Value c"

fun token_of :: "place \<Rightarrow> nat \<Rightarrow> token" where
  "token_of Data c = (if c = 60 then Markup c else Shown c)"
| "token_of Tag c = Markup c"
| "token_of Double c = (if c = 34 then Markup c else Value c)"
| "token_of Single c = (if c = 39 then Markup c else Value c)"

text \<open>The character references \<open>esc\<close> writes, after their ampersand, decoded outside of tags.\<close>

definition refs :: "(jstext \<times> nat) list" where
  "refs = [(asc ''amp;'', 38), (asc ''lt;'', 60), (asc ''gt;'', 62), (asc ''quot;'', 34), (asc ''#39;'', 39)]"

definition ref_at :: "jstext \<Rightarrow> (jstext \<times> nat) option" where
  "ref_at t = find (\<lambda>(r, c). take (length r) t = r) refs"

function read_html :: "place \<Rightarrow> jstext \<Rightarrow> token list" where
  "read_html q [] = []"
| "read_html q (c # cs) =
     (case (if c = 38 \<and> q \<noteq> Tag then ref_at cs else None) of
        Some (r, d) \<Rightarrow> shown q d # read_html q (drop (length r) cs)
      | None \<Rightarrow> token_of q c # read_html (next_place q c) cs)"
  by pat_completeness auto
termination by (relation "measure (\<lambda>(q, t). length t)") auto

definition place_after :: "place \<Rightarrow> jstext \<Rightarrow> place" where
  "place_after q t = foldl next_place q t"

lemma read_literal:
  "38 \<notin> set t \<Longrightarrow> read_html q (t @ r) = read_html q t @ read_html (place_after q t) r"
  by (induction t arbitrary: q) (auto simp: place_after_def)

lemma read_inert: "q \<noteq> Tag \<Longrightarrow> inert t \<Longrightarrow> read_html q (t @ r) = map (shown q) t @ read_html q r"
proof (induction t)
  case (Cons c t)
  then have "token_of q c = shown q c" "next_place q c = q" "c \<noteq> 38"
    by (cases q; auto simp: special_def)+
  with Cons show ?case by simp
qed simp

lemma ref_at_simps:
  "ref_at (asc ''amp;'' @ r) = Some (asc ''amp;'', 38)" "ref_at (asc ''lt;'' @ r) = Some (asc ''lt;'', 60)"
  "ref_at (asc ''gt;'' @ r) = Some (asc ''gt;'', 62)" "ref_at (asc ''quot;'' @ r) = Some (asc ''quot;'', 34)"
  "ref_at (asc ''#39;'' @ r) = Some (asc ''#39;'', 39)"
  by (simp_all add: ref_at_def refs_def js_eval)

lemma read_ref: "q \<noteq> Tag \<Longrightarrow> ref_at (s @ r) = Some (s, d) \<Longrightarrow> read_html q (38 # s @ r) = shown q d # read_html q r"
  by simp

lemma read_esc_char:
  assumes "q \<noteq> Tag"
  shows "read_html q (esc_char c @ r) = shown q c # read_html q r"
proof (cases "c \<in> special")
  case False
  with read_inert [OF assms, of "[c]" r] show ?thesis by (simp add: esc_char_def special_def)
next
  case True
  have "asc ''&amp;'' = 38 # asc ''amp;''" "asc ''&lt;'' = 38 # asc ''lt;''" "asc ''&gt;'' = 38 # asc ''gt;''"
    "asc ''&quot;'' = 38 # asc ''quot;''" "asc ''&#39;'' = 38 # asc ''#39;''"
    by (simp_all add: asc_Cons)
  with True read_ref [OF assms ref_at_simps(1)] read_ref [OF assms ref_at_simps(2)] read_ref [OF assms ref_at_simps(3)]
    read_ref [OF assms ref_at_simps(4)] read_ref [OF assms ref_at_simps(5)]
  show ?thesis unfolding special_def esc_char_def by auto
qed

lemma read_esc: "q \<noteq> Tag \<Longrightarrow> read_html q (esc s @ r) = map (shown q) s @ read_html q r"
  by (induction s) (simp_all add: read_esc_char)

section \<open>Templates that keep data in its place\<close>

text \<open>A literal is scanned on its characters; \<open>None\<close> where it would hold a reference.\<close>

fun lit_step :: "place \<Rightarrow> char \<Rightarrow> place" where
  "lit_step Data c = (if c = CHR ''<'' then Tag else Data)"
| "lit_step Tag c = (if c = CHR ''>'' then Data else if c = CHR 0x22 then Double else if c = CHR 0x27 then Single else Tag)"
| "lit_step Double c = (if c = CHR 0x22 then Tag else Double)"
| "lit_step Single c = (if c = CHR 0x27 then Tag else Single)"

fun lit_after :: "place \<Rightarrow> string \<Rightarrow> place option" where
  "lit_after q [] = Some q"
| "lit_after q (c # cs) = (if c = CHR ''&'' then None else lit_after (lit_step q c) cs)"

text \<open>
  The place a template ends at, if every piece of data stands in text or in a quoted value and what
  is not escaped is inert.
\<close>

fun ctx :: "place \<Rightarrow> piece list \<Rightarrow> place option" where
  "ctx q [] = Some q"
| "ctx q (T s # ps) = (case lit_after q s of None \<Rightarrow> None | Some p \<Rightarrow> ctx p ps)"
| "ctx q (U t # ps) = (if q \<noteq> Tag \<and> inert t then ctx q ps else None)"
| "ctx q (E t # ps) = (if q \<noteq> Tag then ctx q ps else None)"
| "ctx q (R t # ps) = (if q \<noteq> Tag \<and> inert t then ctx q ps else None)"

text \<open>What a template means to its author.\<close>

fun meaning :: "place \<Rightarrow> piece list \<Rightarrow> token list" where
  "meaning q [] = []"
| "meaning q (T s # ps) = read_html q (asc s) @ meaning (place_after q (asc s)) ps"
| "meaning q (U t # ps) = map (shown q) t @ meaning q ps"
| "meaning q (E t # ps) = map (shown q) t @ meaning q ps"
| "meaning q (R t # ps) = map (shown q) t @ meaning q ps"

lemma char_code: "(of_char c = (of_char d :: nat)) = (c = d)"
  by (rule inj_eq [OF inj_of_char])

lemma char_codes: "(of_char c = (34 :: nat)) = (c = CHR 0x22)" "(of_char c = (39 :: nat)) = (c = CHR 0x27)"
  "(of_char c = (60 :: nat)) = (c = CHR ''<'')" "(of_char c = (62 :: nat)) = (c = CHR ''>'')"
  "(of_char c = (38 :: nat)) = (c = CHR ''&'')"
  using char_code [of c "CHR 0x22"] char_code [of c "CHR 0x27"] char_code [of c "CHR ''<''"]
    char_code [of c "CHR ''>''"] char_code [of c "CHR ''&''"] by simp_all

lemma lit_step_place: "lit_step q c = next_place q (of_char c)"
  by (cases q) (simp_all add: char_codes)

lemma lit_after_place: "lit_after q s = Some p \<Longrightarrow> 38 \<notin> set (asc s) \<and> place_after q (asc s) = p"
proof (induction s arbitrary: q)
  case (Cons c s)
  then have "c \<noteq> CHR ''&''" "lit_after (next_place q (of_char c)) s = Some p"
    by (auto simp: lit_step_place split: if_splits)
  with Cons.IH show ?case using char_codes(5) [of c] by (auto simp: asc_Cons place_after_def)
qed (simp add: asc_def place_after_def)

lemma read_template:
  "ctx q ps = Some p \<Longrightarrow> read_html q (html ps @ r) = meaning q ps @ read_html p r"
proof (induction q ps rule: ctx.induct)
  case (2 q s ps)
  then obtain m where m: "lit_after q s = Some m" "ctx m ps = Some p" by (auto split: option.splits)
  with 2 lit_after_place [OF m(1)] show ?case by (simp add: read_literal [of "asc s"])
qed (auto simp: read_inert read_esc split: if_splits)

lemma read_template_end: "ctx q ps = Some p \<Longrightarrow> read_html q (html ps) = meaning q ps"
  using read_template [of q ps p "[]"] by simp

section \<open>Data never becomes markup\<close>

fun is_markup :: "token \<Rightarrow> bool" where
  "is_markup (Markup c) = True"
| "is_markup _ = False"

fun blank :: "piece \<Rightarrow> piece" where
  "blank (E t) = E []"
| "blank (R t) = R []"
| "blank p = p"

lemma shown_not_markup: "q \<noteq> Tag \<Longrightarrow> filter is_markup (map (shown q) t) = []"
  by (induction t) (cases q; simp)+

lemma ctx_blank: "ctx q ps = Some p \<Longrightarrow> ctx q (map blank ps) = Some p"
  by (induction q ps rule: ctx.induct) (auto split: option.splits if_splits)

lemma meaning_blank:
  "ctx q ps = Some p \<Longrightarrow> filter is_markup (meaning q (map blank ps)) = filter is_markup (meaning q ps)"
proof (induction q ps rule: ctx.induct)
  case (2 q s ps)
  then obtain m where m: "lit_after q s = Some m" "ctx m ps = Some p" by (auto split: option.splits)
  with 2 lit_after_place [OF m(1)] show ?case by simp
qed (auto simp: shown_not_markup split: if_splits)

lemma markup_fixed:
  assumes "ctx q ps = Some p"
  shows "filter is_markup (read_html q (html ps)) = filter is_markup (read_html q (html (map blank ps)))"
  using read_template_end [OF assms] read_template_end [OF ctx_blank [OF assms]] meaning_blank [OF assms] by simp

section \<open>Checking templates\<close>

lemma ctx_append: "ctx q (ps @ qs) = (case ctx q ps of None \<Rightarrow> None | Some p \<Rightarrow> ctx p qs)"
  by (induction q ps rule: ctx.induct) (auto split: option.split)

lemma ctx_if: "ctx q (if b then ps else qs) = (if b then ctx q ps else ctx q qs)"
  by simp

lemma ctx_concat: "(\<And>ps. ps \<in> set pss \<Longrightarrow> ctx q ps = Some q) \<Longrightarrow> ctx q (concat pss) = Some q"
  by (induction pss) (auto simp: ctx_append)

lemma ctx_rows: "(\<And>x. x \<in> set xs \<Longrightarrow> ctx q (f x) = Some q) \<Longrightarrow> ctx q (concat (map f xs)) = Some q"
  by (rule ctx_concat) auto

end
