(* ===== verification/Views.thy ===== *)
theory Views
  imports Html App_Forms
begin

text \<open>
  What the console draws, \<open>web/static/app.js\<close>: the templates of \<open>ico\<close>, \<open>badge\<close>, \<open>shell\<close>, \<open>panel\<close>,
  \<open>stat\<close>, \<open>events\<close>, \<open>render\<close>, \<open>deviceTable\<close>, \<open>renderAgent\<close>, \<open>checks\<close> and \<open>login\<close>. A template is the list
  of its pieces in the order of the source; Chinese literals are lists of code points. The clock and
  the locale are the record \<open>view_env\<close>.
\<close>

section \<open>Environment and state\<close>

text \<open>
  \<open>ve_date\<close>: \<open>new Date(s).toLocaleString("zh-CN", ...)\<close>; \<open>ve_iso\<close>: \<open>new Date(n * 1000).toISOString()\<close>;
  \<open>ve_now\<close>: the time of the page; \<open>ve_upper\<close>: \<open>toUpperCase\<close>; \<open>ve_count\<close>: \<open>toLocaleString\<close> of a number.
\<close>

record view_env =
  ve_date :: "jstext \<Rightarrow> jstext"
  ve_iso :: "int \<Rightarrow> jstext"
  ve_now :: jstext
  ve_upper :: "jstext \<Rightarrow> jstext"
  ve_count :: "nat \<Rightarrow> jstext"

record check_entry =
  ck_name :: jstext
  ck_detail :: jstext
  ck_ok :: bool

record local_state =
  lo_status :: jstext
  lo_enrolled :: bool
  lo_error :: jstext
  lo_ready :: bool
  lo_name :: jstext
  lo_ip :: jstext
  lo_server :: jstext
  lo_interface :: jstext
  lo_proxy :: jstext
  lo_latency :: int
  lo_sync :: jstext
  lo_rx :: int
  lo_tx :: int
  lo_exit :: jstext
  lo_shares :: "(int \<times> int) list"
  lo_checks :: "check_entry list option"
  lo_events :: "event_entry list"

text \<open>\<open>lo_shares\<close>: the listening and the local port of each share; \<open>lo_checks\<close>: absent until the first result.\<close>

section \<open>Small parts\<close>

definition icon :: "string \<Rightarrow> piece list" where
  "icon n =
     (if n = ''home'' then
        [T ''<rect x=\"3\" y=\"3\" width=\"7\" height=\"7\" rx=\"1\"/><rect x=\"14\" y=\"3\" width=\"7\" '',
         T ''height=\"7\" rx=\"1\"/><rect x=\"3\" y=\"14\" width=\"7\" height=\"7\" rx=\"1\"/><rect x=\"14\" '',
         T ''y=\"14\" width=\"7\" height=\"7\" rx=\"1\"/>'']
      else if n = ''proxy'' then [T ''<path d=\"M3 7h17m-4-4 4 4-4 4M21 17H4m4-4-4 4 4 4\"/>'']
      else if n = ''maps'' then
        [T ''<path d=\"M8 3H3v5m0-5 7 7m6 11h5v-5m0 5-7-7\"/><rect x=\"8\" y=\"8\" width=\"8\" '',
         T ''height=\"8\" rx=\"2\"/>'']
      else if n = ''logs'' then [T ''<path d=\"M8 3H4v18h16V3h-4M9 2h6v4H9zM8 11h8M8 15h6\"/>'']
      else if n = ''repair'' then
        [T ''<path d=\"M14 5a6 6 0 0 0-7 8L2 18l4 4 5-5a6 6 0 0 0 8-7l-4 4-5-5z\"/>'']
      else if n = ''cloud'' then [T ''<path d=\"M6 18a5 5 0 0 1 0-10 7 7 0 0 1 13 2 4 4 0 0 1 0 8z\"/>'']
      else if n = ''ssh'' then [T ''<path d=\"m5 7 5 5-5 5m8 0h6\"/>'']
      else if n = ''shield'' then [T ''<path d=\"m12 2 9 4v6c0 5-9 10-9 10S3 17 3 12V6zM8 12l3 3 5-6\"/>'']
      else [T ''<rect x=\"3\" y=\"3\" width=\"18\" height=\"13\" rx=\"2\"/><path d=\"M8 21h8m-4-5v5\"/>''])"

definition ico :: "string \<Rightarrow> piece list" where
  "ico n = [T ''<svg viewBox=\"0 0 24 24\" aria-hidden=\"true\">''] @ icon n @ [T ''</svg>'']"

definition badge :: "bool \<Rightarrow> jstext \<Rightarrow> piece list" where
  "badge on t =
     [T ''<span class=\"tag ''] @ (if on then [] else [T ''off'']) @ [T ''\"><i class=\"dot\"></i>'',
      E (if t \<noteq> [] then t else if on then [0x5728, 0x7EBF] else [0x79BB, 0x7EBF]), T ''</span>'']"

definition tab_name :: "bool \<Rightarrow> string \<Rightarrow> piece list" where
  "tab_name agent tab =
     (if tab = ''home'' then (if agent then [U [0x8FDE, 0x63A5, 0x6982, 0x89C8]] else [U [0x7F51, 0x7EDC, 0x6982, 0x89C8]])
      else if tab = ''devices'' then [U [0x7EC4, 0x7F51, 0x8BBE, 0x5907]]
      else if tab = ''proxy'' then [U [0x4EE3, 0x7406, 0x7B56, 0x7565]]
      else if tab = ''maps'' then [U [0x7AEF, 0x53E3, 0x6620, 0x5C04]]
      else if tab = ''logs'' then [U [0x4E8B, 0x4EF6, 0x65E5, 0x5FD7]]
      else if tab = ''repair'' then [U [0x8BCA, 0x65AD, 0x4E0E, 0x4FEE, 0x590D]]
      else [T ''undefined''])"

definition panel :: "piece list \<Rightarrow> piece list \<Rightarrow> piece list \<Rightarrow> piece list \<Rightarrow> piece list" where
  "panel title body act subtitle =
     [T ''<section class=\"panel\"><div class=\"panel-head\"><div><h2>''] @ title @ [T ''</h2>'']
     @ (if subtitle = [] then [] else [T ''<p>''] @ subtitle @ [T ''</p>''])
     @ [T ''</div>''] @ act @ [T ''</div>''] @ body @ [T ''</section>'']"

definition stat :: "piece list \<Rightarrow> piece list \<Rightarrow> piece list \<Rightarrow> string \<Rightarrow> piece list" where
  "stat title value sub ic =
     [T ''<div class=\"stat\"><label>''] @ title @ [T ''</label><strong>''] @ value @ [T ''</strong><span>''] @ sub
     @ [T ''</span><div class=\"ico\">''] @ ico ic @ [T ''</div></div>'']"

definition event_row :: "view_env \<Rightarrow> event_entry \<Rightarrow> piece list" where
  "event_row env e =
     [T ''<div class=\"event\"><time>'', R (date_text (ve_date env) (ev_at e)), T ''</time><div><strong>'',
      E (ev_action e), T ''</strong><small>'', E (ev_detail e), T ''</small></div></div>'']"

text \<open>The latest events first.\<close>

definition events :: "view_env \<Rightarrow> string \<Rightarrow> event_entry list \<Rightarrow> piece list" where
  "events env tab es =
     (if es = [] then [T ''<div class=\"empty\">'', U [0x6682, 0x65E0, 0x4E8B, 0x4EF6, 0x8BB0, 0x5F55],
                       T ''</div>'']
      else concat (map (event_row env) (take (if tab = ''logs'' then 100 else 5) (rev es))))"

definition check_row :: "check_entry \<Rightarrow> piece list" where
  "check_row c =
     [T ''<div class=\"check\"><div>'', E (ck_name c), T ''<small>'', E (ck_detail c), T ''</small></div>'']
     @ badge (ck_ok c) (if ck_ok c then [0x6B63, 0x5E38] else [0x9700, 0x68C0, 0x67E5]) @ [T ''</div>'']"

definition checks :: "check_entry list option \<Rightarrow> piece list" where
  "checks cs =
     (case cs of
        Some (c # r) \<Rightarrow> concat (map check_row (c # r))
      | _ \<Rightarrow> [T ''<div class=\"empty\">'',
                         U [0x6B63, 0x5728, 0x83B7, 0x53D6, 0x68C0, 0x67E5, 0x7ED3, 0x679C, 0x2026],
                         T ''</div>''])"

section \<open>The frame of the page\<close>

definition nav_tabs :: "bool \<Rightarrow> string list" where
  "nav_tabs agent =
     (if agent then [''home'', ''repair'', ''logs''] else [''home'', ''devices'', ''proxy'', ''maps'', ''logs''])"

definition nav_button :: "bool \<Rightarrow> string \<Rightarrow> string \<Rightarrow> piece list" where
  "nav_button agent tab n =
     [T ''<button data-tab=\"'', T n, T ''\" class=\"''] @ (if tab = n then [T ''active''] else []) @ [T ''\">''] @ ico n
     @ [T ''<span>''] @ tab_name agent n @ [T ''</span></button>'']"

definition shell_page :: "bool \<Rightarrow> string \<Rightarrow> piece list" where
  "shell_page agent tab =
     [T ''<div class=\"shell\"><aside class=\"side\"><div class=\"brand\"><span class=\"logo\">'',
      T ''N</span>Net Conductor</div><small>'']
     @ (if agent then [T ''WINDOWS CLIENT''] else [T ''NETWORK CONTROL'']) @ [T ''</small><nav>'']
     @ concat (map (nav_button agent tab) (nav_tabs agent)) @ [T ''</nav><footer><strong>'']
     @ (if agent then [T ''Windows '', U [0x8282, 0x70B9, 0x5BA2, 0x6237, 0x7AEF]] else [U [0x81EA, 0x6258, 0x7BA1, 0x7F51, 0x7EDC, 0x7BA1, 0x7406]])
     @ [T ''</strong><br>v0.2.0 '', U [0xB7], T '' WireGuard '', U [0x79C1, 0x7F51]]
     @ (if agent then [] else [T ''<br><button data-action=\"logout\">'', U [0x9000, 0x51FA, 0x767B, 0x5F55],
                               T ''</button>''])
     @ [T ''</footer></aside><main class=\"main\"><header class=\"top\"><div><h1 id=\"title\">'']
     @ tab_name agent tab @ [T ''</h1><p>'']
     @ (if agent then [U [0x4F60, 0x7684, 0x8BBE, 0x5907, 0x3001, 0x8FDE, 0x63A5, 0x4E0E, 0x7F51, 0x7EDC, 0x51FA, 0x53E3]] else [U [0x4E00, 0x53F0, 0x516C, 0x7F51, 0x670D, 0x52A1, 0x5668, 0xFF0C, 0x8FDE, 0x63A5, 0x4F60, 0x7684, 0x6240, 0x6709, 0x8BBE, 0x5907]])
     @ [T ''</p></div><span class=\"live\" id=\"live\">'', U [0x6B63, 0x5728, 0x8FDE, 0x63A5, 0x2026],
        T ''</span></header><div id=\"content\"></div></main></div>'']"

definition login_page :: "piece list" where
  "login_page =
     [T ''<div class=\"auth\"><section class=\"auth-card\"><div class=\"logo\">N</div><h1>Net '',
      T ''Conductor</h1><p>'',
      U [0x767B, 0x5F55, 0x4F60, 0x7684, 0x79C1, 0x7F51, 0x63A7, 0x5236, 0x4E2D, 0x5FC3],
      T ''</p><form id=\"login-form\"><label class=\"field\">'', U [0x7BA1, 0x7406, 0x5BC6, 0x7801],
      T ''<input type=\"password\" name=\"password\" autocomplete=\"current-password\" required>'',
      T ''</label><p class=\"form-error\" id=\"login-error\"></p><button class=\"primary\">'',
      U [0x767B, 0x5F55], T ''</button></form></section></div>'']"

definition live_page :: "view_env \<Rightarrow> local_state option \<Rightarrow> piece list" where
  "live_page env lo =
     [T ''<i class=\"dot\"></i>'']
     @ (case lo of
          Some l \<Rightarrow> if lo_status l = asc ''connected'' then [U [0x670D, 0x52A1, 0x5668, 0x5DF2, 0x8FDE, 0x63A5]] else [U [0x670D, 0x52A1, 0x5668, 0x672A, 0x8FDE, 0x63A5]]
        | None \<Rightarrow> [U [0x5B9E, 0x65F6, 0x540C, 0x6B65], T '' '', U [0xB7], T '' '', R (ve_now env)])"

section \<open>The devices\<close>

definition online :: "net \<Rightarrow> dev list" where
  "online st = filter dv_online (nt_devices st)"

definition remote_attr :: "dev \<Rightarrow> piece list" where
  "remote_attr d = (if can_remote (Some d) then [] else [T ''disabled title=\"'',
                                                         U [0x8BF7, 0x5347, 0x7EA7, 0x5BA2, 0x6237, 0x7AEF, 0x5230],
                                                         T '' v0.2.0\"''])"

definition device_traffic :: "view_env \<Rightarrow> dev \<Rightarrow> piece list" where
  "device_traffic env d =
     [T ''<td>'']
     @ (if dv_id d = asc ''cloud'' then [U [0x2014]] else if dv_online d then [R (int_text (dv_latency d)), T '' ms''] else [U [0x2014]])
     @ [T ''<small>''] @ (if dv_version d \<noteq> [] then [T ''v'', E (dv_version d)] else [U [0x65E0, 0x5BA2, 0x6237, 0x7AEF, 0x5FC3, 0x8DF3]])
     @ [T ''</small></td><td class=\"mono\">'', R (bytes_text (dv_tx d)), T '' / '', R (bytes_text (dv_rx d)), T ''<small>'']
     @ (if dv_handshake d \<noteq> 0 then [U [0x63E1, 0x624B], T '' '', R (date_text (ve_date env) (ve_iso env (dv_handshake d)))] else [U [0x6682, 0x65E0, 0x63E1, 0x624B]])
     @ [T ''</small></td><td>'']
     @ (if dv_proxy_port d \<noteq> 0 then badge (dv_proxy_ok d) (if dv_proxy_ok d then [0x53EF, 0x7528] else [0x4E0D, 0x53EF, 0x7528]) else [U [0x672A, 0x914D, 0x7F6E]])
     @ [T ''<small>''] @ (if dv_proxy_port d \<noteq> 0 then [E (dv_proxy_type d), T '':'', R (int_text (dv_proxy_port d))] else [])
     @ [T ''</small></td>'']"

definition device_buttons :: "bool \<Rightarrow> dev \<Rightarrow> piece list" where
  "device_buttons small d =
     [T ''<td><div class=\"toolbar\"><button data-action=\"ssh\" data-id=\"'', R (dv_id d), T ''\" '']
     @ (if dv_ssh_user d \<noteq> [] \<and> dv_ssh_print d \<noteq> [] then [] else [T ''disabled''])
     @ [T ''>SSH</button><button data-action=\"files\" data-id=\"'', R (dv_id d), T ''\" ''] @ remote_attr d @ [T ''>'',
                                                                                                    U [0x6587, 0x4EF6],
                                                                                                    T ''</button>'']
     @ (if dv_os d = asc ''windows''
        then [T ''<button data-action=\"desktop\" data-id=\"'', R (dv_id d), T ''\" ''] @ remote_attr d @ [T ''>'',
                                                                                               U [0x684C, 0x9762],
                                                                                               T ''</button>''] else [])
     @ (if small then [] else [T ''<button data-action=\"device\" data-id=\"'', R (dv_id d), T ''\">'',
                                                                                      U [0x8BBE, 0x7F6E],
                                                                                      T ''</button>''])
     @ [T ''</div></td>'']"

definition device_row :: "view_env \<Rightarrow> bool \<Rightarrow> dev \<Rightarrow> piece list" where
  "device_row env small d =
     [T ''<tr><td><strong>'', E (dv_name d), T ''</strong><small class=\"mono\">'', E (dv_ip d), T '' '', U [0xB7],
                                                                                       T '' '', E (dv_os d),
      T ''</small></td><td>''] @ badge (dv_online d) [] @ [T ''</td>'']
     @ (if small then [] else device_traffic env d) @ device_buttons small d @ [T ''</tr>'']"

definition device_table :: "view_env \<Rightarrow> bool \<Rightarrow> net \<Rightarrow> piece list" where
  "device_table env small st =
     [T ''<div class=\"table-wrap\"><table><thead><tr><th>'', U [0x8BBE, 0x5907], T ''</th><th>'',
      U [0x72B6, 0x6001], T ''</th>'']
     @ (if small then [] else [T ''<th>'', U [0x5F80, 0x8FD4, 0x5EF6, 0x8FDF], T ''</th><th>'',
                               U [0x96A7, 0x9053, 0x6D41, 0x91CF], T '' '', U [0x2193], T '' / '', U [0x2191],
                               T ''</th><th>'', U [0x4EE3, 0x7406, 0x51FA, 0x53E3], T ''</th>''])
     @ [T ''<th>'', U [0x64CD, 0x4F5C], T ''</th></tr></thead><tbody>''] @ concat (map (device_row env small) (nt_devices st))
     @ [T ''</tbody></table></div>'']"

section \<open>The tabs of the console\<close>

definition topology_node :: "dev \<Rightarrow> piece list" where
  "topology_node d =
     [T ''<div class=\"node\">''] @ ico ''devices'' @ [T ''<div><strong>'', E (dv_name d), T ''</strong><small>'', E (dv_ip d), T '' '',
                                                                                                                  U [0xB7],
                                                                                                                  T '' '']
     @ (if dv_online d then [U [0x5728, 0x7EBF]] else [U [0x79BB, 0x7EBF]]) @ [T ''</small></div></div>'']"

definition topology :: "net \<Rightarrow> piece list" where
  "topology st =
     (let peers = filter (\<lambda>d. dv_id d \<noteq> asc ''cloud'') (nt_devices st)
      in [T ''<div class=\"topology\"><div class=\"node\">''] @ ico ''cloud''
         @ [T ''<div><strong>'', U [0x516C, 0x7F51, 0x670D, 0x52A1, 0x5668], T ''</strong><small>'', E (nt_server_ip st),
            T '' '', U [0xB7], T '' '', U [0x4E2D, 0x5FC3, 0x8282, 0x70B9],
            T ''</small></div></div><div class=\"stem\"></div><div class=\"peers\">'']
         @ (if peers = [] then [T ''<span class=\"muted\">'',
                                U [0x6DFB, 0x52A0, 0x7B2C, 0x4E00, 0x53F0, 0x8BBE, 0x5907, 0xFF0C, 0x5F00, 0x59CB, 0x7EC4, 0x7F51],
                                T ''</span>''] else concat (map topology_node peers))
         @ [T ''</div></div>''])"

definition enroll_button :: "piece list" where
  "enroll_button = [T ''<button class=\"primary\" data-action=\"enroll\">'', U [0xFF0B], T '' '',
                    U [0x6DFB, 0x52A0, 0x8BBE, 0x5907], T ''</button>'']"

definition count_piece :: "nat \<Rightarrow> piece" where
  "count_piece n = R (nat_text n)"

definition home_tab :: "view_env \<Rightarrow> net \<Rightarrow> piece list" where
  "home_tab env st =
     [T ''<div class=\"stats\">'']
     @ stat [U [0x5728, 0x7EBF, 0x8BBE, 0x5907]] [count_piece (length (online st)), T ''<span> / '', count_piece (length (nt_devices st)), T ''</span>'']
         [U [0x5305, 0x62EC, 0x516C, 0x7F51, 0x670D, 0x52A1, 0x5668]] ''devices''
     @ stat [U [0x53EF, 0x7528, 0x4EE3, 0x7406, 0x51FA, 0x53E3]] [count_piece (length (filter dv_proxy_ok (nt_devices st)))] [U [0x771F, 0x5B9E, 0x51FA, 0x53E3, 0x8BF7, 0x6C42, 0x68C0, 0x6D4B]] ''proxy''
     @ stat [U [0x7AEF, 0x53E3, 0x6620, 0x5C04]] [count_piece (length (filter (\<lambda>m. mp_enabled m \<and> mp_error m = []) (nt_mappings st)))]
         [U [0x6B63, 0x5728, 0x76D1, 0x542C, 0x7684, 0x8F6C, 0x53D1, 0x89C4, 0x5219]] ''maps''
     @ stat [U [0x4EE3, 0x7406, 0x7B56, 0x7565]] [count_piece (length (nt_policies st))] [U [0x6309, 0x6765, 0x6E90, 0x8BBE, 0x5907, 0x72EC, 0x7ACB, 0x914D, 0x7F6E]] ''shield''
     @ [T ''</div>''] @ panel [U [0x79C1, 0x7F51, 0x62D3, 0x6251]] (topology st) enroll_button []
     @ [T ''<div class=\"split\">''] @ panel [U [0x8BBE, 0x5907, 0x8FDE, 0x63A5]] (device_table env True st) [] []
     @ panel [U [0x6700, 0x8FD1, 0x4E8B, 0x4EF6]] (events env ''home'' (nt_events st)) [] [] @ [T ''</div>'']"

definition devices_tab :: "view_env \<Rightarrow> net \<Rightarrow> piece list" where
  "devices_tab env st =
     panel [U [0x5168, 0x90E8, 0x8BBE, 0x5907]] (device_table env False st) enroll_button
       [U [0x5728, 0x7EBF, 0x72B6, 0x6001, 0x6765, 0x81EA, 0x5BA2, 0x6237, 0x7AEF, 0x5FC3, 0x8DF3, 0xFF1B, 0x96A7, 0x9053, 0x6D41, 0x91CF, 0x6765, 0x81EA, 0x670D, 0x52A1, 0x5668],
        T '' WireGuard'']"

fun join_pieces :: "piece list \<Rightarrow> piece list list \<Rightarrow> piece list" where
  "join_pieces sep [] = []"
| "join_pieces sep [p] = p"
| "join_pieces sep (p # q # r) = p @ sep @ join_pieces sep (q # r)"

definition exit_tag :: "net \<Rightarrow> jstext \<Rightarrow> piece list" where
  "exit_tag st i = [T ''<span class=\"tag\">'', E (device_name st i), T ''</span>'']"

definition policy_row :: "net \<Rightarrow> dev \<Rightarrow> piece list" where
  "policy_row st d =
     (let p = find (\<lambda>p. po_source p = dv_id d) (nt_policies st);
          exits = (case p of None \<Rightarrow> [] | Some q \<Rightarrow> po_exits q)
      in [T ''<tr><td><strong>'', E (dv_name d), T ''</strong><small>'', E (dv_ip d),
          T ''</small></td><td><div class=\"ordering\">'']
         @ (if exits = [] then [T ''<span class=\"muted\">'', U [0x672A, 0x914D, 0x7F6E], T ''</span>'']
            else join_pieces [T ''<span class=\"arrow\">'', U [0x2192], T ''</span>''] (map (exit_tag st) exits))
         @ [T ''</div></td><td>'', E (case p of None \<Rightarrow> none_text | Some q \<Rightarrow> device_name st (po_active q)), T ''</td><td>'']
         @ (if \<exists>q \<in> set_option p. po_failure q = asc ''direct'' then [U [0x76F4, 0x63A5, 0x8FDE, 0x63A5]] else [U [0x505C, 0x6B62, 0x4EE3, 0x7406]])
         @ [T ''</td><td><button data-action=\"policy\" data-id=\"'', R (dv_id d), T ''\">'', U [0x914D, 0x7F6E],
                                                                            T ''</button></td></tr>''])"

definition proxy_tab :: "net \<Rightarrow> piece list" where
  "proxy_tab st =
     [T ''<div class=\"notice\">'',
      U [0x6309, 0x987A, 0x5E8F, 0x5C1D, 0x8BD5, 0x51FA, 0x53E3, 0xFF0C, 0x65B0, 0x8FDE, 0x63A5, 0x5728, 0x6545, 0x969C, 0x65F6, 0x5207, 0x6362, 0x3002, 0x5BA2, 0x6237, 0x7AEF, 0x5E94, 0x7528, 0x4F7F, 0x7528, 0x672C, 0x5730],
      T '' HTTP '', U [0x4EE3, 0x7406], T '' 127.0.0.1:17891'',
      U [0xFF1B, 0x672A, 0x914D, 0x7F6E, 0x7B56, 0x7565, 0x65F6, 0x963B, 0x6B62, 0x4EE3, 0x7406, 0x51FA, 0x7AD9, 0x3002],
      T ''</div>'']
     @ panel [U [0x8BBE, 0x5907, 0x51FA, 0x53E3, 0x7B56, 0x7565]]
         ([T ''<div class=\"table-wrap\"><table><thead><tr><th>'', U [0x6765, 0x6E90, 0x8BBE, 0x5907],
           T ''</th><th>'', U [0x51FA, 0x53E3, 0x4F18, 0x5148, 0x7EA7], T ''</th><th>'',
           U [0x6700, 0x8FD1, 0x6210, 0x529F, 0x51FA, 0x53E3], T ''</th><th>'',
           U [0x5168, 0x90E8, 0x5931, 0x8D25, 0x65F6], T ''</th><th></th></tr></thead><tbody>'']
          @ concat (map (policy_row st) (nt_devices st)) @ [T ''</tbody></table></div>'']) [] []"

definition mapping_row :: "view_env \<Rightarrow> net \<Rightarrow> mapping \<Rightarrow> piece list" where
  "mapping_row env st m =
     [T ''<tr><td><strong>'', E (mp_name m), T ''</strong><small>'', R (ve_upper env (mp_protocol m)),
      T ''</small></td><td class=\"mono\">'', E (if mp_domain m \<noteq> [] then mp_domain m else asc ''*''), T '':'', R (int_text (mp_listen m)),
      T ''</td><td>'', E (device_name st (mp_device m)), T ''<small>'',
      E (case device st (mp_device m) of None \<Rightarrow> [] | Some d \<Rightarrow> dv_ip d), T '':'', R (int_text (mp_target m)), T ''</small></td><td>'']
     @ badge (mp_enabled m \<and> mp_error m = [])
         (if mp_error m \<noteq> [] then [0x542F, 0x52A8, 0x5931, 0x8D25] else if mp_enabled m then [0x76D1, 0x542C, 0x4E2D] else [0x672A, 0x542F, 0x7528])
     @ (if mp_error m \<noteq> [] then [T ''<small>'', E (mp_error m), T ''</small>''] else [])
     @ [T ''</td><td><button class=\"danger\" data-action=\"delete-map\" data-id=\"'', R (mp_id m), T ''\">'',
                                                                                           U [0x5220, 0x9664],
                                                                                           T ''</button></td></tr>'']"

definition maps_tab :: "view_env \<Rightarrow> net \<Rightarrow> piece list" where
  "maps_tab env st =
     [T ''<div class=\"notice\">'',
      U [0x6620, 0x5C04, 0x7531, 0x516C, 0x7F51, 0x670D, 0x52A1, 0x5668, 0x8F6C, 0x53D1, 0x81F3, 0x8BBE, 0x5907, 0x79C1, 0x7F51, 0x7AEF, 0x53E3, 0x3002, 0x516C, 0x7F51, 0x8BBF, 0x95EE, 0x8FD8, 0x9700, 0x4E91, 0x5B89, 0x5168, 0x7EC4, 0x653E, 0x884C, 0x5BF9, 0x5E94, 0x7AEF, 0x53E3, 0xFF1B],
      T ''HTTP '', U [0x57DF, 0x540D, 0x9700, 0x89E3, 0x6790, 0x5230, 0x670D, 0x52A1, 0x5668, 0x3002],
      T ''</div>'']
     @ panel [U [0x516C, 0x7F51, 0x7AEF, 0x53E3, 0x6620, 0x5C04]]
         (if nt_mappings st = [] then [T ''<div class=\"empty\">'',
                                       U [0x5C1A, 0x65E0, 0x6620, 0x5C04, 0x3002, 0x6DFB, 0x52A0, 0x8BBE, 0x5907, 0x7AEF, 0x53E3, 0xFF0C, 0x8BA9, 0x670D, 0x52A1, 0x4ECE, 0x516C, 0x7F51, 0x53EF, 0x8BBF, 0x95EE, 0x3002],
                                       T ''</div>'']
          else [T ''<div class=\"table-wrap\"><table><thead><tr><th>'', U [0x540D, 0x79F0], T '' / '',
                U [0x534F, 0x8BAE], T ''</th><th>'', U [0x516C, 0x7F51, 0x5165, 0x53E3], T ''</th><th>'',
                U [0x76EE, 0x6807, 0x8BBE, 0x5907], T ''</th><th>'', U [0x72B6, 0x6001],
                T ''</th><th></th></tr></thead><tbody>'']
               @ concat (map (mapping_row env st) (nt_mappings st)) @ [T ''</tbody></table></div>''])
         [T ''<button class=\"primary\" data-action=\"mapping\">'', U [0xFF0B], T '' '',
          U [0x6DFB, 0x52A0, 0x6620, 0x5C04], T ''</button>''] []"

text \<open>\<open>render()\<close> of the browser: the content of the tab; another tab leaves the content as it is.\<close>

definition render :: "view_env \<Rightarrow> string \<Rightarrow> net \<Rightarrow> piece list option" where
  "render env tab st =
     (if tab = ''home'' then Some (home_tab env st)
      else if tab = ''devices'' then Some (devices_tab env st)
      else if tab = ''proxy'' then Some (proxy_tab st)
      else if tab = ''maps'' then Some (maps_tab env st)
      else if tab = ''logs'' then Some (panel [U [0x64CD, 0x4F5C, 0x4E0E, 0x8FDE, 0x63A5, 0x4E8B, 0x4EF6]] (events env tab (nt_events st)) [] [])
      else None)"

section \<open>The tabs of the desktop client\<close>

definition detail_cell :: "piece list \<times> jstext \<Rightarrow> piece list" where
  "detail_cell kv = [T ''<div><label>''] @ fst kv @ [T ''</label><strong class=\"mono\">'', E (snd kv), T ''</strong></div>'']"

definition shares_text :: "(int \<times> int) list \<Rightarrow> jstext" where
  "shares_text ps =
     (if ps = [] then [0x672A, 0x914D, 0x7F6E]
      else join_with (asc '', '')
             (map (\<lambda>(l, p). int_text l @ asc '' '' @ [0x2192] @ asc '' 127.0.0.1:'' @ int_text p) ps))"

definition details :: "view_env \<Rightarrow> local_state \<Rightarrow> (piece list \<times> jstext) list" where
  "details env l =
     [([U [0x865A, 0x62DF], T '' IP''], if lo_ip l \<noteq> [] then lo_ip l else [0x5C1A, 0x672A, 0x5206, 0x914D]),
      ([U [0x670D, 0x52A1, 0x5668]], if lo_server l \<noteq> [] then lo_server l else [0x5C1A, 0x672A, 0x914D, 0x7F6E]),
      ([U [0x96A7, 0x9053, 0x63A5, 0x53E3]], lo_interface l),
      ([U [0x672C, 0x5730], T '' HTTP '', U [0x4EE3, 0x7406]], lo_proxy l),
      ([U [0x5FC3, 0x8DF3, 0x5F80, 0x8FD4, 0x5EF6, 0x8FDF]], if lo_status l = asc ''connected'' then int_text (lo_latency l) @ asc '' ms'' else [0x2014]),
      ([U [0x6700, 0x8FD1, 0x540C, 0x6B65]], date_text (ve_date env) (lo_sync l)),
      ([U [0x96A7, 0x9053, 0x63A5, 0x6536], T '' / '', U [0x53D1, 0x9001]], bytes_text (lo_rx l) @ asc '' / '' @ bytes_text (lo_tx l)),
      ([U [0x6700, 0x8FD1, 0x6210, 0x529F, 0x51FA, 0x53E3]], if lo_exit l \<noteq> [] then lo_exit l else [0x6682, 0x65E0]),
      ([U [0x5171, 0x4EAB, 0x4EE3, 0x7406, 0x7AEF, 0x53E3]], shares_text (lo_shares l))]"

definition agent_home :: "view_env \<Rightarrow> local_state \<Rightarrow> piece list" where
  "agent_home env l =
     (if lo_enrolled l then []
      else [T ''<div class=\"notice\">'',
            U [0x5C1A, 0x672A, 0x52A0, 0x5165, 0x7F51, 0x7EDC, 0x3002, 0x586B, 0x5199, 0x670D, 0x52A1, 0x5668, 0x5730, 0x5740, 0x3001, 0x5165, 0x7F51, 0x7801, 0x548C, 0x670D, 0x52A1, 0x5668, 0x8BC1, 0x4E66, 0x5373, 0x53EF, 0x5F00, 0x59CB, 0x3002],
            T ''</div>''])
     @ (if lo_error l \<noteq> [] then [T ''<div class=\"notice error\">'', E (lo_error l), T ''</div>''] else [])
     @ [T ''<section class=\"panel\"><div class=\"status-banner\"><div><h2>'']
     @ (if lo_ready l then [U [0x79C1, 0x7F51, 0x5DF2, 0x8FDE, 0x63A5]] else if lo_status l = asc ''connected'' then [U [0x79C1, 0x7F51, 0x5F85, 0x6062, 0x590D]] else [U [0x7B49, 0x5F85, 0x8FDE, 0x63A5]])
     @ [T ''</h2><p>'', E (if lo_name l \<noteq> [] then lo_name l else asc ''Windows '' @ [0x8BBE, 0x5907]), T '' '', U [0xB7],
                                                                                              T '' '']
     @ (if lo_enrolled l then [U [0x540E, 0x53F0, 0x670D, 0x52A1, 0x4F1A, 0x81EA, 0x52A8, 0x91CD, 0x8BD5, 0x8FDE, 0x63A5]] else [U [0x5B8C, 0x6210, 0x5165, 0x7F51, 0x540E, 0x81EA, 0x52A8, 0x8FDE, 0x63A5]])
     @ [T ''</p></div>''] @ ico ''shield'' @ [T ''</div><div class=\"panel-body detail-grid\">'']
     @ concat (map detail_cell (details env l))
     @ [T ''</div><div class=\"panel-head\"><span class=\"muted\">'',
        U [0x7A97, 0x53E3, 0x5173, 0x95ED, 0x540E, 0xFF0C, 0x540E, 0x53F0, 0x670D, 0x52A1, 0x7EE7, 0x7EED, 0x8FD0, 0x884C],
        T ''</span><div class=\"toolbar\">'']
     @ (if lo_enrolled l
        then [T ''<button data-action=\"system-proxy\">'', U [0x7CFB, 0x7EDF, 0x4EE3, 0x7406],
              T ''</button><button data-action=\"share\">'', U [0x5171, 0x4EAB, 0x672C, 0x673A, 0x4EE3, 0x7406],
              T ''</button><button class=\"primary\" data-action=\"diagnose\">'',
              U [0x68C0, 0x67E5, 0x8FDE, 0x63A5], T ''</button>'']
        else [T ''<button class=\"primary\" data-action=\"join\">'', U [0x52A0, 0x5165, 0x7F51, 0x7EDC],
              T ''</button>''])
     @ [T ''</div></div></section>''] @ panel [U [0x8FDE, 0x63A5, 0x68C0, 0x67E5]] (checks (lo_checks l)) [] []"

definition agent_repair :: "view_env \<Rightarrow> local_state \<Rightarrow> piece list" where
  "agent_repair env l =
     [T ''<div class=\"notice\">'',
      U [0x8BCA, 0x65AD, 0x68C0, 0x67E5, 0x771F, 0x5B9E, 0x7AEF, 0x53E3, 0x548C, 0x96A7, 0x9053, 0x72B6, 0x6001, 0x3002, 0x4E00, 0x952E, 0x4FEE, 0x590D, 0x4F1A, 0x5148, 0x5907, 0x4EFD, 0x672C, 0x5BA2, 0x6237, 0x7AEF, 0x914D, 0x7F6E, 0xFF0C, 0x518D, 0x91CD, 0x542F, 0x5F53, 0x524D],
      T '' WireGuard '',
      U [0x96A7, 0x9053, 0xFF0C, 0x8FDE, 0x63A5, 0x4F1A, 0x77ED, 0x6682, 0x4E2D, 0x65AD, 0x3002], T ''</div>'']
     @ panel [U [0x7F51, 0x7EDC, 0x8BCA, 0x65AD]] (checks (lo_checks l))
         [T ''<div class=\"toolbar\"><button data-action=\"diagnose\">'', U [0x91CD, 0x65B0, 0x68C0, 0x6D4B],
          T ''</button><button class=\"primary\" data-action=\"repair\">'', U [0x4E00, 0x952E, 0x4FEE, 0x590D],
          T ''</button></div>''] []
     @ panel [U [0x4FEE, 0x590D, 0x4E0E, 0x8FDE, 0x63A5, 0x8BB0, 0x5F55]] (events env ''repair'' (lo_events l)) [] []"

definition render_agent :: "view_env \<Rightarrow> string \<Rightarrow> local_state \<Rightarrow> piece list option" where
  "render_agent env tab l =
     (if tab = ''home'' then Some (agent_home env l)
      else if tab = ''repair'' then Some (agent_repair env l)
      else if tab = ''logs'' then Some (panel [U [0x5BA2, 0x6237, 0x7AEF, 0x4E8B, 0x4EF6]] (events env tab (lo_events l)) [] [])
      else None)"

end
