(* ===== verification/Dialog_Views.thy ===== *)
theory Dialog_Views
  imports Views Files
begin

text \<open>
  The dialogs: \<open>field\<close>, \<open>select\<close>, \<open>modal\<close> and the forms of \<open>action\<close> (\<open>app.js\<close>), the header of the
  legacy terminal, the dialog of \<open>openRemote\<close> and the table of its file manager (\<open>remote-ui.js\<close>).
\<close>

section \<open>Forms\<close>

definition field :: "piece list \<Rightarrow> string \<Rightarrow> jstext \<Rightarrow> string \<Rightarrow> piece list \<Rightarrow> piece list" where
  "field label name value type extra =
     [T ''<label class=\"field\">''] @ label @ [T ''<input name=\"'', T name, T ''\" type=\"'', T type, T ''\" value=\"'', E value, T ''\" '']
     @ extra @ [T ''></label>'']"

definition option_piece :: "jstext \<Rightarrow> jstext \<times> jstext \<Rightarrow> piece list" where
  "option_piece value vt =
     [T ''<option value=\"'', E (fst vt), T ''\" ''] @ (if fst vt = value then [T ''selected''] else [])
     @ [T ''>'', E (snd vt), T ''</option>'']"

definition select_box :: "piece list \<Rightarrow> piece list \<Rightarrow> (jstext \<times> jstext) list \<Rightarrow> jstext \<Rightarrow> piece list" where
  "select_box label name options value =
     [T ''<label class=\"field\">''] @ label @ [T ''<select name=\"''] @ name @ [T ''\">'']
     @ concat (map (option_piece value) options) @ [T ''</select></label>'']"

definition modal_page :: "piece list \<Rightarrow> piece list \<Rightarrow> piece list" where
  "modal_page title body =
     [T ''<header><h2>''] @ title
     @ [T ''</h2><button data-action=\"close-dialog\" type=\"button\">'', U [0x2715],
        T ''</button></header><form>''] @ body
     @ [T ''<p class=\"form-error\"></p><div class=\"actions\"><button type=\"button\" '',
        T ''data-action=\"close-dialog\">'', U [0x53D6, 0x6D88],
        T ''</button><button class=\"primary\" type=\"submit\">'', U [0x4FDD, 0x5B58],
        T ''</button></div></form>'']"

section \<open>The dialogs of the console\<close>

definition enroll_page :: "piece list" where
  "enroll_page =
     modal_page [U [0x6DFB, 0x52A0], T '' Windows '', U [0x8BBE, 0x5907]]
       (field [U [0x63A5, 0x5165, 0x73B0, 0x6709, 0x8BBE, 0x5907, 0x65F6, 0x586B, 0x5199, 0x865A, 0x62DF],
               T '' IP'', U [0xFF1B, 0x65B0, 0x8BBE, 0x5907, 0x7559, 0x7A7A]] ''ip'' [] ''text'' []
        @ [T ''<p class=\"help\">'', U [0x5165, 0x7F51, 0x7801, 0x5355, 0x6B21, 0x6709, 0x6548, 0xFF0C],
           T ''10 '',
           U [0x5206, 0x949F, 0x8FC7, 0x671F, 0x3002, 0x8BF7, 0x5728, 0x5BA2, 0x6237, 0x7AEF, 0x586B, 0x5199, 0x670D, 0x52A1, 0x5668],
           T '' HTTPS '',
           U [0x5730, 0x5740, 0xFF0C, 0x5E76, 0x5BFC, 0x5165, 0x670D, 0x52A1, 0x5668, 0x8BC1, 0x4E66, 0x3002],
           T ''</p>''])"

definition code_page :: "jstext \<Rightarrow> piece list" where
  "code_page code =
     [T ''<header><h2>'', U [0x5165, 0x7F51, 0x7801, 0x5DF2, 0x751F, 0x6210],
      T ''</h2><button data-action=\"close-dialog\">'', U [0x2715],
      T ''</button></header><div class=\"dialog-body\"><p class=\"help\">'', U [0x590D, 0x5236, 0x5230],
      T '' Windows '', U [0x5BA2, 0x6237, 0x7AEF, 0xFF0C], T ''10 '',
      U [0x5206, 0x949F, 0x5185, 0x6709, 0x6548, 0x3002], T ''</p><textarea readonly>'',
      E code, T ''</textarea></div>'']"

definition device_page :: "dev \<Rightarrow> piece list" where
  "device_page d =
     modal_page [U [0x8BBE, 0x5907, 0x8BBE, 0x7F6E]]
       (field [U [0x8BBE, 0x5907, 0x540D, 0x79F0]] ''name'' (dv_name d) ''text'' [T ''required maxlength=\"80\"'']
        @ [T ''<div class=\"field-row\">'']
        @ select_box [U [0x5171, 0x4EAB, 0x4EE3, 0x7406, 0x534F, 0x8BAE]] [T ''proxyType''] [(asc ''socks5'', asc ''SOCKS5''), (asc ''http'', asc ''HTTP'')]
            (if dv_proxy_type d = [] then asc ''socks5'' else dv_proxy_type d)
        @ field [U [0x5171, 0x4EAB, 0x4EE3, 0x7406, 0x7AEF, 0x53E3, 0xFF0C], T ''0 '',
                 U [0x8868, 0x793A, 0x5173, 0x95ED]] ''proxyPort'' (int_text (dv_proxy_port d)) ''number''
            [T ''min=\"0\" max=\"65535\" required'']
        @ [T ''</div><div class=\"field-row\">'']
        @ field [T ''SSH '', U [0x7528, 0x6237]] ''sshUser'' (dv_ssh_user d) ''text'' []
        @ field [T ''SSH '', U [0x7AEF, 0x53E3]] ''sshPort'' (int_text (if dv_ssh_port d = 0 then 22 else dv_ssh_port d)) ''number''
            [T ''min=\"1\" max=\"65535\" required'']
        @ [T ''</div>'']
        @ field [T ''SSH '',
                 U [0x4E3B, 0x673A, 0x6307, 0x7EB9, 0xFF08, 0x5728, 0x76EE, 0x6807, 0x673A, 0x6838, 0x5BF9, 0xFF09]] ''sshFingerprint'' (dv_ssh_print d) ''text'' []
        @ [T ''<p class=\"help\">SSH '',
           U [0x4F7F, 0x7528, 0x670D, 0x52A1, 0x5668, 0x4E0A, 0x914D, 0x7F6E, 0x7684, 0x4E13, 0x7528, 0x5BC6, 0x94A5, 0x3002, 0x4E3B, 0x673A, 0x6307, 0x7EB9, 0x4E0D, 0x5339, 0x914D, 0x65F6, 0x62D2, 0x7EDD, 0x8FDE, 0x63A5, 0x3002],
           T ''</p>''])"

definition policy_page :: "net \<Rightarrow> jstext \<Rightarrow> piece list" where
  "policy_page st i =
     (let p = policy_of st i
      in modal_page [U [0x914D, 0x7F6E], T '' '', E (device_name st i), T '' '', U [0x7684, 0x51FA, 0x53E3]]
           (concat (map (\<lambda>k. select_box [U [0x4F18, 0x5148, 0x7EA7], T '' '', R (nat_text (k + 1))] [T ''exit'', R (nat_text k)] (exit_options st)
                               (if k < length (po_exits p) then po_exits p ! k else []))
              [0..<max 3 (length (po_exits p) + 1)])
            @ select_box [U [0x6240, 0x6709, 0x51FA, 0x53E3, 0x5931, 0x8D25, 0x65F6]] [T ''onFailure''] [(asc ''block'', stop_text), (asc ''direct'', direct_text)]
                (po_failure p)))"

definition mapping_page :: "net \<Rightarrow> piece list" where
  "mapping_page st =
     modal_page [U [0x6DFB, 0x52A0, 0x7AEF, 0x53E3, 0x6620, 0x5C04]]
       (field [U [0x6620, 0x5C04, 0x540D, 0x79F0]] ''name'' [] ''text'' [T ''required maxlength=\"80\"'']
        @ [T ''<div class=\"field-row\">'']
        @ select_box [U [0x534F, 0x8BAE]] [T ''protocol'']
            [(asc ''tcp'', asc ''TCP''), (asc ''udp'', asc ''UDP''), (asc ''http'', asc ''HTTP'')] (asc ''tcp'')
        @ field [U [0x516C, 0x7F51, 0x76D1, 0x542C, 0x7AEF, 0x53E3]] ''listenPort'' [] ''number'' [T ''required min=\"1024\" max=\"65535\"'']
        @ [T ''</div>'']
        @ select_box [U [0x76EE, 0x6807, 0x8BBE, 0x5907]] [T ''device''] (map (\<lambda>d. (dv_id d, dv_name d)) (nt_devices st)) []
        @ field [U [0x76EE, 0x6807, 0x670D, 0x52A1, 0x7AEF, 0x53E3]] ''targetPort'' [] ''number'' [T ''required min=\"1\" max=\"65535\"'']
        @ field [T ''HTTP '', U [0x57DF, 0x540D, 0xFF08, 0x53EF, 0x9009, 0xFF09]] ''domain'' [] ''text'' []
        @ [T ''<p class=\"help\">HTTPS '', U [0x53EF, 0x7531, 0x73B0, 0x6709], T '' Caddy '',
           U [0x8F6C, 0x5230, 0x6B64], T '' HTTP '',
           U [0x6620, 0x5C04, 0x7AEF, 0x53E3, 0xFF1B, 0x672C, 0x7248, 0x672C, 0x4E0D, 0x81EA, 0x52A8, 0x4FEE, 0x6539, 0x5DF2, 0x6709],
           T '' Caddy '', U [0x914D, 0x7F6E, 0x3002], T ''</p>''])"

definition delete_page :: "mapping \<Rightarrow> piece list" where
  "delete_page m = modal_page [U [0x5220, 0x9664, 0x6620, 0x5C04]] [T ''<p>'', U [0x505C, 0x6B62, 0x5E76, 0x5220, 0x9664], T '' '', E (mp_name m), T '' '',
                                                                    U [0x7684, 0x516C, 0x7F51, 0x8F6C, 0x53D1, 0x3002],
                                                                    T ''</p>'']"

definition join_page :: "local_state \<Rightarrow> piece list" where
  "join_page l =
     modal_page [U [0x52A0, 0x5165, 0x79C1, 0x7F51]]
       (field [U [0x670D, 0x52A1, 0x5668], T '' HTTPS '', U [0x5730, 0x5740]] ''server'' [] ''url'' [T ''required placeholder=\"https://'',
                                                      U [0x670D, 0x52A1, 0x5668], T '':18443\"'']
        @ field [U [0x8BBE, 0x5907, 0x540D, 0x79F0]] ''name'' (lo_name l) ''text'' [T ''required'']
        @ field [U [0x5165, 0x7F51, 0x7801]] ''code'' [] ''password'' [T ''required'']
        @ [T ''<label class=\"field\">'', U [0x670D, 0x52A1, 0x5668, 0x8BC1, 0x4E66], T '' PEM'',
           U [0xFF08, 0x4F7F, 0x7528, 0x53D7, 0x4FE1, 0x4EFB, 0x8BC1, 0x4E66, 0x65F6, 0x53EF, 0x7559, 0x7A7A, 0xFF09],
           T ''<textarea name=\"certificate\" placeholder=\"-----BEGIN CERTIFICATE-----\"></textarea>'',
           T ''</label>'']
        @ field [T ''WireGuard '', U [0x96A7, 0x9053, 0x540D, 0x79F0]] ''interface'' (lo_interface l) ''text'' [T ''required pattern=\"[A-Za-z0-9_-]+\"'']
        @ select_box [U [0x7EC4, 0x7F51, 0x65B9, 0x5F0F]] [T ''adopt''] [(asc ''false'', [0x521B, 0x5EFA, 0x65B0, 0x96A7, 0x9053]), (asc ''true'', [0x63A5, 0x5165, 0x5DF2, 0x6709, 0x96A7, 0x9053])] (asc ''false''))"

definition share_page :: "piece list" where
  "share_page =
     modal_page [U [0x5171, 0x4EAB, 0x672C, 0x673A, 0x4EE3, 0x7406]]
       (field [U [0x672C, 0x673A], T '' HTTP / SOCKS5 '', U [0x4EE3, 0x7406, 0x7AEF, 0x53E3]] ''port'' (int_text 33211) ''number'' [T ''required min=\"1\" max=\"65535\"'']
        @ field [U [0x79C1, 0x7F51, 0x5171, 0x4EAB, 0x7AEF, 0x53E3]] ''listenPort'' (int_text 34211) ''number'' [T ''required min=\"1024\" max=\"65535\"'']
        @ [T ''<p class=\"help\">'',
           U [0x4EC5, 0x5141, 0x8BB8, 0x516C, 0x7F51, 0x670D, 0x52A1, 0x5668, 0x8BBF, 0x95EE, 0x3002, 0x5B8C, 0x6210, 0x540E, 0x5728, 0x7F51, 0x9875, 0x8BBE, 0x5907, 0x8BBE, 0x7F6E, 0x4E2D, 0x586B, 0x5199, 0x5BF9, 0x5E94, 0x534F, 0x8BAE, 0x548C, 0x79C1, 0x7F51, 0x5171, 0x4EAB, 0x7AEF, 0x53E3, 0x3002],
           T ''</p>''])"

definition proxy_page :: "bool \<Rightarrow> piece list" where
  "proxy_page enabled =
     modal_page [U [0x5F53, 0x524D, 0x7528, 0x6237, 0x7684, 0x7CFB, 0x7EDF, 0x4EE3, 0x7406]]
       (select_box [U [0x64CD, 0x4F5C]] [T ''action'']
          [(asc ''enable'', [0x542F, 0x7528, 0x20, 0x4E, 0x65, 0x74, 0x20, 0x43, 0x6F, 0x6E, 0x64, 0x75, 0x63, 0x74, 0x6F, 0x72, 0x20, 0x4EE3, 0x7406]), (asc ''restore'', [0x6062, 0x590D, 0x542F, 0x7528, 0x524D, 0x7684, 0x4EE3, 0x7406, 0x8BBE, 0x7F6E])]
          (asc (if enabled then ''restore'' else ''enable''))
        @ [T ''<p class=help>'', U [0x4EC5, 0x5F71, 0x54CD, 0x9075, 0x5FAA], T '' Windows '',
           U [0x7CFB, 0x7EDF, 0x4EE3, 0x7406, 0x7684, 0x5E94, 0x7528, 0x3002, 0x542F, 0x7528, 0x524D, 0x4FDD, 0x5B58, 0x539F, 0x914D, 0x7F6E, 0xFF0C, 0x6062, 0x590D, 0x65F6, 0x8FD8, 0x539F, 0x539F, 0x503C, 0x3002],
           T ''</p>''])"

definition ssh_page :: "jstext \<Rightarrow> piece list" where
  "ssh_page name =
     [T ''<header><h2>SSH '', U [0xB7], T '' '', E name, T ''</h2><button data-action=\"close-dialog\">'',
                                    U [0x5173, 0x95ED, 0x7EC8, 0x7AEF],
                                    T ''</button></header><div id=\"terminal\"></div>'']"

section \<open>The remote dialog\<close>

definition remote_page :: "string \<Rightarrow> jstext \<Rightarrow> piece list" where
  "remote_page mode name =
     [T ''<header><h2>'']
     @ (if mode = ''ssh'' then [T ''SSH''] else if mode = ''files'' then [U [0x6587, 0x4EF6, 0x7BA1, 0x7406]]
        else if mode = ''desktop'' then [U [0x8FDC, 0x7A0B, 0x684C, 0x9762]] else [T ''undefined''])
     @ [T '' '', U [0xB7], T '' '', E name, T ''</h2><button class=\"remote-close\">'', U [0x5173, 0x95ED],
                       T ''</button></header><div class=\"remote-status\">'', U [0x6B63, 0x5728, 0x5C1D, 0x8BD5],
                       T '' P2P '', U [0x76F4, 0x8FDE, 0x2026],
                       T ''</div><div class=\"remote-error\" role=\"alert\"></div><div class=\"remote-body\"></div>'']"

definition file_row :: "view_env \<Rightarrow> nat \<times> file_entry \<Rightarrow> piece list" where
  "file_row env ie =
     [T ''<tr><td><button class=\"entry\" data-index=\"'', R (nat_text (fst ie)), T ''\">'']
     @ (if en_dir (snd ie) then [U [0x1F4C1]] else [U [0x1F4C4]])
     @ [T '' '', E (en_name (snd ie)), T ''</button></td><td>'']
     @ (if en_dir (snd ie) then [U [0x2014]] else [R (ve_count env (en_size (snd ie))), T '' B''])
     @ [T ''</td><td><button class=\"rename\" data-index=\"'', R (nat_text (fst ie)), T ''\">'',
                                                                               U [0x91CD, 0x547D, 0x540D],
                                                                               T ''</button> <button class=\"delete\" data-index=\"'',
        R (nat_text (fst ie)), T ''\">'', U [0x5220, 0x9664], T ''</button></td></tr>'']"

definition file_table :: "view_env \<Rightarrow> file_entry list \<Rightarrow> piece list" where
  "file_table env es =
     [T ''<table><thead><tr><th>'', U [0x540D, 0x79F0], T ''</th><th>'', U [0x5927, 0x5C0F], T ''</th><th>'',
      U [0x64CD, 0x4F5C], T ''</th></tr></thead><tbody>'']
     @ concat (map (file_row env) (zip [0..<length es] es)) @ [T ''</tbody></table>'']"

end
