(* ===== verification/App_Form_Props.thy ===== *)
theory App_Form_Props
  imports App_Forms
begin

text \<open>
  The properties of the console's forms: a number written into a field is read back, an untouched
  dialog saves what it showed, and the version test of \<open>canRemote\<close> is the comparison it means.
\<close>

section \<open>Numbers written and read\<close>

lemma digit_not_blank: "is_digit c \<Longrightarrow> \<not> js_blank c"
  by (auto simp: is_digit_def js_blank_def)

lemma trim_blank_id: "t \<noteq> [] \<Longrightarrow> \<not> js_blank (hd t) \<Longrightarrow> \<not> js_blank (last t) \<Longrightarrow> trim_blank t = t"
proof -
  assume h: "t \<noteq> []" "\<not> js_blank (hd t)" "\<not> js_blank (last t)"
  then have "dropWhile js_blank t = t" "dropWhile js_blank (rev t) = rev t"
    by (simp_all add: dropWhile_eq_self_iff [THEN iffD2] hd_rev)
  then show ?thesis by (simp add: trim_blank_def)
qed

lemma nat_text_edges: "is_digit (hd (nat_text n))" "is_digit (last (nat_text n))" "nat_text n \<noteq> []"
  using nat_text_digits [of n] nat_text_not_Nil [of n] by (auto simp: hd_in_set last_in_set)

lemma decimal_nat_text: "decimal_number (nat_text n) = Fin (of_nat n)"
proof -
  have d: "\<forall>c \<in> set (nat_text n). is_digit c" using nat_text_digits by auto
  have "nat_text n \<noteq> asc ''Infinity''"
    using d by (auto simp: js_eval is_digit_def)
  moreover have t: "takeWhile is_digit (nat_text n) = nat_text n" "dropWhile is_digit (nat_text n) = []"
    using d by (simp_all add: takeWhile_eq_all_conv dropWhile_eq_Nil_conv)
  ultimately show ?thesis
    using nat_text_not_Nil by (simp add: decimal_number_def Let_def pow10_def digits_val_nat_text t)
qed

lemma js_number_nat_text: "js_number (nat_text n) = Fin (of_nat n)"
proof -
  obtain c u where t: "nat_text n = c # u" using nat_text_not_Nil [of n] by (cases "nat_text n") auto
  have trim: "trim_blank (nat_text n) = c # u"
    using trim_blank_id [of "nat_text n"] nat_text_edges [of n] digit_not_blank t by simp
  have c: "is_digit c" using nat_text_edges(1) [of n] t by simp
  have "c = 48 \<Longrightarrow> u = []"
    using nat_text_zero [of n] t by (cases "n = 0") (auto simp: nat_text.simps [of 0])
  with trim c decimal_nat_text [of n] t show ?thesis
    by (auto simp: js_number_def is_digit_def)
qed

lemma js_number_int_text: "js_number (int_text n) = Fin (of_int n)"
proof (cases "n < 0")
  case False
  then show ?thesis using js_number_nat_text [of "nat n"] by (simp add: int_text_def)
next
  case True
  let ?t = "nat_text (nat (- n))"
  have "trim_blank (45 # ?t) = 45 # ?t"
    using nat_text_edges [of "nat (- n)"] digit_not_blank by (intro trim_blank_id) (auto simp: js_blank_def)
  with True show ?thesis
    by (simp add: int_text_def js_number_def decimal_nat_text negate_def)
qed

section \<open>Policies\<close>

lemma nat_text_inject: "nat_text a = nat_text b \<Longrightarrow> a = b"
  by (metis digits_val_nat_text)

lemma exit_select:
  "exit_options st \<noteq> [] \<and> select_value k (exit_options st) e =
     (k, if e \<in> dv_id ` {d \<in> set (nt_devices st). dv_proxy_port d \<noteq> 0} then e else [])"
  by (force simp: exit_options_def select_value_def)

text \<open>
  Saving the dialog of a policy untouched sends, in order, exactly those exits of the stored
  policy whose device still shares a proxy, and the same choice on failure; exits that are no longer
  offered are dropped, and nothing else is.
\<close>

theorem policy_save_untouched:
  "ar_data (policy_request i (policy_form st i)) =
     Some [(asc ''source'', FText i),
           (asc ''exits'', FList (filter (\<lambda>e. e \<noteq> [] \<and> (\<exists>d \<in> set (nt_devices st). dv_id d = e \<and> dv_proxy_port d \<noteq> 0))
                                   (po_exits (policy_of st i)))),
           (asc ''onFailure'', FText (if po_failure (policy_of st i) = asc ''direct'' then asc ''direct'' else asc ''block'')),
           (asc ''active'', FText [])]"
proof -
  let ?es = "po_exits (policy_of st i)"
  let ?P = "\<lambda>e. e \<noteq> [] \<and> (\<exists>d \<in> set (nt_devices st). dv_id d = e \<and> dv_proxy_port d \<noteq> 0)"
  let ?sel = "\<lambda>k. select_value (exit_name k) (exit_options st) (if k < length ?es then ?es ! k else [])"
  let ?fail = "select_value (asc ''onFailure'') [(asc ''block'', stop_text), (asc ''direct'', direct_text)]
      (po_failure (policy_of st i))"
  have pre: "take 4 (exit_name k) = asc ''exit''" for k by (simp add: exit_name_def js_eval)
  have f: "?fail = (asc ''onFailure'', if po_failure (policy_of st i) = asc ''direct'' then asc ''direct'' else asc ''block'')"
    by (auto simp: select_value_def)
  have no: "take 4 (asc ''onFailure'') \<noteq> asc ''exit''" by (simp add: js_eval)
  have one: "map snd (filter (\<lambda>(k, x). take 4 k = asc ''exit'' \<and> x \<noteq> []) [?sel k]) =
      (if k < length ?es \<and> ?P (?es ! k) then [?es ! k] else [])" for k
    using exit_select [of st "exit_name k"] pre by (auto simp: image_iff)
  have exits: "map snd (filter (\<lambda>(k, x). take 4 k = asc ''exit'' \<and> x \<noteq> []) (map ?sel [0..<n])) =
      filter ?P (take n ?es)" for n
  proof (induction n)
    case (Suc n)
    have "map snd (filter (\<lambda>(k, x). take 4 k = asc ''exit'' \<and> x \<noteq> []) (map ?sel [0..<Suc n])) =
        filter ?P (take n ?es) @ (if n < length ?es \<and> ?P (?es ! n) then [?es ! n] else [])"
    proof -
      have "map ?sel [0..<Suc n] = map ?sel [0..<n] @ [?sel n]" by simp
      then show ?thesis unfolding filter_append map_append Suc one by (simp only: filter_append map_append Suc one)
    qed
    also have "\<dots> = filter ?P (take (Suc n) ?es)"
      by (cases "n < length ?es") (simp_all add: take_Suc_conv_app_nth)
    finally show ?case .
  qed simp
  have get: "form_get (map ?sel ks @ [?fail]) ''onFailure'' = Some (snd ?fail)" for ks
  proof (induction ks)
    case (Cons k ks)
    have "exit_name k \<noteq> asc ''onFailure''" by (simp add: exit_name_def js_eval)
    with Cons show ?case by (simp add: form_get_def select_value_def)
  qed (simp add: form_get_def select_value_def)
  let ?n = "max 3 (length ?es + 1)"
  have form: "policy_form st i = map ?sel [0..<?n] @ [?fail]" by (simp add: policy_form_def Let_def)
  have "map snd (filter (\<lambda>(k, x). take 4 k = asc ''exit'' \<and> x \<noteq> []) (policy_form st i)) = filter ?P ?es"
    unfolding form filter_append map_append exits f using no by simp
  then show ?thesis
    using get [of "[0..<?n]"] f by (simp add: policy_request_def form)
qed

section \<open>Devices\<close>

text \<open>
  Saving the dialog of a device untouched sends back the device's own values: the texts as an \<open>input\<close>
  holds them, the ports as the numbers they are (the SSH port's default is 22), and a protocol that is
  always one of the two the select offers.
\<close>

lemma input_number: "input_text (int_text n) = int_text n"
proof (rule input_plain)
  have "\<forall>c \<in> set (int_text n). is_digit c \<or> c = 45" using nat_text_digits by (auto simp: int_text_def)
  then show "plain_text (int_text n)" by (auto simp: plain_text_def list_all_iff is_digit_def)
qed

theorem device_save_untouched:
  "ar_data (device_request i (device_form d)) =
     Some [(asc ''name'', FText (input_text (dv_name d))),
           (asc ''proxyType'', FText (if dv_proxy_type d = asc ''http'' then asc ''http'' else asc ''socks5'')),
           (asc ''proxyPort'', FNum (Fin (of_int (dv_proxy_port d)))),
           (asc ''sshUser'', FText (input_text (dv_ssh_user d))),
           (asc ''sshPort'', FNum (Fin (of_int (if dv_ssh_port d = 0 then 22 else dv_ssh_port d)))),
           (asc ''sshFingerprint'', FText (input_text (dv_ssh_print d)))]"
  using asc_inject [of "''http''" "[]"]
  by (auto simp: asc_Nil device_request_def device_form_def field_value_def select_value_def spread_def with_field_def
      form_num_def form_get_def js_number_int_text input_number)

lemma split_dots_segment: "46 \<notin> set s \<Longrightarrow> split_dots (s @ 46 # t) = s # split_dots t"
  by (induction s) auto

lemma split_dots_last: "46 \<notin> set s \<Longrightarrow> split_dots s = [s]"
  by (induction s) auto

lemma nat_text_no_dot: "46 \<notin> set (nat_text n)"
  using nat_text_digits [of n] by (auto simp: is_digit_def)

text \<open>
  The version test means what its message says: for a client that reports a version
  major.minor, with or without further components, the browser offers files and desktop exactly from
  version 0.2 on, and always for the server itself.
\<close>

theorem can_remote_from_0_2:
  assumes "dv_version d = nat_text a @ 46 # nat_text b @ t" "t = [] \<or> hd t = 46"
  shows "can_remote (Some d) \<longleftrightarrow> dv_id d = asc ''cloud'' \<or> a > 0 \<or> b \<ge> 2"
proof -
  have "split_dots (nat_text b @ t) = nat_text b # (if t = [] then [] else split_dots (tl t))"
    using assms(2) nat_text_no_dot [of b]
    by (cases t) (simp_all add: split_dots_last split_dots_segment)
  then have "split_dots (dv_version d) = nat_text a # nat_text b # (if t = [] then [] else split_dots (tl t))"
    unfolding assms(1) using split_dots_segment [OF nat_text_no_dot [of a]] by simp
  moreover have "dv_version d \<noteq> []" using assms(1) by simp
  ultimately show ?thesis
    by (auto simp: can_remote_def js_number_nat_text Let_def)
qed

theorem can_remote_from_0_2_witness:
  "can_remote (Some \<lparr>dv_id = asc ''a'', dv_name = [], dv_ip = [], dv_os = [], dv_online = True, dv_latency = 0,
     dv_tx = 0, dv_rx = 0, dv_handshake = 0, dv_version = nat_text 0 @ 46 # nat_text 2 @ asc ''.0'',
     dv_proxy_port = 0, dv_proxy_type = [], dv_proxy_ok = False, dv_ssh_user = [], dv_ssh_port = 0, dv_ssh_print = []\<rparr>)"
  by (subst can_remote_from_0_2 [of _ 0 2 "asc ''.0''"]) (simp_all add: js_eval)

end
