(* ===== verification/Views_Props.thy ===== *)
theory Views_Props
  imports Views Dialog_Views App_Form_Props
begin

text \<open>
  No data becomes markup: every template of the console and of the remote dialog keeps its data in
  text or in quoted attribute values, so that the browser reads the markup the template's literals
  spell and the data exactly as it is.
\<close>

section \<open>What is inserted unescaped\<close>

lemma inert_digits: "\<forall>c \<in> set t. is_digit c \<Longrightarrow> inert t"
  by (auto simp: inert_def special_def is_digit_def)

lemma inert_nat_text [simp]: "inert (nat_text n)"
  by (rule inert_digits [OF nat_text_digits])

lemma inert_int_text [simp]: "inert (int_text i)"
  by (simp add: int_text_def special_def)

lemma inert_to_fixed [simp]: "inert (to_fixed k x)"
  by (simp add: to_fixed_def pad_zero_def Let_def special_def) (simp add: inert_def special_def)

lemma inert_bytes_text [simp]: "inert (bytes_text n)"
  by (simp add: bytes_text_def js_eval special_def)

text \<open>The locale's texts hold no character that is special in HTML.\<close>

definition env_ok :: "view_env \<Rightarrow> bool" where
  "env_ok env \<longleftrightarrow>
     (\<forall>t. inert (ve_date env t)) \<and> inert (ve_now env) \<and> (\<forall>n. inert (ve_count env n))
     \<and> (\<forall>t. inert t \<longrightarrow> inert (ve_upper env t))"

lemma inert_date_text [simp]: "env_ok env \<Longrightarrow> inert (date_text (ve_date env) t)"
  by (simp add: date_text_def env_ok_def no_record_def special_def)

text \<open>The identifiers the server makes, and the protocols it accepts, are inert.\<close>

definition net_ok :: "net \<Rightarrow> bool" where
  "net_ok st \<longleftrightarrow>
     (\<forall>d \<in> set (nt_devices st). inert (dv_id d))
     \<and> (\<forall>m \<in> set (nt_mappings st). inert (mp_id m) \<and> inert (mp_protocol m))"

section \<open>Parts\<close>

lemmas [simp] = ctx_append ctx_rows

named_theorems views \<open>each template ends where it began\<close>

lemma not_special: "c > 62 \<Longrightarrow> c \<notin> special"
  by (auto simp: special_def)

lemma ctx_ico [views]: "ctx Data (ico n) = Some Data"
  by (simp add: ico_def icon_def)

lemma ctx_badge [views]: "ctx Data (badge on t) = Some Data"
  by (simp add: badge_def)

lemma ctx_tab_name [views]: "ctx Data (tab_name agent tab) = Some Data"
  by (simp add: tab_name_def not_special)

lemma ctx_panel [views]:
  "ctx Data title = Some Data \<Longrightarrow> ctx Data body = Some Data \<Longrightarrow> ctx Data act = Some Data \<Longrightarrow>
     ctx Data subtitle = Some Data \<Longrightarrow> ctx Data (panel title body act subtitle) = Some Data"
  by (simp add: panel_def)

lemma ctx_stat [views]:
  "ctx Data title = Some Data \<Longrightarrow> ctx Data value = Some Data \<Longrightarrow> ctx Data sub = Some Data \<Longrightarrow>
     ctx Data (stat title value sub ic) = Some Data"
  by (simp add: stat_def views)

lemma ctx_events [views]: "env_ok env \<Longrightarrow> ctx Data (events env tab es) = Some Data"
  by (simp add: events_def event_row_def not_special)

lemma ctx_checks [views]: "ctx Data (checks cs) = Some Data"
  by (simp add: checks_def check_row_def views not_special split: option.split list.split)

section \<open>The pages of the console\<close>

lemma ctx_shell_page [views]: "ctx Data (shell_page agent tab) = Some Data"
  by (simp add: shell_page_def nav_tabs_def nav_button_def views not_special)

lemma ctx_login_page [views]: "ctx Data login_page = Some Data"
  by (simp add: login_page_def not_special)

lemma ctx_live_page [views]: "env_ok env \<Longrightarrow> ctx Data (live_page env lo) = Some Data"
  by (simp add: live_page_def env_ok_def not_special split: option.split)

lemma ctx_remote_attr: "ctx Tag (remote_attr d) = Some Tag"
  by (simp add: remote_attr_def not_special)

lemma ctx_device_traffic [views]: "env_ok env \<Longrightarrow> ctx Data (device_traffic env d) = Some Data"
  by (simp add: device_traffic_def views not_special)

lemma ctx_device_buttons [views]: "inert (dv_id d) \<Longrightarrow> ctx Data (device_buttons c d) = Some Data"
  by (simp add: device_buttons_def ctx_remote_attr not_special)

lemma ctx_device_row [views]: "env_ok env \<Longrightarrow> inert (dv_id d) \<Longrightarrow> ctx Data (device_row env c d) = Some Data"
  by (simp add: device_row_def views not_special)

lemma ctx_device_table [views]: "env_ok env \<Longrightarrow> net_ok st \<Longrightarrow> ctx Data (device_table env c st) = Some Data"
  by (simp add: device_table_def net_ok_def views not_special)

lemma ctx_topology [views]: "ctx Data (topology st) = Some Data"
  by (simp add: topology_def topology_node_def Let_def views not_special)

lemma ctx_enroll_button [views]: "ctx Data enroll_button = Some Data"
  by (simp add: enroll_button_def not_special)

lemma ctx_count [simp]: "ctx Data (count_piece n # ps) = ctx Data ps"
  by (simp add: count_piece_def)

lemma ctx_home_tab [views]: "env_ok env \<Longrightarrow> net_ok st \<Longrightarrow> ctx Data (home_tab env st) = Some Data"
  by (simp add: home_tab_def views not_special)

lemma ctx_devices_tab [views]: "env_ok env \<Longrightarrow> net_ok st \<Longrightarrow> ctx Data (devices_tab env st) = Some Data"
  by (simp add: devices_tab_def views not_special)

lemma ctx_join [views]:
  "ctx Data sep = Some Data \<Longrightarrow> (\<And>p. p \<in> set ps \<Longrightarrow> ctx Data p = Some Data) \<Longrightarrow> ctx Data (join_pieces sep ps) = Some Data"
  by (induction sep ps rule: join_pieces.induct) auto

lemma ctx_policy_row [views]: "inert (dv_id d) \<Longrightarrow> ctx Data (policy_row st d) = Some Data"
proof -
  assume i: "inert (dv_id d)"
  have tags: "ctx Data (join_pieces [T ''<span class=\"arrow\">'', U [0x2192], T ''</span>''] (map (exit_tag st) es)) = Some Data" for es
    by (rule ctx_join) (auto simp: exit_tag_def not_special)
  show ?thesis by (simp add: policy_row_def Let_def tags i not_special)
qed

lemma ctx_proxy_tab [views]: "net_ok st \<Longrightarrow> ctx Data (proxy_tab st) = Some Data"
  by (simp add: proxy_tab_def net_ok_def views not_special)

lemma ctx_mapping_row [views]:
  "env_ok env \<Longrightarrow> inert (mp_id m) \<Longrightarrow> inert (mp_protocol m) \<Longrightarrow> ctx Data (mapping_row env st m) = Some Data"
  by (simp add: mapping_row_def env_ok_def views not_special)

lemma ctx_maps_tab [views]: "env_ok env \<Longrightarrow> net_ok st \<Longrightarrow> ctx Data (maps_tab env st) = Some Data"
  by (simp add: maps_tab_def net_ok_def views not_special)

lemma ctx_render: "env_ok env \<Longrightarrow> net_ok st \<Longrightarrow> render env tab st = Some ps \<Longrightarrow> ctx Data ps = Some Data"
  by (auto simp: render_def views not_special split: if_splits)

section \<open>The pages of the desktop client\<close>

lemma ctx_detail_cells [views]: "ctx Data (concat (map detail_cell (details env l))) = Some Data"
  by (simp add: details_def detail_cell_def not_special)

lemma ctx_agent_home [views]: "ctx Data (agent_home env l) = Some Data"
  by (simp add: agent_home_def views not_special)

lemma ctx_agent_repair [views]: "env_ok env \<Longrightarrow> ctx Data (agent_repair env l) = Some Data"
  by (simp add: agent_repair_def views not_special)

lemma ctx_render_agent: "env_ok env \<Longrightarrow> render_agent env tab l = Some ps \<Longrightarrow> ctx Data ps = Some Data"
  by (auto simp: render_agent_def views not_special split: if_splits)

section \<open>The dialogs\<close>

lemma ctx_field [views]:
  "ctx Data label = Some Data \<Longrightarrow> lit_after Double name = Some Double \<Longrightarrow> lit_after Double type = Some Double \<Longrightarrow>
     ctx Tag extra = Some Tag \<Longrightarrow> ctx Data (field label name value type extra) = Some Data"
  by (simp add: field_def)

lemma ctx_option_piece: "ctx Data (option_piece value vt) = Some Data"
  by (simp add: option_piece_def)

lemma ctx_select_box [views]:
  "ctx Data label = Some Data \<Longrightarrow> ctx Double name = Some Double \<Longrightarrow>
     ctx Data (select_box label name options value) = Some Data"
  by (simp add: select_box_def ctx_option_piece)

lemma ctx_modal_page [views]:
  "ctx Data title = Some Data \<Longrightarrow> ctx Data body = Some Data \<Longrightarrow> ctx Data (modal_page title body) = Some Data"
  by (simp add: modal_page_def not_special)

lemma ctx_dialogs [views]:
  "ctx Data enroll_page = Some Data" "ctx Data (code_page c) = Some Data" "ctx Data (device_page d) = Some Data"
  "ctx Data (policy_page st i) = Some Data" "ctx Data (mapping_page st) = Some Data"
  "ctx Data (delete_page m) = Some Data" "ctx Data (join_page l) = Some Data" "ctx Data share_page = Some Data"
  "ctx Data (proxy_page e) = Some Data" "ctx Data (ssh_page n) = Some Data" "ctx Data (remote_page mode n) = Some Data"
  by (simp_all add: enroll_page_def code_page_def device_page_def policy_page_def mapping_page_def delete_page_def
      join_page_def share_page_def proxy_page_def ssh_page_def remote_page_def Let_def views not_special)

lemma ctx_file_table [views]: "env_ok env \<Longrightarrow> ctx Data (file_table env es) = Some Data"
  by (simp add: file_table_def file_row_def env_ok_def not_special)

section \<open>Properties\<close>

text \<open>
  Escaping is undone by the browser: in text and in a quoted attribute value, what was escaped is
  read as exactly the original text, whatever it contains; the helper of the remote dialog is the same
  function.
\<close>

theorem escaped_reads_back:
  "read_html Data (esc s) = map Shown s \<and> read_html Double (esc s) = map Value s
   \<and> read_html Data (escape s) = map Shown s"
proof -
  have m: "map (shown Data) s = map Shown s" "map (shown Double) s = map Value s"
    by simp_all
  have e: "escape s = esc s" by (simp add: escape_def esc_def)
  from read_esc [of Data s "[]"] read_esc [of Double s "[]"] show ?thesis unfolding e m by simp
qed

text \<open>
  C15: no device, mapping, policy, event, check or error message can change the console: on every tab
  of the browser and of the desktop client the browser reads the markup the page has when all its data
  is blank, and the data itself as the text it is. This rests on the identifiers and protocols, which
  are inserted unescaped, being free of HTML's special characters.
\<close>

theorem data_is_never_markup:
  assumes "env_ok env" "net_ok st" "render env tab st = Some ps \<or> render_agent env tab l = Some ps"
  shows "read_html Data (html ps) = meaning Data ps
    \<and> filter is_markup (read_html Data (html ps)) = filter is_markup (read_html Data (html (map blank ps)))"
proof -
  have "ctx Data ps = Some Data"
    using assms ctx_render ctx_render_agent by blast
  then show ?thesis using read_template_end markup_fixed by blast
qed

definition demo_env :: view_env where
  "demo_env = \<lparr>ve_date = (\<lambda>t. asc ''2026''), ve_iso = int_text, ve_now = asc ''12:00'', ve_upper = id, ve_count = nat_text\<rparr>"

definition demo_event :: event_entry where
  "demo_event = \<lparr>ev_at = [], ev_action = asc ''<script>'', ev_detail = asc ''</div>''\<rparr>"

definition demo_net :: net where
  "demo_net = \<lparr>nt_server_ip = [], nt_devices = [], nt_policies = [], nt_mappings = [], nt_events = [demo_event]\<rparr>"

lemma demo_env_ok: "env_ok demo_env"
  by (simp add: env_ok_def demo_env_def js_eval special_def)

theorem data_is_never_markup_witness:
  "let ps = panel [U [0x64CD, 0x4F5C, 0x4E0E, 0x8FDE, 0x63A5, 0x4E8B, 0x4EF6]] (events demo_env ''logs'' [demo_event]) [] []
   in filter is_markup (read_html Data (html ps)) = filter is_markup (read_html Data (html (map blank ps)))"
proof -
  have "render demo_env ''logs'' demo_net = Some (panel [U [0x64CD, 0x4F5C, 0x4E0E, 0x8FDE, 0x63A5, 0x4E8B, 0x4EF6]] (events demo_env ''logs'' [demo_event]) [] [])"
    by (simp add: render_def demo_net_def)
  moreover have "net_ok demo_net" by (simp add: net_ok_def demo_net_def)
  ultimately show ?thesis
    unfolding Let_def using data_is_never_markup [OF demo_env_ok] by blast
qed

text \<open>
  The dialogs keep their data in place as well: every form of the console, the enrolment code, the
  terminal's header, the remote dialog and the listing of a remote directory, whatever the files there
  are called.
\<close>

theorem dialogs_keep_data_in_place:
  assumes "env_ok env"
    "ps \<in> {enroll_page, code_page c, device_page d, policy_page st i, mapping_page st, delete_page m, join_page l,
            share_page, proxy_page b, ssh_page name, remote_page mode name, file_table env es}"
  shows "read_html Data (html ps) = meaning Data ps
    \<and> filter is_markup (read_html Data (html ps)) = filter is_markup (read_html Data (html (map blank ps)))"
proof -
  have "ctx Data ps = Some Data"
    using assms(2) ctx_dialogs ctx_file_table [OF assms(1)] by blast
  then show ?thesis using read_template_end markup_fixed by blast
qed

theorem dialogs_keep_data_in_place_witness:
  "let es = [\<lparr>en_name = asc ''<img src=x>'', en_dir = False, en_size = 3\<rparr>]
   in filter is_markup (read_html Data (html (file_table demo_env es)))
      = filter is_markup (read_html Data (html (map blank (file_table demo_env es))))"
  unfolding Let_def by (rule dialogs_keep_data_in_place [OF demo_env_ok, THEN conjunct2]) blast

end
