(* ===== verification/Addresses.thy ===== *)
theory Addresses
  imports App_Forms
begin

text \<open>
  What the server uses of Go's \<open>strings\<close> and \<open>net\<close> packages: \<open>Split\<close>, \<open>Fields\<close>, \<open>Contains\<close>, \<open>ParseInt\<close>,
  \<open>ParseIP\<close>, \<open>IP.String\<close>, \<open>ParseCIDR\<close>, \<open>IPNet.Contains\<close> and \<open>JoinHostPort\<close>. An address is the list of
  its 4 or 16 bytes; an IPv4 address written as IPv6 is its 4 bytes, as \<open>To4\<close> makes it.
\<close>

section \<open>Text\<close>

fun split_on :: "nat \<Rightarrow> jstext \<Rightarrow> jstext list" where
  "split_on x [] = [[]]"
| "split_on x (c # cs) =
     (if c = x then [] # split_on x cs
      else case split_on x cs of [] \<Rightarrow> [[c]] | p # ps \<Rightarrow> (c # p) # ps)"

definition go_space :: "nat \<Rightarrow> bool" where
  "go_space c \<longleftrightarrow> c \<in> {9, 10, 11, 12, 13, 32, 0x85, 0xA0, 0x1680, 0x2028, 0x2029, 0x202F, 0x205F, 0x3000}
     \<or> 0x2000 \<le> c \<and> c \<le> 0x200A"

text \<open>\<open>strings.Fields\<close>: the maximal runs without a blank.\<close>

fun text_fields :: "jstext \<Rightarrow> jstext list" where
  "text_fields [] = []"
| "text_fields (c # cs) =
     (if go_space c then text_fields cs
      else if cs = [] \<or> go_space (hd cs) then [c] # text_fields cs
      else case text_fields cs of [] \<Rightarrow> [[c]] | p # ps \<Rightarrow> (c # p) # ps)"

definition starts_with :: "jstext \<Rightarrow> jstext \<Rightarrow> bool" where
  "starts_with p t \<longleftrightarrow> take (length p) t = p"

fun text_contains :: "jstext \<Rightarrow> jstext \<Rightarrow> bool" where
  "text_contains p [] = (p = [])"
| "text_contains p (c # cs) = (starts_with p (c # cs) \<or> text_contains p cs)"

text \<open>\<open>strconv.ParseInt(t, 10, 64)\<close>, the error ignored: 0 on bad syntax, the nearest bound out of range.\<close>

definition parse_int64 :: "jstext \<Rightarrow> int" where
  "parse_int64 t =
     (let (neg, ds) = (case t of c # u \<Rightarrow> if c = 45 then (True, u) else if c = 43 then (False, u) else (False, t)
                               | [] \<Rightarrow> (False, []))
      in if ds = [] \<or> \<not> (\<forall>c \<in> set ds. is_digit c) then 0
         else let v = int (digits_val ds)
              in if neg then max (- (2 ^ 63)) (- v) else min (2 ^ 63 - 1) v)"

section \<open>Addresses\<close>

definition ip4_field :: "jstext \<Rightarrow> nat option" where
  "ip4_field t =
     (if t = [] \<or> \<not> (\<forall>c \<in> set t. is_digit c) \<or> hd t = 48 \<and> length t \<noteq> 1 \<or> 255 < digits_val t then None
      else Some (digits_val t))"

definition ip4_parse :: "jstext \<Rightarrow> nat list option" where
  "ip4_parse t =
     (let fs = map ip4_field (split_on 46 t)
      in if length fs = 4 \<and> None \<notin> set fs then Some (map the fs) else None)"

text \<open>The loop over the groups of an IPv6 address: the bytes so far and the place of \<open>::\<close>.\<close>

definition is_hex :: "nat \<Rightarrow> bool" where
  "is_hex c \<longleftrightarrow> hex_val c \<noteq> None"

definition hex_number :: "jstext \<Rightarrow> nat" where
  "hex_number t = foldl (\<lambda>a c. a * 16 + the (hex_val c)) 0 t"

lemma drop_hex_shorter: "c # t = dropWhile is_hex s \<Longrightarrow> length t < length s \<and> length t - Suc 0 < length s"
  using length_dropWhile_le [of is_hex s] by (metis length_Cons less_imp_diff_less not_less_eq_eq not_le)

function ip6_loop :: "nat list \<Rightarrow> nat option \<Rightarrow> jstext \<Rightarrow> (nat list \<times> nat option) option" where
  "ip6_loop b e s =
     (let h = takeWhile is_hex s; r = dropWhile is_hex s; v = hex_number h; b1 = b @ [v div 256, v mod 256] in
      if 16 \<le> length b then (if s = [] then Some (b, e) else None)
      else if h = [] \<or> 4 < length h then None
      else if r \<noteq> [] \<and> hd r = 46 then
        (if e = None \<and> length b \<noteq> 12 \<or> 16 < length b + 4 then None
         else map_option (\<lambda>q. (b @ q, e)) (ip4_parse s))
      else
        (case r of
           [] \<Rightarrow> Some (b1, e)
         | c # t \<Rightarrow>
             if c \<noteq> 58 \<or> t = [] then None
             else if hd t = 58 then
               (if e \<noteq> None then None
                else if tl t = [] then Some (b1, Some (length b1))
                else ip6_loop b1 (Some (length b1)) (tl t))
             else ip6_loop b1 e t))"
  by pat_completeness auto
termination
  by (relation "measure (\<lambda>(b, e, s). length s)") (auto dest: drop_hex_shorter)

declare ip6_loop.simps [simp del]

definition ip6_parse :: "jstext \<Rightarrow> nat list option" where
  "ip6_parse t =
     (if t = [58, 58] then Some (replicate 16 0)
      else
        (let r = (if starts_with [58, 58] t then ip6_loop [] (Some 0) (drop 2 t) else ip6_loop [] None t)
         in case r of
              None \<Rightarrow> None
            | Some (b, e) \<Rightarrow>
                if length b < 16 then map_option (\<lambda>k. take k b @ replicate (16 - length b) 0 @ drop k b) e
                else if e = None then Some b else None))"

definition to4 :: "nat list \<Rightarrow> nat list" where
  "to4 b = (if length b = 16 \<and> take 12 b = [0, 0, 0, 0, 0, 0, 0, 0, 0, 0, 255, 255] then drop 12 b else b)"

text \<open>\<open>ParseIP\<close>: which of the two forms it is the first dot or colon says.\<close>

definition parse_ip :: "jstext \<Rightarrow> nat list option" where
  "parse_ip t =
     (case dropWhile (\<lambda>c. c \<noteq> 46 \<and> c \<noteq> 58) t of
        [] \<Rightarrow> None
      | c # u \<Rightarrow> if c = 46 then ip4_parse t else map_option to4 (ip6_parse t))"

section \<open>Writing addresses\<close>

fun hex_text :: "nat \<Rightarrow> jstext" where
  "hex_text n = (if n < 16 then [hex_digit n] else hex_text (n div 16) @ [hex_digit (n mod 16)])"

declare hex_text.simps [simp del]

definition ip4_text :: "nat list \<Rightarrow> jstext" where
  "ip4_text b = join_with [46] (map nat_text b)"

fun ip6_groups :: "nat list \<Rightarrow> nat list" where
  "ip6_groups (a # b # bs) = (a * 256 + b) # ip6_groups bs"
| "ip6_groups bs = []"

text \<open>The first of the longest runs of two or more groups that are zero.\<close>

definition zero_run :: "nat list \<Rightarrow> nat \<times> nat" where
  "zero_run gs =
     foldl (\<lambda>(a, n) i. let k = length (takeWhile (\<lambda>g. g = 0) (drop i gs)) in if 2 \<le> k \<and> n < k then (i, k) else (a, n))
       (0, 0) [0..<length gs]"

definition ip6_text :: "nat list \<Rightarrow> jstext" where
  "ip6_text b =
     (let gs = ip6_groups b; (a, n) = zero_run gs in
      if n = 0 then join_with [58] (map hex_text gs)
      else join_with [58] (map hex_text (take a gs)) @ [58, 58] @ join_with [58] (map hex_text (drop (a + n) gs)))"

definition ip_text :: "nat list \<Rightarrow> jstext" where
  "ip_text b = (let c = to4 b in if length c = 4 then ip4_text c else ip6_text c)"

section \<open>Networks\<close>

text \<open>\<open>ParseCIDR\<close>, for networks of IPv4 addresses: the address as written, and the length of the prefix.\<close>

definition parse_cidr :: "jstext \<Rightarrow> (nat list \<times> nat) option" where
  "parse_cidr t =
     (let a = takeWhile (\<lambda>c. c \<noteq> 47) t; r = dropWhile (\<lambda>c. c \<noteq> 47) t in
      case (if r = [] then None else ip4_parse a) of
        None \<Rightarrow> None
      | Some b \<Rightarrow>
          if tl r \<noteq> [] \<and> (\<forall>c \<in> set (tl r). is_digit c) \<and> digits_val (tl r) \<le> 32 then Some (b, digits_val (tl r))
          else None)"

definition ip4_number :: "nat list \<Rightarrow> nat" where
  "ip4_number b = foldl (\<lambda>a x. a * 256 + x) 0 b"

definition in_network :: "nat list \<times> nat \<Rightarrow> nat list option \<Rightarrow> bool" where
  "in_network net a =
     (case a of
        None \<Rightarrow> False
      | Some b \<Rightarrow> length b = 4 \<and>
          ip4_number b div 2 ^ (32 - snd net) = ip4_number (fst net) div 2 ^ (32 - snd net))"

definition host_port :: "jstext \<Rightarrow> int \<Rightarrow> jstext" where
  "host_port h p =
     (if 58 \<in> set h \<or> 37 \<in> set h then [91] @ h @ [93] else h) @ [58] @ int_text p"

section \<open>Examples\<close>

lemma replicate_numeral_Cons: "replicate (numeral n) x = x # replicate (pred_numeral n) x"
  by (simp add: numeral_eq_Suc)

lemmas net_eval =
  js_eval split_on.simps ip4_field_def ip4_parse_def is_hex_def hex_number_def ip6_parse_def to4_def parse_ip_def
  starts_with_def is_digit_def digits_val_def hex_val_def ip4_text_def ip6_text_def ip_text_def zero_run_def
  hex_text.simps nat_text.simps hex_digit_def parse_cidr_def ip4_number_def in_network_def

lemma parse_ip_examples:
  "parse_ip (asc ''10.77.0.1'') = Some [10, 77, 0, 1]"
  "parse_ip (asc ''10.77.0.01'') = None"
  "parse_ip (asc ''::ffff:10.77.0.1'') = Some [10, 77, 0, 1]"
  "parse_ip (asc ''2001:db8::1'') = Some [32, 1, 13, 184, 0, 0, 0, 0, 0, 0, 0, 0, 0, 0, 0, 1]"
  "parse_cidr (asc ''10.77.0.0/24'') = Some ([10, 77, 0, 0], 24)"
  by (simp_all add: net_eval ip6_loop.simps replicate_numeral_Cons)

lemma ip_text_examples:
  "ip_text [10, 77, 0, 1] = asc ''10.77.0.1''"
  "ip_text [32, 1, 13, 184, 0, 0, 0, 0, 0, 1, 0, 0, 0, 0, 0, 1] = asc ''2001:db8::1:0:0:1''"
  "ip_text [32, 1, 13, 184, 0, 0, 0, 1, 0, 1, 0, 1, 0, 1, 0, 1] = asc ''2001:db8:0:1:1:1:1:1''"
  by (simp_all add: net_eval upt_conv_Cons)

end
