(* ===== verification/Server.thy ===== *)
theory Server
  imports Addresses File_Service
begin

text \<open>
  The control server, \<open>internal/server/server.go\<close> with the records of \<open>internal/core/model.go\<close>: sign-in,
  enrolment codes, joining, heartbeats, device settings and policies. Policies and mappings have the
  fields of the console's records.

  Every handler here holds the server's lock from its first access to the state to its answer, so it is
  one function of the state. \<open>guard\<close> reads the sessions in a section of its own before that; no handler
  behind it touches them, so the two are taken together. \<open>now\<close> is the time it reads. Bodies arrive decoded, \<open>None\<close> when
  \<open>core.Decode\<close> fails. What \<open>wg\<close> prints, and whether a save succeeds, are arguments; \<open>tok n\<close> is the
  \<open>n\<close>-th text \<open>core.Token\<close> makes. \<open>core.Equal\<close> compares digests: equality, and not of empty texts.
\<close>

section \<open>State\<close>

record sdevice =
  sd_id :: jstext
  sd_name :: jstext
  sd_ip :: jstext
  sd_key :: jstext
  sd_token :: jstext
  sd_os :: jstext
  sd_seen :: "nat option"
  sd_latency :: int
  sd_rx :: int
  sd_tx :: int
  sd_handshake :: int
  sd_proxy_port :: int
  sd_proxy_type :: jstext
  sd_healthy :: bool
  sd_proxy_error :: jstext
  sd_ssh_user :: jstext
  sd_ssh_print :: jstext
  sd_ssh_port :: int
  sd_version :: jstext
  sd_checks :: "(jstext \<times> bool \<times> jstext) list"

record audit_event =
  ae_at :: nat
  ae_action :: jstext
  ae_detail :: jstext

text \<open>\<open>core.State\<close>, which is what the state file holds.\<close>

type_synonym stored = "sdevice list \<times> policy list \<times> mapping list \<times> audit_event list"

record config =
  cf_admin :: jstext
  cf_server_ip :: jstext
  cf_network :: jstext
  cf_bind :: jstext

text \<open>A dial through a policy that is under way: the exits not tried yet. \<open>fwd_task\<close>: who holds \<open>forwardMu\<close>.\<close>

record dial =
  dl_source :: jstext
  dl_policy :: policy
  dl_exits :: "sdevice list"

datatype fwd_task = Putting mapping | Committing mapping "nat option" | Restoring "mapping list"

datatype server_out =
    Replied nat
  | PasswordTried jstext nat bool | LoggedIn jstext nat | LoggedOut jstext
  | CodeMade jstext | Joined jstext jstext | BeatAnswered jstext policy jstext
  | WgSet jstext jstext | WgRemove jstext
  | ViaExit nat sdevice bool | ViaDirect nat bool | DialEnded nat bool
  | Listening nat mapping jstext jstext | Stopped nat

text \<open>
  The listeners that run are \<open>sv_running\<close>; \<open>sv_forwards\<close> is the map from mappings to the functions that
  stop theirs. \<open>sv_disk\<close> is the state file, \<open>sv_made\<close> the number of tokens made.
\<close>

record server =
  sv_devices :: "sdevice list"
  sv_policies :: "policy list"
  sv_mappings :: "mapping list"
  sv_events :: "audit_event list"
  sv_disk :: stored
  sv_clock :: nat
  sv_made :: nat
  sv_sessions :: "(jstext \<times> nat) list"
  sv_codes :: "(jstext \<times> nat \<times> jstext) list"
  sv_attempts :: "(jstext \<times> nat list) list"
  sv_forwards :: "(jstext \<times> nat) list"
  sv_running :: "(nat \<times> mapping) list"
  sv_task :: "fwd_task option"
  sv_restored :: bool
  sv_dials :: "(nat \<times> dial) list"
  sv_next :: nat
  sv_out :: "server_out list"

definition seconds :: "nat \<Rightarrow> nat" where
  "seconds n = n * 1000000000"

abbreviation "minute \<equiv> seconds 60"

definition go_len :: "jstext \<Rightarrow> nat" where
  "go_len t = length (utf8_encode t)"

definition tok_equal :: "jstext \<Rightarrow> jstext \<Rightarrow> bool" where
  "tok_equal a b \<longleftrightarrow> a \<noteq> [] \<and> a = b"

definition sv_emit :: "server_out list \<Rightarrow> server \<Rightarrow> server" where
  "sv_emit os s = s\<lparr>sv_out := sv_out s @ os\<rparr>"

abbreviation "reply c \<equiv> sv_emit [Replied c]"

text \<open>\<open>New\<close> with the state file as it is; an empty one gets the server's own device.\<close>

definition cloud_name :: jstext where
  "cloud_name = [0x516C, 0x7F51, 0x670D, 0x52A1, 0x5668]"

definition cloud_device :: "config \<Rightarrow> jstext \<Rightarrow> sdevice" where
  "cloud_device cfg t =
     \<lparr>sd_id = asc ''cloud'', sd_name = cloud_name, sd_ip = cf_server_ip cfg, sd_key = [], sd_token = t,
      sd_os = asc ''linux'', sd_seen = None, sd_latency = 0, sd_rx = 0, sd_tx = 0, sd_handshake = 0,
      sd_proxy_port = 0, sd_proxy_type = [], sd_healthy = False, sd_proxy_error = [], sd_ssh_user = [],
      sd_ssh_print = [], sd_ssh_port = 22, sd_version = [], sd_checks = []\<rparr>"

definition no_state :: stored where
  "no_state = ([], [], [], [])"

definition first_state :: "config \<Rightarrow> jstext \<Rightarrow> stored \<Rightarrow> stored" where
  "first_state cfg t d = (if fst d = [] then ([cloud_device cfg t], snd d) else d)"

definition server_boot :: "config \<Rightarrow> (nat \<Rightarrow> jstext) \<Rightarrow> nat \<Rightarrow> nat \<Rightarrow> nat \<Rightarrow> stored \<Rightarrow> server_out list \<Rightarrow> server" where
  "server_boot cfg tok made nxt now d os =
     (let d1 = first_state cfg (tok made) d in
        \<lparr>sv_devices = fst d1, sv_policies = fst (snd d1), sv_mappings = fst (snd (snd d1)),
         sv_events = snd (snd (snd d1)), sv_disk = d1, sv_clock = now,
         sv_made = (if fst d = [] then Suc made else made),
         sv_sessions = [], sv_codes = [], sv_attempts = [], sv_forwards = [], sv_running = [], sv_task = None,
         sv_restored = False, sv_dials = [], sv_next = nxt, sv_out = os\<rparr>)"

definition store :: "server \<Rightarrow> stored" where
  "store s = (sv_devices s, sv_policies s, sv_mappings s, sv_events s)"

definition persist :: "bool \<Rightarrow> server \<Rightarrow> server" where
  "persist saved s = (if saved then s\<lparr>sv_disk := store s\<rparr> else s)"

definition audit_limit :: nat where
  "audit_limit = 200"

definition audit :: "nat \<Rightarrow> string \<Rightarrow> jstext \<Rightarrow> server \<Rightarrow> server" where
  "audit now action detail s =
     (let es = sv_events s @ [\<lparr>ae_at = now, ae_action = asc action, ae_detail = detail\<rparr>]
      in s\<lparr>sv_events := drop (length es - audit_limit) es\<rparr>)"

definition sv_device :: "server \<Rightarrow> jstext \<Rightarrow> sdevice option" where
  "sv_device s i = find (\<lambda>d. sd_id d = i) (sv_devices s)"

text \<open>An assignment through the pointer \<open>device\<close> returns: the first device with this identifier.\<close>

fun update_first :: "jstext \<Rightarrow> (sdevice \<Rightarrow> sdevice) \<Rightarrow> sdevice list \<Rightarrow> sdevice list" where
  "update_first i f [] = []"
| "update_first i f (d # ds) = (if sd_id d = i then f d # ds else d # update_first i f ds)"

definition set_device :: "jstext \<Rightarrow> (sdevice \<Rightarrow> sdevice) \<Rightarrow> server \<Rightarrow> server" where
  "set_device i f s = s\<lparr>sv_devices := update_first i f (sv_devices s)\<rparr>"

section \<open>Signing in\<close>

text \<open>The header \<open>Authorization\<close> and the cookie of a request.\<close>

definition bearer :: "jstext \<Rightarrow> jstext" where
  "bearer h = (if starts_with (asc ''Bearer '') h then drop 7 h else h)"

definition is_admin :: "config \<Rightarrow> nat \<Rightarrow> jstext \<Rightarrow> jstext option \<Rightarrow> server \<Rightarrow> bool" where
  "is_admin cfg now h c s \<longleftrightarrow>
     tok_equal (bearer h) (cf_admin cfg) \<or>
     (case c of None \<Rightarrow> False
      | Some v \<Rightarrow> (case map_of (sv_sessions s) v of None \<Rightarrow> False | Some t \<Rightarrow> now < t))"

definition guarded :: "config \<Rightarrow> nat \<Rightarrow> jstext \<Rightarrow> jstext option \<Rightarrow> (server \<Rightarrow> server) \<Rightarrow> server \<Rightarrow> server" where
  "guarded cfg now h c f s = (if is_admin cfg now h c s then f s else reply 401 s)"

definition attempts_of :: "(jstext \<times> nat list) list \<Rightarrow> jstext \<Rightarrow> nat list" where
  "attempts_of al ip = (case map_of al ip of None \<Rightarrow> [] | Some ts \<Rightarrow> ts)"

definition prune_attempts :: "nat \<Rightarrow> (jstext \<times> nat list) list \<Rightarrow> (jstext \<times> nat list) list" where
  "prune_attempts now al =
     (if 4096 < length al then filter (\<lambda>(k, ts). ts \<noteq> [] \<and> now - last ts \<le> minute) al else al)"

definition session_life :: nat where
  "session_life = seconds 43200"

definition login :: "config \<Rightarrow> (nat \<Rightarrow> jstext) \<Rightarrow> nat \<Rightarrow> jstext \<Rightarrow> jstext option \<Rightarrow> server \<Rightarrow> server" where
  "login cfg tok now ip body s =
     (case body of
        None \<Rightarrow> reply 400 s
      | Some pw \<Rightarrow>
          let al = prune_attempts now (sv_attempts s);
              recent = filter (\<lambda>t. now - t < minute) (attempts_of al ip)
          in if 10 \<le> length recent then reply 429 (s\<lparr>sv_attempts := al\<rparr>)
             else
               let s1 = sv_emit [PasswordTried ip now (tok_equal pw (cf_admin cfg))] (s\<lparr>sv_attempts := AList.update ip (recent @ [now]) al\<rparr>)
               in if \<not> tok_equal pw (cf_admin cfg) then reply 401 s1
                  else
                    let t = tok (sv_made s1)
                    in sv_emit [LoggedIn t now, Replied 200]
                         (s1\<lparr>sv_made := Suc (sv_made s1),
                             sv_sessions := AList.update t (now + session_life)
                               (filter (\<lambda>(k, e). now \<le> e) (sv_sessions s1))\<rparr>))"

definition logout :: "jstext option \<Rightarrow> server \<Rightarrow> server" where
  "logout c s =
     (case c of
        None \<Rightarrow> reply 200 s
      | Some v \<Rightarrow> sv_emit [LoggedOut v, Replied 200] (s\<lparr>sv_sessions := AList.delete v (sv_sessions s)\<rparr>))"

section \<open>Joining\<close>

definition create_code :: "config \<Rightarrow> (nat \<Rightarrow> jstext) \<Rightarrow> nat \<Rightarrow> jstext option \<Rightarrow> server \<Rightarrow> server" where
  "create_code cfg tok now body s =
     (case body of
        None \<Rightarrow> reply 400 s
      | Some ip \<Rightarrow>
          if ip \<noteq> [] \<and> (case parse_cidr (cf_network cfg) of
                            None \<Rightarrow> True
                          | Some net \<Rightarrow> \<not> in_network net (parse_ip ip) \<or> ip = cf_server_ip cfg)
          then reply 400 s
          else
            let cs = filter (\<lambda>(k, e, a). now \<le> e) (sv_codes s); s1 = s\<lparr>sv_codes := cs\<rparr>
            in if 100 \<le> length cs then reply 429 s1
               else
                 let t = tok (sv_made s1)
                 in sv_emit [CodeMade t, Replied 200]
                      (s1\<lparr>sv_made := Suc (sv_made s1), sv_codes := AList.update t (now + seconds 600, ip) cs\<rparr>))"

definition valid_key :: "jstext \<Rightarrow> bool" where
  "valid_key k = (case go_b64_decode k of None \<Rightarrow> False | Some b \<Rightarrow> length b = 32)"

record join_body =
  jb_code :: jstext
  jb_name :: jstext
  jb_key :: jstext

text \<open>What the three \<open>wg\<close> commands of a join give: the server's key, the routes, whether the peer was set.\<close>

record wg_answers =
  wg_key :: "jstext option"
  wg_routes :: "jstext option"
  wg_set :: bool

text \<open>\<open>wg show allowed-ips\<close>, as the code reads it: the key and the first address of every line.\<close>

definition route_lines :: "jstext \<Rightarrow> (jstext \<times> jstext) list" where
  "route_lines t =
     concat (map (\<lambda>l. case text_fields l of k # r # fs \<Rightarrow> [(k, r)] | _ \<Rightarrow> []) (split_on 10 t))"

definition route_of :: "jstext \<Rightarrow> jstext" where
  "route_of ip = ip @ asc ''/32''"

definition candidate :: "nat list \<Rightarrow> nat \<Rightarrow> jstext" where
  "candidate b n = ip4_text (take 3 b @ [n])"

text \<open>\<open>for n := 2; n < 255; n++\<close>\<close>

definition host_numbers :: "nat list" where
  "host_numbers = [2..<255]"

definition candidate_free :: "config \<Rightarrow> sdevice list \<Rightarrow> jstext \<Rightarrow> nat list \<times> nat \<Rightarrow> jstext \<Rightarrow> bool" where
  "candidate_free cfg ds routes net c \<longleftrightarrow>
     \<not> (text_contains (route_of c) routes \<or> c = cf_server_ip cfg \<or> c \<in> sd_ip ` set ds) \<and> in_network net (parse_ip c)"

definition join_address :: "config \<Rightarrow> sdevice list \<Rightarrow> jstext \<Rightarrow> jstext \<Rightarrow> nat + jstext" where
  "join_address cfg ds routes wanted =
     (if wanted \<noteq> [] then Inr wanted
      else case parse_cidr (cf_network cfg) of
             None \<Rightarrow> Inl 500
           | Some net \<Rightarrow>
               (case find (candidate_free cfg ds routes net) (map (candidate (fst net)) host_numbers) of
                  None \<Rightarrow> Inl 409
                | Some c \<Rightarrow> Inr c))"

definition joined_device :: "jstext \<Rightarrow> jstext \<Rightarrow> join_body \<Rightarrow> jstext \<Rightarrow> sdevice" where
  "joined_device i t v ip =
     \<lparr>sd_id = i, sd_name = jb_name v, sd_ip = ip, sd_key = jb_key v, sd_token = t, sd_os = asc ''windows'',
      sd_seen = None, sd_latency = 0, sd_rx = 0, sd_tx = 0, sd_handshake = 0, sd_proxy_port = 0,
      sd_proxy_type = asc ''socks5'', sd_healthy = False, sd_proxy_error = [], sd_ssh_user = [],
      sd_ssh_print = [], sd_ssh_port = 22, sd_version = [], sd_checks = []\<rparr>"

text \<open>From the peer on: the device is entered, and taken out again when it cannot be saved.\<close>

definition join_admit :: "(nat \<Rightarrow> jstext) \<Rightarrow> nat \<Rightarrow> join_body \<Rightarrow> jstext \<Rightarrow> bool \<Rightarrow> bool \<Rightarrow> server \<Rightarrow> server" where
  "join_admit tok now v ip adopted saved s =
     (let d = joined_device (take 12 (tok (sv_made s))) (tok (Suc (sv_made s))) v ip;
          s1 = persist saved (audit now ''device.join'' (sd_name d)
                 (s\<lparr>sv_made := Suc (Suc (sv_made s)), sv_devices := sv_devices s @ [d]\<rparr>))
      in if \<not> saved then
           sv_emit ((if adopted then [] else [WgRemove (jb_key v)]) @ [Replied 500])
             (s1\<lparr>sv_devices := butlast (sv_devices s1)\<rparr>)
         else sv_emit [Joined (jb_code v) (sd_id d), Replied 200] (s1\<lparr>sv_codes := AList.delete (jb_code v) (sv_codes s1)\<rparr>))"

definition join_device :: "config \<Rightarrow> (nat \<Rightarrow> jstext) \<Rightarrow> nat \<Rightarrow> join_body option \<Rightarrow> wg_answers \<Rightarrow> bool \<Rightarrow> server \<Rightarrow> server" where
  "join_device cfg tok now body wg saved s =
     (case body of
        None \<Rightarrow> reply 400 s
      | Some v \<Rightarrow>
          if go_len (jb_name v) < 1 \<or> 80 < go_len (jb_name v) \<or> \<not> valid_key (jb_key v) then reply 400 s
          else
            (case map_of (sv_codes s) (jb_code v) of
               None \<Rightarrow> reply 403 s
             | Some (expires, wanted) \<Rightarrow>
                 if expires < now then reply 403 s
                 else if \<exists>d \<in> set (sv_devices s). sd_key d = jb_key v \<or> wanted \<noteq> [] \<and> sd_ip d = wanted then reply 409 s
                 else
                   (case (wg_key wg, wg_routes wg) of
                      (Some pub, Some routes) \<Rightarrow>
                        (case join_address cfg (sv_devices s) routes wanted of
                           Inl code \<Rightarrow> reply code s
                         | Inr ip \<Rightarrow>
                             let mine = filter (\<lambda>(k, r). text_contains (route_of ip) r) (route_lines routes)
                             in if \<exists>(k, r) \<in> set mine. k \<noteq> jb_key v then reply 409 s
                                else if mine \<noteq> [] then join_admit tok now v ip True saved s
                                else
                                  let s1 = sv_emit [WgSet (jb_key v) ip] s
                                  in if wg_set wg then join_admit tok now v ip False saved s1 else reply 500 s1)
                    | _ \<Rightarrow> reply 503 s)))"

section \<open>Heartbeats\<close>

record beat =
  bt_id :: jstext
  bt_user :: jstext
  bt_print :: jstext
  bt_version :: jstext
  bt_latency :: int
  bt_checks :: "(jstext \<times> bool \<times> jstext) list"

definition takes_ssh :: "sdevice \<Rightarrow> beat \<Rightarrow> bool" where
  "takes_ssh d v \<longleftrightarrow>
     sd_ssh_user d = [] \<and> 0 < go_len (bt_user v) \<and> go_len (bt_user v) \<le> 80
     \<and> starts_with (asc ''SHA256:'') (bt_print v) \<and> go_len (bt_print v) < 100"

text \<open>The last policy of a source counts.\<close>

definition policy_for :: "policy list \<Rightarrow> jstext \<Rightarrow> policy \<Rightarrow> policy" where
  "policy_for ps i p0 = foldl (\<lambda>p x. if po_source x = i then x else p) p0 ps"

definition no_policy :: "jstext \<Rightarrow> policy" where
  "no_policy i = \<lparr>po_source = i, po_exits = [], po_failure = asc ''block'', po_active = [], po_nil = True\<rparr>"

definition no_exit_text :: jstext where
  "no_exit_text = [0x6682, 0x65E0, 0x6210, 0x529F, 0x51FA, 0x53E3]"

definition direct_exit_text :: jstext where
  "direct_exit_text = [0x76F4, 0x63A5, 0x8FDE, 0x63A5]"

definition exit_shown :: "server \<Rightarrow> policy \<Rightarrow> jstext" where
  "exit_shown s p =
     (if po_active p = asc ''DIRECT'' then direct_exit_text
      else case sv_device s (po_active p) of None \<Rightarrow> no_exit_text | Some d \<Rightarrow> sd_name d)"

definition heartbeat :: "nat \<Rightarrow> jstext \<Rightarrow> beat option \<Rightarrow> bool \<Rightarrow> server \<Rightarrow> server" where
  "heartbeat now h body saved s =
     (case body of
        None \<Rightarrow> reply 400 s
      | Some v \<Rightarrow>
          (case sv_device s (bt_id v) of
             None \<Rightarrow> reply 401 s
           | Some d \<Rightarrow>
               if \<not> tok_equal (sd_token d) (bearer h) then reply 401 s
               else if 20 < length (bt_checks v) then reply 400 s
               else
                 let s1 = set_device (bt_id v) (\<lambda>d. d\<lparr>sd_seen := Some now\<rparr>) s;
                     s2 = (if takes_ssh d v then
                             persist saved (set_device (bt_id v)
                               (\<lambda>d. d\<lparr>sd_ssh_user := bt_user v, sd_ssh_print := bt_print v, sd_ssh_port := 22\<rparr>) s1)
                           else s1);
                     s3 = set_device (bt_id v)
                            (\<lambda>d. d\<lparr>sd_latency := bt_latency v, sd_version := bt_version v, sd_checks := bt_checks v\<rparr>) s2;
                     p = policy_for (sv_policies s3) (bt_id v) (no_policy (bt_id v))
                 in sv_emit [BeatAnswered (bt_id v) p (exit_shown s3 p), Replied 200] s3))"

section \<open>Settings\<close>

record device_body =
  db_name :: jstext
  db_proxy_port :: int
  db_proxy_type :: jstext
  db_ssh_user :: jstext
  db_ssh_print :: jstext
  db_ssh_port :: int

definition is_port :: "int \<Rightarrow> bool" where
  "is_port p \<longleftrightarrow> 0 < p \<and> p \<le> 65535"

definition device_ok :: "device_body \<Rightarrow> bool" where
  "device_ok v \<longleftrightarrow>
     \<not> (go_len (db_name v) = 0 \<or> 80 < go_len (db_name v) \<or> db_proxy_port v \<noteq> 0 \<and> \<not> is_port (db_proxy_port v)
        \<or> \<not> is_port (db_ssh_port v) \<or> db_proxy_type v \<noteq> asc ''http'' \<and> db_proxy_type v \<noteq> asc ''socks5''
        \<or> 80 < go_len (db_ssh_user v) \<or> 100 < go_len (db_ssh_print v))
     \<and> db_proxy_port v \<noteq> 17891 \<and> db_proxy_port v \<noteq> 18090"

definition apply_device :: "device_body \<Rightarrow> sdevice \<Rightarrow> sdevice" where
  "apply_device v d =
     d\<lparr>sd_name := db_name v, sd_proxy_port := db_proxy_port v, sd_proxy_type := db_proxy_type v,
       sd_ssh_user := db_ssh_user v, sd_ssh_print := db_ssh_print v, sd_ssh_port := db_ssh_port v\<rparr>"

definition update_device :: "nat \<Rightarrow> jstext \<Rightarrow> device_body option \<Rightarrow> bool \<Rightarrow> server \<Rightarrow> server" where
  "update_device now i body saved s =
     (case body of
        None \<Rightarrow> reply 400 s
      | Some v \<Rightarrow>
          if \<not> device_ok v then reply 400 s
          else
            (case sv_device s i of
               None \<Rightarrow> reply 404 s
             | Some old \<Rightarrow>
                 let s1 = persist saved (audit now ''device.update'' (db_name v) (set_device i (apply_device v) s))
                 in if saved then reply 200 s1 else reply 500 (set_device i (\<lambda>_. old) s1)))"

fun exits_ok :: "server \<Rightarrow> jstext list \<Rightarrow> jstext list \<Rightarrow> bool" where
  "exits_ok s seen [] = True"
| "exits_ok s seen (i # is) =
     (case sv_device s i of
        None \<Rightarrow> False
      | Some d \<Rightarrow> sd_proxy_port d \<noteq> 0 \<and> i \<notin> set seen \<and> exits_ok s (i # seen) is)"

definition replace_policy :: "policy \<Rightarrow> policy list \<Rightarrow> policy list" where
  "replace_policy p ps =
     (if \<exists>x \<in> set ps. po_source x = po_source p then map (\<lambda>x. if po_source x = po_source p then p else x) ps
      else ps @ [p])"

definition put_policy :: "nat \<Rightarrow> jstext \<Rightarrow> policy option \<Rightarrow> bool \<Rightarrow> server \<Rightarrow> server" where
  "put_policy now i body saved s =
     (case body of
        None \<Rightarrow> reply 400 s
      | Some b \<Rightarrow>
          let p = b\<lparr>po_source := i, po_active := []\<rparr>
          in if po_failure p \<noteq> asc ''block'' \<and> po_failure p \<noteq> asc ''direct'' \<or> 20 < length (po_exits p) then reply 400 s
             else if sv_device s i = None then reply 404 s
             else if \<not> exits_ok s [] (po_exits p) then reply 400 s
             else
               let s1 = persist saved (audit now ''policy.update'' i (s\<lparr>sv_policies := replace_policy p (sv_policies s)\<rparr>))
               in if saved then reply 200 s1 else reply 500 (s1\<lparr>sv_policies := sv_policies s\<rparr>))"

text \<open>What the console reads of the answer to \<open>GET /api/state\<close>; tokens are blanked there.\<close>

definition shown_device :: "nat \<Rightarrow> sdevice \<Rightarrow> dev" where
  "shown_device now d =
     \<lparr>dv_id = sd_id d, dv_name = sd_name d, dv_ip = sd_ip d, dv_os = sd_os d,
      dv_online = (sd_id d = asc ''cloud'' \<or> (\<exists>t \<in> set_option (sd_seen d). now - t \<le> seconds 20)),
      dv_latency = sd_latency d, dv_tx = sd_tx d, dv_rx = sd_rx d, dv_handshake = sd_handshake d,
      dv_version = sd_version d, dv_proxy_port = sd_proxy_port d, dv_proxy_type = sd_proxy_type d,
      dv_proxy_ok = sd_healthy d, dv_ssh_user = sd_ssh_user d, dv_ssh_port = sd_ssh_port d,
      dv_ssh_print = sd_ssh_print d\<rparr>"

definition shown_state :: "config \<Rightarrow> (nat \<Rightarrow> jstext) \<Rightarrow> nat \<Rightarrow> server \<Rightarrow> net" where
  "shown_state cfg time_text now s =
     \<lparr>nt_server_ip = cf_server_ip cfg, nt_devices = map (shown_device now) (sv_devices s),
      nt_policies = sv_policies s, nt_mappings = sv_mappings s,
      nt_events = map (\<lambda>e. \<lparr>ev_at = time_text (ae_at e), ev_action = ae_action e, ev_detail = ae_detail e\<rparr>) (sv_events s)\<rparr>"

text \<open>The handlers, for simplification.\<close>

lemmas server_defs =
  sv_emit_def persist_def store_def audit_def set_device_def guarded_def login_def logout_def create_code_def join_admit_def
  join_device_def heartbeat_def update_device_def put_policy_def

end
