(* ===== verification/Server_Net.thy ===== *)
theory Server_Net
  imports Server
begin

text \<open>
  The rest of the control server: the policy dialer of its two proxies (\<open>dialPolicy\<close>, \<open>setActive\<close>), the
  port mappings of \<open>internal/server/forward.go\<close>, the periodic tasks of \<open>Run\<close>, and the step function over
  everything that happens to a server.

  These run in sections between which the lock is free. A dial is a task in \<open>sv_dials\<close>; \<open>forwardMu\<close> is
  \<open>sv_task\<close>: while somebody holds it, the events that would take it do nothing (they wait). What becomes
  of a connection attempt or of a \<open>Listen\<close> is in the event; a port one of the server's own listeners
  holds is never given out again.
\<close>

section \<open>Dialling by policy\<close>

definition set_active :: "jstext \<Rightarrow> jstext \<Rightarrow> server \<Rightarrow> server" where
  "set_active i a s = s\<lparr>sv_policies := map (\<lambda>p. if po_source p = i then p\<lparr>po_active := a\<rparr> else p) (sv_policies s)\<rparr>"

definition dial_policy :: "jstext \<Rightarrow> server \<Rightarrow> policy" where
  "dial_policy i s = 
     policy_for (sv_policies s) i \<lparr>po_source = [], po_exits = [], po_failure = asc ''block'', po_active = [], po_nil = True\<rparr>"

definition dial_start :: "jstext \<Rightarrow> server \<Rightarrow> server" where
  "dial_start i s =
     (let p = dial_policy i s; n = sv_next s; exits = List.map_filter (sv_device s) (po_exits p)
      in s\<lparr>sv_next := Suc n, sv_dials := sv_dials s @ [(n, \<lparr>dl_source = i, dl_policy = p, dl_exits = exits\<rparr>)]\<rparr>)"

definition dial_end :: "nat \<Rightarrow> bool \<Rightarrow> server \<Rightarrow> server" where
  "dial_end n ok s = sv_emit [DialEnded n ok] (s\<lparr>sv_dials := AList.delete n (sv_dials s)\<rparr>)"

text \<open>The next attempt of a dial is over, or there is none left.\<close>

definition dial_step :: "nat \<Rightarrow> bool \<Rightarrow> server \<Rightarrow> server" where
  "dial_step n ok s =
     (case map_of (sv_dials s) n of
        None \<Rightarrow> s
      | Some d \<Rightarrow>
          (case dl_exits d of
             x # xs \<Rightarrow>
               let s1 = sv_emit [ViaExit n x ok] s
               in if ok then dial_end n True (set_active (dl_source d) (sd_id x) s1)
                  else s1\<lparr>sv_dials := AList.update n (d\<lparr>dl_exits := xs\<rparr>) (sv_dials s1)\<rparr>
           | [] \<Rightarrow>
               if po_failure (dl_policy d) = asc ''direct'' then
                 let s1 = sv_emit [ViaDirect n ok] s
                 in dial_end n ok (if ok then set_active (dl_source d) (asc ''DIRECT'') s1 else s1)
               else dial_end n False (set_active (dl_source d) [] s)))"

text \<open>\<open>ProxyHandler\<close>: a device dials with its own token; \<open>RunLocalProxy\<close>: local programs dial as the server.\<close>

definition proxy_request :: "jstext \<Rightarrow> jstext \<Rightarrow> server \<Rightarrow> server" where
  "proxy_request i t s =
     (case sv_device s i of
        None \<Rightarrow> reply 407 s
      | Some d \<Rightarrow> if tok_equal (sd_token d) t then dial_start i s else reply 407 s)"

section \<open>Port mappings\<close>

definition same_port :: "mapping \<Rightarrow> mapping \<Rightarrow> bool" where
  "same_port x m \<longleftrightarrow>
     mp_listen x = mp_listen m \<and> (mp_protocol x = asc ''udp'') = (mp_protocol m = asc ''udp'')"

definition bad_domain_char :: "nat \<Rightarrow> bool" where
  "bad_domain_char c \<longleftrightarrow> c \<in> {47, 92, 13, 10, 32, 58}"

definition mapping_ok :: "config \<Rightarrow> server \<Rightarrow> mapping \<Rightarrow> bool" where
  "mapping_ok cfg s m \<longleftrightarrow>
     \<not> (mp_listen m < 1024 \<or> \<not> is_port (mp_listen m) \<or> \<not> is_port (mp_target m) \<or> go_len (mp_name m) < 1
        \<or> 80 < go_len (mp_name m))
     \<and> mp_protocol m \<in> {asc ''tcp'', asc ''udp'', asc ''http''}
     \<and> \<not> (\<exists>c \<in> set (mp_domain m). bad_domain_char c) \<and> go_len (mp_domain m) \<le> 253
     \<and> (case sv_device s (mp_device m) of
          None \<Rightarrow> False
        | Some d \<Rightarrow> \<not> (sd_ip d = cf_server_ip cfg \<and> mp_listen m = mp_target m))
     \<and> (\<forall>x \<in> set (sv_mappings s). \<not> (mp_id x \<noteq> mp_id m \<and> same_port x m))"

definition put_mapping :: "config \<Rightarrow> (nat \<Rightarrow> jstext) \<Rightarrow> mapping option \<Rightarrow> server \<Rightarrow> server" where
  "put_mapping cfg tok body s =
     (case body of
        None \<Rightarrow> reply 400 s
      | Some m \<Rightarrow>
          if mp_id m \<noteq> [] then reply 400 s
          else if \<not> mapping_ok cfg s m then reply 400 s
          else
            let m1 = m\<lparr>mp_id := take 12 (tok (sv_made s)), mp_error := []\<rparr>
            in s\<lparr>sv_made := Suc (sv_made s),
                 sv_task := Some (if mp_enabled m then Putting m1 else Committing m1 None)\<rparr>)"

text \<open>\<open>startMapping\<close>: the listener's number, or the text of the error. \<open>ok\<close>, \<open>e\<close>: what \<open>Listen\<close> says.\<close>

definition start_mapping :: "config \<Rightarrow> mapping \<Rightarrow> bool \<Rightarrow> jstext \<Rightarrow> server \<Rightarrow> server \<times> (jstext + nat)" where
  "start_mapping cfg m ok e s =
     (case sv_device s (mp_device m) of
        None \<Rightarrow> (s, Inl (asc ''target missing''))
      | Some d \<Rightarrow>
          if ok \<and> \<not> (\<exists>(k, x) \<in> set (sv_running s). same_port x m) then
            (let n = sv_next s
             in (sv_emit [Listening n m (host_port (cf_bind cfg) (mp_listen m)) (host_port (sd_ip d) (mp_target m))]
                   (s\<lparr>sv_next := Suc n, sv_running := (n, m) # sv_running s\<rparr>), Inr n))
          else (s, Inl e))"

definition stop_listener :: "nat option \<Rightarrow> server \<Rightarrow> server" where
  "stop_listener l s =
     (case l of None \<Rightarrow> s | Some n \<Rightarrow> sv_emit [Stopped n] (s\<lparr>sv_running := AList.delete n (sv_running s)\<rparr>))"

definition commit_mapping :: "nat \<Rightarrow> mapping \<Rightarrow> nat option \<Rightarrow> bool \<Rightarrow> server \<Rightarrow> server" where
  "commit_mapping now m l saved s =
     (let s1 = persist saved (audit now ''mapping.create'' (mp_name m)
                 (s\<lparr>sv_task := None, sv_mappings := sv_mappings s @ [m]\<rparr>))
      in if \<not> saved then reply 500 (stop_listener l (s1\<lparr>sv_mappings := butlast (sv_mappings s1)\<rparr>))
         else reply 200 (case l of None \<Rightarrow> s1 | Some n \<Rightarrow> s1\<lparr>sv_forwards := AList.update (mp_id m) n (sv_forwards s1)\<rparr>))"

fun remove_mapping :: "jstext \<Rightarrow> mapping list \<Rightarrow> mapping list" where
  "remove_mapping i [] = []"
| "remove_mapping i (m # ms) = (if mp_id m = i then ms else m # remove_mapping i ms)"

definition delete_mapping :: "nat \<Rightarrow> jstext \<Rightarrow> bool \<Rightarrow> server \<Rightarrow> server" where
  "delete_mapping now i saved s =
     (if i \<notin> mp_id ` set (sv_mappings s) then reply 404 s
      else
        let s1 = persist saved (audit now ''mapping.delete'' i (s\<lparr>sv_mappings := remove_mapping i (sv_mappings s)\<rparr>))
        in if \<not> saved then reply 500 (s1\<lparr>sv_mappings := sv_mappings s\<rparr>)
           else reply 200 (stop_listener (map_of (sv_forwards s1) i) (s1\<lparr>sv_forwards := AList.delete i (sv_forwards s1)\<rparr>)))"

text \<open>The outcome of the \<open>Listen\<close> the holder of \<open>forwardMu\<close> is at.\<close>

definition set_error :: "jstext \<Rightarrow> jstext \<Rightarrow> server \<Rightarrow> server" where
  "set_error i e s = s\<lparr>sv_mappings := map (\<lambda>m. if mp_id m = i then m\<lparr>mp_error := e\<rparr> else m) (sv_mappings s)\<rparr>"

definition listened :: "config \<Rightarrow> bool \<Rightarrow> jstext \<Rightarrow> server \<Rightarrow> server" where
  "listened cfg ok e s =
     (case sv_task s of
        Some (Putting m) \<Rightarrow>
          (case start_mapping cfg m ok e s of
             (s1, Inl err) \<Rightarrow> reply 409 (s1\<lparr>sv_task := None\<rparr>)
           | (s1, Inr n) \<Rightarrow> s1\<lparr>sv_task := Some (Committing m (Some n))\<rparr>)
      | Some (Restoring (m # ms)) \<Rightarrow>
          (case start_mapping cfg m ok e s of
             (s1, Inl err) \<Rightarrow> (set_error (mp_id m) err s1)\<lparr>sv_task := Some (Restoring ms)\<rparr>
           | (s1, Inr n) \<Rightarrow> s1\<lparr>sv_task := Some (Restoring ms), sv_forwards := AList.update (mp_id m) n (sv_forwards s1)\<rparr>)
      | Some (Restoring []) \<Rightarrow> s\<lparr>sv_task := None\<rparr>
      | _ \<Rightarrow> s)"

definition committed :: "nat \<Rightarrow> bool \<Rightarrow> server \<Rightarrow> server" where
  "committed now saved s =
     (case sv_task s of Some (Committing m l) \<Rightarrow> commit_mapping now m l saved s | _ \<Rightarrow> s)"

text \<open>\<open>restoreMappings\<close>, which \<open>Run\<close> calls once.\<close>

definition restore_mappings :: "server \<Rightarrow> server" where
  "restore_mappings s =
     (if sv_restored s \<or> sv_task s \<noteq> None then s
      else s\<lparr>sv_restored := True, sv_task := Some (Restoring (filter mp_enabled (sv_mappings s)))\<rparr>)"

section \<open>Periodic tasks\<close>

definition peer_missing :: "(jstext \<times> jstext) list \<Rightarrow> sdevice \<Rightarrow> bool" where
  "peer_missing ls d \<longleftrightarrow>
     valid_key (sd_key d) \<and> parse_ip (sd_ip d) \<noteq> None \<and> \<not> (\<exists>(k, r) \<in> set ls. text_contains (route_of (sd_ip d)) r)"

definition reconcile_peers :: "jstext option \<Rightarrow> server \<Rightarrow> server" where
  "reconcile_peers routes s =
     (case routes of
        None \<Rightarrow> s
      | Some t \<Rightarrow> sv_emit (map (\<lambda>d. WgSet (sd_key d) (sd_ip d)) (filter (peer_missing (route_lines t)) (sv_devices s))) s)"

text \<open>The tables \<open>wg show latest-handshakes\<close> and \<open>wg show transfer\<close>: of a repeated key the last line counts.\<close>

definition wg_table :: "nat \<Rightarrow> nat \<Rightarrow> jstext \<Rightarrow> jstext \<Rightarrow> int" where
  "wg_table width column t k =
     (case filter (\<lambda>f. length f = width \<and> hd f = k) (map text_fields (split_on 10 t)) of
        [] \<Rightarrow> 0 | fs \<Rightarrow> parse_int64 (last fs ! column))"

definition no_proxy_text :: jstext where
  "no_proxy_text = [0x672A, 0x914D, 0x7F6E, 0x5171, 0x4EAB, 0x4EE3, 0x7406]"

definition exit_failed_text :: jstext where
  "exit_failed_text = [0x51FA, 0x53E3, 0x8BF7, 0x6C42, 0x5931, 0x8D25]"

text \<open>
  One device's part of \<open>probe\<close>: \<open>d\<close> is the copy it was started with, \<open>status\<close> what the request through its
  proxy gave. \<open>NoRequest\<close>: the configured address made no request, and the text stays what it was.
\<close>

datatype probe_status = NoRequest | NoAnswer | Answered nat

definition probed :: "jstext \<Rightarrow> jstext \<Rightarrow> sdevice \<Rightarrow> probe_status \<Rightarrow> server \<Rightarrow> server" where
  "probed hand transfer d status s =
     (let (healthy, msg) =
            (if 0 < sd_proxy_port d then
               (case status of
                  NoRequest \<Rightarrow> (False, no_proxy_text)
                | NoAnswer \<Rightarrow> (False, exit_failed_text)
                | Answered c \<Rightarrow> (c < 500, asc ''HTTP '' @ nat_text c))
             else (False, no_proxy_text))
      in set_device (sd_id d)
           (\<lambda>x. x\<lparr>sd_handshake := wg_table 2 1 hand (sd_key d), sd_rx := wg_table 3 1 transfer (sd_key d),
                 sd_tx := wg_table 3 2 transfer (sd_key d), sd_healthy := healthy, sd_proxy_error := msg\<rparr>) s)"

section \<open>Steps\<close>

text \<open>\<open>h\<close>, \<open>c\<close>: the header and the cookie of a request behind \<open>guard\<close>.\<close>

datatype server_event =
    SvTime nat
  | SvLogin jstext "jstext option" | SvLogout "jstext option"
  | SvState jstext "jstext option"
  | SvCode jstext "jstext option" "jstext option"
  | SvJoin "join_body option" wg_answers bool
  | SvBeat jstext "beat option" bool
  | SvDevice jstext "jstext option" jstext "device_body option" bool
  | SvPolicy jstext "jstext option" jstext "policy option" bool
  | SvMapping jstext "jstext option" "mapping option"
  | SvDelete jstext "jstext option" jstext bool
  | SvListened bool jstext | SvCommit bool | SvRestore
  | SvProxy jstext jstext | SvLocal | SvDialled nat bool
  | SvReconcile "jstext option" | SvProbed jstext jstext sdevice probe_status | SvSave bool
  | SvRestart

definition restart :: "config \<Rightarrow> (nat \<Rightarrow> jstext) \<Rightarrow> server \<Rightarrow> server" where
  "restart cfg tok s = server_boot cfg tok (sv_made s) (sv_next s) (sv_clock s) (sv_disk s) (sv_out s)"

fun server_step :: "config \<Rightarrow> (nat \<Rightarrow> jstext) \<Rightarrow> server \<Rightarrow> server_event \<Rightarrow> server" where
  "server_step cfg tok s (SvTime dt) = s\<lparr>sv_clock := sv_clock s + dt\<rparr>"
| "server_step cfg tok s (SvLogin ip pw) = login cfg tok (sv_clock s) ip pw s"
| "server_step cfg tok s (SvLogout c) = logout c s"
| "server_step cfg tok s (SvState h c) = guarded cfg (sv_clock s) h c (reply 200) s"
| "server_step cfg tok s (SvCode h c ip) = guarded cfg (sv_clock s) h c (create_code cfg tok (sv_clock s) ip) s"
| "server_step cfg tok s (SvJoin v wg saved) = join_device cfg tok (sv_clock s) v wg saved s"
| "server_step cfg tok s (SvBeat h v saved) = heartbeat (sv_clock s) h v saved s"
| "server_step cfg tok s (SvDevice h c i v saved) = guarded cfg (sv_clock s) h c (update_device (sv_clock s) i v saved) s"
| "server_step cfg tok s (SvPolicy h c i p saved) = guarded cfg (sv_clock s) h c (put_policy (sv_clock s) i p saved) s"
| "server_step cfg tok s (SvMapping h c m) =
     (if sv_task s = None then guarded cfg (sv_clock s) h c (put_mapping cfg tok m) s else s)"
| "server_step cfg tok s (SvDelete h c i saved) =
     (if sv_task s = None then guarded cfg (sv_clock s) h c (delete_mapping (sv_clock s) i saved) s else s)"
| "server_step cfg tok s (SvListened ok e) = listened cfg ok e s"
| "server_step cfg tok s (SvCommit saved) = committed (sv_clock s) saved s"
| "server_step cfg tok s SvRestore = restore_mappings s"
| "server_step cfg tok s (SvProxy i t) = proxy_request i t s"
| "server_step cfg tok s SvLocal = dial_start (asc ''cloud'') s"
| "server_step cfg tok s (SvDialled n ok) = dial_step n ok s"
| "server_step cfg tok s (SvReconcile t) = reconcile_peers t s"
| "server_step cfg tok s (SvProbed hand transfer d status) = probed hand transfer d status s"
| "server_step cfg tok s (SvSave saved) = persist saved s"
| "server_step cfg tok s SvRestart = restart cfg tok s"

abbreviation "server_run cfg tok \<equiv> run (server_step cfg tok)"

lemmas server_net_defs =
  set_active_def dial_start_def dial_end_def dial_step_def proxy_request_def put_mapping_def start_mapping_def
  stop_listener_def commit_mapping_def delete_mapping_def set_error_def listened_def committed_def restore_mappings_def
  reconcile_peers_def probed_def

definition server_start :: "config \<Rightarrow> (nat \<Rightarrow> jstext) \<Rightarrow> server" where
  "server_start cfg tok = server_boot cfg tok 0 0 0 no_state []"

end
