(* ===== verification/Server_Auth.thy ===== *)
theory Server_Auth
  imports Server_Net
begin

text \<open>
  Who gets in: an address tries at most ten passwords a minute, and whatever is done behind \<open>guard\<close> was
  asked for with the administration token or in a session some correct password opened.
\<close>

section \<open>What the other handlers leave alone\<close>

fun is_auth :: "server_out \<Rightarrow> bool" where
  "is_auth (PasswordTried ip t ok) = True"
| "is_auth (LoggedIn v t) = True"
| "is_auth (LoggedOut v) = True"
| "is_auth _ = False"

definition auth_frame :: "server \<Rightarrow> server \<Rightarrow> bool" where
  "auth_frame s s' \<longleftrightarrow>
     sv_attempts s' = sv_attempts s \<and> sv_sessions s' = sv_sessions s \<and> sv_clock s' = sv_clock s
     \<and> (\<exists>os. sv_out s' = sv_out s @ os \<and> \<not> list_ex is_auth os)"

named_theorems auth_frames \<open>the handlers that have nothing to do with signing in\<close>

lemma auth_frame_refl [auth_frames]: "auth_frame s s"
  by (simp add: auth_frame_def)

lemma auth_frame_emit: "\<not> list_ex is_auth os \<Longrightarrow> auth_frame s (sv_emit os s)"
  by (simp add: auth_frame_def sv_emit_def)

lemma frame_reply [auth_frames]: "auth_frame s (reply c s)"
  by (simp add: auth_frame_emit)

lemma frame_code [auth_frames]: "auth_frame s (create_code cfg tok now ip s)"
  by (auto simp: auth_frame_def server_defs Let_def split: option.splits)

lemma frame_join_admit: "auth_frame s (join_admit tok now v ip adopted saved s)"
  by (auto simp: auth_frame_def server_defs Let_def)

lemma auth_frame_trans: "auth_frame s t \<Longrightarrow> auth_frame t u \<Longrightarrow> auth_frame s u"
  by (auto simp: auth_frame_def)

lemma frame_join [auth_frames]: "auth_frame s (join_device cfg tok now v wg saved s)"
  unfolding join_device_def Let_def
  by (auto intro: auth_frames frame_join_admit auth_frame_trans [OF auth_frame_emit frame_join_admit]
        auth_frame_trans [OF auth_frame_emit frame_reply] split: option.splits sum.splits)

lemma frame_heartbeat [auth_frames]: "auth_frame s (heartbeat now h v saved s)"
  by (auto simp: auth_frame_def server_defs Let_def split: option.splits)

lemma frame_update_device [auth_frames]: "auth_frame s (update_device now i v saved s)"
  by (auto simp: auth_frame_def server_defs Let_def split: option.splits)

lemma frame_put_policy [auth_frames]: "auth_frame s (put_policy now i p saved s)"
  by (auto simp: auth_frame_def server_defs Let_def split: option.splits)

lemma frame_put_mapping [auth_frames]: "auth_frame s (put_mapping cfg tok m s)"
  by (auto simp: auth_frame_def server_defs server_net_defs Let_def split: option.splits)

lemma frame_delete_mapping [auth_frames]: "auth_frame s (delete_mapping now i saved s)"
  by (auto simp: auth_frame_def server_defs server_net_defs Let_def split: option.splits)

lemma frame_start: "start_mapping cfg m ok e s = (s1, r) \<Longrightarrow> auth_frame s s1"
  by (auto simp: auth_frame_def server_defs server_net_defs Let_def split: option.splits if_splits)

lemma frame_listened [auth_frames]: "auth_frame s (listened cfg ok e s)"
proof -
  have "auth_frame s (reply 409 (s1\<lparr>sv_task := None\<rparr>))"
    "auth_frame s ((set_error i err s1)\<lparr>sv_task := t\<rparr>)" "auth_frame s (s1\<lparr>sv_task := t\<rparr>)"
    "auth_frame s (s1\<lparr>sv_task := t, sv_forwards := f\<rparr>)" "auth_frame s (s\<lparr>sv_task := None\<rparr>)"
    if "start_mapping cfg m ok e s = (s1, r)" for s1 r i err t m f
    using frame_start [OF that] by (auto simp: auth_frame_def server_defs set_error_def)
  moreover have "auth_frame s (s\<lparr>sv_task := None\<rparr>)" by (simp add: auth_frame_def)
  ultimately show ?thesis
    by (auto simp: listened_def auth_frame_refl
        split: option.splits fwd_task.splits list.splits prod.splits sum.splits)
qed

lemma frame_committed [auth_frames]: "auth_frame s (committed now saved s)"
  by (auto simp: auth_frame_def server_defs server_net_defs Let_def split: option.splits fwd_task.splits)

lemma frame_restore [auth_frames]: "auth_frame s (restore_mappings s)"
  by (auto simp: auth_frame_def server_net_defs)

lemma frame_dial_start [auth_frames]: "auth_frame s (dial_start i s)"
  by (auto simp: auth_frame_def server_defs server_net_defs Let_def)

lemma frame_proxy [auth_frames]: "auth_frame s (proxy_request i t s)"
  by (auto simp: proxy_request_def intro: auth_frames split: option.splits)

lemma frame_dial_step [auth_frames]: "auth_frame s (dial_step n ok s)"
  by (auto simp: auth_frame_def server_defs server_net_defs Let_def split: option.splits list.splits)

lemma frame_reconcile [auth_frames]: "auth_frame s (reconcile_peers t s)"
  by (auto simp: auth_frame_def server_defs server_net_defs list_ex_iff split: option.splits)

lemma frame_probed [auth_frames]: "auth_frame s (probed hand transfer d status s)"
  by (auto simp: auth_frame_def server_defs server_net_defs Let_def split: prod.splits)

lemma frame_persist [auth_frames]: "auth_frame s (persist saved s)"
  by (auto simp: auth_frame_def server_defs)

lemma frame_guarded [auth_frames]: "(\<And>t. auth_frame t (f t)) \<Longrightarrow> auth_frame s (guarded cfg now h c f s)"
  by (simp add: guarded_def frame_reply)

fun signs :: "server_event \<Rightarrow> bool" where
  "signs (SvTime dt) = True"
| "signs (SvLogin ip pw) = True"
| "signs (SvLogout c) = True"
| "signs SvRestart = True"
| "signs _ = False"

lemma step_auth: "\<not> signs e \<Longrightarrow> auth_frame s (server_step cfg tok s e)"
  by (cases e) (auto intro: auth_frames)

section \<open>Sessions\<close>

text \<open>
  Cookie \<open>v\<close> is a session of \<open>t\<close>, after the events \<open>es\<close>: some login with the right password was answered with
  it at \<open>t\<close>, and since then nobody closed it and the server was not restarted.
\<close>

definition opened_at :: "config \<Rightarrow> (nat \<Rightarrow> jstext) \<Rightarrow> server_event list \<Rightarrow> jstext \<Rightarrow> nat \<Rightarrow> bool" where
  "opened_at cfg tok es v t \<longleftrightarrow>
     (\<exists>pre ip pw post. es = pre @ SvLogin ip (Some pw) # post \<and> tok_equal pw (cf_admin cfg)
        \<and> t = sv_clock (server_run cfg tok (server_start cfg tok) pre)
        \<and> LoggedIn v t \<in> set (drop (length (sv_out (server_run cfg tok (server_start cfg tok) pre)))
             (sv_out (server_run cfg tok (server_start cfg tok) (pre @ [SvLogin ip (Some pw)]))))
        \<and> SvLogout (Some v) \<notin> set post \<and> SvRestart \<notin> set post)"

definition sessions_known :: "config \<Rightarrow> (nat \<Rightarrow> jstext) \<Rightarrow> server_event list \<Rightarrow> (jstext \<times> nat) list \<Rightarrow> bool" where
  "sessions_known cfg tok es al \<longleftrightarrow>
     (\<forall>v e. map_of al v = Some e \<longrightarrow> (\<exists>t. e = t + session_life \<and> opened_at cfg tok es v t)) \<and> distinct (map fst al)"

lemma opened_more:
  assumes "opened_at cfg tok es v t" "e \<noteq> SvLogout (Some v)" "e \<noteq> SvRestart"
  shows "opened_at cfg tok (es @ [e]) v t"
proof -
  from assms(1) obtain pre ip pw post where p: "es = pre @ SvLogin ip (Some pw) # post"
    and q: "tok_equal pw (cf_admin cfg)" "t = sv_clock (server_run cfg tok (server_start cfg tok) pre)"
      "LoggedIn v t \<in> set (drop (length (sv_out (server_run cfg tok (server_start cfg tok) pre)))
        (sv_out (server_run cfg tok (server_start cfg tok) (pre @ [SvLogin ip (Some pw)]))))"
      "SvLogout (Some v) \<notin> set post" "SvRestart \<notin> set post"
    unfolding opened_at_def by blast
  have "es @ [e] = pre @ SvLogin ip (Some pw) # (post @ [e])" "SvLogout (Some v) \<notin> set (post @ [e])"
    "SvRestart \<notin> set (post @ [e])"
    using p q(4,5) assms(2,3) by auto
  with q(1-3) show ?thesis unfolding opened_at_def by blast
qed

lemma known_more:
  assumes "sessions_known cfg tok es al" "\<And>v. e \<noteq> SvLogout v" "e \<noteq> SvRestart"
  shows "sessions_known cfg tok (es @ [e]) al"
  using assms opened_more unfolding sessions_known_def by metis

text \<open>What a login does to the sessions.\<close>

definition kept_sessions :: "nat \<Rightarrow> (jstext \<times> nat) list \<Rightarrow> (jstext \<times> nat) list" where
  "kept_sessions now al = filter (\<lambda>(k, e). now \<le> e) al"

lemma login_sessions:
  obtains (no) "sv_sessions (login cfg tok now ip body s) = sv_sessions s"
  | (yes) pw where "body = Some pw" "tok_equal pw (cf_admin cfg)"
      "sv_sessions (login cfg tok now ip body s) =
         AList.update (tok (sv_made s)) (now + session_life) (kept_sessions now (sv_sessions s))"
      "sv_out (login cfg tok now ip body s) =
         sv_out s @ [PasswordTried ip now True, LoggedIn (tok (sv_made s)) now, Replied 200]"
proof (cases "sv_sessions (login cfg tok now ip body s) = sv_sessions s")
  case False
  then obtain pw where "body = Some pw" "tok_equal pw (cf_admin cfg)"
    "\<not> 10 \<le> length (filter (\<lambda>t. now - t < minute) (attempts_of (prune_attempts now (sv_attempts s)) ip))"
    by (auto simp: login_def sv_emit_def Let_def split: option.splits if_splits)
  then show ?thesis
    by (intro yes) (simp_all add: login_def sv_emit_def Let_def kept_sessions_def)
qed (rule no)

lemma kept_found: "distinct (map fst al) \<Longrightarrow> map_of (kept_sessions now al) v = Some e \<Longrightarrow> map_of al v = Some e"
  by (auto simp: kept_sessions_def map_of_filter_in dest!: map_of_SomeD intro: map_of_is_SomeI)

lemma kept_distinct: "distinct (map fst al) \<Longrightarrow> distinct (map fst (kept_sessions now al))"
  by (simp add: kept_sessions_def distinct_map_filter)

lemma opened_new:
  fixes tok cfg es
  defines "s \<equiv> server_run cfg tok (server_start cfg tok) es"
  assumes "tok_equal pw (cf_admin cfg)" "LoggedIn v (sv_clock s) \<in> set os"
    and "sv_out (login cfg tok (sv_clock s) ip (Some pw) s) = sv_out s @ os"
  shows "opened_at cfg tok (es @ [SvLogin ip (Some pw)]) v (sv_clock s)"
  unfolding opened_at_def
  by (intro exI [of _ es] exI [of _ ip] exI [of _ pw] exI [of _ "[]"]) (use assms in simp)

lemma known_login:
  fixes tok cfg es
  defines "s \<equiv> server_run cfg tok (server_start cfg tok) es"
  assumes inv: "sessions_known cfg tok es (sv_sessions s)"
  shows "sessions_known cfg tok (es @ [SvLogin ip body]) (sv_sessions (login cfg tok (sv_clock s) ip body s))"
proof -
  have old: "sessions_known cfg tok (es @ [SvLogin ip body]) (sv_sessions s)"
    by (rule known_more [OF inv]) simp_all
  then have d: "distinct (map fst (sv_sessions s))" by (simp add: sessions_known_def)
  show ?thesis
  proof (cases rule: login_sessions [of cfg tok "sv_clock s" ip body s])
    case no
    with old show ?thesis by simp
  next
    case (yes pw)
    have new: "opened_at cfg tok (es @ [SvLogin ip body]) (tok (sv_made s)) (sv_clock s)"
      unfolding yes(1) s_def by (rule opened_new [OF yes(2)]) (use yes(1,4) in \<open>auto simp: s_def\<close>)
    have "\<exists>t. e = t + session_life \<and> opened_at cfg tok (es @ [SvLogin ip body]) v t"
      if "map_of (sv_sessions (login cfg tok (sv_clock s) ip body s)) v = Some e" for v e
    proof (cases "v = tok (sv_made s)")
      case True
      with that new show ?thesis by (auto simp: yes(3) update_conv')
    next
      case False
      with that have "map_of (kept_sessions (sv_clock s) (sv_sessions s)) v = Some e" by (simp add: yes(3) update_conv')
      from kept_found [OF d this] old show ?thesis unfolding sessions_known_def by blast
    qed
    then show ?thesis unfolding sessions_known_def using kept_distinct [OF d] by (simp add: yes(3) distinct_update)
  qed
qed

lemma known_logout:
  assumes inv: "sessions_known cfg tok es (sv_sessions s)"
  shows "sessions_known cfg tok (es @ [SvLogout c]) (sv_sessions (logout c s))"
proof -
  have "sv_sessions (logout c s) = (case c of None \<Rightarrow> sv_sessions s | Some v \<Rightarrow> AList.delete v (sv_sessions s))"
    by (simp add: logout_def sv_emit_def split: option.split)
  moreover have "\<exists>t. e = t + session_life \<and> opened_at cfg tok (es @ [SvLogout c]) w t"
    if w: "map_of (sv_sessions s) w = Some e" "c \<noteq> Some w" for w e
  proof -
    from w(1) inv obtain t where t: "e = t + session_life" "opened_at cfg tok es w t" unfolding sessions_known_def by blast
    have "opened_at cfg tok (es @ [SvLogout c]) w t" by (rule opened_more [OF t(2)]) (use w(2) in simp_all)
    with t(1) show ?thesis by blast
  qed
  moreover have "map_of (AList.delete v al) w = (if w = v then None else map_of al w)" for v w and al :: "(jstext \<times> nat) list"
    by (simp add: delete_conv')
  ultimately show ?thesis
    using inv unfolding sessions_known_def by (cases c) (simp_all add: distinct_delete del: map_of_eq_Some_iff)
qed

lemma sessions_known_run:
  fixes tok cfg
  defines "run_of \<equiv> server_run cfg tok (server_start cfg tok)"
  shows "sessions_known cfg tok es (sv_sessions (run_of es))"
proof (induction es rule: rev_induct)
  case Nil
  show ?case by (simp add: sessions_known_def run_of_def server_start_def server_boot_def Let_def)
next
  case (snoc e es)
  have st: "run_of (es @ [x]) = server_step cfg tok (run_of es) x" for x by (simp add: run_of_def)
  show ?case
  proof (cases "signs e")
    case False
    then have "sv_sessions (run_of (es @ [e])) = sv_sessions (run_of es)"
      using step_auth [OF False, of "run_of es" cfg tok] by (simp add: st auth_frame_def)
    moreover have "\<And>v. e \<noteq> SvLogout v" "e \<noteq> SvRestart" using False by auto
    ultimately show ?thesis using known_more [OF snoc] by simp
  next
    case True
    show ?thesis
    proof (cases e)
      case (SvTime dt)
      then show ?thesis using known_more [OF snoc, of e] by (simp add: st)
    next
      case (SvLogin ip pw)
      then show ?thesis using known_login [of cfg tok es ip pw] snoc by (simp add: st run_of_def)
    next
      case (SvLogout c)
      then show ?thesis using known_logout [OF snoc, of c] by (simp add: st)
    next
      case SvRestart
      then show ?thesis by (simp add: st restart_def server_boot_def Let_def sessions_known_def)
    qed (use True in auto)
  qed
qed

text \<open>The requests behind \<open>guard\<close>, with the header and the cookie they come with.\<close>

fun credentials :: "server_event \<Rightarrow> (jstext \<times> jstext option) option" where
  "credentials (SvState h c) = Some (h, c)"
| "credentials (SvCode h c ip) = Some (h, c)"
| "credentials (SvDevice h c i v saved) = Some (h, c)"
| "credentials (SvPolicy h c i p saved) = Some (h, c)"
| "credentials (SvMapping h c m) = Some (h, c)"
| "credentials (SvDelete h c i saved) = Some (h, c)"
| "credentials _ = None"

lemma guarded_refused: "\<not> is_admin cfg now h c s \<Longrightarrow> guarded cfg now h c f s = reply 401 s"
  by (simp add: guarded_def)

lemma not_admin_refused:
  "credentials e = Some (h, c) \<Longrightarrow> \<not> is_admin cfg (sv_clock s) h c s \<Longrightarrow> server_step cfg tok s e \<in> {s, reply 401 s}"
  by (cases e) (simp_all add: guarded_refused)

lemma admin_known:
  assumes "sessions_known cfg tok es (sv_sessions s)" "is_admin cfg now h c s"
  shows "tok_equal (bearer h) (cf_admin cfg) \<or> (\<exists>v t. c = Some v \<and> opened_at cfg tok es v t \<and> now < t + session_life)"
  using assms unfolding sessions_known_def is_admin_def by (fastforce split: option.splits)

text \<open>
  C10: a request behind the guard does anything but be refused with 401 (or wait for the lock of the
  mappings) only when it carries the administration token, or the cookie that a login with the right
  password was answered with less than twelve hours before, which nobody closed since in a server that
  was not restarted since.
\<close>

theorem admin_needs_password:
  assumes "credentials e = Some (h, c)"
    and "server_step cfg tok (server_run cfg tok (server_start cfg tok) es) e
      \<notin> {server_run cfg tok (server_start cfg tok) es, reply 401 (server_run cfg tok (server_start cfg tok) es)}"
  shows "tok_equal (bearer h) (cf_admin cfg)
    \<or> (\<exists>v t. c = Some v \<and> opened_at cfg tok es v t
         \<and> sv_clock (server_run cfg tok (server_start cfg tok) es) < t + session_life)"
  using not_admin_refused [OF assms(1)] assms(2) admin_known [OF sessions_known_run] by blast

section \<open>Attempts\<close>

definition tries :: "server_out list \<Rightarrow> jstext \<Rightarrow> nat list" where
  "tries os ip = concat (map (\<lambda>x. case x of PasswordTried a t ok \<Rightarrow> if a = ip then [t] else [] | _ \<Rightarrow> []) os)"

lemma tries_append [simp]: "tries (xs @ ys) ip = tries xs ip @ tries ys ip"
  by (simp add: tries_def)

lemma tries_other: "\<not> list_ex is_auth os \<Longrightarrow> tries os ip = []"
  by (auto simp: tries_def list_ex_iff split: server_out.split)

definition recent :: "nat \<Rightarrow> nat list \<Rightarrow> nat list" where
  "recent now ts = filter (\<lambda>t. now - t < minute) ts"

definition in_minute :: "nat \<Rightarrow> nat list \<Rightarrow> nat list" where
  "in_minute w ts = filter (\<lambda>t. w \<le> t \<and> t < w + minute) ts"

definition rate_inv :: "server \<Rightarrow> bool" where
  "rate_inv s \<longleftrightarrow>
     (\<forall>ip. recent (sv_clock s) (attempts_of (sv_attempts s) ip) = recent (sv_clock s) (tries (sv_out s) ip)
         \<and> sorted_wrt (\<le>) (attempts_of (sv_attempts s) ip)
         \<and> (\<forall>t \<in> set (attempts_of (sv_attempts s) ip). t \<le> sv_clock s)
         \<and> (\<forall>w. length (in_minute w (tries (sv_out s) ip)) \<le> 10))
     \<and> distinct (map fst (sv_attempts s))"

lemma recent_later: "n \<le> m \<Longrightarrow> recent m (recent n ts) = recent m ts"
  by (auto simp: recent_def intro!: filter_cong)

lemma recent_mono: "recent n xs = recent n ys \<Longrightarrow> n \<le> m \<Longrightarrow> recent m xs = recent m ys"
  by (metis recent_later)

lemma minute_recent:
  assumes "w \<le> now" "now < w + minute"
  shows "length (in_minute w ts) \<le> length (recent now ts)"
proof -
  have "length (filter P ts) \<le> length (filter Q ts)" if "\<And>t. P t \<Longrightarrow> Q t" for P Q
    using that by (induction ts) (auto simp: le_SucI)
  from this [of "\<lambda>t. w \<le> t \<and> t < w + minute" "\<lambda>t. now - t < minute"] show ?thesis
    unfolding in_minute_def recent_def using assms by linarith
qed

lemma last_largest: "sorted_wrt (\<le>) ts \<Longrightarrow> t \<in> set ts \<Longrightarrow> (t :: nat) \<le> last ts"
  by (induction ts) auto

lemma recent_empty:
  assumes "sorted_wrt (\<le>) ts" "ts \<noteq> [] \<Longrightarrow> minute < now - last ts"
  shows "recent now ts = []"
proof -
  have "\<not> now - t < minute" if t: "t \<in> set ts" for t
  proof -
    have "minute < now - last ts" by (rule assms(2)) (use t in auto)
    moreover have "now - last ts \<le> now - t" by (rule diff_le_mono2) (rule last_largest [OF assms(1) t])
    ultimately show ?thesis by linarith
  qed
  then show ?thesis by (simp add: recent_def filter_empty_conv)
qed

text \<open>Pruning takes out only what is older than a minute.\<close>

lemma attempts_prune:
  assumes "distinct (map fst al)" "\<And>k. sorted_wrt (\<le>) (attempts_of al k)"
  shows "recent now (attempts_of (prune_attempts now al) k) = recent now (attempts_of al k)"
    and "attempts_of (prune_attempts now al) k \<in> {[], attempts_of al k}"
    and "distinct (map fst (prune_attempts now al))"
proof -
  let ?P = "\<lambda>(k, ts). ts \<noteq> [] \<and> now - last ts \<le> minute"
  have m: "map_of (filter ?P al) k = (case map_of al k of None \<Rightarrow> None | Some ts \<Rightarrow> if ?P (k, ts) then Some ts else None)"
    using assms(1) by (induction al) (auto split: option.splits simp: map_of_eq_None_iff rev_image_eqI)
  then show "attempts_of (prune_attempts now al) k \<in> {[], attempts_of al k}"
    by (auto simp: attempts_of_def prune_attempts_def split: option.split)
  show "distinct (map fst (prune_attempts now al))"
    using assms(1) by (simp add: prune_attempts_def distinct_map_filter)
  from recent_empty [of "attempts_of al k" now] assms(2) [of k]
  show "recent now (attempts_of (prune_attempts now al) k) = recent now (attempts_of al k)"
    by (auto simp: attempts_of_def prune_attempts_def m recent_def split: option.splits)
qed

lemma rate_inv_same:
  "rate_inv s \<Longrightarrow> sv_attempts s' = sv_attempts s \<Longrightarrow> sv_clock s' = sv_clock s \<Longrightarrow>
     (\<And>ip. tries (sv_out s') ip = tries (sv_out s) ip) \<Longrightarrow> rate_inv s'"
  by (simp add: rate_inv_def)

lemma rate_inv_time: "rate_inv s \<Longrightarrow> rate_inv (s\<lparr>sv_clock := sv_clock s + dt\<rparr>)"
  unfolding rate_inv_def by (auto intro: recent_mono le_add1 trans_le_add1)

lemma rate_inv_pruned:
  assumes "rate_inv s" "sv_attempts s' = prune_attempts (sv_clock s) (sv_attempts s)" "sv_clock s' = sv_clock s"
    "\<And>ip. tries (sv_out s') ip = tries (sv_out s) ip"
  shows "rate_inv s'"
proof -
  have d: "distinct (map fst (sv_attempts s))" "\<And>k. sorted_wrt (\<le>) (attempts_of (sv_attempts s) k)"
    using assms(1) by (auto simp: rate_inv_def)
  note p = attempts_prune [OF d, of "sv_clock s"]
  have "sorted_wrt (\<le>) (attempts_of (sv_attempts s') k) \<and> (\<forall>t \<in> set (attempts_of (sv_attempts s') k). t \<le> sv_clock s)" for k
    using p(2) [of k] assms(1,2) by (auto simp: rate_inv_def)
  then show ?thesis using assms p(1,3) by (simp add: rate_inv_def)
qed

lemma sorted_recent:
  "sorted_wrt (\<le>) ts \<Longrightarrow> \<forall>t \<in> set ts. t \<le> now \<Longrightarrow>
     sorted_wrt (\<le>) (recent now ts @ [now]) \<and> (\<forall>t \<in> set (recent now ts @ [now]). t \<le> now)"
  by (auto simp: recent_def sorted_wrt_append intro: sorted_wrt_filter)

lemma rate_inv_try:
  assumes inv: "rate_inv s" and few: "length (recent (sv_clock s) (attempts_of (sv_attempts s) ip)) < 10"
    and s': "sv_attempts s' = AList.update ip (recent (sv_clock s) (attempts_of (sv_attempts s) ip) @ [sv_clock s]) (sv_attempts s)"
      "sv_clock s' = sv_clock s" "\<And>a. tries (sv_out s') a = tries (sv_out s) a @ (if a = ip then [sv_clock s] else [])"
  shows "rate_inv s'"
proof -
  let ?r = "recent (sv_clock s) (attempts_of (sv_attempts s) ip)"
  have a: "attempts_of (sv_attempts s') k = (if k = ip then ?r @ [sv_clock s] else attempts_of (sv_attempts s) k)" for k
    by (simp add: s' attempts_of_def update_conv')
  have r: "?r = recent (sv_clock s) (tries (sv_out s) ip)" using inv by (simp add: rate_inv_def)
  have rr: "recent (sv_clock s) (xs @ [sv_clock s]) = recent (sv_clock s) xs @ [sv_clock s]" for xs
    by (simp add: recent_def seconds_def)
  have "length (in_minute w (tries (sv_out s) ip @ [sv_clock s])) \<le> 10" for w
  proof (cases "w \<le> sv_clock s \<and> sv_clock s < w + minute")
    case True
    with minute_recent [of w "sv_clock s" "tries (sv_out s) ip"] few r show ?thesis
      by (simp add: in_minute_def)
  next
    case False
    have "length (in_minute w (tries (sv_out s) ip)) \<le> 10" using inv by (simp add: rate_inv_def)
    then show ?thesis using False by (auto simp: in_minute_def)
  qed
  moreover have "sorted_wrt (\<le>) (?r @ [sv_clock s])" "\<forall>t \<in> set (?r @ [sv_clock s]). t \<le> sv_clock s"
    using sorted_recent [of "attempts_of (sv_attempts s) ip" "sv_clock s"] inv by (simp_all add: rate_inv_def)
  moreover have "recent (sv_clock s) (?r @ [sv_clock s]) = recent (sv_clock s) (tries (sv_out s) ip @ [sv_clock s])"
    by (simp add: rr r recent_later)
  moreover have "distinct (map fst (sv_attempts s'))" using inv by (simp add: s' rate_inv_def distinct_update)
  ultimately show ?thesis using inv unfolding rate_inv_def a s'(2,3) by auto
qed

lemma tries_steps:
  "tries [PasswordTried a t ok, Replied c] ip = (if ip = a then [t] else [])"
  "tries [PasswordTried a t ok, LoggedIn v u, Replied c] ip = (if ip = a then [t] else [])"
  "tries [Replied c] ip = []" "tries [LoggedOut v, Replied c] ip = []"
  by (simp_all add: tries_def)

lemma rate_inv_login: "rate_inv s \<Longrightarrow> rate_inv (login cfg tok (sv_clock s) ip pw s)"
proof (cases pw)
  case None
  assume inv: "rate_inv s"
  show ?thesis by (rule rate_inv_same [OF inv]) (simp_all add: None login_def sv_emit_def tries_steps)
next
  case (Some p)
  assume inv: "rate_inv s"
  let ?al = "prune_attempts (sv_clock s) (sv_attempts s)"
  let ?s = "s\<lparr>sv_attempts := ?al\<rparr>"
  let ?r = "recent (sv_clock s) (attempts_of ?al ip)"
  have inv2: "rate_inv ?s" by (rule rate_inv_pruned [OF inv]) simp_all
  show ?thesis
  proof (cases "10 \<le> length ?r")
    case True
    show ?thesis
      by (rule rate_inv_same [OF inv2])
        (use True in \<open>simp_all add: Some login_def sv_emit_def tries_steps Let_def recent_def\<close>)
  next
    case False
    show ?thesis
      by (rule rate_inv_try [OF inv2, of ip])
        (use False in \<open>simp_all add: Some login_def sv_emit_def tries_steps Let_def recent_def\<close>)
  qed
qed

lemma rate_inv_frame: "rate_inv s \<Longrightarrow> auth_frame s s' \<Longrightarrow> rate_inv s'"
  by (erule rate_inv_same) (auto simp: auth_frame_def tries_other)

lemma rate_inv_step:
  assumes "rate_inv s" "e \<noteq> SvRestart"
  shows "rate_inv (server_step cfg tok s e)"
proof (cases "signs e")
  case True
  have "rate_inv (logout c s)" for c
    by (rule rate_inv_same [OF assms(1)])
      (simp_all add: logout_def sv_emit_def tries_steps split: option.split)
  with True assms show ?thesis by (cases e) (simp_all add: rate_inv_login rate_inv_time)
next
  case False
  from rate_inv_frame [OF assms(1) step_auth [OF False]] show ?thesis .
qed

lemma rate_inv_run: "rate_inv s \<Longrightarrow> SvRestart \<notin> set es \<Longrightarrow> rate_inv (server_run cfg tok s es)"
proof (induction es arbitrary: s)
  case (Cons e es)
  then have "e \<noteq> SvRestart" by auto
  from rate_inv_step [OF Cons.prems(1) this] Cons show ?case by (simp del: server_step.simps)
qed simp

text \<open>
  C27: as long as the server runs, no more than ten passwords are checked for one address in any sixty
  seconds, however the requests are spread.
\<close>

theorem logins_are_limited:
  assumes "SvRestart \<notin> set es"
  shows "length (in_minute w (tries (sv_out (server_run cfg tok (server_boot cfg tok made nxt now d []) es)) ip)) \<le> 10"
proof -
  have "rate_inv (server_boot cfg tok made nxt now d [])"
    by (simp add: rate_inv_def server_boot_def Let_def attempts_of_def tries_def in_minute_def)
  from rate_inv_run [OF this assms] show ?thesis by (simp add: rate_inv_def)
qed

section \<open>Examples\<close>

text \<open>A configuration and a supply of tokens.\<close>

definition home :: config where
  "home = \<lparr>cf_admin = asc ''a long administration token'', cf_server_ip = asc ''10.77.0.1'',
     cf_network = asc ''10.77.0.0/24'', cf_bind = asc ''0.0.0.0''\<rparr>"

definition seal :: "nat \<Rightarrow> jstext" where
  "seal n = [97 + n]"

lemmas server_eval =
  home_def seal_def server_start_def server_boot_def first_state_def no_state_def cloud_device_def Let_def
  tok_equal_def is_admin_def bearer_def starts_with_def prune_attempts_def attempts_of_def

definition first_login :: "server_event list" where
  "first_login = [SvLogin (asc ''192.0.2.7'') (Some (asc ''a long administration token'')), SvTime 5]"

lemma example_login:
  "server_step home seal (server_run home seal (server_start home seal) first_login) (SvCode [] (Some (seal 1)) (Some []))
     \<notin> {server_run home seal (server_start home seal) first_login,
        reply 401 (server_run home seal (server_start home seal) first_login)}"
proof -
  have "sv_out (server_run home seal (server_start home seal) (first_login @ [SvCode [] (Some (seal 1)) (Some [])]))
   = [PasswordTried (asc ''192.0.2.7'') 0 True, LoggedIn (seal 1) 0, Replied 200, CodeMade (seal 2), Replied 200]"
    "sv_out (server_run home seal (server_start home seal) first_login)
   = [PasswordTried (asc ''192.0.2.7'') 0 True, LoggedIn (seal 1) 0, Replied 200]"
    by (simp_all add: first_login_def server_eval server_defs js_eval session_life_def seconds_def)
  then show ?thesis by (auto simp: sv_emit_def simp del: server_step.simps dest: arg_cong [of _ _ sv_out])
qed

lemma admin_needs_password_witness:
  "\<exists>t. opened_at home seal first_login (seal 1) t
     \<and> sv_clock (server_run home seal (server_start home seal) first_login) < t + session_life"
  using admin_needs_password [OF _ example_login, of "[]" "Some (seal 1)"]
  by (auto simp: tok_equal_def bearer_def starts_with_def js_eval simp del: run_Cons)

lemma logins_are_limited_witness:
  "length (in_minute 0 (tries (sv_out (server_run home seal (server_boot home seal 0 0 0 no_state [])
     [SvLogin [49] (Some []), SvTime 5, SvLogin [49] (Some [])])) [49])) \<le> 10"
  by (rule logins_are_limited) simp

end
