(* ===== verification/Server_Devices.thy ===== *)
theory Server_Devices
  imports Server_Auth
begin

text \<open>
  Admission of devices: identities stay distinct, an enrolment code admits one device, and no address of
  another peer is taken. Stated over the identity of a device: its identifier, address, key and token.
\<close>

section \<open>Identities\<close>

definition ident :: "sdevice \<Rightarrow> jstext \<times> jstext \<times> jstext \<times> jstext" where
  "ident d = (sd_id d, sd_ip d, sd_key d, sd_token d)"

definition joins :: "server_out list \<Rightarrow> (jstext \<times> jstext) list" where
  "joins os = concat (map (\<lambda>x. case x of Joined c i \<Rightarrow> [(c, i)] | _ \<Rightarrow> []) os)"

lemma joins_append [simp]: "joins (xs @ ys) = joins xs @ joins ys"
  by (simp add: joins_def)

lemma joins_Nil [simp]: "joins [] = []"
  by (simp add: joins_def)

lemma joins_Cons [simp]: "joins (x # xs) = (case x of Joined c i \<Rightarrow> [(c, i)] | _ \<Rightarrow> []) @ joins xs"
  by (simp add: joins_def)

definition idents_ok :: "(nat \<Rightarrow> jstext) \<Rightarrow> nat \<Rightarrow> (jstext \<times> jstext \<times> jstext \<times> jstext) list \<Rightarrow> bool" where
  "idents_ok tok made xs \<longleftrightarrow>
     distinct (map fst xs) \<and> distinct (map (fst \<circ> snd) xs) \<and> distinct (map (fst \<circ> snd \<circ> snd) xs)
     \<and> distinct (map (snd \<circ> snd \<circ> snd) xs)
     \<and> (\<forall>(i, a, k, t) \<in> set xs. (i = asc ''cloud'' \<or> (\<exists>n < made. i = take 12 (tok n))) \<and> (\<exists>n < made. t = tok n))"

definition device_inv :: "(nat \<Rightarrow> jstext) \<Rightarrow> server \<Rightarrow> bool" where
  "device_inv tok s \<longleftrightarrow>
     idents_ok tok (sv_made s) (map ident (sv_devices s))
     \<and> idents_ok tok (sv_made s) (map ident (fst (sv_disk s)))
     \<and> distinct (map fst (joins (sv_out s)))
     \<and> fst ` set (joins (sv_out s)) \<inter> fst ` set (sv_codes s) = {}
     \<and> fst ` set (joins (sv_out s)) \<subseteq> tok ` {..<sv_made s} \<and> fst ` set (sv_codes s) \<subseteq> tok ` {..<sv_made s}"

lemma idents_ok_more: "idents_ok tok n xs \<Longrightarrow> n \<le> m \<Longrightarrow> idents_ok tok m xs"
  unfolding idents_ok_def by (fastforce intro: less_le_trans)

section \<open>What the other handlers leave alone\<close>

definition dev_frame :: "server \<Rightarrow> server \<Rightarrow> bool" where
  "dev_frame s s' \<longleftrightarrow>
     map ident (sv_devices s') = map ident (sv_devices s) \<and> sv_made s \<le> sv_made s'
     \<and> map ident (fst (sv_disk s')) \<in> {map ident (sv_devices s), map ident (fst (sv_disk s))}
     \<and> set (sv_codes s') \<subseteq> set (sv_codes s) \<and> joins (sv_out s') = joins (sv_out s)"

named_theorems dev_frames \<open>the handlers that admit nobody\<close>

lemma ident_update [simp]:
  assumes "\<And>d. ident (f d) = ident d"
  shows "map ident (update_first i f ds) = map ident ds"
  by (induction ds) (simp_all add: assms)

lemma ident_update_old:
  "find (\<lambda>d. sd_id d = i) ds = Some old \<Longrightarrow> (\<And>d. sd_id (f d) = sd_id d) \<Longrightarrow>
     update_first i (\<lambda>_. old) (update_first i f ds) = ds"
  by (induction ds) (auto split: if_splits)

lemma dev_frame_refl [dev_frames]: "dev_frame s s"
  by (simp add: dev_frame_def)

lemma dev_frame_trans: "dev_frame s t \<Longrightarrow> dev_frame t u \<Longrightarrow> dev_frame s u"
  by (auto simp: dev_frame_def)

lemma dev_frame_inv:
  assumes "device_inv tok s" "dev_frame s s'"
  shows "device_inv tok s'"
proof -
  let ?J = "fst ` set (joins (sv_out s))" and ?C = "fst ` set (sv_codes s)"
  have t: "tok ` {..<sv_made s} \<subseteq> tok ` {..<sv_made s'}" and c: "fst ` set (sv_codes s') \<subseteq> ?C"
    and j: "joins (sv_out s') = joins (sv_out s)"
    using assms(2) by (auto simp: dev_frame_def)
  have i: "idents_ok tok (sv_made s') (map ident (sv_devices s'))"
    "idents_ok tok (sv_made s') (map ident (fst (sv_disk s')))"
    using assms by (auto simp: device_inv_def dev_frame_def intro: idents_ok_more)
  have "distinct (map fst (joins (sv_out s)))" "?J \<inter> ?C = {}" "?J \<subseteq> tok ` {..<sv_made s}" "?C \<subseteq> tok ` {..<sv_made s}"
    using assms(1) by (simp_all add: device_inv_def)
  note old = this
  have "?J \<inter> fst ` set (sv_codes s') = {}" using old(2) c by blast
  moreover have "?J \<subseteq> tok ` {..<sv_made s'}" by (rule subset_trans [OF old(3) t])
  moreover have "fst ` set (sv_codes s') \<subseteq> tok ` {..<sv_made s'}"
    by (rule subset_trans [OF c subset_trans [OF old(4) t]])
  ultimately show ?thesis unfolding device_inv_def j using i old(1) by (intro conjI)
qed

lemma dev_emit [dev_frames]: "joins os = [] \<Longrightarrow> dev_frame s (sv_emit os s)"
  by (simp add: dev_frame_def sv_emit_def)

lemma dev_answer [dev_frames]: "dev_frame s (reply c s)"
  by (rule dev_emit) simp

lemma dev_login [dev_frames]: "dev_frame s (login cfg tok now ip pw s)"
  by (simp add: dev_frame_def login_def sv_emit_def Let_def split: option.split)

lemma dev_logout [dev_frames]: "dev_frame s (logout c s)"
  by (simp add: dev_frame_def logout_def sv_emit_def split: option.split)

lemma dev_set [dev_frames]: "(\<And>d. ident (f d) = ident d) \<Longrightarrow> dev_frame s (set_device i f s)"
  by (simp add: dev_frame_def set_device_def)

lemma dev_persist [dev_frames]: "dev_frame s (persist saved s)"
  by (auto simp: dev_frame_def persist_def store_def)

lemma dev_heartbeat [dev_frames]: "dev_frame s (heartbeat now h v saved s)"
proof -
  have *: "dev_frame s (sv_emit [BeatAnswered i p e, Replied 200] (set_device i f t))"
    if "dev_frame s t" "\<And>d. ident (f d) = ident d" for t f i p e
    by (rule dev_frame_trans [OF dev_frame_trans [OF that(1) dev_set [OF that(2)]] dev_emit]) simp
  show ?thesis
    unfolding heartbeat_def Let_def
    by (auto simp: ident_def split: option.split
        intro!: * dev_emit dev_frame_trans [OF _ dev_persist] dev_frame_trans [OF _ dev_set] dev_set)
qed

lemma dev_put_policy [dev_frames]: "dev_frame s (put_policy now i p saved s)"
  by (auto simp: dev_frame_def server_defs Let_def split: option.split)

lemma dev_put_mapping [dev_frames]: "dev_frame s (put_mapping cfg tok m s)"
  by (auto simp: dev_frame_def server_defs server_net_defs Let_def split: option.splits)

lemma dev_delete_mapping [dev_frames]: "dev_frame s (delete_mapping now i saved s)"
  by (auto simp: dev_frame_def server_defs server_net_defs Let_def split: option.splits)

lemma dev_committed [dev_frames]: "dev_frame s (committed now saved s)"
  by (auto simp: dev_frame_def server_defs server_net_defs Let_def split: option.splits fwd_task.splits)

lemma dev_restore [dev_frames]: "dev_frame s (restore_mappings s)"
  by (auto simp: dev_frame_def server_net_defs)

lemma dev_dial_start [dev_frames]: "dev_frame s (dial_start i s)"
  by (auto simp: dev_frame_def server_defs server_net_defs Let_def)

lemma dev_proxy [dev_frames]: "dev_frame s (proxy_request i t s)"
  by (auto simp: proxy_request_def intro: dev_frames split: option.splits)

lemma dev_dial_step [dev_frames]: "dev_frame s (dial_step n ok s)"
  by (auto simp: dev_frame_def server_defs server_net_defs Let_def split: option.splits list.splits)

lemma dev_probed [dev_frames]: "dev_frame s (probed hand transfer d status s)"
  by (auto simp: dev_frame_def server_defs server_net_defs Let_def ident_def split: prod.splits)

lemma dev_listened [dev_frames]: "dev_frame s (listened cfg ok e s)"
  by (auto simp: dev_frame_def server_defs server_net_defs Let_def
      split: option.splits fwd_task.splits list.splits prod.splits sum.splits)

lemma dev_update_device [dev_frames]: "dev_frame s (update_device now i v saved s)"
proof -
  have "ident (apply_device b d) = ident d" for b d by (simp add: ident_def apply_device_def)
  moreover have "update_first i (\<lambda>_. old) (update_first i (apply_device b) (sv_devices s)) = sv_devices s"
    if "sv_device s i = Some old" for old b
    using that by (intro ident_update_old) (simp_all add: sv_device_def apply_device_def)
  ultimately show ?thesis
    by (auto simp: dev_frame_def server_defs Let_def split: option.split)
qed

lemma dev_reconcile [dev_frames]: "dev_frame s (reconcile_peers t s)"
proof -
  have "joins (map (\<lambda>d. WgSet (sd_key d) (sd_ip d)) ds) = []" for ds by (induction ds) simp_all
  then show ?thesis by (auto simp: reconcile_peers_def intro: dev_frames split: option.split)
qed

lemma dev_guarded:
  assumes "\<And>t. dev_frame t (f t)"
  shows "dev_frame s (guarded cfg now h c f s)"
  unfolding guarded_def by (auto intro: dev_frames assms)

section \<open>Admission\<close>

definition may_join :: "config \<Rightarrow> nat \<Rightarrow> join_body \<Rightarrow> jstext \<Rightarrow> jstext \<Rightarrow> server \<Rightarrow> bool" where
  "may_join cfg now v routes ip s \<longleftrightarrow>
     valid_key (jb_key v)
     \<and> (\<exists>e wanted. map_of (sv_codes s) (jb_code v) = Some (e, wanted) \<and> now \<le> e
          \<and> (\<forall>d \<in> set (sv_devices s). sd_key d \<noteq> jb_key v \<and> (wanted \<noteq> [] \<longrightarrow> sd_ip d \<noteq> wanted))
          \<and> join_address cfg (sv_devices s) routes wanted = Inr ip)
     \<and> (\<forall>(k, r) \<in> set (route_lines routes). text_contains (route_of ip) r \<longrightarrow> k = jb_key v)"

definition routed :: "jstext \<Rightarrow> jstext \<Rightarrow> bool" where
  "routed routes ip \<longleftrightarrow> (\<exists>(k, r) \<in> set (route_lines routes). text_contains (route_of ip) r)"

lemma join_address_code: "join_address cfg ds routes wanted = Inl c \<Longrightarrow> c \<noteq> 200"
  by (auto simp: join_address_def split: if_splits option.splits)

text \<open>A join answers an error at once, or gets to enter the device.\<close>

lemma join_cases:
  obtains (refused) c where "c \<noteq> 200" "join_device cfg tok now body wg saved s = reply c s"
  | (failed) v ip routes where "body = Some v" "may_join cfg now v routes ip s" "wg_routes wg = Some routes"
      "\<not> routed routes ip" "join_device cfg tok now body wg saved s = sv_emit [WgSet (jb_key v) ip, Replied 500] s"
  | (entered) v ip routes os adopted where "body = Some v" "may_join cfg now v routes ip s" "wg_routes wg = Some routes"
      "adopted \<longleftrightarrow> routed routes ip" "os = (if adopted then [] else [WgSet (jb_key v) ip])"
      "join_device cfg tok now body wg saved s = join_admit tok now v ip adopted saved (sv_emit os s)"
proof (cases "\<exists>c. c \<noteq> 200 \<and> join_device cfg tok now body wg saved s = reply c s")
  case True
  then show thesis using refused by blast
next
  case False
  then have no: "join_device cfg tok now body wg saved s \<noteq> reply c s" if "c \<noteq> 200" for c using that by blast
  then have n: "join_device cfg tok now body wg saved s \<noteq> reply 400 s" "join_device cfg tok now body wg saved s \<noteq> reply 403 s"
    "join_device cfg tok now body wg saved s \<noteq> reply 409 s" "join_device cfg tok now body wg saved s \<noteq> reply 503 s" by simp_all
  then obtain v where v: "body = Some v" by (cases body) (auto simp: join_device_def)
  obtain e wanted where c: "map_of (sv_codes s) (jb_code v) = Some (e, wanted)"
    using n v by (auto simp: join_device_def split: option.splits if_splits)
  from n v c have ok: "1 \<le> go_len (jb_name v)" "go_len (jb_name v) \<le> 80" "valid_key (jb_key v)" "now \<le> e"
    "\<forall>d \<in> set (sv_devices s). sd_key d \<noteq> jb_key v \<and> (wanted \<noteq> [] \<longrightarrow> sd_ip d \<noteq> wanted)"
    by (auto simp: join_device_def not_le not_less split: if_splits)
  have j: "join_device cfg tok now body wg saved s =
    (case (wg_key wg, wg_routes wg) of
       (Some pub, Some routes) \<Rightarrow>
         (case join_address cfg (sv_devices s) routes wanted of
            Inl code \<Rightarrow> reply code s
          | Inr ip \<Rightarrow>
              let mine = filter (\<lambda>(k, r). text_contains (route_of ip) r) (route_lines routes)
              in if \<exists>(k, r) \<in> set mine. k \<noteq> jb_key v then reply 409 s
                 else if mine \<noteq> [] then join_admit tok now v ip True saved s
                 else
                   let s1 = sv_emit [WgSet (jb_key v) ip] s
                   in if wg_set wg then join_admit tok now v ip False saved s1 else reply 500 s1)
     | _ \<Rightarrow> reply 503 s)"
    using ok v c by (auto simp: join_device_def)
  then obtain pub routes ip where r: "wg_key wg = Some pub" "wg_routes wg = Some routes"
    "join_address cfg (sv_devices s) routes wanted = Inr ip"
    using n no [OF join_address_code [of cfg "sv_devices s" _ wanted]]
    by (cases "wg_key wg"; cases "wg_routes wg"; cases "join_address cfg (sv_devices s) (the (wg_routes wg)) wanted")
      (auto, metis)
  let ?mine = "filter (\<lambda>(k, r). text_contains (route_of ip) r) (route_lines routes)"
  have m: "\<not> (\<exists>(k, r) \<in> set ?mine. k \<noteq> jb_key v)"
  proof
    assume "\<exists>(k, r) \<in> set ?mine. k \<noteq> jb_key v"
    then have "join_device cfg tok now body wg saved s = reply 409 s" unfolding j Let_def by (simp add: r)
    with n show False by simp
  qed
  then have may: "may_join cfg now v routes ip s" using ok c r(3) by (fastforce simp: may_join_def)
  have e: "sv_emit [Replied 500] (sv_emit [WgSet (jb_key v) ip] s) = sv_emit [WgSet (jb_key v) ip, Replied 500] s"
    "sv_emit [] s = s"
    by (simp_all add: sv_emit_def)
  have ro: "routed routes ip \<longleftrightarrow> ?mine \<noteq> []" by (auto simp: routed_def filter_empty_conv)
  show thesis
  proof (cases "?mine \<noteq> []")
    case True
    then have "join_device cfg tok now body wg saved s = join_admit tok now v ip True saved (sv_emit [] s)"
      unfolding j Let_def using m by (auto simp: e r)
    then show thesis using entered [OF v may r(2), of True "[]"] True ro by simp
  next
    case False
    then show thesis
      using entered [OF v may r(2), of False "[WgSet (jb_key v) ip]"] failed [OF v may r(2)] m ro
      unfolding j Let_def by (cases "wg_set wg") (auto simp: e r)
  qed
qed

section \<open>The invariant\<close>

lemma cloud_key_invalid: "\<not> valid_key []"
  by (simp add: valid_key_def go_b64_decode_def b64_unpad_def)

lemma join_address_fresh:
  assumes "join_address cfg ds routes wanted = Inr ip" "wanted \<noteq> [] \<longrightarrow> (\<forall>d \<in> set ds. sd_ip d \<noteq> wanted)"
  shows "ip \<notin> sd_ip ` set ds"
  using assms by (auto simp: join_address_def candidate_free_def find_Some_iff split: if_splits option.splits)

lemma idents_snoc:
  assumes "idents_ok tok n (map ident ds)" "inj (\<lambda>k. take 12 (tok k))" "\<And>k. take 12 (tok k) \<noteq> asc ''cloud''"
    and d: "sd_id d = take 12 (tok n)" "sd_token d = tok (Suc n)"
    and "sd_ip d \<notin> sd_ip ` set ds" "sd_key d \<notin> sd_key ` set ds"
  shows "idents_ok tok (Suc (Suc n)) (map ident (ds @ [d]))"
proof -
  have inj: "take 12 (tok a) = take 12 (tok b) \<longleftrightarrow> a = b" "tok a = tok b \<longleftrightarrow> a = b" for a b
    using injD [OF assms(2), of a b] by auto
  have "sd_id d \<notin> sd_id ` set ds" "sd_token d \<notin> sd_token ` set ds"
    using assms(1,3) d by (fastforce simp: idents_ok_def ident_def inj)+
  moreover have "idents_ok tok (Suc (Suc n)) (map ident ds)" by (rule idents_ok_more [OF assms(1)]) simp
  moreover have "sd_id d \<in> (\<lambda>k. take 12 (tok k)) ` {..<Suc (Suc n)}" "sd_token d \<in> tok ` {..<Suc (Suc n)}"
    using d by auto
  ultimately show ?thesis using assms(6,7)
    by (auto simp: idents_ok_def ident_def comp_def)
qed

lemma device_inv_join_admit:
  assumes inv: "device_inv tok s" and tok: "inj (\<lambda>k. take 12 (tok k))" "\<And>k. take 12 (tok k) \<noteq> asc ''cloud''"
    and may: "may_join cfg now v routes ip s"
  shows "device_inv tok (join_admit tok now v ip adopted saved s)"
proof -
  let ?d = "joined_device (take 12 (tok (sv_made s))) (tok (Suc (sv_made s))) v ip"
  let ?J = "fst ` set (joins (sv_out s))" and ?C = "fst ` set (sv_codes s)"
  have fresh: "sd_ip ?d \<notin> sd_ip ` set (sv_devices s)" "sd_key ?d \<notin> sd_key ` set (sv_devices s)"
  proof -
    from may obtain e wanted where w: "join_address cfg (sv_devices s) routes wanted = Inr ip"
        "\<forall>d \<in> set (sv_devices s). sd_key d \<noteq> jb_key v \<and> (wanted \<noteq> [] \<longrightarrow> sd_ip d \<noteq> wanted)"
      by (auto simp: may_join_def)
    have "ip \<notin> sd_ip ` set (sv_devices s)" by (rule join_address_fresh [OF w(1)]) (use w(2) in blast)
    with w(2) show "sd_ip ?d \<notin> sd_ip ` set (sv_devices s)" "sd_key ?d \<notin> sd_key ` set (sv_devices s)"
      by (auto simp: joined_device_def)
  qed
  from inv have old: "idents_ok tok (sv_made s) (map ident (sv_devices s))"
      "idents_ok tok (Suc (Suc (sv_made s))) (map ident (fst (sv_disk s)))"
      "idents_ok tok (Suc (Suc (sv_made s))) (map ident (sv_devices s))"
    by (auto simp: device_inv_def intro: idents_ok_more)
  have new: "idents_ok tok (Suc (Suc (sv_made s))) (map ident (sv_devices s @ [?d]))"
    by (rule idents_snoc [OF old(1) tok _ _ fresh]) (simp_all add: joined_device_def)
  have sets: "?J \<inter> ?C = {}" "?J \<subseteq> tok ` {..<sv_made s}" "?C \<subseteq> tok ` {..<sv_made s}" "distinct (map fst (joins (sv_out s)))"
    using inv by (simp_all add: device_inv_def)
  have more: "tok ` {..<sv_made s} \<subseteq> tok ` {..<Suc (Suc (sv_made s))}" by auto
  obtain x where "map_of (sv_codes s) (jb_code v) = Some x" using may by (auto simp: may_join_def)
  then have "jb_code v \<in> ?C" by (metis map_of_eq_None_iff option.distinct(1))
  then have c: "jb_code v \<notin> ?J" "jb_code v \<in> tok ` {..<Suc (Suc (sv_made s))}"
    using sets(1) subset_trans [OF sets(3) more] by blast+
  have sub: "?J \<subseteq> tok ` {..<Suc (Suc (sv_made s))}" "?C \<subseteq> tok ` {..<Suc (Suc (sv_made s))}"
    using sets(2,3) more by blast+
  show ?thesis
  proof (cases saved)
    case False
    have "joins (if adopted then [] else [WgRemove (jb_key v)]) = []" by simp
    then show ?thesis using False old sets sub
      by (simp add: device_inv_def join_admit_def Let_def server_defs)
  next
    case True
    have "fst ` set (AList.delete (jb_code v) (sv_codes s)) = ?C - {jb_code v}" by (rule fst_delete)
    moreover have "insert (jb_code v) ?J \<inter> (?C - {jb_code v}) = {}" "?C - {jb_code v} \<subseteq> tok ` {..<Suc (Suc (sv_made s))}"
      using sets(1) sub by blast+
    moreover have "distinct (map fst (joins (sv_out s) @ [(jb_code v, i)]))" for i using sets(4) c(1) by simp
    ultimately show ?thesis using True new sub c
      by (simp add: device_inv_def join_admit_def Let_def server_defs del: map_append)
  qed
qed

lemma device_inv_join:
  assumes inv: "device_inv tok s" and tok: "inj (\<lambda>k. take 12 (tok k))" "\<And>k. take 12 (tok k) \<noteq> asc ''cloud''"
  shows "device_inv tok (join_device cfg tok now body wg saved s)"
proof (cases rule: join_cases [of cfg tok now body wg saved s])
  case (refused c)
  then show ?thesis by (simp only:) (rule dev_frame_inv [OF inv dev_emit], simp)
next
  case (failed v ip routes)
  then show ?thesis by (simp only:) (rule dev_frame_inv [OF inv dev_emit], simp)
next
  case (entered v ip routes os adopted)
  have "device_inv tok (sv_emit os s)" by (rule dev_frame_inv [OF inv dev_emit]) (simp add: entered(5))
  moreover have "may_join cfg now v routes ip (sv_emit os s)" using entered(2) by (simp add: may_join_def sv_emit_def)
  ultimately show ?thesis unfolding entered(6) by (rule device_inv_join_admit [OF _ tok])
qed

lemma device_inv_code:
  assumes inv: "device_inv tok s" and tok: "inj (\<lambda>k. take 12 (tok k))"
  shows "device_inv tok (create_code cfg tok now ip s)"
proof (cases "\<exists>c. dev_frame s (create_code cfg tok now ip s)")
  case True
  then show ?thesis using dev_frame_inv [OF inv] by blast
next
  case no: False
  let ?cs = "filter (\<lambda>(k, e, a). now \<le> e) (sv_codes s)"
  let ?J = "fst ` set (joins (sv_out s))"
  obtain a where a: "ip = Some a" using no by (cases ip) (auto simp: create_code_def intro: dev_frames)
  have new: "create_code cfg tok now ip s =
     sv_emit [CodeMade (tok (sv_made s)), Replied 200]
       (s\<lparr>sv_codes := AList.update (tok (sv_made s)) (now + seconds 600, a) ?cs, sv_made := Suc (sv_made s)\<rparr>)"
    using no unfolding a create_code_def Let_def
    by (auto simp: dev_frame_def sv_emit_def split: if_splits option.splits)
  have "tok m \<noteq> tok n" if "m \<noteq> n" for m n using injD [OF tok, of m n] that by auto
  then have "tok (sv_made s) \<notin> tok ` {..<sv_made s}" by (metis imageE less_irrefl lessThan_iff)
  moreover have "fst ` set (AList.update (tok (sv_made s)) (now + seconds 600, a) ?cs)
      = insert (tok (sv_made s)) (fst ` set ?cs)"
    by (simp add: dom_update [unfolded dom_map_of_conv_image_fst])
  moreover have "fst ` set ?cs \<subseteq> fst ` set (sv_codes s)" by auto
  moreover have "?J \<inter> fst ` set (sv_codes s) = {}" "?J \<subseteq> tok ` {..<sv_made s}"
    "fst ` set (sv_codes s) \<subseteq> tok ` {..<sv_made s}"
    using inv by (simp_all add: device_inv_def)
  moreover have "tok ` {..<Suc (sv_made s)} = insert (tok (sv_made s)) (tok ` {..<sv_made s})"
    by (simp add: lessThan_Suc)
  ultimately have "?J \<inter> fst ` set (AList.update (tok (sv_made s)) (now + seconds 600, a) ?cs) = {}"
    "?J \<subseteq> tok ` {..<Suc (sv_made s)}"
    "fst ` set (AList.update (tok (sv_made s)) (now + seconds 600, a) ?cs) \<subseteq> tok ` {..<Suc (sv_made s)}"
    by auto
  moreover have "idents_ok tok (Suc (sv_made s)) (map ident (sv_devices s))"
    "idents_ok tok (Suc (sv_made s)) (map ident (fst (sv_disk s)))" "distinct (map fst (joins (sv_out s)))"
    using inv by (auto simp: device_inv_def intro: idents_ok_more)
  ultimately show ?thesis unfolding new by (simp add: device_inv_def sv_emit_def)
qed

lemma idents_cloud: "made < n \<Longrightarrow> idents_ok tok n [ident (cloud_device cfg (tok made))]"
  by (auto simp: idents_ok_def ident_def cloud_device_def)

lemma device_inv_restart: "device_inv tok s \<Longrightarrow> device_inv tok (restart cfg tok s)"
  using idents_cloud [of "sv_made s" "Suc (sv_made s)" tok cfg]
  by (auto simp: device_inv_def restart_def server_boot_def first_state_def Let_def less_Suc_eq
      intro: idents_ok_more)

lemma device_inv_step:
  assumes "device_inv tok s" "inj (\<lambda>k. take 12 (tok k))" "\<And>k. take 12 (tok k) \<noteq> asc ''cloud''"
  shows "device_inv tok (server_step cfg tok s e)"
proof (cases "\<exists>h c ip. e = SvCode h c ip \<or> e = SvRestart \<or> (\<exists>v wg saved. e = SvJoin v wg saved)")
  case True
  have "device_inv tok (reply k s)" for k
    by (rule dev_frame_inv [OF assms(1) dev_emit]) simp
  with True assms show ?thesis
    by (auto simp: guarded_def device_inv_code device_inv_restart device_inv_join)
next
  case False
  have "dev_frame s (server_step cfg tok s e)"
    using False by (cases e) (auto intro: dev_frames dev_guarded simp: dev_frame_def [of _ "s\<lparr>sv_clock := _\<rparr>"])
  then show ?thesis by (rule dev_frame_inv [OF assms(1)])
qed

lemma device_inv_reach:
  assumes "inj (\<lambda>n. take 12 (tok n))" "\<And>n. take 12 (tok n) \<noteq> asc ''cloud''"
  shows "device_inv tok (server_run cfg tok (server_start cfg tok) es)"
proof -
  have "device_inv tok (server_start cfg tok)"
    using idents_cloud [of 0 1 tok cfg]
    by (simp add: device_inv_def server_start_def server_boot_def first_state_def no_state_def Let_def)
  then show ?thesis
    by (induction es rule: rev_induct) (simp_all add: device_inv_step [OF _ assms] del: server_step.simps)
qed

text \<open>
  C3: however the server is used, restarts included, no two devices share an identifier, an address, a
  public key or a token, and an enrolment code admits at most one device.
\<close>

theorem devices_stay_distinct:
  assumes "inj (\<lambda>n. take 12 (tok n))" "\<And>n. take 12 (tok n) \<noteq> asc ''cloud''"
  shows "distinct (map sd_id (sv_devices (server_run cfg tok (server_start cfg tok) es)))
    \<and> distinct (map sd_ip (sv_devices (server_run cfg tok (server_start cfg tok) es)))
    \<and> distinct (map sd_key (sv_devices (server_run cfg tok (server_start cfg tok) es)))
    \<and> distinct (map sd_token (sv_devices (server_run cfg tok (server_start cfg tok) es)))
    \<and> distinct (map fst (joins (sv_out (server_run cfg tok (server_start cfg tok) es))))"
  using device_inv_reach [OF assms, of cfg es] by (simp add: device_inv_def idents_ok_def ident_def comp_def)

lemma seal_distinct: "inj (\<lambda>n. take 12 (seal n))" "take 12 (seal n) \<noteq> asc ''cloud''"
  by (auto simp: seal_def js_eval inj_def)

section \<open>Routes\<close>

definition one_address :: "jstext \<Rightarrow> bool" where
  "one_address routes \<longleftrightarrow> (\<forall>l \<in> set (split_on 10 routes). length (text_fields l) \<le> 2)"

definition mentions :: "jstext \<Rightarrow> jstext \<Rightarrow> bool" where
  "mentions routes ip \<longleftrightarrow>
     (\<exists>l \<in> set (split_on 10 routes). \<exists>r \<in> set (tl (text_fields l)). text_contains (route_of ip) r)"

lemma routed_mentions: "one_address routes \<Longrightarrow> mentions routes ip \<Longrightarrow> routed routes ip"
proof -
  assume one: "one_address routes" and "mentions routes ip"
  then obtain l r where l: "l \<in> set (split_on 10 routes)" "r \<in> set (tl (text_fields l))" "text_contains (route_of ip) r"
    by (auto simp: mentions_def)
  then have "length (text_fields l) \<le> 2" using one by (auto simp: one_address_def)
  with l(2) obtain k where "text_fields l = [k, r]"
    by (cases "text_fields l"; cases "tl (text_fields l)") auto
  with l show ?thesis unfolding routed_def route_lines_def by force
qed

text \<open>
  C21: when every peer of the interface has one address, a join routes an address to its device only if
  it is no other peer's.
\<close>

theorem join_takes_no_route:
  assumes "wg_routes wg = Some routes" "one_address routes"
    and "sv_out (join_device cfg tok now body wg saved s) = sv_out s @ os" "WgSet k ip \<in> set os"
  shows "\<not> mentions routes ip"
proof (cases rule: join_cases [of cfg tok now body wg saved s])
  case (refused c)
  then show ?thesis using assms by (auto simp: sv_emit_def)
next
  case (failed v a t)
  then show ?thesis using assms routed_mentions by (auto simp: sv_emit_def)
next
  case (entered v a t new adopted)
  have "os = new @ drop (length new) os" "WgSet k ip \<notin> set (drop (length new) os)"
    using assms(3) unfolding entered(6) by (auto simp: join_admit_def Let_def server_defs split: if_splits)
  then have "WgSet k ip \<in> set new" using assms(4) by (metis Un_iff set_append)
  with entered assms(1,2) routed_mentions show ?thesis by (auto split: if_splits)
qed

section \<open>Examples\<close>

definition wire_key :: jstext where
  "wire_key = asc ''AAAAAAAAAAAAAAAAAAAAAAAAAAAAAAAAAAAAAAAAAAA=''"

lemma wire_key_valid: "valid_key wire_key"
  by (simp add: wire_key_def valid_key_def go_b64_decode_def b64_unpad_def js_eval b64_val_def)

definition header :: jstext where
  "header = asc ''Bearer a long administration token''"

definition new_pc :: join_body where
  "new_pc = \<lparr>jb_code = seal 1, jb_name = asc ''pc'', jb_key = wire_key\<rparr>"

definition one_peer :: jstext where
  "one_peer = asc ''OTHER'' @ [9] @ asc ''10.77.0.2/32''"

definition two_routes :: jstext where
  "two_routes = asc ''OTHER'' @ [9] @ asc ''10.77.0.2/32 10.77.0.9/32''"

lemma admin_header: "is_admin home now header c s"
  by (simp add: is_admin_def header_def home_def bearer_def starts_with_def tok_equal_def js_eval)

lemma new_pc_ok: "go_len (jb_name new_pc) = 2" "valid_key (jb_key new_pc)" "jb_code new_pc = seal 1"
  by (simp_all add: new_pc_def wire_key_valid go_len_def js_eval utf8_encode_def utf8_char_def)

lemma home_network: "parse_cidr (cf_network home) = Some ([10, 77, 0, 0], 24)"
  by (simp add: home_def net_eval)

lemma nine_in_network: "in_network ([10, 77, 0, 0], 24) (parse_ip (asc ''10.77.0.9''))"
  by (simp add: net_eval)

lemmas route_eval =
  route_lines_def route_of_def one_peer_def two_routes_def js_eval go_space_def starts_with_def

text \<open>
  A join for an address that is another peer's second one routes it to the new device, although the code
  means never to overwrite a route: of \<open>wg show allowed-ips\<close> it reads the first address of every peer.
\<close>

lemma join_takes_second_route:
  "WgSet wire_key (asc ''10.77.0.9'') \<in> set (sv_out (server_run home seal (server_start home seal)
     [SvCode header None (Some (asc ''10.77.0.9'')),
      SvJoin (Some new_pc) \<lparr>wg_key = Some [], wg_routes = Some two_routes, wg_set = True\<rparr> True]))"
  "mentions two_routes (asc ''10.77.0.9'')"
proof -
  let ?s = "server_start home seal"
  have k: "sd_key (cloud_device home (seal 0)) = []" "sd_ip (cloud_device home (seal 0)) = asc ''10.77.0.1''"
    by (simp_all add: cloud_device_def home_def)
  have r: "filter (\<lambda>(k, r). text_contains (route_of (asc ''10.77.0.9'')) r) (route_lines two_routes) = []"
    by (simp add: route_eval)
  have "jb_key new_pc \<noteq> []" by (simp add: new_pc_def wire_key_def js_eval)
  then show "WgSet wire_key (asc ''10.77.0.9'') \<in> set (sv_out (server_run home seal ?s
     [SvCode header None (Some (asc ''10.77.0.9'')),
      SvJoin (Some new_pc) \<lparr>wg_key = Some [], wg_routes = Some two_routes, wg_set = True\<rparr> True]))"
    using k r new_pc_ok nine_in_network home_network
    by (simp add: guarded_def admin_header create_code_def join_device_def join_address_def server_start_def
        server_boot_def first_state_def no_state_def Let_def sv_emit_def)
      (simp add: home_def js_eval seal_def new_pc_def join_admit_def Let_def server_defs)
  show "mentions two_routes (asc ''10.77.0.9'')"
    by (simp add: mentions_def route_eval)
qed

text \<open>
  An address that must not be the server's may be the server's, written as an IPv6 address: texts are
  compared.
\<close>

lemma code_for_server_address:
  "CodeMade (seal 1) \<in> set (sv_out (server_run home seal (server_start home seal)
     [SvCode header None (Some (asc ''::ffff:10.77.0.1''))]))"
  "parse_ip (asc ''::ffff:10.77.0.1'') = parse_ip (cf_server_ip home)"
proof -
  have p: "parse_ip (asc ''::ffff:10.77.0.1'') = Some [10, 77, 0, 1]" by (rule parse_ip_examples)
  have "in_network ([10, 77, 0, 0], 24) (Some [10, 77, 0, 1])" by (simp add: net_eval)
  then show "CodeMade (seal 1) \<in> set (sv_out (server_run home seal (server_start home seal)
     [SvCode header None (Some (asc ''::ffff:10.77.0.1''))]))"
    using home_network
    by (simp add: guarded_def admin_header create_code_def server_start_def server_boot_def no_state_def
        Let_def sv_emit_def p) (simp add: home_def)
  show "parse_ip (asc ''::ffff:10.77.0.1'') = parse_ip (cf_server_ip home)"
    unfolding p by (simp add: home_def net_eval)
qed

definition example_join :: "server_event list" where
  "example_join =
     [SvCode header None (Some []),
      SvJoin (Some new_pc) \<lparr>wg_key = Some [], wg_routes = Some one_peer, wg_set = True\<rparr> True, SvRestart]"

lemma devices_stay_distinct_witness:
  "distinct (map sd_id (sv_devices (server_run home seal (server_start home seal) example_join)))
    \<and> distinct (map sd_ip (sv_devices (server_run home seal (server_start home seal) example_join)))
    \<and> distinct (map sd_key (sv_devices (server_run home seal (server_start home seal) example_join)))
    \<and> distinct (map sd_token (sv_devices (server_run home seal (server_start home seal) example_join)))
    \<and> distinct (map fst (joins (sv_out (server_run home seal (server_start home seal) example_join))))"
  by (rule devices_stay_distinct [OF seal_distinct])

definition waiting :: server where
  "waiting = server_run home seal (server_start home seal) [SvCode header None (Some (asc ''10.77.0.9''))]"

lemma example_route:
  "sv_out (join_device home seal 0 (Some new_pc) \<lparr>wg_key = Some [], wg_routes = Some one_peer, wg_set = False\<rparr> True waiting)
   = sv_out waiting @ [WgSet wire_key (asc ''10.77.0.9''), Replied 500]"
proof -
  have r: "filter (\<lambda>(k, r). text_contains (route_of (asc ''10.77.0.9'')) r) (route_lines one_peer) = []"
    by (simp add: route_eval)
  have "wire_key \<noteq> []" by (simp add: wire_key_def js_eval)
  then show ?thesis
    using r new_pc_ok nine_in_network home_network
    by (simp add: waiting_def guarded_def admin_header create_code_def join_device_def join_address_def server_start_def
        server_boot_def first_state_def no_state_def Let_def sv_emit_def)
      (simp add: home_def js_eval seal_def new_pc_def cloud_device_def Let_def sv_emit_def)
qed

lemma join_takes_no_route_witness: "\<not> mentions one_peer (asc ''10.77.0.9'')"
  by (rule join_takes_no_route [OF _ _ example_route]) (simp_all add: one_address_def route_eval)

end
