(* ===== verification/Server_Policy.thy ===== *)
theory Server_Policy
  imports Server_Devices
begin

text \<open>
  The policy dialer against its specification: what a dial does is a function of the policy in force when it
  starts, of the devices known then, and of the outcomes of its attempts, however dials, policy changes,
  restarts and everything else interleave.
\<close>

section \<open>Specification\<close>

text \<open>The attempts of dial \<open>n\<close>, given its policy, its exits and the outcomes of its attempts.\<close>

fun dial_trace :: "nat \<Rightarrow> policy \<Rightarrow> sdevice list \<Rightarrow> bool list \<Rightarrow> server_out list" where
  "dial_trace n p exits [] = []"
| "dial_trace n p (x # xs) (ok # oks) =
     ViaExit n x ok # (if ok then [DialEnded n True] else dial_trace n p xs oks)"
| "dial_trace n p [] (ok # oks) =
     (if po_failure p = asc ''direct'' then [ViaDirect n ok, DialEnded n ok] else [DialEnded n False])"

fun dial_of :: "server_out \<Rightarrow> nat option" where
  "dial_of (ViaExit n x ok) = Some n"
| "dial_of (ViaDirect n ok) = Some n"
| "dial_of (DialEnded n ok) = Some n"
| "dial_of _ = None"

text \<open>What dial \<open>n\<close> did.\<close>

definition dial_log :: "nat \<Rightarrow> server_out list \<Rightarrow> server_out list" where
  "dial_log n os = filter (\<lambda>x. dial_of x = Some n) os"

text \<open>The policy stored for a source, the last one if there are several; without one everything is blocked.\<close>

definition policy_in_force :: "server \<Rightarrow> jstext \<Rightarrow> policy" where
  "policy_in_force s i =
     (case rev (filter (\<lambda>p. po_source p = i) (sv_policies s)) of [] \<Rightarrow> no_policy i | p # ps \<Rightarrow> p)"

text \<open>Its exits that exist, in their order.\<close>

definition exits_in_force :: "server \<Rightarrow> jstext \<Rightarrow> sdevice list" where
  "exits_in_force s i =
     map (the \<circ> sv_device s) (filter (\<lambda>e. e \<in> sd_id ` set (sv_devices s)) (po_exits (policy_in_force s i)))"

text \<open>The events that start a dial: a local program's, or one from a device that gives its own token.\<close>

definition starts_dial :: "server \<Rightarrow> server_event \<Rightarrow> jstext \<Rightarrow> bool" where
  "starts_dial s e i \<longleftrightarrow>
     e = SvLocal \<and> i = asc ''cloud''
     \<or> (\<exists>t d. e = SvProxy i t \<and> sv_device s i = Some d \<and> tok_equal (sd_token d) t)"

text \<open>The outcomes of the attempts of dial \<open>n\<close>, as long as the server runs.\<close>

definition outcomes :: "nat \<Rightarrow> server_event list \<Rightarrow> bool list" where
  "outcomes n es =
     concat (map (\<lambda>e. case e of SvDialled m ok \<Rightarrow> if m = n then [ok] else [] | _ \<Rightarrow> []) (takeWhile (\<lambda>e. e \<noteq> SvRestart) es))"

lemma outcomes_simps [simp]:
  "outcomes n [] = []" "outcomes n (SvRestart # es) = []"
  "outcomes n (SvDialled m ok # es) = (if m = n then ok # outcomes n es else outcomes n es)"
  by (simp_all add: outcomes_def)

lemma outcomes_other: "e \<noteq> SvRestart \<Longrightarrow> (\<And>ok. e \<noteq> SvDialled n ok) \<Longrightarrow> outcomes n (e # es) = outcomes n es"
  by (cases e) (auto simp: outcomes_def)

lemma dial_log_append [simp]: "dial_log n (xs @ ys) = dial_log n xs @ dial_log n ys"
  by (simp add: dial_log_def)

lemma dial_log_none: "\<forall>x \<in> set os. dial_of x = None \<Longrightarrow> dial_log n os = []"
  by (simp add: dial_log_def)

section \<open>What the other handlers leave alone\<close>

definition dial_frame :: "server \<Rightarrow> server \<Rightarrow> bool" where
  "dial_frame s s' \<longleftrightarrow>
     sv_dials s' = sv_dials s \<and> sv_next s \<le> sv_next s'
     \<and> (\<exists>os. sv_out s' = sv_out s @ os \<and> (\<forall>x \<in> set os. dial_of x = None))"

named_theorems dial_frames \<open>the handlers that do not dial\<close>

lemma dial_emit [dial_frames]: "\<forall>x \<in> set os. dial_of x = None \<Longrightarrow> dial_frame s (sv_emit os s)"
  by (simp add: dial_frame_def sv_emit_def)

lemma dial_frame_trans: "dial_frame s t \<Longrightarrow> dial_frame t u \<Longrightarrow> dial_frame s u"
  unfolding dial_frame_def by (metis Un_iff append_assoc le_trans set_append)

lemma dial_same:
  "sv_dials s' = sv_dials s \<Longrightarrow> sv_next s' = sv_next s \<Longrightarrow> sv_out s' = sv_out s \<Longrightarrow> dial_frame s s'"
  by (simp add: dial_frame_def)

lemma dial_login [dial_frames]: "dial_frame s (login cfg tok now ip pw s)"
  by (simp add: dial_frame_def login_def sv_emit_def Let_def split: option.split)

lemma dial_logout [dial_frames]: "dial_frame s (logout c s)"
  by (simp add: dial_frame_def logout_def sv_emit_def split: option.split)

lemma dial_code [dial_frames]: "dial_frame s (create_code cfg tok now ip s)"
  by (auto simp: dial_frame_def server_defs Let_def split: option.splits)

lemma dial_heartbeat [dial_frames]: "dial_frame s (heartbeat now h v saved s)"
  by (auto simp: dial_frame_def server_defs Let_def split: option.splits)

lemma dial_update_device [dial_frames]: "dial_frame s (update_device now i v saved s)"
  by (auto simp: dial_frame_def server_defs Let_def split: option.splits)

lemma dial_put_policy [dial_frames]: "dial_frame s (put_policy now i p saved s)"
  by (auto simp: dial_frame_def server_defs Let_def split: option.splits)

lemma dial_put_mapping [dial_frames]: "dial_frame s (put_mapping cfg tok m s)"
  by (auto simp: dial_frame_def server_defs server_net_defs Let_def split: option.splits)

lemma dial_delete_mapping [dial_frames]: "dial_frame s (delete_mapping now i saved s)"
  by (auto simp: dial_frame_def server_defs server_net_defs Let_def split: option.splits)

lemma dial_listened [dial_frames]: "dial_frame s (listened cfg ok e s)"
  by (auto simp: dial_frame_def server_defs server_net_defs Let_def
      split: option.splits fwd_task.splits list.splits prod.splits sum.splits)

lemma dial_committed [dial_frames]: "dial_frame s (committed now saved s)"
  by (auto simp: dial_frame_def server_defs server_net_defs Let_def split: option.splits fwd_task.splits)

lemma dial_restore [dial_frames]: "dial_frame s (restore_mappings s)"
  by (simp add: dial_frame_def restore_mappings_def)

lemma dial_reconcile [dial_frames]: "dial_frame s (reconcile_peers t s)"
  by (auto simp: dial_frame_def server_defs server_net_defs split: option.splits)

lemma dial_probed [dial_frames]: "dial_frame s (probed hand transfer d status s)"
  by (auto simp: dial_frame_def server_defs server_net_defs Let_def split: prod.splits)

lemma dial_persist [dial_frames]: "dial_frame s (persist saved s)"
  by (simp add: dial_frame_def persist_def)

lemma dial_join_admit: "dial_frame s (join_admit tok now v ip adopted saved s)"
  by (auto simp: dial_frame_def server_defs Let_def)

lemma dial_join [dial_frames]: "dial_frame s (join_device cfg tok now body wg saved s)"
proof (cases rule: join_cases [of cfg tok now body wg saved s])
  case (entered v ip routes os adopted)
  have "dial_frame s (sv_emit os s)" by (rule dial_emit) (simp add: entered(5))
  then show ?thesis unfolding entered(6) by (rule dial_frame_trans) (rule dial_join_admit)
qed (simp_all add: dial_emit)

lemma dial_guarded: "(\<And>t. dial_frame t (f t)) \<Longrightarrow> dial_frame s (guarded cfg now h c f s)"
  by (simp add: guarded_def dial_emit)

fun dials :: "server_event \<Rightarrow> bool" where
  "dials (SvProxy i t) = True"
| "dials SvLocal = True"
| "dials (SvDialled n ok) = True"
| "dials SvRestart = True"
| "dials _ = False"

lemma dial_frame_step: "\<not> dials e \<Longrightarrow> dial_frame s (server_step cfg tok s e)"
proof -
  assume "\<not> dials e"
  moreover have "dial_frame s (reply 200 s)" for s by (simp add: dial_emit)
  ultimately show ?thesis by (cases e) (auto intro: dial_frames dial_guarded simp: dial_same)
qed

section \<open>Dials\<close>

text \<open>Numbers of dials are given once: those not given yet have done nothing.\<close>

definition dial_inv :: "server \<Rightarrow> bool" where
  "dial_inv s \<longleftrightarrow> ids_ok (sv_dials s) (sv_next s) \<and> (\<forall>n \<ge> sv_next s. dial_log n (sv_out s) = [])"

lemma ids_ok_more: "ids_ok xs n \<Longrightarrow> n \<le> m \<Longrightarrow> ids_ok xs m"
  by (auto simp: ids_ok_def intro: less_le_trans)

lemma ids_ok_update: "ids_ok al n \<Longrightarrow> map_of al i = Some x \<Longrightarrow> ids_ok (AList.update i y al) n"
  by (auto simp: ids_ok_def distinct_update dom_update [unfolded dom_map_of_conv_image_fst]
      dest!: map_of_SomeD)

lemma ids_ok_known: "ids_ok al n \<Longrightarrow> map_of al i = Some x \<Longrightarrow> i < n"
  by (auto simp: ids_ok_def dest!: map_of_SomeD)

lemma map_of_fresh: "n \<notin> fst ` set al \<Longrightarrow> map_of (al @ [(n, d)]) k = (if k = n then Some d else map_of al k)"
  by (induction al) auto

lemma dial_inv_frame: "dial_inv s \<Longrightarrow> dial_frame s s' \<Longrightarrow> dial_inv s'"
  unfolding dial_inv_def dial_frame_def by (auto simp: dial_log_none intro: ids_ok_more)

text \<open>The start: the model's lookups are those of the specification.\<close>

lemma policy_for_last:
  "policy_for ps i p0 = (case rev (filter (\<lambda>p. po_source p = i) ps) of [] \<Rightarrow> p0 | p # _ \<Rightarrow> p)"
  by (induction ps rule: rev_induct) (simp_all add: policy_for_def)

lemma dial_policy_in_force:
  "po_failure (dial_policy i s) = po_failure (policy_in_force s i)"
  "po_exits (dial_policy i s) = po_exits (policy_in_force s i)"
  by (simp_all add: dial_policy_def policy_for_last policy_in_force_def no_policy_def split: list.split)

lemma exits_found: "List.map_filter (sv_device s) (po_exits (dial_policy i s)) = exits_in_force s i"
proof -
  have "sv_device s e \<noteq> None \<longleftrightarrow> e \<in> sd_id ` set (sv_devices s)" for e
    by (auto simp: sv_device_def find_None_iff image_iff)
  then have "(\<lambda>e. e \<in> sd_id ` set (sv_devices s)) = (\<lambda>e. sv_device s e \<noteq> None)" by (simp add: fun_eq_iff)
  then show ?thesis by (simp add: exits_in_force_def List.map_filter_def dial_policy_in_force comp_def)
qed

lemma dial_start_state:
  "dial_start i s = s\<lparr>sv_next := Suc (sv_next s), sv_dials := sv_dials s @
     [(sv_next s, \<lparr>dl_source = i, dl_policy = dial_policy i s, dl_exits = exits_in_force s i\<rparr>)]\<rparr>"
  by (simp add: dial_start_def Let_def exits_found)

lemma trace_policy: "po_failure p = po_failure q \<Longrightarrow> dial_trace n p exits oks = dial_trace n q exits oks"
  by (induction n p exits oks rule: dial_trace.induct) auto

lemma starting_step: "starts_dial s e i \<Longrightarrow> server_step cfg tok s e = dial_start i s"
  by (auto simp: starts_dial_def proxy_request_def)

lemma not_starting_step:
  assumes "\<nexists>i. starts_dial s e i" "e \<in> {SvProxy i t, SvLocal}"
  shows "server_step cfg tok s e = reply 407 s"
  using assms by (auto simp: starts_dial_def proxy_request_def split: option.split)

text \<open>An attempt: what dial \<open>n\<close> puts out, and that it touches no other dial.\<close>

lemma dial_step_run:
  assumes "map_of (sv_dials s) n = Some d" "distinct (map fst (sv_dials s))"
  shows "sv_out (dial_step n ok s) = sv_out s @ dial_trace n (dl_policy d) (dl_exits d) [ok]"
    and "sv_next (dial_step n ok s) = sv_next s"
    and "map_of (sv_dials (dial_step n ok s)) n =
      (case dl_exits d of [] \<Rightarrow> None | x # xs \<Rightarrow> if ok then None else Some (d\<lparr>dl_exits := xs\<rparr>))"
    and "sv_dials (dial_step n ok s) = AList.delete n (sv_dials s)
      \<or> (\<exists>d'. sv_dials (dial_step n ok s) = AList.update n d' (sv_dials s))"
  using assms
  by (auto simp: dial_step_def dial_end_def set_active_def sv_emit_def Let_def delete_conv' update_conv' split: list.split)

lemma dial_step_none: "map_of (sv_dials s) n = None \<Longrightarrow> dial_step n ok s = s"
  by (simp add: dial_step_def)

lemma trace_log: "dial_log k (dial_trace n p exits oks) = (if k = n then dial_trace n p exits oks else [])"
proof -
  have "x \<in> set (dial_trace n p exits oks) \<Longrightarrow> dial_of x = Some n" for x
    by (induction n p exits oks rule: dial_trace.induct) (auto split: if_splits)
  then show ?thesis by (auto simp: dial_log_def filter_id_conv filter_empty_conv)
qed

lemma dial_step_other:
  assumes "distinct (map fst (sv_dials s))" "k \<noteq> n"
  shows "dial_log k (sv_out (dial_step n ok s)) = dial_log k (sv_out s)"
    and "map_of (sv_dials (dial_step n ok s)) k = map_of (sv_dials s) k"
proof -
  show "dial_log k (sv_out (dial_step n ok s)) = dial_log k (sv_out s)"
    using assms by (cases "map_of (sv_dials s) n") (simp_all add: dial_step_none dial_step_run(1) trace_log)
  show "map_of (sv_dials (dial_step n ok s)) k = map_of (sv_dials s) k"
  proof (cases "map_of (sv_dials s) n")
    case (Some d)
    from dial_step_run(4) [OF Some assms(1), of ok] show ?thesis using assms(2) by (auto simp: delete_conv' update_conv')
  qed (simp add: dial_step_none)
qed

lemma dial_inv_step: "dial_inv s \<Longrightarrow> dial_inv (dial_step n ok s)"
proof (cases "map_of (sv_dials s) n")
  case (Some d)
  assume inv: "dial_inv s"
  then have ids: "ids_ok (sv_dials s) (sv_next s)" and d: "distinct (map fst (sv_dials s))"
    by (simp_all add: dial_inv_def ids_ok_def)
  have "ids_ok (sv_dials (dial_step n ok s)) (sv_next s)"
    using dial_step_run(4) [OF Some d, of ok] ids_ok_delete [OF ids] ids_ok_update [OF ids Some] by metis
  moreover have "dial_log k (sv_out (dial_step n ok s)) = []" if "sv_next s \<le> k" for k
    using that inv ids_ok_known [OF ids Some] dial_step_other(1) [OF d, of k n ok] by (auto simp: dial_inv_def)
  ultimately show ?thesis by (simp add: dial_inv_def dial_step_run(2) [OF Some d])
qed (simp add: dial_step_none)

lemma dial_inv_start: "dial_inv s \<Longrightarrow> dial_inv (dial_start i s)"
  by (simp add: dial_inv_def dial_start_state)

lemma dial_inv_server:
  assumes inv: "dial_inv s"
  shows "dial_inv (server_step cfg tok s e)"
proof (cases "dials e")
  case True
  have "dial_inv (reply c s)" for c by (rule dial_inv_frame [OF inv]) (simp add: dial_emit)
  then have "dial_inv (proxy_request i t s)" for i t
    using dial_inv_start [OF inv] by (simp add: proxy_request_def split: option.split)
  moreover have "dial_inv (restart cfg tok s)"
    using inv by (simp add: dial_inv_def restart_def server_boot_def Let_def)
  ultimately show ?thesis using True dial_inv_start [OF inv] dial_inv_step [OF inv] by (cases e) auto
qed (rule dial_inv_frame [OF inv dial_frame_step])

interpretation dialling: event_system "server_step cfg tok" dial_inv for cfg tok
  by unfold_locales (rule dial_inv_server)

lemma dial_inv_reach: "dial_inv (server_run cfg tok (server_start cfg tok) es)"
  by (rule dialling.run_inv) (simp add: dial_inv_def server_start_def server_boot_def Let_def dial_log_def)

text \<open>A number that is given and not in use says no more.\<close>

lemma dial_over:
  "dial_inv s \<Longrightarrow> map_of (sv_dials s) n = None \<Longrightarrow> n < sv_next s \<Longrightarrow>
     dial_log n (sv_out (server_run cfg tok s es)) = dial_log n (sv_out s)"
proof (induction es arbitrary: s)
  case (Cons e es)
  let ?t = "server_step cfg tok s e"
  have d: "distinct (map fst (sv_dials s))" using Cons.prems(1) by (simp add: dial_inv_def ids_ok_def)
  have start: "map_of (sv_dials (dial_start i s)) n = None \<and> n < sv_next (dial_start i s)
      \<and> dial_log n (sv_out (dial_start i s)) = dial_log n (sv_out s)" for i
    using Cons.prems by (simp add: dial_start_state map_add_def)
  have "map_of (sv_dials ?t) n = None \<and> n < sv_next ?t \<and> dial_log n (sv_out ?t) = dial_log n (sv_out s)"
  proof (cases "dials e")
    case False
    from dial_frame_step [OF this, of s cfg tok] show ?thesis
      using Cons.prems by (auto simp: dial_frame_def dial_log_none)
  next
    case True
    have "map_of (sv_dials (dial_step m ok s)) n = None \<and> n < sv_next (dial_step m ok s)
        \<and> dial_log n (sv_out (dial_step m ok s)) = dial_log n (sv_out s)" for m ok
    proof (cases "map_of (sv_dials s) m")
      case (Some x)
      then have "n \<noteq> m" using Cons.prems(2) by auto
      then show ?thesis using dial_step_other [OF d] dial_step_run(2) [OF Some d] Cons.prems by simp
    qed (use Cons.prems in \<open>simp add: dial_step_none\<close>)
    with True start Cons.prems show ?thesis
      by (cases e) (auto simp: proxy_request_def sv_emit_def dial_log_def restart_def server_boot_def Let_def split: option.split)
  qed
  with Cons.IH [OF dial_inv_server [OF Cons.prems(1), of cfg tok e]] show ?case by (simp del: server_step.simps)
qed simp

lemma dial_restarted: "map_of (sv_dials (restart cfg tok s)) n = None" "sv_next (restart cfg tok s) = sv_next s"
  "sv_out (restart cfg tok s) = sv_out s"
  by (simp_all add: restart_def server_boot_def Let_def)

text \<open>A dial under way goes on exactly as its policy says.\<close>

lemma dial_runs:
  "dial_inv s \<Longrightarrow> map_of (sv_dials s) n = Some d \<Longrightarrow>
     dial_log n (sv_out (server_run cfg tok s es)) = dial_log n (sv_out s) @ dial_trace n (dl_policy d) (dl_exits d) (outcomes n es)"
proof (induction es arbitrary: s d)
  case (Cons e es)
  let ?t = "server_step cfg tok s e"
  have dist: "distinct (map fst (sv_dials s))" and less: "n < sv_next s"
    using Cons.prems ids_ok_known [of "sv_dials s" "sv_next s" n d] by (simp_all add: dial_inv_def ids_ok_def)
  have inv: "dial_inv ?t" by (rule dial_inv_server [OF Cons.prems(1)])
  have go: "server_run cfg tok s (e # es) = server_run cfg tok ?t es" by simp
  have same: ?case if "map_of (sv_dials ?t) n = Some d" "dial_log n (sv_out ?t) = dial_log n (sv_out s)"
    "outcomes n (e # es) = outcomes n es"
    using Cons.IH [OF inv that(1)] that(2,3) go by simp
  have start: "map_of (sv_dials (dial_start i s)) n = Some d" for i
    using Cons.prems(2) less by (simp add: dial_start_state map_add_def)
  show ?case
  proof (cases "dials e")
    case False
    then have "outcomes n (e # es) = outcomes n es" by (intro outcomes_other) auto
    with dial_frame_step [OF False, of s cfg tok] Cons.prems(2) show ?thesis
      by (intro same) (auto simp: dial_frame_def dial_log_none)
  next
    case True
    show ?thesis
    proof (cases e)
      case SvRestart
      from dial_over [OF inv, of n cfg tok es] less show ?thesis by (simp add: SvRestart dial_restarted)
    next
      case (SvDialled m ok)
      show ?thesis
      proof (cases "m = n")
        case False
        then show ?thesis using SvDialled dial_step_other [OF dist] Cons.prems(2) by (intro same) simp_all
      next
        case True
        note run = dial_step_run [OF Cons.prems(2) dist, of ok]
        have t: "?t = dial_step n ok s" by (simp add: SvDialled True)
        show ?thesis
        proof (cases "map_of (sv_dials ?t) n")
          case None
          have "dial_log n (sv_out (server_run cfg tok ?t es)) = dial_log n (sv_out ?t)"
            by (rule dial_over [OF inv None]) (simp add: t run(2) less)
          moreover have "dial_trace n (dl_policy d) (dl_exits d) [ok] = dial_trace n (dl_policy d) (dl_exits d) (ok # outcomes n es)"
            using None by (cases "dl_exits d") (simp_all add: t run(3) split: if_splits)
          ultimately show ?thesis unfolding go by (simp add: t run(1) trace_log SvDialled True)
        next
          case (Some d')
          then obtain x xs where x: "dl_exits d = x # xs" "\<not> ok" "d' = d\<lparr>dl_exits := xs\<rparr>"
            by (auto simp: t run(3) split: list.splits if_splits)
          have "dial_log n (sv_out ?t) = dial_log n (sv_out s) @ [ViaExit n x False]"
            unfolding t run(1) using x by (simp add: dial_log_def)
          with Cons.IH [OF inv Some] x show ?thesis unfolding go by (simp add: SvDialled True)
        qed
      qed
    next
      case SvLocal
      then show ?thesis using start by (intro same) (simp_all add: dial_start_state outcomes_other)
    next
      case (SvProxy i t)
      then show ?thesis
        using start [of i] Cons.prems(2)
        by (intro same) (auto simp: proxy_request_def dial_start_state sv_emit_def dial_log_def outcomes_other split: option.split)
    qed (use True in auto)
  qed
qed simp

text \<open>What a dial started in state \<open>s\<close> puts out.\<close>

lemma started_dial:
  fixes tok cfg pre
  defines "s \<equiv> server_run cfg tok (server_start cfg tok) pre"
  assumes "starts_dial s e i"
  shows "dial_log (sv_next s) (sv_out (server_run cfg tok (server_start cfg tok) (pre @ e # post)))
    = dial_trace (sv_next s) (policy_in_force s i) (exits_in_force s i) (outcomes (sv_next s) post)"
proof -
  let ?d = "\<lparr>dl_source = i, dl_policy = dial_policy i s, dl_exits = exits_in_force s i\<rparr>"
  have inv: "dial_inv s" unfolding s_def by (rule dial_inv_reach)
  have "sv_next s \<notin> fst ` set (sv_dials s)" using inv by (auto simp: dial_inv_def ids_ok_def)
  then have "map_of (sv_dials (dial_start i s)) (sv_next s) = Some ?d"
    by (simp add: dial_start_state map_of_fresh del: map_of_append)
  from dial_runs [OF dial_inv_start [OF inv] this, of cfg tok post] inv
  have "dial_log (sv_next s) (sv_out (server_run cfg tok (dial_start i s) post)) =
      dial_trace (sv_next s) (dial_policy i s) (exits_in_force s i) (outcomes (sv_next s) post)"
    by (simp add: dial_start_state dial_inv_def)
  then show ?thesis
    using starting_step [OF assms(2), of cfg tok] trace_policy [OF dial_policy_in_force(1)]
    by (simp add: s_def del: server_step.simps)
qed

text \<open>
  C4: a dial of a local program, or of a device that gives its own token, follows the policy stored for its
  source when it starts: whatever happens meanwhile, what it does is to try the exits of that policy that
  exist, in their order, each once, up to the first that connects; only when all have failed and the policy
  says so it connects directly, else it fails.
\<close>

theorem dials_follow_policy:
  assumes "starts_dial (server_run cfg tok (server_start cfg tok) pre) e i"
    and "n = sv_next (server_run cfg tok (server_start cfg tok) pre)"
  shows "dial_log n (sv_out (server_run cfg tok (server_start cfg tok) (pre @ e # post)))
    = dial_trace n (policy_in_force (server_run cfg tok (server_start cfg tok) pre) i)
        (exits_in_force (server_run cfg tok (server_start cfg tok) pre) i) (outcomes n post)"
  using started_dial [OF assms(1)] assms(2) by simp

section \<open>Direct connections\<close>

lemma known_dial:
  fixes tok cfg
  defines "run_of \<equiv> server_run cfg tok (server_start cfg tok)"
  shows "map_of (sv_dials (run_of es)) n \<noteq> None \<or> dial_log n (sv_out (run_of es)) \<noteq> [] \<Longrightarrow>
    \<exists>pre e post i. es = pre @ e # post \<and> starts_dial (run_of pre) e i \<and> n = sv_next (run_of pre)"
proof (induction es rule: rev_induct)
  case Nil
  then show ?case by (simp add: run_of_def server_start_def server_boot_def Let_def dial_log_def)
next
  case (snoc e es)
  let ?s = "run_of es"
  have st: "run_of (es @ [x]) = server_step cfg tok ?s x" for x by (simp add: run_of_def)
  have inv: "dial_inv ?s" unfolding run_of_def by (rule dial_inv_reach)
  then have dist: "distinct (map fst (sv_dials ?s))" by (simp add: dial_inv_def ids_ok_def)
  have more: ?case if "map_of (sv_dials ?s) n \<noteq> None \<or> dial_log n (sv_out ?s) \<noteq> []"
  proof -
    from snoc.IH [OF that] obtain pre x post i where "es = pre @ x # post" "starts_dial (run_of pre) x i" "n = sv_next (run_of pre)"
      by blast
    then have "es @ [e] = pre @ x # (post @ [e])" "starts_dial (run_of pre) x i" "n = sv_next (run_of pre)" by auto
    then show ?thesis by blast
  qed
  consider (start) i where "starts_dial ?s e i" | (dialled) m ok where "e = SvDialled m ok" | (down) "e = SvRestart"
    | (frame) "dial_frame ?s (server_step cfg tok ?s e)"
  proof (cases "dials e")
    case True
    have quiet: "dial_frame ?s (server_step cfg tok ?s e)" if "\<nexists>i. starts_dial ?s e i" "e \<in> {SvProxy j t, SvLocal}" for j t
      unfolding not_starting_step [OF that] by (simp add: dial_emit)
    show ?thesis
    proof (cases "\<exists>m ok. e = SvDialled m ok \<or> e = SvRestart \<or> (\<exists>i. starts_dial ?s e i)")
      case True
      then show ?thesis using that by blast
    next
      case False
      then obtain j t where "e \<in> {SvProxy j t, SvLocal}" using True by (cases e) auto
      with quiet False that(4) show ?thesis by blast
    qed
  qed (use dial_frame_step that in blast)
  then show ?case
  proof cases
    case start
    show ?thesis
    proof (cases "n = sv_next ?s")
      case True
      with start have "es @ [e] = es @ e # []" "starts_dial (run_of es) e i" "n = sv_next (run_of es)" by simp_all
      then show ?thesis by blast
    next
      case False
      have "n \<notin> {sv_next ?s}" using False by simp
      with snoc.prems have "map_of (sv_dials ?s) n \<noteq> None \<or> dial_log n (sv_out ?s) \<noteq> []"
        unfolding st starting_step [OF start] by (auto simp: dial_start_state map_add_def split: if_splits option.splits)
      then show ?thesis by (rule more)
    qed
  next
    case (dialled m ok)
    show ?thesis
    proof (cases "m = n \<and> map_of (sv_dials ?s) n \<noteq> None")
      case False
      have "map_of (sv_dials ?s) n \<noteq> None \<or> dial_log n (sv_out ?s) \<noteq> []"
      proof (cases "m = n")
        case True
        with False have "dial_step m ok ?s = ?s" by (simp add: dial_step_none)
        with snoc.prems show ?thesis by (simp add: st dialled)
      next
        case ne: False
        with snoc.prems dial_step_other [OF dist, of n m ok] show ?thesis by (simp add: st dialled)
      qed
      then show ?thesis by (rule more)
    qed (use more in blast)
  next
    case down
    have "dial_log n (sv_out ?s) \<noteq> []" using snoc.prems unfolding st down by (simp add: dial_restarted)
    then show ?thesis using more by blast
  next
    case frame
    then have "map_of (sv_dials ?s) n \<noteq> None \<or> dial_log n (sv_out ?s) \<noteq> []"
      using snoc.prems unfolding st by (auto simp: dial_frame_def dial_log_none)
    then show ?thesis by (rule more)
  qed
qed

lemma trace_direct:
  "ViaDirect m ok \<in> set (dial_trace n p exits oks) \<Longrightarrow>
     po_failure p = asc ''direct'' \<and> dial_trace n p exits oks = map (\<lambda>x. ViaExit n x False) exits @ [ViaDirect n ok, DialEnded n ok]"
  by (induction n p exits oks rule: dial_trace.induct) (auto split: if_splits)

text \<open>
  C20: nothing connects directly but a dial of a local program, or of a device that gave its own token,
  whose source had a policy that says so stored when it started; and all the dial did is to try every exit
  of that policy that existed, in their order, see each of them fail, and only then connect directly.
\<close>

theorem direct_only_by_policy:
  assumes "ViaDirect n ok \<in> set (sv_out (server_run cfg tok (server_start cfg tok) es))"
  shows "\<exists>pre e post i s. es = pre @ e # post \<and> s = server_run cfg tok (server_start cfg tok) pre
    \<and> starts_dial s e i \<and> n = sv_next s
    \<and> (\<exists>p \<in> set (sv_policies s). p = policy_in_force s i \<and> po_source p = i \<and> po_failure p = asc ''direct'')
    \<and> dial_log n (sv_out (server_run cfg tok (server_start cfg tok) es))
        = map (\<lambda>x. ViaExit n x False) (exits_in_force s i) @ [ViaDirect n ok, DialEnded n ok]"
proof -
  have mem: "ViaDirect n ok \<in> set (dial_log n (sv_out (server_run cfg tok (server_start cfg tok) es)))"
    using assms by (simp add: dial_log_def)
  then have "dial_log n (sv_out (server_run cfg tok (server_start cfg tok) es)) \<noteq> []" by (metis empty_iff empty_set)
  then obtain pre e post i where p: "es = pre @ e # post" "starts_dial (server_run cfg tok (server_start cfg tok) pre) e i"
    "n = sv_next (server_run cfg tok (server_start cfg tok) pre)"
    using known_dial by blast
  let ?s = "server_run cfg tok (server_start cfg tok) pre"
  have "ViaDirect n ok \<in> set (dial_trace n (policy_in_force ?s i) (exits_in_force ?s i) (outcomes n post))"
    using mem unfolding p(1) started_dial [OF p(2), folded p(3)] .
  from trace_direct [OF this] have d: "po_failure (policy_in_force ?s i) = asc ''direct''"
    "dial_log n (sv_out (server_run cfg tok (server_start cfg tok) es))
        = map (\<lambda>x. ViaExit n x False) (exits_in_force ?s i) @ [ViaDirect n ok, DialEnded n ok]"
    unfolding p(1) started_dial [OF p(2), folded p(3)] by simp_all
  have "policy_in_force ?s i = no_policy i \<or> policy_in_force ?s i \<in> set (sv_policies ?s) \<and> po_source (policy_in_force ?s i) = i"
  proof (cases "rev (filter (\<lambda>p. po_source p = i) (sv_policies ?s))")
    case (Cons q qs)
    then have "q \<in> set (rev (filter (\<lambda>p. po_source p = i) (sv_policies ?s)))" by (metis list.set_intros(1))
    then have "q \<in> set (sv_policies ?s) \<and> po_source q = i" by simp
    with Cons show ?thesis by (simp add: policy_in_force_def)
  qed (simp add: policy_in_force_def)
  with d(1) have "policy_in_force ?s i \<in> set (sv_policies ?s) \<and> po_source (policy_in_force ?s i) = i"
    by (auto simp: no_policy_def)
  with p d show ?thesis by blast
qed

section \<open>Examples\<close>

definition exit_device :: sdevice where
  "exit_device = (joined_device (seal 1) (seal 2) new_pc (asc ''10.77.0.9''))\<lparr>sd_proxy_port := 1080\<rparr>"

definition cloud_policy :: "string \<Rightarrow> jstext list \<Rightarrow> policy" where
  "cloud_policy f exits = \<lparr>po_source = asc ''cloud'', po_exits = exits, po_failure = asc f, po_active = [], po_nil = False\<rparr>"

definition with_exit :: server where
  "with_exit = server_boot home seal 3 0 0
     ([cloud_device home (seal 0), exit_device], [cloud_policy ''block'' [seal 1]], [], []) []"

lemma with_exit_devices:
  "sv_device with_exit (seal 1) = Some exit_device"
  "sv_device with_exit (asc ''cloud'') = Some (cloud_device home (seal 0))"
  by (simp_all add: with_exit_def server_boot_def first_state_def Let_def sv_device_def cloud_device_def
      exit_device_def joined_device_def seal_def js_eval)

text \<open>A dial that was under way when the policy changed enters an exit the new policy does not have.\<close>

lemma active_outlives_policy:
  "sv_policies (server_run home seal with_exit
     [SvLocal, SvPolicy header None (asc ''cloud'') (Some (cloud_policy ''block'' [])) True, SvDialled 0 True])
   = [(cloud_policy ''block'' [])\<lparr>po_active := seal 1\<rparr>]"
proof -
  have w: "sv_policies with_exit = [cloud_policy ''block'' [seal 1]]" "sv_next with_exit = 0" "sv_dials with_exit = []"
    by (simp_all add: with_exit_def server_boot_def first_state_def Let_def)
  let ?s = "dial_start (asc ''cloud'') with_exit"
  have s: "sv_policies ?s = [cloud_policy ''block'' [seal 1]]"
    "sv_dials ?s = [(0, \<lparr>dl_source = asc ''cloud'', dl_policy = cloud_policy ''block'' [seal 1], dl_exits = [exit_device]\<rparr>)]"
    by (simp_all add: dial_start_def w dial_policy_def policy_for_def cloud_policy_def sv_emit_def Let_def
        with_exit_devices List.map_filter_simps [unfolded One_nat_def] flip: One_nat_def)
  have "sv_devices ?s = sv_devices with_exit" by (simp add: dial_start_def sv_emit_def Let_def)
  then have dev: "sv_device ?s i = sv_device with_exit i" for i by (simp add: sv_device_def)
  have "sd_id exit_device = seal 1" by (simp add: exit_device_def joined_device_def)
  then show ?thesis
    by (simp add: guarded_def admin_header put_policy_def s dev with_exit_devices cloud_policy_def sv_emit_def Let_def
        persist_def store_def audit_def replace_policy_def dial_step_def dial_end_def set_active_def)
qed

definition direct_start :: "server_event list" where
  "direct_start = [SvPolicy header None (asc ''cloud'') (Some (cloud_policy ''direct'' [])) True]"

lemma direct_state:
  fixes s
  defines "s \<equiv> server_run home seal (server_start home seal) direct_start"
  shows "sv_next s = 0" "sv_policies s = [cloud_policy ''direct'' []]" "exits_in_force s (asc ''cloud'') = []"
    "policy_in_force s (asc ''cloud'') = cloud_policy ''direct'' []"
proof -
  have d: "sv_device (server_start home seal) (asc ''cloud'') = Some (cloud_device home (seal 0))"
    by (simp add: server_start_def server_boot_def first_state_def no_state_def Let_def sv_device_def cloud_device_def)
  have "sv_policies (server_start home seal) = []" "sv_next (server_start home seal) = 0" "sv_clock (server_start home seal) = 0"
    by (simp_all add: server_start_def server_boot_def first_state_def no_state_def Let_def)
  then have "sv_next s = 0 \<and> sv_policies s = [cloud_policy ''direct'' []]"
    by (simp add: s_def direct_start_def guarded_def admin_header put_policy_def d cloud_policy_def sv_emit_def Let_def
        persist_def audit_def replace_policy_def)
  then show "sv_next s = 0" "sv_policies s = [cloud_policy ''direct'' []]" "exits_in_force s (asc ''cloud'') = []"
    "policy_in_force s (asc ''cloud'') = cloud_policy ''direct'' []"
    by (simp_all add: exits_in_force_def policy_in_force_def cloud_policy_def)
qed

lemma dials_follow_policy_witness:
  "dial_log 0 (sv_out (server_run home seal (server_start home seal) (direct_start @ [SvLocal, SvDialled 0 True])))
     = [ViaDirect 0 True, DialEnded 0 True]"
  using dials_follow_policy [of home seal direct_start SvLocal "asc ''cloud''" 0 "[SvDialled 0 True]"]
  by (simp add: starts_dial_def direct_state cloud_policy_def del: server_step.simps)

lemma example_direct:
  "ViaDirect 0 True \<in> set (sv_out (server_run home seal (server_start home seal) (direct_start @ [SvLocal, SvDialled 0 True])))"
proof -
  have "ViaDirect 0 True \<in> set (dial_log 0 (sv_out (server_run home seal (server_start home seal) (direct_start @ [SvLocal, SvDialled 0 True]))))"
    using started_dial [of home seal direct_start SvLocal "asc ''cloud''" "[SvDialled 0 True]"]
    by (simp add: starts_dial_def direct_state cloud_policy_def del: server_step.simps)
  then show ?thesis by (simp add: dial_log_def)
qed

lemma direct_only_by_policy_witness:
  "\<exists>pre e post s i. direct_start @ [SvLocal, SvDialled 0 True] = pre @ e # post
     \<and> s = server_run home seal (server_start home seal) pre \<and> starts_dial s e i
     \<and> (\<exists>p \<in> set (sv_policies s). po_failure p = asc ''direct'')"
  using direct_only_by_policy [OF example_direct] by blast

end
