(* ===== verification/Server_Mappings.thy ===== *)
theory Server_Mappings
  imports Server_Policy
begin

text \<open>
  Port mappings and their listeners: ports are given out once, and the listeners that run are those of the
  stored mappings that are enabled, whatever the order of requests, failures and restarts.
\<close>

section \<open>The invariant\<close>

definition port_of :: "mapping \<Rightarrow> int \<times> bool" where
  "port_of m = (mp_listen m, mp_protocol m = asc ''udp'')"

text \<open>A mapping up to the error shown for it.\<close>

definition core :: "mapping \<Rightarrow> mapping" where
  "core m = m\<lparr>mp_error := []\<rparr>"

lemma same_port_of: "same_port x m \<longleftrightarrow> port_of x = port_of m"
  by (auto simp: same_port_def port_of_def)

lemma core_fields [simp]:
  "mp_id (core m) = mp_id m" "port_of (core m) = port_of m" "mp_enabled (core m) = mp_enabled m"
  by (simp_all add: core_def port_of_def)

lemma core_error [simp]: "core (m\<lparr>mp_error := e\<rparr>) = core m"
  by (simp add: core_def)

definition maps_ok :: "(nat \<Rightarrow> jstext) \<Rightarrow> nat \<Rightarrow> mapping list \<Rightarrow> bool" where
  "maps_ok tok made ms \<longleftrightarrow>
     distinct (map mp_id ms) \<and> distinct (map port_of ms) \<and> mp_id ` set ms \<subseteq> (\<lambda>n. take 12 (tok n)) ` {..<made}"

definition new_mapping :: "(nat \<Rightarrow> jstext) \<Rightarrow> server \<Rightarrow> mapping \<Rightarrow> bool" where
  "new_mapping tok s m \<longleftrightarrow> maps_ok tok (sv_made s) (sv_mappings s @ [m])"

definition task_ok :: "(nat \<Rightarrow> jstext) \<Rightarrow> server \<Rightarrow> bool" where
  "task_ok tok s \<longleftrightarrow>
     (case sv_task s of
        None \<Rightarrow> True
      | Some (Putting m) \<Rightarrow> new_mapping tok s m \<and> mp_enabled m
      | Some (Committing m l) \<Rightarrow> new_mapping tok s m \<and> (\<forall>n. l = Some n \<longrightarrow> map_of (sv_running s) n = Some m)
      | Some (Restoring ms) \<Rightarrow> core ` set ms \<subseteq> core ` set (sv_mappings s) \<and> (\<forall>m \<in> set ms. mp_enabled m))"

definition listeners_ok :: "server \<Rightarrow> bool" where
  "listeners_ok s \<longleftrightarrow>
     ids_ok (sv_running s) (sv_next s) \<and> distinct (map (port_of \<circ> snd) (sv_running s))
     \<and> (\<forall>n m. map_of (sv_running s) n = Some m \<longrightarrow>
          mp_enabled m \<and> (map_of (sv_forwards s) (mp_id m) = Some n \<or> sv_task s = Some (Committing m (Some n))))
     \<and> (\<forall>i n. map_of (sv_forwards s) i = Some n \<longrightarrow>
          (\<exists>m. map_of (sv_running s) n = Some m \<and> mp_id m = i \<and> core m \<in> core ` set (sv_mappings s)))"

definition mapping_inv :: "(nat \<Rightarrow> jstext) \<Rightarrow> server \<Rightarrow> bool" where
  "mapping_inv tok s \<longleftrightarrow>
     maps_ok tok (sv_made s) (sv_mappings s) \<and> maps_ok tok (sv_made s) (fst (snd (snd (sv_disk s))))
     \<and> task_ok tok s \<and> listeners_ok s"

lemma maps_ok_more: "maps_ok tok n ms \<Longrightarrow> n \<le> m \<Longrightarrow> maps_ok tok m ms"
  unfolding maps_ok_def by (meson image_mono lessThan_subset_iff order_trans)

section \<open>What the other handlers leave alone\<close>

definition map_frame :: "server \<Rightarrow> server \<Rightarrow> bool" where
  "map_frame s s' \<longleftrightarrow>
     sv_mappings s' = sv_mappings s \<and> sv_made s \<le> sv_made s' \<and> sv_next s \<le> sv_next s'
     \<and> fst (snd (snd (sv_disk s'))) \<in> {sv_mappings s, fst (snd (snd (sv_disk s)))}
     \<and> sv_running s' = sv_running s \<and> sv_forwards s' = sv_forwards s \<and> sv_task s' = sv_task s"

lemma mapping_inv_frame:
  assumes "mapping_inv tok s" "map_frame s s'"
  shows "mapping_inv tok s'"
proof -
  have f: "sv_mappings s' = sv_mappings s" "sv_made s \<le> sv_made s'" "sv_next s \<le> sv_next s'"
    "fst (snd (snd (sv_disk s'))) \<in> {sv_mappings s, fst (snd (snd (sv_disk s)))}"
    "sv_running s' = sv_running s" "sv_forwards s' = sv_forwards s" "sv_task s' = sv_task s"
    using assms(2) by (simp_all add: map_frame_def)
  have i: "maps_ok tok (sv_made s) (sv_mappings s)" "maps_ok tok (sv_made s) (fst (snd (snd (sv_disk s))))"
    "task_ok tok s" "listeners_ok s"
    using assms(1) by (simp_all add: mapping_inv_def)
  have "new_mapping tok s' m" if "new_mapping tok s m" for m
    using that maps_ok_more [OF _ f(2)] by (simp add: new_mapping_def f)
  then have "task_ok tok s'"
    using i(3) unfolding task_ok_def f by (auto simp del: image_subset_iff split: option.splits fwd_task.splits)
  moreover have "listeners_ok s'"
    using i(4) ids_ok_more [OF _ f(3)] unfolding listeners_ok_def f by blast
  moreover have "maps_ok tok (sv_made s') (sv_mappings s')" "maps_ok tok (sv_made s') (fst (snd (snd (sv_disk s'))))"
    using maps_ok_more [OF _ f(2)] i(1,2) f(1,4) by auto
  ultimately show ?thesis unfolding mapping_inv_def by blast
qed

named_theorems map_frames \<open>the handlers that leave mappings alone\<close>

lemma map_emit [map_frames]: "map_frame s (sv_emit os s)"
  by (simp add: map_frame_def sv_emit_def)

lemma map_frame_trans: "map_frame s t \<Longrightarrow> map_frame t u \<Longrightarrow> map_frame s u"
  by (auto simp: map_frame_def)

lemma map_time [map_frames]: "map_frame s (s\<lparr>sv_clock := t\<rparr>)"
  by (simp add: map_frame_def)

lemma map_login [map_frames]: "map_frame s (login cfg tok now ip pw s)"
  by (simp add: map_frame_def login_def sv_emit_def Let_def split: option.split)

lemma map_logout [map_frames]: "map_frame s (logout c s)"
  by (simp add: map_frame_def logout_def sv_emit_def split: option.split)

lemma map_code [map_frames]: "map_frame s (create_code cfg tok now ip s)"
  by (auto simp: map_frame_def server_defs Let_def split: option.splits)

lemma map_heartbeat [map_frames]: "map_frame s (heartbeat now h v saved s)"
  by (auto simp: map_frame_def server_defs Let_def split: option.splits)

lemma map_update_device [map_frames]: "map_frame s (update_device now i v saved s)"
  by (auto simp: map_frame_def server_defs Let_def split: option.splits)

lemma map_put_policy [map_frames]: "map_frame s (put_policy now i p saved s)"
  by (auto simp: map_frame_def server_defs Let_def split: option.splits)

lemma map_reconcile [map_frames]: "map_frame s (reconcile_peers t s)"
  by (auto simp: map_frame_def server_defs server_net_defs split: option.splits)

lemma map_probed [map_frames]: "map_frame s (probed hand transfer d status s)"
  by (auto simp: map_frame_def server_defs server_net_defs Let_def split: prod.splits)

lemma map_persist [map_frames]: "map_frame s (persist saved s)"
  by (simp add: map_frame_def persist_def store_def)

lemma map_dial_start [map_frames]: "map_frame s (dial_start i s)"
  by (simp add: map_frame_def server_defs dial_start_def Let_def)

lemma map_proxy [map_frames]: "map_frame s (proxy_request i t s)"
  by (auto simp: proxy_request_def intro: map_frames split: option.split)

lemma map_dial_step [map_frames]: "map_frame s (dial_step n ok s)"
  by (auto simp: map_frame_def server_defs server_net_defs Let_def split: option.splits list.splits)

lemma map_join [map_frames]: "map_frame s (join_device cfg tok now body wg saved s)"
proof (cases rule: join_cases [of cfg tok now body wg saved s])
  case (entered v ip routes os adopted)
  have "map_frame t (join_admit tok now v ip adopted saved t)" for t
    by (auto simp: map_frame_def server_defs Let_def)
  then show ?thesis unfolding entered(6) by (rule map_frame_trans [OF map_emit])
qed (simp_all add: map_emit)

lemma map_guarded: "(\<And>t. map_frame t (f t)) \<Longrightarrow> map_frame s (guarded cfg now h c f s)"
  unfolding guarded_def by (auto intro: map_emit map_frame_trans [OF map_emit])

section \<open>Mappings\<close>

lemma maps_ok_core: "map core ms = map core ns \<Longrightarrow> maps_ok tok n ms = maps_ok tok n ns"
proof -
  assume "map core ms = map core ns"
  then have "map mp_id ms = map mp_id ns" "map port_of ms = map port_of ns"
    by (metis (mono_tags, lifting) core_fields(1) list.map_comp comp_apply map_eq_conv)
      (metis (mono_tags, lifting) \<open>map core ms = map core ns\<close> core_fields(2) list.map_comp comp_apply map_eq_conv)
  then show ?thesis unfolding maps_ok_def by (metis list.set_map)
qed

lemma remove_filter: "distinct (map mp_id ms) \<Longrightarrow> remove_mapping i ms = filter (\<lambda>m. mp_id m \<noteq> i) ms"
  by (induction ms) (auto intro!: filter_True [symmetric] simp: rev_image_eqI)

lemma maps_ok_filter: "maps_ok tok n ms \<Longrightarrow> maps_ok tok n (filter P ms)"
  by (auto simp: maps_ok_def distinct_map_filter)

lemma start_ok:
  assumes "start_mapping cfg m ok e s = (s1, Inr n)"
  shows "n = sv_next s" "port_of m \<notin> (port_of \<circ> snd) ` set (sv_running s)"
    "sv_running s1 = (n, m) # sv_running s" "sv_next s1 = Suc n" "sv_mappings s1 = sv_mappings s"
    "sv_made s1 = sv_made s" "sv_disk s1 = sv_disk s" "sv_forwards s1 = sv_forwards s" "sv_task s1 = sv_task s"
  using assms by (auto simp: start_mapping_def sv_emit_def Let_def same_port_of split: option.splits if_splits)

lemma start_failed: "start_mapping cfg m ok e s = (s1, Inl err) \<Longrightarrow> s1 = s"
  by (auto simp: start_mapping_def Let_def split: option.splits if_splits)

lemma mapping_inv_put:
  assumes inv: "mapping_inv tok s" and free: "sv_task s = None"
    and tok: "inj (\<lambda>n. take 12 (tok n))" "\<And>n. take 12 (tok n) \<noteq> []"
  shows "mapping_inv tok (put_mapping cfg tok body s)"
proof (cases "\<exists>c. put_mapping cfg tok body s = reply c s")
  case True
  then show ?thesis using mapping_inv_frame [OF inv map_emit] by auto
next
  case False
  then obtain m where m: "body = Some m" "mp_id m = []" "mapping_ok cfg s m"
    by (auto simp: put_mapping_def split: option.splits if_splits)
  let ?m = "m\<lparr>mp_id := take 12 (tok (sv_made s)), mp_error := []\<rparr>"
  have s': "put_mapping cfg tok body s = s\<lparr>sv_made := Suc (sv_made s),
      sv_task := Some (if mp_enabled m then Putting ?m else Committing ?m None)\<rparr>"
    using m by (simp add: put_mapping_def Let_def)
  have i: "maps_ok tok (sv_made s) (sv_mappings s)" "maps_ok tok (sv_made s) (fst (snd (snd (sv_disk s))))" "listeners_ok s"
    using inv by (simp_all add: mapping_inv_def)
  have ids: "mp_id x \<in> (\<lambda>n. take 12 (tok n)) ` {..<sv_made s}" if "x \<in> set (sv_mappings s)" for x
    using i(1) that by (auto simp: maps_ok_def)
  have "port_of ?m \<noteq> port_of x" if "x \<in> set (sv_mappings s)" for x
  proof -
    from ids [OF that] tok(2) have "mp_id x \<noteq> mp_id m" using m(2) by auto
    then have "\<not> same_port x m" using m(3) that by (auto simp: mapping_ok_def)
    then show ?thesis by (auto simp: same_port_def port_of_def)
  qed
  moreover have "mp_id ?m \<noteq> mp_id x" if "x \<in> set (sv_mappings s)" for x
    using ids [OF that] injD [OF tok(1)] by fastforce
  ultimately have "maps_ok tok (Suc (sv_made s)) (sv_mappings s @ [?m])"
    using maps_ok_more [OF i(1), of "Suc (sv_made s)"] by (auto simp: maps_ok_def)
  moreover have "listeners_ok (s\<lparr>sv_made := k, sv_task := t\<rparr>)" for k t
    using i(3) free unfolding listeners_ok_def by simp
  ultimately show ?thesis
    using maps_ok_more [OF i(1), of "Suc (sv_made s)"] maps_ok_more [OF i(2), of "Suc (sv_made s)"]
    unfolding s' by (simp add: mapping_inv_def task_ok_def new_mapping_def)
qed

lemma listeners_free:
  "listeners_ok s \<Longrightarrow> (\<And>m n. sv_task s \<noteq> Some (Committing m (Some n))) \<Longrightarrow>
     map_of (sv_running s) n = Some m \<Longrightarrow> map_of (sv_forwards s) (mp_id m) = Some n \<and> mp_enabled m"
  unfolding listeners_ok_def by blast

text \<open>The holder of the lock goes on: nothing but its task changes.\<close>

lemma listeners_task:
  assumes "listeners_ok s" "\<And>m n. sv_task s \<noteq> Some (Committing m (Some n))"
    and "sv_running s' = sv_running s" "sv_next s' = sv_next s" "sv_forwards s' = sv_forwards s"
    and "core ` set (sv_mappings s') = core ` set (sv_mappings s)"
  shows "listeners_ok s'"
  using assms(1) listeners_free [OF assms(1,2)] unfolding listeners_ok_def assms(3-6) by blast

lemma running_fresh:
  "ids_ok ls n \<Longrightarrow> map_of ((n, m) # ls) k = Some x \<longleftrightarrow> k = n \<and> x = m \<or> k \<noteq> n \<and> map_of ls k = Some x"
  by (auto simp: ids_ok_def dest: map_of_SomeD)

lemma ids_ok_Cons: "ids_ok ls n \<Longrightarrow> ids_ok ((n, m) # ls) (Suc n)"
  by (fastforce simp: ids_ok_def)

lemma running_less: "ids_ok ls n \<Longrightarrow> map_of ls k = Some x \<Longrightarrow> k < n"
  by (auto simp: ids_ok_def dest!: map_of_SomeD)

text \<open>A listener is started for the mapping the holder of the lock is at.\<close>

lemma listeners_start:
  assumes l: "listeners_ok s" and free: "\<And>m n. sv_task s \<noteq> Some (Committing m (Some n))"
    and st: "start_mapping cfg m ok e s = (s1, Inr n)" and en: "mp_enabled m"
    and s': "sv_running s' = sv_running s1" "sv_next s' = sv_next s1" "sv_mappings s' = sv_mappings s1"
    and own: "sv_task s' = Some (Committing m (Some n)) \<and> sv_forwards s' = sv_forwards s1
       \<or> sv_forwards s' = AList.update (mp_id m) n (sv_forwards s1) \<and> core m \<in> core ` set (sv_mappings s)
          \<and> distinct (map mp_id (sv_mappings s))"
  shows "listeners_ok s'"
proof -
  note st = start_ok [OF st]
  have r: "sv_running s' = (sv_next s, m) # sv_running s" "sv_next s' = Suc (sv_next s)"
    "sv_mappings s' = sv_mappings s" using st s' by simp_all
  have ids: "ids_ok (sv_running s) (sv_next s)" and fw:
    "\<And>i k. map_of (sv_forwards s) i = Some k \<Longrightarrow>
       \<exists>x. map_of (sv_running s) k = Some x \<and> mp_id x = i \<and> core x \<in> core ` set (sv_mappings s)"
    using l unfolding listeners_ok_def by blast+
  have other: "mp_id x \<noteq> mp_id m" if "map_of (sv_running s) k = Some x" "core m \<in> core ` set (sv_mappings s)"
    "distinct (map mp_id (sv_mappings s))" for k x
  proof
    assume same: "mp_id x = mp_id m"
    from listeners_free [OF l free that(1)] have "map_of (sv_forwards s) (mp_id m) = Some k" using same by simp
    from fw [OF this] that(1) have "core x \<in> core ` set (sv_mappings s)" by auto
    with that(2) obtain a b where "a \<in> set (sv_mappings s)" "b \<in> set (sv_mappings s)" "core x = core a" "core m = core b" by auto
    moreover from this same that(3) have "a = b" by (metis core_fields(1) inj_onD distinct_map)
    ultimately have "port_of x = port_of m" by (metis core_fields(2))
    then show False using st(2) that(1) by (force dest: map_of_SomeD)
  qed
  have "mp_enabled x \<and> (map_of (sv_forwards s') (mp_id x) = Some k \<or> sv_task s' = Some (Committing x (Some k)))"
    if "map_of (sv_running s') k = Some x" for k x
    using that own other [of k x] listeners_free [OF l free, of k x] en st
    unfolding r running_fresh [OF ids] by (auto simp: update_conv')
  moreover have "\<exists>x. map_of (sv_running s') k = Some x \<and> mp_id x = i \<and> core x \<in> core ` set (sv_mappings s')"
    if "map_of (sv_forwards s') i = Some k" for i k
  proof (cases "sv_forwards s' = AList.update (mp_id m) n (sv_forwards s1) \<and> core m \<in> core ` set (sv_mappings s) \<and> i = mp_id m")
    case True
    with that have "k = sv_next s" by (simp add: update_conv' st)
    then show ?thesis using True unfolding r running_fresh [OF ids] by blast
  next
    case False
    then have "map_of (sv_forwards s) i = Some k" using that own st by (auto simp: update_conv' split: if_splits)
    from fw [OF this] obtain x where x: "map_of (sv_running s) k = Some x" "mp_id x = i" "core x \<in> core ` set (sv_mappings s)"
      by blast
    then have "k \<noteq> sv_next s" using running_less [OF ids] by blast
    with x show ?thesis unfolding r running_fresh [OF ids] by blast
  qed
  moreover have "ids_ok (sv_running s') (sv_next s')" unfolding r by (rule ids_ok_Cons [OF ids])
  moreover have "distinct (map (port_of \<circ> snd) (sv_running s'))"
    using l st(2) unfolding r listeners_ok_def by (auto simp: comp_def)
  ultimately show ?thesis unfolding listeners_ok_def by blast
qed

lemma new_mapping_same:
  "new_mapping tok s m \<Longrightarrow> sv_mappings s' = sv_mappings s \<Longrightarrow> sv_made s' = sv_made s \<Longrightarrow> new_mapping tok s' m"
  by (simp add: new_mapping_def)

lemma mapping_inv_listened:
  assumes inv: "mapping_inv tok s"
  shows "mapping_inv tok (listened cfg ok e s)"
proof -
  have i: "maps_ok tok (sv_made s) (sv_mappings s)" "maps_ok tok (sv_made s) (fst (snd (snd (sv_disk s))))"
    "task_ok tok s" "listeners_ok s"
    using inv by (simp_all add: mapping_inv_def)
  consider (put) m where "sv_task s = Some (Putting m)" | (last) "sv_task s = Some (Restoring [])"
    | (restore) m ms where "sv_task s = Some (Restoring (m # ms))" | (other) "sv_task s = None \<or> (\<exists>m l. sv_task s = Some (Committing m l))"
    by (metis fwd_task.exhaust list.exhaust option.exhaust)
  then show ?thesis
  proof cases
    case put
    obtain s1 r where st: "start_mapping cfg m ok e s = (s1, r)" by (cases "start_mapping cfg m ok e s")
    show ?thesis
    proof (cases r)
      case (Inl err)
      with st start_failed have "listened cfg ok e s = reply 409 (s\<lparr>sv_task := None\<rparr>)"
        by (simp add: listened_def put) (metis start_failed)
      moreover have "listeners_ok (reply 409 (s\<lparr>sv_task := None\<rparr>))"
        by (rule listeners_task [OF i(4)]) (simp_all add: put sv_emit_def)
      ultimately show ?thesis using i by (simp add: mapping_inv_def task_ok_def sv_emit_def)
    next
      case (Inr n)
      let ?s = "s1\<lparr>sv_task := Some (Committing m (Some n))\<rparr>"
      have l: "listened cfg ok e s = ?s" using st Inr by (simp add: listened_def put)
      have new: "new_mapping tok s m" "mp_enabled m" using i(3) by (simp_all add: task_ok_def put)
      note st = st [unfolded Inr] and f = start_ok [OF st [unfolded Inr]]
      have "listeners_ok ?s" by (rule listeners_start [OF i(4) _ st new(2)]) (simp_all add: put)
      moreover have "task_ok tok ?s" using new_mapping_same [OF new(1), of ?s] f by (simp add: task_ok_def)
      ultimately show ?thesis using i(1,2) f unfolding l by (simp add: mapping_inv_def)
    qed
  next
    case last
    have "listeners_ok (s\<lparr>sv_task := None\<rparr>)" by (rule listeners_task [OF i(4)]) (simp_all add: last)
    then show ?thesis using i by (simp add: listened_def last mapping_inv_def task_ok_def)
  next
    case restore
    obtain s1 r where st: "start_mapping cfg m ok e s = (s1, r)" by (cases "start_mapping cfg m ok e s")
    have t: "core m \<in> core ` set (sv_mappings s)" "core ` set ms \<subseteq> core ` set (sv_mappings s)" "mp_enabled m"
      "\<forall>x \<in> set ms. mp_enabled x"
      using i(3) by (auto simp: task_ok_def restore)
    show ?thesis
    proof (cases r)
      case (Inl err)
      let ?s = "(set_error (mp_id m) err s)\<lparr>sv_task := Some (Restoring ms)\<rparr>"
      have l: "listened cfg ok e s = ?s" using st Inl start_failed [of cfg m ok e s s1 err] by (simp add: listened_def restore)
      have c: "map core (sv_mappings ?s) = map core (sv_mappings s)" by (simp add: set_error_def)
      then have "core ` set (sv_mappings ?s) = core ` set (sv_mappings s)" by (metis set_map)
      moreover from this have "listeners_ok ?s"
        by (intro listeners_task [OF i(4)]) (simp_all add: restore, simp_all add: set_error_def)
      moreover have "sv_made ?s = sv_made s" "sv_disk ?s = sv_disk s" by (simp_all add: set_error_def)
      ultimately show ?thesis
        using i(1,2) maps_ok_core [OF c] t(2,4) unfolding l mapping_inv_def by (simp add: task_ok_def)
    next
      case (Inr n)
      let ?s = "s1\<lparr>sv_task := Some (Restoring ms), sv_forwards := AList.update (mp_id m) n (sv_forwards s1)\<rparr>"
      have l: "listened cfg ok e s = ?s" using st Inr by (simp add: listened_def restore)
      note st = st [unfolded Inr] and f = start_ok [OF st [unfolded Inr]]
      have "distinct (map mp_id (sv_mappings s))" using i(1) by (simp add: maps_ok_def)
      then have "listeners_ok ?s"
        by (intro listeners_start [OF i(4) _ st t(3)]) (simp_all add: restore t(1))
      then show ?thesis using i(1,2) f t(2,4) unfolding l by (simp add: mapping_inv_def task_ok_def)
    qed
  next
    case other
    with inv show ?thesis by (auto simp: listened_def)
  qed
qed

lemma mapping_inv_committed:
  assumes inv: "mapping_inv tok s"
  shows "mapping_inv tok (committed now saved s)"
proof (cases "\<exists>m l. sv_task s = Some (Committing m l)")
  case False
  then have "committed now saved s = s" by (auto simp: committed_def split: option.splits fwd_task.splits)
  with inv show ?thesis by simp
next
  case True
  then obtain m l where t: "sv_task s = Some (Committing m l)" by blast
  have i: "maps_ok tok (sv_made s) (sv_mappings s)" "maps_ok tok (sv_made s) (fst (snd (snd (sv_disk s))))"
    "listeners_ok s" "maps_ok tok (sv_made s) (sv_mappings s @ [m])" "\<And>n. l = Some n \<Longrightarrow> map_of (sv_running s) n = Some m"
    using inv by (auto simp: mapping_inv_def task_ok_def t new_mapping_def)
  have run: "mp_enabled x" "map_of (sv_forwards s) (mp_id x) = Some k \<or> x = m \<and> l = Some k"
    if "map_of (sv_running s) k = Some x" for k x
    using i(3) that t unfolding listeners_ok_def by auto
  have fw: "\<exists>x. map_of (sv_running s) k = Some x \<and> mp_id x = j \<and> core x \<in> core ` set (sv_mappings s)"
    if "map_of (sv_forwards s) j = Some k" for j k
    using i(3) that unfolding listeners_ok_def by blast
  have ids: "ids_ok (sv_running s) (sv_next s)" "distinct (map (port_of \<circ> snd) (sv_running s))"
    using i(3) by (simp_all add: listeners_ok_def)
  have fresh: "map_of (sv_forwards s) (mp_id m) = None"
  proof (rule ccontr)
    assume "map_of (sv_forwards s) (mp_id m) \<noteq> None"
    with fw obtain x y where "mp_id x = mp_id m" "core x = core y" "y \<in> set (sv_mappings s)" by blast
    then have "mp_id y = mp_id m" using core_fields(1) [of x] core_fields(1) [of y] by simp
    then have "mp_id m \<in> mp_id ` set (sv_mappings s)"
      using imageI [OF \<open>y \<in> set (sv_mappings s)\<close>, of mp_id] by simp
    then show False using i(4) by (simp add: maps_ok_def)
  qed
  let ?c = "committed now saved s"
  have rest: "sv_task ?c = None" "sv_next ?c = sv_next s" "sv_made ?c = sv_made s"
    by (simp_all add: committed_def t commit_mapping_def stop_listener_def server_defs Let_def split: option.split)
  show ?thesis
  proof (cases saved)
    case True
    have c: "sv_mappings ?c = sv_mappings s @ [m]" "fst (snd (snd (sv_disk ?c))) = sv_mappings s @ [m]"
      "sv_running ?c = sv_running s"
      "sv_forwards ?c = (case l of None \<Rightarrow> sv_forwards s | Some n \<Rightarrow> AList.update (mp_id m) n (sv_forwards s))"
      using True by (simp_all add: committed_def t commit_mapping_def server_defs Let_def split: option.split)
    have "listeners_ok ?c"
      unfolding listeners_ok_def c rest
    proof (intro conjI allI impI)
      fix k x
      assume x: "map_of (sv_running s) k = Some x"
      show "mp_enabled x" using run(1) [OF x] .
      show "map_of (case l of None \<Rightarrow> sv_forwards s | Some n \<Rightarrow> AList.update (mp_id m) n (sv_forwards s)) (mp_id x) = Some k
         \<or> None = Some (Committing x (Some k))"
        using run(2) [OF x] fresh by (auto simp: update_conv' split: option.split)
    next
      fix j k
      assume "map_of (case l of None \<Rightarrow> sv_forwards s | Some n \<Rightarrow> AList.update (mp_id m) n (sv_forwards s)) j = Some k"
      then consider "l = Some k" "j = mp_id m" | "map_of (sv_forwards s) j = Some k"
        by (auto simp: update_conv' split: option.splits if_splits)
      then show "\<exists>x. map_of (sv_running s) k = Some x \<and> mp_id x = j \<and> core x \<in> core ` set (sv_mappings s @ [m])"
      proof cases
        case 1
        then show ?thesis using i(5) by auto
      next
        case 2
        from fw [OF this] show ?thesis by auto
      qed
    qed (use ids in simp_all)
    then show ?thesis using i(4) unfolding mapping_inv_def c rest by (simp add: task_ok_def rest)
  next
    case False
    have c: "sv_mappings ?c = sv_mappings s" "sv_disk ?c = sv_disk s" "sv_forwards ?c = sv_forwards s"
      "sv_running ?c = (case l of None \<Rightarrow> sv_running s | Some n \<Rightarrow> AList.delete n (sv_running s))"
      using False by (simp_all add: committed_def t commit_mapping_def stop_listener_def server_defs Let_def split: option.split)
    have del: "map_of (sv_running ?c) k = Some x \<longleftrightarrow> map_of (sv_running s) k = Some x \<and> l \<noteq> Some k" for k x
      by (auto simp: c delete_conv' split: option.splits)
    have "listeners_ok ?c"
      unfolding listeners_ok_def rest c(1,3) del
    proof (intro conjI allI impI)
      fix j k
      assume "map_of (sv_forwards s) j = Some k"
      from fw [OF this] obtain x where x: "map_of (sv_running s) k = Some x" "mp_id x = j"
        "core x \<in> core ` set (sv_mappings s)" by blast
      have "l \<noteq> Some k" using i(5) x \<open>map_of (sv_forwards s) j = Some k\<close> fresh by fastforce
      with x show "\<exists>x. (map_of (sv_running s) k = Some x \<and> l \<noteq> Some k) \<and> mp_id x = j \<and> core x \<in> core ` set (sv_mappings s)"
        by blast
    next
      show "ids_ok (sv_running ?c) (sv_next s)" using ids(1) by (auto simp: c intro: ids_ok_delete split: option.split)
      show "distinct (map (port_of \<circ> snd) (sv_running ?c))"
        using ids(2) by (auto simp: c AList.delete_eq distinct_map_filter split: option.split)
    qed (use run in auto)
    then show ?thesis using i(1,2) unfolding mapping_inv_def c rest by (simp add: task_ok_def rest)
  qed
qed

lemma mapping_inv_delete:
  assumes inv: "mapping_inv tok s" and free: "sv_task s = None"
  shows "mapping_inv tok (delete_mapping now j saved s)"
proof -
  let ?c = "delete_mapping now j saved s"
  have i: "maps_ok tok (sv_made s) (sv_mappings s)" "maps_ok tok (sv_made s) (fst (snd (snd (sv_disk s))))" "listeners_ok s"
    using inv by (simp_all add: mapping_inv_def)
  show ?thesis
  proof (cases "j \<in> mp_id ` set (sv_mappings s) \<and> saved")
    case False
    then have "map_frame s ?c"
      by (auto simp: delete_mapping_def map_frame_def server_defs Let_def)
    then show ?thesis by (rule mapping_inv_frame [OF inv])
  next
    case True
    have fil: "remove_mapping j (sv_mappings s) = filter (\<lambda>m. mp_id m \<noteq> j) (sv_mappings s)"
      by (rule remove_filter) (use i(1) in \<open>simp add: maps_ok_def\<close>)
    let ?l = "map_of (sv_forwards s) j"
    have c: "sv_mappings ?c = filter (\<lambda>m. mp_id m \<noteq> j) (sv_mappings s)"
      "fst (snd (snd (sv_disk ?c))) = filter (\<lambda>m. mp_id m \<noteq> j) (sv_mappings s)"
      "sv_forwards ?c = AList.delete j (sv_forwards s)" "sv_task ?c = None" "sv_next ?c = sv_next s" "sv_made ?c = sv_made s"
      "sv_running ?c = (case ?l of None \<Rightarrow> sv_running s | Some n \<Rightarrow> AList.delete n (sv_running s))"
      using True free
      by (simp_all add: delete_mapping_def stop_listener_def server_defs Let_def fil split: option.split)
    have run: "map_of (sv_forwards s) (mp_id x) = Some k" "mp_enabled x" if "map_of (sv_running s) k = Some x" for k x
      using listeners_free [OF i(3) _ that] free by simp_all
    have fw: "\<exists>x. map_of (sv_running s) k = Some x \<and> mp_id x = a \<and> core x \<in> core ` set (sv_mappings s)"
      if "map_of (sv_forwards s) a = Some k" for a k
      using i(3) that unfolding listeners_ok_def by blast
    have ids: "ids_ok (sv_running s) (sv_next s)" "distinct (map (port_of \<circ> snd) (sv_running s))"
      using i(3) by (simp_all add: listeners_ok_def)
    have del: "map_of (sv_running ?c) k = Some x \<longleftrightarrow> map_of (sv_running s) k = Some x \<and> ?l \<noteq> Some k" for k x
      by (auto simp: c delete_conv' split: option.splits)
    have fdel: "map_of (sv_forwards ?c) a = Some k \<longleftrightarrow> map_of (sv_forwards s) a = Some k \<and> a \<noteq> j" for a k
      by (auto simp: c delete_conv')
    have "listeners_ok ?c"
      unfolding listeners_ok_def del fdel c(4,5)
    proof (intro conjI allI impI)
      fix k x
      assume x: "map_of (sv_running s) k = Some x \<and> ?l \<noteq> Some k"
      then show "mp_enabled x" using run(2) by blast
      show "map_of (sv_forwards s) (mp_id x) = Some k \<and> mp_id x \<noteq> j \<or> None = Some (Committing x (Some k))"
        using x run(1) by auto
    next
      fix a k
      assume a: "map_of (sv_forwards s) a = Some k \<and> a \<noteq> j"
      with fw obtain x where x: "map_of (sv_running s) k = Some x" "mp_id x = a" "core x \<in> core ` set (sv_mappings s)"
        by blast
      have "?l \<noteq> Some k" using fw [of j k] x a by auto
      moreover have "core x \<in> core ` set (sv_mappings ?c)"
      proof -
        from x(3) obtain y where y: "y \<in> set (sv_mappings s)" "core x = core y" by blast
        then have "mp_id y = a" using x(2) core_fields(1) [of x] core_fields(1) [of y] by simp
        with y a show ?thesis by (auto simp: c)
      qed
      ultimately show "\<exists>x. (map_of (sv_running s) k = Some x \<and> ?l \<noteq> Some k) \<and> mp_id x = a \<and> core x \<in> core ` set (sv_mappings ?c)"
        using x by blast
    next
      show "ids_ok (sv_running ?c) (sv_next s)" using ids(1) by (auto simp: c intro: ids_ok_delete split: option.split)
      show "distinct (map (port_of \<circ> snd) (sv_running ?c))"
        using ids(2) by (auto simp: c AList.delete_eq distinct_map_filter split: option.split)
    qed
    then show ?thesis using maps_ok_filter [OF i(1)] unfolding mapping_inv_def c(1,2,6) by (simp add: task_ok_def c(4))
  qed
qed

lemma mapping_inv_step:
  assumes inv: "mapping_inv tok s" and tok: "inj (\<lambda>n. take 12 (tok n))" "\<And>n. take 12 (tok n) \<noteq> []"
  shows "mapping_inv tok (server_step cfg tok s e)"
proof -
  have i: "maps_ok tok (sv_made s) (sv_mappings s)" "maps_ok tok (sv_made s) (fst (snd (snd (sv_disk s))))"
    "task_ok tok s" "listeners_ok s"
    using inv by (simp_all add: mapping_inv_def)
  have g: "mapping_inv tok (guarded cfg (sv_clock s) h c f s)"
    if "\<And>t. mapping_inv tok t \<Longrightarrow> sv_task t = sv_task s \<Longrightarrow> mapping_inv tok (f t)" for h c f
    using that [of s] inv mapping_inv_frame [OF inv map_emit, of "[Replied 401]"] by (simp add: guarded_def)
  have "mapping_inv tok (restore_mappings s)"
  proof (cases "sv_restored s \<or> sv_task s \<noteq> None")
    case False
    then have "listeners_ok (restore_mappings s)"
      by (intro listeners_task [OF i(4)]) (simp_all add: restore_mappings_def)
    then show ?thesis using i False by (auto simp: mapping_inv_def task_ok_def restore_mappings_def)
  qed (simp add: restore_mappings_def inv)
  moreover have "mapping_inv tok (restart cfg tok s)"
    using i(2) maps_ok_more [OF i(2), of "Suc (sv_made s)"]
    by (auto simp: mapping_inv_def restart_def server_boot_def first_state_def Let_def task_ok_def listeners_ok_def)
  moreover have "mapping_inv tok (server_step cfg tok s (SvMapping h c m))" for h c m
  proof (cases "sv_task s = None")
    case True
    have "mapping_inv tok (guarded cfg (sv_clock s) h c (put_mapping cfg tok m) s)"
      by (rule g) (rule mapping_inv_put [OF _ _ tok], simp_all add: True)
    with True show ?thesis by simp
  qed (use inv in auto)
  moreover have "mapping_inv tok (server_step cfg tok s (SvDelete h c j b))" for h c j b
  proof (cases "sv_task s = None")
    case True
    have "mapping_inv tok (guarded cfg (sv_clock s) h c (delete_mapping (sv_clock s) j b) s)"
      by (rule g) (rule mapping_inv_delete, simp_all add: True)
    with True show ?thesis by simp
  qed (use inv in auto)
  moreover have "mapping_inv tok (server_step cfg tok s e)"
    if "\<not> (\<exists>h c m j b x. e \<in> {SvMapping h c m, SvDelete h c j b, SvListened b x, SvCommit b, SvRestore, SvRestart})"
  proof (rule mapping_inv_frame [OF inv])
    show "map_frame s (server_step cfg tok s e)" using that by (cases e) (auto intro: map_frames map_guarded)
  qed
  ultimately show ?thesis
    using mapping_inv_listened [OF inv] mapping_inv_committed [OF inv]
    by (cases "\<exists>h c m j b x. e \<in> {SvMapping h c m, SvDelete h c j b, SvListened b x, SvCommit b, SvRestore, SvRestart}")
      (auto simp del: server_step.simps(10,11))
qed

text \<open>
  C11: no two mappings have the same listening port of a kind, and whenever no change is under way the
  listeners that run are exactly those entered for the stored mappings: each belongs to one that is
  enabled, with the port and target it was created with, whatever failed and however often the server
  was restarted.
\<close>

theorem listeners_match_mappings:
  assumes "inj (\<lambda>n. take 12 (tok n))" "\<And>n. take 12 (tok n) \<noteq> []"
    and "s = server_run cfg tok (server_start cfg tok) es"
  shows "distinct (map port_of (sv_mappings s))
    \<and> (sv_task s = None \<longrightarrow>
        (\<forall>n m. map_of (sv_running s) n = Some m \<longrightarrow>
           map_of (sv_forwards s) (mp_id m) = Some n \<and> mp_enabled m \<and> core m \<in> core ` set (sv_mappings s))
      \<and> (\<forall>i n. map_of (sv_forwards s) i = Some n \<longrightarrow> (\<exists>m. map_of (sv_running s) n = Some m \<and> mp_id m = i)))"
proof -
  have "mapping_inv tok (server_start cfg tok)"
    by (simp add: mapping_inv_def server_start_def server_boot_def first_state_def no_state_def Let_def maps_ok_def
        task_ok_def listeners_ok_def)
  then have inv: "mapping_inv tok s"
    unfolding assms(3)
    by (induction es rule: rev_induct) (simp_all add: mapping_inv_step [OF _ assms(1,2)] del: server_step.simps)
  then have l: "listeners_ok s" by (simp add: mapping_inv_def)
  have "map_of (sv_forwards s) (mp_id m) = Some n \<and> mp_enabled m \<and> core m \<in> core ` set (sv_mappings s)"
    if "sv_task s = None" "map_of (sv_running s) n = Some m" for n m
  proof -
    from listeners_free [OF l _ that(2)] that(1) have "map_of (sv_forwards s) (mp_id m) = Some n" "mp_enabled m" by simp_all
    moreover from this(1) l that(2) have "core m \<in> core ` set (sv_mappings s)" unfolding listeners_ok_def by fastforce
    ultimately show ?thesis by blast
  qed
  moreover have "\<exists>m. map_of (sv_running s) n = Some m \<and> mp_id m = i" if "map_of (sv_forwards s) i = Some n" for i n
    using l that unfolding listeners_ok_def by blast
  ultimately show ?thesis using inv by (simp add: mapping_inv_def maps_ok_def)
qed

section \<open>Examples\<close>

definition web :: mapping where
  "web = \<lparr>mp_id = [], mp_name = asc ''web'', mp_protocol = asc ''http'', mp_listen = 8080, mp_device = asc ''cloud'',
     mp_target = 80, mp_domain = [], mp_enabled = True, mp_error = []\<rparr>"

definition busy_text :: jstext where
  "busy_text = asc ''busy''"

lemma listeners_match_mappings_witness:
  "\<exists>s. s = server_run home seal (server_start home seal)
       [SvMapping header None (Some web), SvListened True busy_text, SvCommit False]
     \<and> distinct (map port_of (sv_mappings s))"
proof -
  have "inj (\<lambda>n. take 12 (seal n))" "\<And>n. take 12 (seal n) \<noteq> []" by (simp_all add: seal_def inj_def)
  from listeners_match_mappings [OF this refl, of home
      "[SvMapping header None (Some web), SvListened True busy_text, SvCommit False]"]
  show ?thesis by blast
qed

text \<open>
  The error of a failed restoration stays: saved by the next probe, it is still shown after a restart that
  brings the listener up.
\<close>

lemma restored_keeps_error:
  fixes m :: mapping and s :: server
  defines "m \<equiv> web\<lparr>mp_id := seal 9\<rparr>"
    and "s \<equiv> server_run home seal (server_boot home seal 9 0 0 ([cloud_device home (seal 0)], [], [web\<lparr>mp_id := seal 9\<rparr>], []) [])
       [SvRestore, SvListened False busy_text, SvListened False busy_text, SvSave True, SvRestart,
        SvRestore, SvListened True [], SvListened True []]"
  shows "sv_mappings s = [m\<lparr>mp_error := busy_text\<rparr>] \<and> sv_running s = [(0, m\<lparr>mp_error := busy_text\<rparr>)]
    \<and> sv_forwards s = [(seal 9, 0)]"
  unfolding s_def m_def
  by (simp add: server_boot_def first_state_def Let_def restore_mappings_def listened_def start_mapping_def sv_device_def
      web_def cloud_device_def set_error_def persist_def store_def restart_def sv_emit_def)

end
