(* ===== verification/Server_Saved.thy ===== *)
theory Server_Saved
  imports Server_Mappings
begin

text \<open>
  Changes and the state file: a change that is acknowledged is on disk, one that is refused changed nothing.
\<close>

fun changes :: "server_event \<Rightarrow> bool" where
  "changes (SvJoin v wg saved) = True"
| "changes (SvDevice h c i v saved) = True"
| "changes (SvPolicy h c i p saved) = True"
| "changes (SvCommit saved) = True"
| "changes (SvDelete h c i saved) = True"
| "changes _ = False"

text \<open>What the step put out ends with the answer.\<close>

definition news :: "server \<Rightarrow> server \<Rightarrow> server_out list" where
  "news s s' = drop (length (sv_out s)) (sv_out s')"

definition acknowledged :: "server_out list \<Rightarrow> bool" where
  "acknowledged os \<longleftrightarrow> os \<noteq> [] \<and> last os = Replied 200"

definition untouched :: "server \<Rightarrow> server \<Rightarrow> bool" where
  "untouched s s' \<longleftrightarrow>
     sv_devices s' = sv_devices s \<and> sv_policies s' = sv_policies s \<and> sv_mappings s' = sv_mappings s
     \<and> sv_disk s' = sv_disk s"

definition change_settled :: "server \<Rightarrow> server \<Rightarrow> bool" where
  "change_settled s s' \<longleftrightarrow>
     (\<exists>os. sv_out s' = sv_out s @ os) \<and> (if acknowledged (news s s') then sv_disk s' = store s' else untouched s s')"

lemma settled_refused: "c \<noteq> 200 \<Longrightarrow> change_settled s (reply c s)"
  by (simp add: change_settled_def news_def acknowledged_def untouched_def sv_emit_def)

lemma settled_same: "change_settled s s"
  by (simp add: change_settled_def news_def acknowledged_def untouched_def)

lemma settled_after:
  assumes "change_settled (sv_emit os s) s'" "\<not> acknowledged os"
  shows "change_settled s s'"
proof -
  from assms(1) obtain ns where n: "sv_out s' = sv_out s @ os @ ns" by (auto simp: change_settled_def sv_emit_def)
  then have "news (sv_emit os s) s' = ns" "news s s' = os @ ns" by (simp_all add: news_def sv_emit_def)
  moreover have "acknowledged (os @ ns) = acknowledged ns" using assms(2) by (cases ns) (simp_all add: acknowledged_def)
  moreover have "untouched (sv_emit os s) s' = untouched s s'" by (simp add: untouched_def sv_emit_def)
  ultimately show ?thesis using assms(1) n by (auto simp: change_settled_def)
qed

lemma settled_guarded:
  assumes "\<And>t. change_settled t (f t)"
  shows "change_settled s (guarded cfg now h c f s)"
  by (simp add: guarded_def assms settled_refused)

lemmas settled_defs =
  change_settled_def news_def acknowledged_def untouched_def sv_emit_def audit_def persist_def store_def Let_def

lemma settled_device: "change_settled s (update_device now i v saved s)"
proof -
  have "update_first i (\<lambda>_. old) (update_first i (apply_device b) (sv_devices s)) = sv_devices s"
    if "sv_device s i = Some old" for old b
    using that by (intro ident_update_old) (simp_all add: sv_device_def apply_device_def)
  then show ?thesis
    by (simp add: settled_defs update_device_def set_device_def split: option.split)
qed

lemma settled_policy: "change_settled s (put_policy now i p saved s)"
  by (simp add: settled_defs put_policy_def split: option.split)

lemma settled_delete: "change_settled s (delete_mapping now i saved s)"
  by (simp add: settled_defs delete_mapping_def stop_listener_def split: option.split)

lemma settled_commit: "change_settled s (committed now saved s)"
  by (simp add: settled_defs committed_def commit_mapping_def stop_listener_def split: option.split fwd_task.split)

lemma settled_join: "change_settled s (join_device cfg tok now body wg saved s)"
proof (cases rule: join_cases [of cfg tok now body wg saved s])
  case (refused c)
  then show ?thesis by (simp add: settled_refused)
next
  case (failed v ip routes)
  then show ?thesis by (simp add: settled_defs)
next
  case (entered v ip routes os adopted)
  have "change_settled t (join_admit tok now v ip adopted saved t)" for t
    by (simp add: settled_defs join_admit_def)
  then show ?thesis unfolding entered(6) by (rule settled_after) (simp add: entered(5) acknowledged_def)
qed

section \<open>What nothing else touches\<close>

text \<open>
  What an administrator or a join sets: not the measurements of a device, nor which exit of a policy is
  active, nor the error a mapping shows.
\<close>

definition device_settings :: "sdevice \<Rightarrow> sdevice" where
  "device_settings d =
     d\<lparr>sd_seen := None, sd_latency := 0, sd_rx := 0, sd_tx := 0, sd_handshake := 0, sd_healthy := False,
       sd_proxy_error := [], sd_version := [], sd_checks := []\<rparr>"

definition settings_of :: "stored \<Rightarrow> sdevice list \<times> policy list \<times> mapping list" where
  "settings_of d =
     (map device_settings (fst d), map (po_active_update (\<lambda>_. [])) (fst (snd d)), map (mp_error_update (\<lambda>_. [])) (fst (snd (snd d))))"

definition same_settings :: "server \<Rightarrow> server \<Rightarrow> bool" where
  "same_settings s s' \<longleftrightarrow>
     settings_of (store s') = settings_of (store s) \<and> (sv_disk s' = sv_disk s \<or> sv_disk s' = store s')"

named_theorems same_intros \<open>the handlers that leave the settings alone\<close>

lemmas same_defs = same_settings_def settings_of_def store_def

lemma same_update:
  "(\<And>d. device_settings (f d) = device_settings d) \<Longrightarrow> map device_settings (update_first i f ds) = map device_settings ds"
  by (induction ds) auto

lemma same_emit [same_intros]: "same_settings s (sv_emit os s)"
  by (simp add: same_defs sv_emit_def)

lemma same_login [same_intros]: "same_settings s (login cfg tok now ip pw s)"
  by (simp add: same_defs login_def sv_emit_def Let_def split: option.split)

lemma same_logout [same_intros]: "same_settings s (logout c s)"
  by (simp add: same_defs logout_def sv_emit_def split: option.split)

lemma same_code [same_intros]: "same_settings s (create_code cfg tok now ip s)"
  by (simp add: same_defs create_code_def sv_emit_def Let_def split: option.split)

lemma same_guarded [same_intros]: "(\<And>t. same_settings t (f t)) \<Longrightarrow> same_settings s (guarded cfg now h c f s)"
  by (simp add: guarded_def same_emit)

lemma same_put_mapping [same_intros]: "same_settings s (put_mapping cfg tok m s)"
  by (simp add: same_defs put_mapping_def sv_emit_def Let_def split: option.split)

lemma same_listened [same_intros]: "same_settings s (listened cfg ok e s)"
  by (auto simp: same_defs listened_def start_mapping_def set_error_def sv_emit_def Let_def
      split: option.splits fwd_task.splits list.splits prod.splits sum.splits)

lemma same_restore [same_intros]: "same_settings s (restore_mappings s)"
  by (simp add: same_defs restore_mappings_def)

lemma same_dial_start [same_intros]: "same_settings s (dial_start i s)"
  by (simp add: same_defs dial_start_def Let_def)

lemma same_proxy [same_intros]: "same_settings s (proxy_request i t s)"
  by (simp add: proxy_request_def same_emit same_dial_start split: option.split)

lemma same_dial_step [same_intros]: "same_settings s (dial_step n ok s)"
  by (auto simp: same_defs dial_step_def dial_end_def set_active_def sv_emit_def Let_def split: option.split list.split)

lemma same_reconcile [same_intros]: "same_settings s (reconcile_peers t s)"
  by (simp add: reconcile_peers_def same_defs sv_emit_def split: option.split)

lemma same_set: "(\<And>d. device_settings (f d) = device_settings d) \<Longrightarrow> same_settings s (set_device i f s)"
  by (simp add: same_defs set_device_def same_update)

lemma same_probed [same_intros]: "same_settings s (probed hand transfer d status s)"
  by (auto simp: probed_def Let_def device_settings_def intro!: same_set split: prod.split)

lemma same_persist [same_intros]: "same_settings s (persist saved s)"
  by (simp add: same_defs persist_def)

fun beats :: "server_event \<Rightarrow> bool" where
  "beats (SvBeat h v saved) = True"
| "beats _ = False"

lemma other_steps: "\<not> changes e \<Longrightarrow> \<not> beats e \<Longrightarrow> e \<noteq> SvRestart \<Longrightarrow> same_settings s (server_step cfg tok s e)"
proof -
  have "same_settings s (s\<lparr>sv_clock := t\<rparr>)" "same_settings s s" for t by (simp_all add: same_defs)
  moreover assume "\<not> changes e" "\<not> beats e" "e \<noteq> SvRestart"
  ultimately show ?thesis by (cases e) (auto intro: same_intros)
qed

section \<open>Memory and disk\<close>

text \<open>As long as no heartbeat fails to save, the settings in memory are those on disk.\<close>

definition durable :: "server \<Rightarrow> bool" where
  "durable s \<longleftrightarrow> settings_of (sv_disk s) = settings_of (store s) \<and> sv_devices s \<noteq> []"

lemma same_devices: "settings_of (store s') = settings_of (store s) \<Longrightarrow> sv_devices s' = [] \<longleftrightarrow> sv_devices s = []"
  by (auto simp: settings_of_def store_def)

lemma same_durable: "durable s \<Longrightarrow> same_settings s s' \<Longrightarrow> durable s'"
  using same_devices [of s' s] by (auto simp: durable_def same_settings_def)

lemma settled_durable: "durable s \<Longrightarrow> change_settled s s' \<Longrightarrow> sv_devices s' \<noteq> [] \<Longrightarrow> durable s'"
  by (auto simp: durable_def change_settled_def untouched_def settings_of_def store_def split: if_splits)

lemma frame_devices: "dev_frame s s' \<Longrightarrow> sv_devices s' = [] \<longleftrightarrow> sv_devices s = []"
  unfolding dev_frame_def by (metis map_is_Nil_conv)

lemma change_devices: "changes e \<Longrightarrow> sv_devices s \<noteq> [] \<Longrightarrow> sv_devices (server_step cfg tok s e) \<noteq> []"
proof (cases "\<exists>v wg saved. e = SvJoin v wg saved")
  case True
  assume d: "sv_devices s \<noteq> []"
  have "sv_devices (join_device cfg tok now body wg saved s) \<noteq> []" for now body wg saved
    by (cases rule: join_cases [of cfg tok now body wg saved s])
      (use d in \<open>auto simp: join_admit_def sv_emit_def persist_def audit_def Let_def\<close>)
  with True show ?thesis by auto
next
  case False
  assume "changes e" "sv_devices s \<noteq> []"
  moreover from this(1) False have "dev_frame s (server_step cfg tok s e)"
    by (cases e) (auto intro: dev_frames dev_guarded)
  ultimately show ?thesis using frame_devices by blast
qed

lemma settled_step: "changes e \<Longrightarrow> change_settled s (server_step cfg tok s e)"
  by (cases e) (auto intro: settled_guarded settled_device settled_policy settled_delete settled_commit settled_join
      settled_same)

lemma durable_set: "durable s \<Longrightarrow> (\<And>d. device_settings (f d) = device_settings d) \<Longrightarrow> durable (set_device i f s)"
  by (rule same_durable [OF _ same_set])

lemma durable_saved: "sv_devices s \<noteq> [] \<Longrightarrow> durable (persist True s)"
  by (simp add: durable_def persist_def store_def)

lemma set_devices: "sv_devices s \<noteq> [] \<Longrightarrow> sv_devices (set_device i f s) \<noteq> []"
  by (cases "sv_devices s") (simp_all add: set_device_def)

lemma durable_beat:
  assumes "durable s"
  shows "durable (heartbeat now h v True s)"
proof -
  have d: "sv_devices s \<noteq> []" using assms by (simp add: durable_def)
  have [simp]: "durable (sv_emit os t) = durable t" for os t by (simp add: durable_def store_def sv_emit_def)
  show ?thesis
    using assms d unfolding heartbeat_def Let_def
    by (auto simp: device_settings_def split: option.split intro!: durable_set durable_saved set_devices)
qed

lemma durable_restart: "durable s \<Longrightarrow> durable (restart cfg tok s)"
  by (simp add: durable_def restart_def server_boot_def first_state_def Let_def store_def)

lemma durable_step:
  assumes "durable s" "\<And>h v. e \<noteq> SvBeat h v False"
  shows "durable (server_step cfg tok s e)"
proof -
  consider "changes e" | "beats e" | "e = SvRestart" | "\<not> changes e" "\<not> beats e" "e \<noteq> SvRestart" by blast
  then show ?thesis
  proof cases
    case 1
    then show ?thesis using assms(1) settled_durable settled_step change_devices durable_def by blast
  next
    case 2
    then obtain h v b where b: "e = SvBeat h v b" by (cases e) auto
    then have "b" using assms(2) by (cases b) auto
    with b show ?thesis using durable_beat [OF assms(1)] by simp
  qed (use assms(1) durable_restart same_durable other_steps in auto)
qed

lemma durable_run: "durable s \<Longrightarrow> (\<And>h v. SvBeat h v False \<notin> set es) \<Longrightarrow> durable (server_run cfg tok s es)"
proof (induction es arbitrary: s)
  case (Cons e es)
  have "durable (server_step cfg tok s e)" by (rule durable_step [OF Cons.prems(1)]) (use Cons.prems(2) in auto)
  with Cons show ?case by (simp del: server_step.simps)
qed simp

lemma durable_start: "durable (server_start cfg tok)"
  by (simp add: durable_def server_start_def server_boot_def first_state_def no_state_def store_def Let_def)

lemma restart_store: "durable s \<Longrightarrow> settings_of (store (server_step cfg tok s SvRestart)) = settings_of (store s)"
  by (auto simp: durable_def restart_def server_boot_def first_state_def store_def settings_of_def Let_def)

text \<open>
  C13: joining, and every change of a device, policy or mapping by an administrator, either is acknowledged,
  and then the state file holds the new state as it is, or leaves devices, policies, mappings and the file
  as they were. But for heartbeats nothing else changes a setting. So, as long as no heartbeat fails to be
  saved, a restart at any time loses no setting.
\<close>

theorem changes_saved_or_refused:
  fixes tok cfg es e
  defines "s \<equiv> server_run cfg tok (server_start cfg tok) es"
  defines "s' \<equiv> server_step cfg tok s e"
  shows "(changes e \<longrightarrow> (if acknowledged (news s s') then sv_disk s' = store s' else untouched s s'))
    \<and> (\<not> changes e \<and> \<not> beats e \<and> e \<noteq> SvRestart \<longrightarrow> settings_of (store s') = settings_of (store s))
    \<and> ((\<forall>h v. SvBeat h v False \<notin> set es) \<and> e = SvRestart \<longrightarrow> settings_of (store s') = settings_of (store s))"
proof (intro conjI impI)
  assume "changes e"
  from settled_step [OF this, of s cfg tok] show "if acknowledged (news s s') then sv_disk s' = store s' else untouched s s'"
    by (simp add: s'_def change_settled_def)
next
  assume "\<not> changes e \<and> \<not> beats e \<and> e \<noteq> SvRestart"
  then show "settings_of (store s') = settings_of (store s)" using other_steps by (simp add: s'_def same_settings_def)
next
  assume e: "(\<forall>h v. SvBeat h v False \<notin> set es) \<and> e = SvRestart"
  then have "durable s" unfolding s_def by (intro durable_run durable_start) blast
  then show "settings_of (store s') = settings_of (store s)" using restart_store e by (simp add: s'_def)
qed

text \<open>A policy that could not be saved is not there, and is not after a restart.\<close>

definition unsaved_policy :: server_event where
  "unsaved_policy = SvPolicy header None (asc ''cloud'') (Some (cloud_policy ''direct'' [])) False"

lemma unsaved_news:
  "news (server_start home seal) (server_step home seal (server_start home seal) unsaved_policy) = [Replied 500]"
proof -
  have dev: "sv_device (server_start home seal) (asc ''cloud'') = Some (cloud_device home (seal 0))"
    by (simp add: server_start_def server_boot_def first_state_def no_state_def Let_def sv_device_def cloud_device_def)
  show ?thesis
    by (simp add: unsaved_policy_def guarded_def admin_header put_policy_def dev cloud_policy_def sv_emit_def Let_def
        persist_def audit_def news_def)
qed

lemma changes_saved_or_refused_witness:
  "sv_policies (server_step home seal (server_start home seal) unsaved_policy) = []
   \<and> settings_of (store (server_step home seal (server_start home seal) SvRestart)) = settings_of (store (server_start home seal))"
proof -
  have "changes unsaved_policy" "sv_policies (server_start home seal) = []"
    by (simp_all add: unsaved_policy_def server_start_def server_boot_def first_state_def no_state_def Let_def)
  then show ?thesis
    using changes_saved_or_refused [where e = unsaved_policy and tok = seal and cfg = home and es = "[]"]
      changes_saved_or_refused [where e = SvRestart and tok = seal and cfg = home and es = "[]"]
      unsaved_news
    by (simp add: acknowledged_def untouched_def del: server_step.simps)
qed

section \<open>Heartbeats\<close>

text \<open>
  A heartbeat that enters the SSH account of a device ignores that it could not be saved: it is
  acknowledged, and the account is gone after a restart.
\<close>

definition first_beat :: beat where
  "first_beat = \<lparr>bt_id = asc ''cloud'', bt_user = [97], bt_print = asc ''SHA256:'', bt_version = [], bt_latency = 0, bt_checks = []\<rparr>"

lemma unsaved_beat_acknowledged:
  fixes s' defines "s' \<equiv> server_step home seal (server_start home seal) (SvBeat (seal 0) (Some first_beat) False)"
  shows "last (sv_out s') = Replied 200" "map sd_ssh_user (sv_devices s') = [[97]]"
    "map sd_ssh_user (sv_devices (server_step home seal s' SvRestart)) = [[]]"
proof -
  let ?d = "cloud_device home (seal 0)"
  have st: "sv_devices (server_start home seal) = [?d]" "fst (sv_disk (server_start home seal)) = [?d]"
    by (simp_all add: server_start_def server_boot_def first_state_def no_state_def Let_def)
  have dev: "sv_device (server_start home seal) (asc ''cloud'') = Some ?d" by (simp add: sv_device_def st cloud_device_def)
  have f: "sd_id ?d = asc ''cloud''" "sd_token ?d = seal 0" "sd_ssh_user (cloud_device home t) = []" for t
    by (simp_all add: cloud_device_def)
  have t: "takes_ssh ?d first_beat" "tok_equal (seal 0) (bearer (seal 0))"
    by (simp_all add: takes_ssh_def f first_beat_def go_len_def utf8_encode_def utf8_char_def starts_with_def tok_equal_def
        bearer_def seal_def js_eval)
  show "last (sv_out s') = Replied 200" "map sd_ssh_user (sv_devices s') = [[97]]"
    "map sd_ssh_user (sv_devices (server_step home seal s' SvRestart)) = [[]]"
    unfolding s'_def using t
    by (simp_all add: heartbeat_def first_beat_def dev f st set_device_def sv_emit_def persist_def restart_def server_boot_def
        first_state_def Let_def)
qed

end
