(* ===== verification/Api.thy ===== *)
theory Api
  imports Server_Saved App_Form_Props
begin

text \<open>
  The REST interface of the server: the routes of \<open>Handler\<close> and \<open>core.Decode\<close>, which reads a body into a
  struct and refuses unknown fields. Bodies are JSON values; \<open>None\<close> is a body that holds none (text that
  is not JSON, a number that is no integer, more than 64 KiB).
\<close>

section \<open>Decoding\<close>

type_synonym 'a setter = "'a \<Rightarrow> json \<Rightarrow> 'a option"

text \<open>Go matches keys up to case, an exact match first; \<open>null\<close> leaves a field as it is.\<close>

definition go_fold :: "nat \<Rightarrow> nat" where
  "go_fold c = (if 65 \<le> c \<and> c \<le> 90 then c + 32 else if c = 0x17F then 115 else if c = 0x212A then 107 else c)"

definition find_field :: "(jstext \<times> 'a setter) list \<Rightarrow> jstext \<Rightarrow> 'a setter option" where
  "find_field fs k =
     (case map_of fs k of
        Some f \<Rightarrow> Some f
      | None \<Rightarrow> map_option snd (find (\<lambda>(n, f). map go_fold n = map go_fold k) fs))"

definition decode_field :: "(jstext \<times> 'a setter) list \<Rightarrow> 'a option \<Rightarrow> jstext \<times> json \<Rightarrow> 'a option" where
  "decode_field fs a kv =
     (case a of None \<Rightarrow> None
      | Some x \<Rightarrow> (case find_field fs (fst kv) of None \<Rightarrow> None | Some f \<Rightarrow> f x (snd kv)))"

definition decode_object :: "(jstext \<times> 'a setter) list \<Rightarrow> 'a \<Rightarrow> json option \<Rightarrow> 'a option" where
  "decode_object fs z b =
     (case b of
        Some (JObj kvs) \<Rightarrow> foldl (decode_field fs) (Some z) kvs
      | Some JNull \<Rightarrow> Some z
      | _ \<Rightarrow> None)"

definition text_setter :: "((jstext \<Rightarrow> jstext) \<Rightarrow> 'a \<Rightarrow> 'a) \<Rightarrow> 'a setter" where
  "text_setter upd a v = (case v of JStr t \<Rightarrow> Some (upd (\<lambda>_. t) a) | JNull \<Rightarrow> Some a | _ \<Rightarrow> None)"

definition int_setter :: "((int \<Rightarrow> int) \<Rightarrow> 'a \<Rightarrow> 'a) \<Rightarrow> 'a setter" where
  "int_setter upd a v =
     (case v of
        JNum n \<Rightarrow> if - (2 ^ 63) \<le> n \<and> n < 2 ^ 63 then Some (upd (\<lambda>_. n) a) else None
      | JNull \<Rightarrow> Some a | _ \<Rightarrow> None)"

definition bool_setter :: "((bool \<Rightarrow> bool) \<Rightarrow> 'a \<Rightarrow> 'a) \<Rightarrow> 'a setter" where
  "bool_setter upd a v = (case v of JBool b \<Rightarrow> Some (upd (\<lambda>_. b) a) | JNull \<Rightarrow> Some a | _ \<Rightarrow> None)"

text \<open>An element that is \<open>null\<close> is the zero value; \<open>null\<close> for the list is the empty one.\<close>

fun collect_all :: "'a option list \<Rightarrow> 'a list option" where
  "collect_all [] = Some []"
| "collect_all (x # xs) = (case x of None \<Rightarrow> None | Some a \<Rightarrow> map_option ((#) a) (collect_all xs))"

definition list_setter :: "(json \<Rightarrow> 'b option) \<Rightarrow> (('b list \<Rightarrow> 'b list) \<Rightarrow> 'a \<Rightarrow> 'a) \<Rightarrow> 'a setter" where
  "list_setter element upd a v =
     (case v of
        JArr vs \<Rightarrow> map_option (\<lambda>xs. upd (\<lambda>_. xs) a) (collect_all (map element vs))
      | JNull \<Rightarrow> Some (upd (\<lambda>_. []) a) | _ \<Rightarrow> None)"

definition text_element :: "json \<Rightarrow> jstext option" where
  "text_element v = (case v of JStr t \<Rightarrow> Some t | JNull \<Rightarrow> Some [] | _ \<Rightarrow> None)"

definition decode_one :: "string \<Rightarrow> json option \<Rightarrow> jstext option" where
  "decode_one name = decode_object [(asc name, text_setter id)] []"

definition decode_device :: "json option \<Rightarrow> device_body option" where
  "decode_device =
     decode_object
       [(asc ''name'', text_setter db_name_update), (asc ''proxyPort'', int_setter db_proxy_port_update),
        (asc ''proxyType'', text_setter db_proxy_type_update), (asc ''sshUser'', text_setter db_ssh_user_update),
        (asc ''sshFingerprint'', text_setter db_ssh_print_update), (asc ''sshPort'', int_setter db_ssh_port_update)]
       \<lparr>db_name = [], db_proxy_port = 0, db_proxy_type = [], db_ssh_user = [], db_ssh_print = [], db_ssh_port = 0\<rparr>"

text \<open>\<open>null\<close> leaves the nil slice, which is what is stored and shown then; an array is never nil.\<close>

definition exits_setter :: "policy setter" where
  "exits_setter p v =
     (case v of
        JArr vs \<Rightarrow> map_option (\<lambda>is. p\<lparr>po_exits := is, po_nil := False\<rparr>) (collect_all (map text_element vs))
      | JNull \<Rightarrow> Some (p\<lparr>po_exits := [], po_nil := True\<rparr>) | _ \<Rightarrow> None)"

definition decode_policy :: "json option \<Rightarrow> policy option" where
  "decode_policy =
     decode_object
       [(asc ''source'', text_setter po_source_update), (asc ''exits'', exits_setter),
        (asc ''onFailure'', text_setter po_failure_update), (asc ''active'', text_setter po_active_update)]
       \<lparr>po_source = [], po_exits = [], po_failure = [], po_active = [], po_nil = True\<rparr>"

definition decode_mapping :: "json option \<Rightarrow> mapping option" where
  "decode_mapping =
     decode_object
       [(asc ''id'', text_setter mp_id_update), (asc ''name'', text_setter mp_name_update),
        (asc ''protocol'', text_setter mp_protocol_update), (asc ''listenPort'', int_setter mp_listen_update),
        (asc ''device'', text_setter mp_device_update), (asc ''targetPort'', int_setter mp_target_update),
        (asc ''domain'', text_setter mp_domain_update), (asc ''enabled'', bool_setter mp_enabled_update),
        (asc ''error'', text_setter mp_error_update)]
       \<lparr>mp_id = [], mp_name = [], mp_protocol = [], mp_listen = 0, mp_device = [], mp_target = 0, mp_domain = [],
        mp_enabled = False, mp_error = []\<rparr>"

definition decode_join :: "json option \<Rightarrow> join_body option" where
  "decode_join =
     decode_object
       [(asc ''code'', text_setter jb_code_update), (asc ''name'', text_setter jb_name_update),
        (asc ''publicKey'', text_setter jb_key_update)]
       \<lparr>jb_code = [], jb_name = [], jb_key = []\<rparr>"

definition decode_check :: "json \<Rightarrow> (jstext \<times> bool \<times> jstext) option" where
  "decode_check v =
     decode_object
       [(asc ''name'', text_setter (\<lambda>f. map_prod f id)), (asc ''ok'', bool_setter (\<lambda>f. map_prod id (map_prod f id))),
        (asc ''detail'', text_setter (\<lambda>f. map_prod id (map_prod id f)))]
       ([], False, []) (Some v)"

definition decode_beat :: "json option \<Rightarrow> beat option" where
  "decode_beat =
     decode_object
       [(asc ''sshUser'', text_setter bt_user_update), (asc ''sshFingerprint'', text_setter bt_print_update),
        (asc ''id'', text_setter bt_id_update), (asc ''version'', text_setter bt_version_update),
        (asc ''latencyMs'', int_setter bt_latency_update),
        (asc ''diagnostics'', list_setter decode_check bt_checks_update)]
       \<lparr>bt_id = [], bt_user = [], bt_print = [], bt_version = [], bt_latency = 0, bt_checks = []\<rparr>"

section \<open>Routes\<close>

text \<open>
  A path segment that is an identifier: no character that a URL would need to escape or the mux would
  clean. \<open>ip\<close>: where the request comes from; \<open>wg\<close>, \<open>saved\<close>: what the environment answers.
\<close>

definition segment_ok :: "jstext \<Rightarrow> bool" where
  "segment_ok t \<longleftrightarrow> t \<noteq> [] \<and> (\<forall>c \<in> set t. is_digit c \<or> 65 \<le> c \<and> c \<le> 90 \<or> 97 \<le> c \<and> c \<le> 122 \<or> c = 45 \<or> c = 95)"

definition after_prefix :: "string \<Rightarrow> jstext \<Rightarrow> jstext option" where
  "after_prefix p t =
     (if starts_with (asc p) t \<and> segment_ok (drop (length p) t) then Some (drop (length p) t) else None)"

record request_env =
  re_ip :: jstext
  re_auth :: jstext
  re_cookie :: "jstext option"
  re_wg :: wg_answers
  re_saved :: bool

definition route :: "request_env \<Rightarrow> http_method \<Rightarrow> jstext \<Rightarrow> json option \<Rightarrow> server_event option" where
  "route env m p b =
     (case m of
        GET \<Rightarrow> if p = asc ''/api/state'' then Some (SvState (re_auth env) (re_cookie env)) else None
      | POST \<Rightarrow>
          if p = asc ''/api/login'' then Some (SvLogin (re_ip env) (decode_one ''password'' b))
          else if p = asc ''/api/logout'' then Some (SvLogout (re_cookie env))
          else if p = asc ''/api/enrollment'' then Some (SvCode (re_auth env) (re_cookie env) (decode_one ''ip'' b))
          else if p = asc ''/api/join'' then Some (SvJoin (decode_join b) (re_wg env) (re_saved env))
          else if p = asc ''/api/heartbeat'' then Some (SvBeat (re_auth env) (decode_beat b) (re_saved env))
          else if p = asc ''/api/mappings'' then Some (SvMapping (re_auth env) (re_cookie env) (decode_mapping b))
          else None
      | PUT \<Rightarrow>
          (case after_prefix ''/api/devices/'' p of
             Some i \<Rightarrow> Some (SvDevice (re_auth env) (re_cookie env) i (decode_device b) (re_saved env))
           | None \<Rightarrow>
               map_option (\<lambda>i. SvPolicy (re_auth env) (re_cookie env) i (decode_policy b) (re_saved env))
                 (after_prefix ''/api/policies/'' p))
      | DELETE \<Rightarrow>
          map_option (\<lambda>i. SvDelete (re_auth env) (re_cookie env) i (re_saved env)) (after_prefix ''/api/mappings/'' p))"

section \<open>From the console\<close>

text \<open>
  What \<open>JSON.stringify\<close> makes of the values of a form: a number that is not finite becomes \<open>null\<close>, one
  with a fraction is no integer (\<open>None\<close>). That the text reads back as this value is \<open>json_parse_stringify\<close>.
\<close>

fun fval_json :: "fval \<Rightarrow> json option" where
  "fval_json (FText t) = Some (JStr t)"
| "fval_json (FNum (Fin r)) = (if of_int \<lfloor>r\<rfloor> = r then Some (JNum \<lfloor>r\<rfloor>) else None)"
| "fval_json (FNum x) = Some JNull"
| "fval_json (FBool b) = Some (JBool b)"
| "fval_json (FList ts) = Some (JArr (map JStr ts))"

definition payload_json :: "payload \<Rightarrow> json option" where
  "payload_json p = map_option JObj (collect_all (map (\<lambda>(k, v). map_option (Pair k) (fval_json v)) p))"

definition console_event :: "request_env \<Rightarrow> api_request \<Rightarrow> server_event option" where
  "console_event env r = route env (ar_method r) (ar_path r) (Option.bind (ar_data r) payload_json)"

lemma fval_int [simp]: "fval_json (FNum (Fin (of_int n))) = Some (JNum n)"
  by simp

lemmas api_eval =
  js_eval decode_object_def decode_field_def find_field_def text_setter_def int_setter_def bool_setter_def
  list_setter_def exits_setter_def text_element_def payload_json_def

lemma after_prefix_id:
  "segment_ok i \<Longrightarrow> after_prefix ''/api/devices/'' (asc ''/api/devices/'' @ i) = Some i"
  "segment_ok i \<Longrightarrow> after_prefix ''/api/devices/'' (asc ''/api/policies/'' @ i) = None"
  "segment_ok i \<Longrightarrow> after_prefix ''/api/policies/'' (asc ''/api/policies/'' @ i) = Some i"
  "segment_ok i \<Longrightarrow> after_prefix ''/api/mappings/'' (asc ''/api/mappings/'' @ i) = Some i"
  by (simp_all add: after_prefix_def starts_with_def js_eval)

text \<open>The server reads a key in another case, and refuses one it does not know.\<close>

lemma decode_examples:
  "decode_one ''password'' (Some (JObj [(asc ''PassWord'', JStr [120])])) = Some [120]"
  "decode_one ''password'' (Some (JObj [(asc ''password'', JStr [120]), (asc ''admin'', JBool True)])) = None"
  by (simp_all add: decode_one_def api_eval go_fold_def)

end
