(* ===== verification/Server_Forms.thy ===== *)
theory Server_Forms
  imports Api App
begin

text \<open>
  The console and the server together: in every state the server can reach, what the dialogs of the
  console send when they are saved untouched is accepted, and changes nothing but what is not offered any
  more.
\<close>

section \<open>Settings stay within their limits\<close>

definition device_set_ok :: "sdevice \<Rightarrow> bool" where
  "device_set_ok d \<longleftrightarrow>
     1 \<le> go_len (sd_name d) \<and> go_len (sd_name d) \<le> 80 \<and> (sd_proxy_port d = 0 \<or> is_port (sd_proxy_port d))
     \<and> sd_proxy_port d \<noteq> 17891 \<and> sd_proxy_port d \<noteq> 18090 \<and> is_port (sd_ssh_port d)
     \<and> sd_proxy_type d \<in> {[], asc ''http'', asc ''socks5''}
     \<and> go_len (sd_ssh_user d) \<le> 80 \<and> go_len (sd_ssh_print d) \<le> 100"

definition policy_set_ok :: "policy \<Rightarrow> bool" where
  "policy_set_ok p \<longleftrightarrow>
     po_failure p \<in> {asc ''block'', asc ''direct''} \<and> distinct (po_exits p) \<and> length (po_exits p) \<le> 20"

definition setup_ok :: "sdevice list \<Rightarrow> policy list \<Rightarrow> bool" where
  "setup_ok ds ps \<longleftrightarrow> (\<forall>d \<in> set ds. device_set_ok d) \<and> (\<forall>p \<in> set ps. policy_set_ok p)"

definition settings_inv :: "server \<Rightarrow> bool" where
  "settings_inv s \<longleftrightarrow> setup_ok (sv_devices s) (sv_policies s) \<and> setup_ok (fst (sv_disk s)) (fst (snd (sv_disk s)))"

lemma settings_same:
  "sv_devices s' = sv_devices s \<Longrightarrow> sv_policies s' = sv_policies s \<Longrightarrow> sv_disk s' = sv_disk s \<Longrightarrow>
     settings_inv s' = settings_inv s"
  by (simp add: settings_inv_def)

lemma settings_emit [simp]: "settings_inv (sv_emit os s) = settings_inv s"
  by (rule settings_same) (simp_all add: sv_emit_def)

lemma settings_audit [simp]: "settings_inv (audit now a t s) = settings_inv s"
  by (rule settings_same) (simp_all add: audit_def Let_def)

lemma settings_persist [simp]: "settings_inv s \<Longrightarrow> settings_inv (persist saved s)"
  by (simp add: settings_inv_def persist_def store_def)

lemma update_ok: "\<forall>d \<in> set ds. P d \<Longrightarrow> (\<And>d. P d \<Longrightarrow> P (f d)) \<Longrightarrow> \<forall>d \<in> set (update_first i f ds). P d"
  by (induction ds) auto

lemma settings_set: "settings_inv s \<Longrightarrow> (\<And>d. device_set_ok d \<Longrightarrow> device_set_ok (f d)) \<Longrightarrow> settings_inv (set_device i f s)"
  using update_ok [of "sv_devices s" device_set_ok f i] by (simp add: settings_inv_def setup_ok_def set_device_def)

lemma settings_login [simp]: "settings_inv s \<Longrightarrow> settings_inv (login cfg tok now ip pw s)"
  by (rule settings_same [THEN iffD2]; (auto simp: login_def sv_emit_def Let_def split: option.split)?)

lemma settings_logout [simp]: "settings_inv (logout c s) = settings_inv s"
  by (rule settings_same) (simp_all add: logout_def sv_emit_def split: option.split)

lemma settings_code [simp]: "settings_inv (create_code cfg tok now ip s) = settings_inv s"
  by (rule settings_same) (simp_all add: create_code_def sv_emit_def Let_def split: option.split)

lemma settings_heartbeat [simp]: "settings_inv s \<Longrightarrow> settings_inv (heartbeat now h v saved s)"
  unfolding heartbeat_def Let_def
  by (auto simp: device_set_ok_def is_port_def takes_ssh_def split: option.split intro!: settings_set settings_persist)

lemma settings_update_device [simp]: "settings_inv s \<Longrightarrow> settings_inv (update_device now i v saved s)"
proof -
  assume inv: "settings_inv s"
  have ok: "device_set_ok (apply_device b d)" if "device_ok b" for b d
    using that by (auto simp: device_ok_def device_set_ok_def apply_device_def not_less)
  have "device_set_ok old" if "sv_device s i = Some old" for old
    using that inv by (auto simp: settings_inv_def setup_ok_def sv_device_def find_Some_iff)
  with ok inv show ?thesis
    unfolding update_device_def Let_def by (auto split: option.split intro!: settings_set settings_persist)
qed

lemma exits_distinct: "exits_ok s seen is \<Longrightarrow> distinct is \<and> set is \<inter> set seen = {}"
  by (induction s seen "is" rule: exits_ok.induct) (auto split: option.splits)

lemma settings_put_policy [simp]: "settings_inv s \<Longrightarrow> settings_inv (put_policy now i p saved s)"
proof -
  assume inv: "settings_inv s"
  have "settings_inv (s\<lparr>sv_policies := replace_policy q (sv_policies s)\<rparr>)" if "policy_set_ok q" for q
    using inv that by (auto simp: settings_inv_def setup_ok_def replace_policy_def)
  moreover have "settings_inv (persist False (audit now a t s')\<lparr>sv_policies := sv_policies s\<rparr>)"
    if "sv_devices s' = sv_devices s" "sv_disk s' = sv_disk s" for s' a t
    using inv that by (simp add: settings_inv_def persist_def audit_def Let_def)
  ultimately show ?thesis
    using inv exits_distinct
    unfolding put_policy_def Let_def
    by (auto simp: policy_set_ok_def split: option.split intro!: settings_persist)
qed

lemma settings_put_mapping [simp]: "settings_inv (put_mapping cfg tok m s) = settings_inv s"
  by (rule settings_same) (simp_all add: put_mapping_def sv_emit_def Let_def split: option.split)

lemma settings_delete_mapping [simp]: "settings_inv s \<Longrightarrow> settings_inv (delete_mapping now i saved s)"
  by (auto simp: settings_inv_def delete_mapping_def stop_listener_def server_defs Let_def split: option.split)

lemma settings_committed [simp]: "settings_inv s \<Longrightarrow> settings_inv (committed now saved s)"
  by (auto simp: settings_inv_def committed_def commit_mapping_def stop_listener_def server_defs Let_def
      split: option.split fwd_task.split)

lemma settings_listened [simp]: "settings_inv (listened cfg ok e s) = settings_inv s"
  by (rule settings_same)
    (auto simp: server_defs server_net_defs Let_def split: option.splits fwd_task.splits list.splits prod.splits sum.splits)

lemma settings_restore [simp]: "settings_inv (restore_mappings s) = settings_inv s"
  by (rule settings_same) (simp_all add: restore_mappings_def)

lemma settings_dial_start [simp]: "settings_inv (dial_start i s) = settings_inv s"
  by (rule settings_same) (simp_all add: dial_start_def sv_emit_def Let_def)

lemma settings_proxy [simp]: "settings_inv (proxy_request i t s) = settings_inv s"
  by (simp add: proxy_request_def split: option.split)

lemma settings_active [simp]: "settings_inv s \<Longrightarrow> settings_inv (set_active i a s)"
  by (auto simp: settings_inv_def set_active_def setup_ok_def policy_set_ok_def)

lemma settings_dial_end [simp]: "settings_inv (dial_end n ok s) = settings_inv s"
  by (rule settings_same) (simp_all add: dial_end_def sv_emit_def)

lemma settings_dial_step [simp]: "settings_inv s \<Longrightarrow> settings_inv (dial_step n ok s)"
  by (simp add: dial_step_def Let_def settings_same [of "_\<lparr>sv_dials := _\<rparr>"] split: option.split list.split)

lemma settings_reconcile [simp]: "settings_inv (reconcile_peers t s) = settings_inv s"
  by (simp add: reconcile_peers_def split: option.split)

lemma settings_probed [simp]: "settings_inv s \<Longrightarrow> settings_inv (probed hand transfer d status s)"
  unfolding probed_def Let_def by (auto split: prod.split intro!: settings_set simp: device_set_ok_def)

lemma settings_guarded: "(\<And>t. settings_inv t \<Longrightarrow> settings_inv (f t)) \<Longrightarrow> settings_inv s \<Longrightarrow> settings_inv (guarded cfg now h c f s)"
  by (simp add: guarded_def)

lemma settings_join [simp]: "settings_inv s \<Longrightarrow> settings_inv (join_device cfg tok now body wg saved s)"
proof -
  assume inv: "settings_inv s"
  show ?thesis
  proof (cases "body = None \<or> (\<exists>v. body = Some v \<and> \<not> (1 \<le> go_len (jb_name v) \<and> go_len (jb_name v) \<le> 80))")
    case True
    then show ?thesis using inv by (auto simp: join_device_def)
  next
    case False
    then obtain v where v: "body = Some v" "1 \<le> go_len (jb_name v)" "go_len (jb_name v) \<le> 80" by auto
    have new: "device_set_ok (joined_device i t v ip)" for i t ip
      using v by (simp add: device_set_ok_def joined_device_def is_port_def go_len_def utf8_encode_def)
    show ?thesis
    proof (cases rule: join_cases [of cfg tok now body wg saved s])
      case (entered w ip routes os adopted)
      with new v have "device_set_ok (joined_device i t w ip)" for i t by simp
      with inv show ?thesis
        unfolding entered(6) join_admit_def Let_def
        by (simp add: settings_inv_def setup_ok_def sv_emit_def audit_def persist_def store_def)
    qed (use inv in simp_all)
  qed
qed

lemma cloud_set_ok: "device_set_ok (cloud_device cfg t)"
  by (simp add: device_set_ok_def cloud_device_def is_port_def go_len_def utf8_encode_def cloud_name_def utf8_char_def)

lemma settings_restart: "settings_inv s \<Longrightarrow> settings_inv (restart cfg tok s)"
  using cloud_set_ok [of cfg]
  by (auto simp: settings_inv_def restart_def server_boot_def first_state_def setup_ok_def Let_def)

lemma settings_step: "settings_inv s \<Longrightarrow> settings_inv (server_step cfg tok s e)"
  by (cases e) (auto simp: settings_restart settings_same [of "_\<lparr>sv_clock := _\<rparr>"] intro!: settings_guarded)

interpretation settings: event_system "server_step cfg tok" settings_inv for cfg tok
  by unfold_locales (rule settings_step)

lemma settings_start: "settings_inv (server_start cfg tok)"
  by (simp add: settings_inv_def server_start_def server_boot_def first_state_def no_state_def setup_ok_def Let_def
      cloud_set_ok)

section \<open>Reachable servers\<close>

lemma settings_reach: "settings_inv (server_run cfg tok (server_start cfg tok) es)"
  by (rule settings.run_inv [OF settings_start])

lemma shown_devices: "nt_devices (shown_state cfg tt now s) = map (shown_device now) (sv_devices s)"
  by (simp add: shown_state_def)

lemma shown_policies: "nt_policies (shown_state cfg tt now s) = sv_policies s"
  by (simp add: shown_state_def)

section \<open>The dialog of a policy\<close>

definition shares_proxy :: "server \<Rightarrow> jstext \<Rightarrow> bool" where
  "shares_proxy s e \<longleftrightarrow> e \<noteq> [] \<and> (\<exists>d \<in> set (sv_devices s). sd_id d = e \<and> sd_proxy_port d \<noteq> 0)"

definition policy_resaved :: "net \<Rightarrow> jstext \<Rightarrow> server \<Rightarrow> policy" where
  "policy_resaved st i s =
     \<lparr>po_source = i, po_exits = filter (shares_proxy s) (po_exits (policy_of st i)),
      po_failure = po_failure (policy_of st i), po_active = [], po_nil = False\<rparr>"

lemma policy_of_ok: "settings_inv s \<Longrightarrow> policy_set_ok (policy_of (shown_state cfg tt now s) i)"
  by (auto simp: policy_of_def shown_policies settings_inv_def setup_ok_def find_Some_iff policy_set_ok_def
      split: option.split)

lemma collect_texts: "collect_all (map (text_element \<circ> JStr) ts) = Some ts"
  by (induction ts) (simp_all add: text_element_def)

lemma decode_resaved:
  fixes s cfg tt now
  assumes "settings_inv s"
  defines "st \<equiv> shown_state cfg tt now s"
  shows "decode_policy (Option.bind (ar_data (policy_request i (policy_form st i))) payload_json) =
     Some (policy_resaved st i s)"
proof -
  have f: "po_failure (policy_of st i) \<in> {asc ''block'', asc ''direct''}"
    using policy_of_ok [OF assms(1), of cfg tt now i] by (simp add: policy_set_ok_def st_def)
  have e: "(\<lambda>e. e \<noteq> [] \<and> (\<exists>d \<in> set (nt_devices st). dv_id d = e \<and> dv_proxy_port d \<noteq> 0)) = shares_proxy s"
    by (rule ext) (simp add: shares_proxy_def st_def shown_devices shown_device_def)
  show ?thesis
    using f unfolding policy_save_untouched e
    by (auto simp: policy_resaved_def decode_policy_def api_eval collect_texts)
qed

lemma find_unique: "distinct (map f ds) \<Longrightarrow> d \<in> set ds \<Longrightarrow> find (\<lambda>x. f x = f d) ds = Some d"
  by (induction ds) (auto simp: image_iff)

lemma exits_resaved:
  assumes "distinct (map sd_id (sv_devices s))"
  shows "distinct is \<Longrightarrow> set is \<inter> set seen = {} \<Longrightarrow> exits_ok s seen (filter (shares_proxy s) is)"
proof (induction "is" arbitrary: seen)
  case (Cons e es)
  then have rest: "exits_ok s seen (filter (shares_proxy s) es)" "exits_ok s (e # seen) (filter (shares_proxy s) es)"
    by auto
  show ?case
  proof (cases "shares_proxy s e")
    case True
    then obtain d where d: "d \<in> set (sv_devices s)" "sd_id d = e" "sd_proxy_port d \<noteq> 0" by (auto simp: shares_proxy_def)
    then have "sv_device s e = Some d" using find_unique [OF assms d(1)] by (simp add: sv_device_def)
    with True d rest Cons.prems show ?thesis by simp
  qed (use rest in simp)
qed simp

lemma guarded_in: "is_admin cfg now h c s \<Longrightarrow> guarded cfg now h c f s = f s"
  by (simp add: guarded_def)

lemma emit_state [simp]:
  "sv_devices (sv_emit os s) = sv_devices s" "sv_policies (sv_emit os s) = sv_policies s"
  "sv_device (sv_emit os s) i = sv_device s i" "exits_ok (sv_emit os s) seen is = exits_ok s seen is"
  "sv_out (sv_emit os s) = sv_out s @ os"
proof -
  show "sv_device (sv_emit os s) i = sv_device s i" for i by (simp add: sv_device_def sv_emit_def)
  then show "exits_ok (sv_emit os s) seen is = exits_ok s seen is"
    by (induction s seen "is" rule: exits_ok.induct) (auto split: option.split)
qed (simp_all add: sv_emit_def)

lemma put_policy_accepted:
  assumes "p\<lparr>po_source := i, po_active := []\<rparr> = p" "po_failure p \<in> {asc ''block'', asc ''direct''}"
    and "length (po_exits p) \<le> 20" "sv_device s i \<noteq> None" "exits_ok s [] (po_exits p)"
  shows "sv_policies (put_policy now i (Some p) True s) = replace_policy p (sv_policies s)
     \<and> last (sv_out (put_policy now i (Some p) True s)) = Replied 200"
proof -
  have "put_policy now i (Some p) True s =
      reply 200 (persist True (audit now ''policy.update'' i (s\<lparr>sv_policies := replace_policy p (sv_policies s)\<rparr>)))"
    unfolding put_policy_def option.case assms(1) Let_def using assms(2-5) by auto
  then show ?thesis by (simp add: persist_def audit_def Let_def)
qed

lemma policy_route:
  assumes "settings_inv s" "segment_ok i"
  shows "console_event env (policy_request i (policy_form (shown_state cfg tt now s) i)) =
     Some (SvPolicy (re_auth env) (re_cookie env) i (Some (policy_resaved (shown_state cfg tt now s) i s)) (re_saved env))"
proof -
  have "ar_path (policy_request i v) = asc ''/api/policies/'' @ i" "ar_method (policy_request i v) = PUT" for v
    by (simp_all add: policy_request_def)
  then show ?thesis
    using decode_resaved [OF assms(1), of i cfg tt now] assms(2)
    by (simp add: console_event_def route_def after_prefix_id)
qed

text \<open>
  C14: where the dialog of a policy opens (it does not where the server holds the exits as \<open>null\<close>), an
  administrator who saves it as it is gets it accepted: the server stores the policy with the same choice on
  failure and exactly those exits that still share a proxy, in their order, and forgets which one was active.
\<close>

theorem policy_dialog_accepted:
  fixes tok cfg es
  defines "s \<equiv> server_run cfg tok (server_start cfg tok) es"
  assumes "inj (\<lambda>n. take 12 (tok n))" "\<And>n. take 12 (tok n) \<noteq> asc ''cloud''"
    and "sv_device s i \<noteq> None" "segment_ok i" "can_open (Some (shown_state cfg tt now s)) (DgPolicy i)"
    and "is_admin cfg (sv_clock s) (re_auth env) (re_cookie env) s" "re_saved env"
  shows "\<exists>e. console_event env (policy_request i (policy_form (shown_state cfg tt now s) i)) = Some e
     \<and> sv_policies (server_step cfg tok s e) =
         replace_policy (policy_resaved (shown_state cfg tt now s) i s) (sv_policies s)
     \<and> last (sv_out (server_step cfg tok s e)) = Replied 200"
proof -
  let ?p = "policy_resaved (shown_state cfg tt now s) i s"
  have inv: "settings_inv s" "device_inv tok s"
    unfolding s_def using assms(2,3) by (auto intro: settings_reach device_inv_reach)
  have ok: "policy_set_ok (policy_of (shown_state cfg tt now s) i)" by (rule policy_of_ok [OF inv(1)])
  have "distinct (map sd_id (sv_devices s))"
    using inv(2) by (simp add: device_inv_def idents_ok_def ident_def comp_def)
  then have "exits_ok s [] (po_exits ?p)"
    using exits_resaved [of s _ "[]"] ok by (simp add: policy_resaved_def policy_set_ok_def)
  moreover have "length (po_exits ?p) \<le> 20"
    using ok by (auto simp: policy_resaved_def policy_set_ok_def intro: le_trans [OF length_filter_le])
  moreover have "po_failure ?p \<in> {asc ''block'', asc ''direct''}" "?p\<lparr>po_source := i, po_active := []\<rparr> = ?p"
    using ok by (simp_all add: policy_resaved_def policy_set_ok_def)
  ultimately have "sv_policies (put_policy n i (Some ?p) True s) = replace_policy ?p (sv_policies s)
     \<and> last (sv_out (put_policy n i (Some ?p) True s)) = Replied 200" for n
    using put_policy_accepted [where p = ?p and s = s] assms(4) by simp
  then show ?thesis
    using assms(8) policy_route [OF inv(1) assms(5)] by (simp add: guarded_in [OF assms(7)])
qed

text \<open>The first administrator of a new server saves the dialog of the server's own policy.\<close>

definition signed_env :: request_env where
  "signed_env = \<lparr>re_ip = [], re_auth = header, re_cookie = None, re_wg = \<lparr>wg_key = None, wg_routes = None, wg_set = False\<rparr>,
     re_saved = True\<rparr>"

lemma start_cloud: "sv_devices (server_start cfg tok) = [cloud_device cfg (tok 0)]" "sv_policies (server_start cfg tok) = []"
  by (simp_all add: server_start_def server_boot_def first_state_def no_state_def Let_def)

lemma cloud_found: "sv_device (server_start cfg tok) (asc ''cloud'') = Some (cloud_device cfg (tok 0))"
  by (simp add: sv_device_def start_cloud cloud_device_def)

lemma cloud_segment: "segment_ok (asc ''cloud'')"
  by (simp add: segment_ok_def js_eval)

lemma policy_dialog_accepted_witness:
  "\<exists>e. console_event signed_env
        (policy_request (asc ''cloud'') (policy_form (shown_state home (\<lambda>_. []) 0 (server_start home seal)) (asc ''cloud''))) = Some e
     \<and> sv_policies (server_step home seal (server_start home seal) e) = [(no_policy (asc ''cloud''))\<lparr>po_nil := False\<rparr>]"
  using policy_dialog_accepted [where tok = seal and cfg = home and es = "[]" and i = "asc ''cloud''" and env = signed_env
      and tt = "\<lambda>_. []" and now = 0] seal_distinct admin_header
  by (auto simp: cloud_found cloud_segment signed_env_def start_cloud policy_resaved_def policy_of_def shown_policies
      replace_policy_def no_policy_def can_open_def)

text \<open>
  A request that names no exits stores a policy the console cannot show the dialog of: \<open>p.exits\<close> is \<open>null\<close>
  there.
\<close>

definition no_exits_body :: json where
  "no_exits_body = JObj [(asc ''onFailure'', JStr (asc ''block''))]"

lemma no_exits_never_open:
  fixes s
  defines "s \<equiv> server_step home seal (server_start home seal)
    (SvPolicy header None (asc ''cloud'') (decode_policy (Some no_exits_body)) True)"
  shows "last (sv_out s) = Replied 200" "\<not> can_open (Some (shown_state home tt now s)) (DgPolicy (asc ''cloud''))"
proof -
  have b: "decode_policy (Some no_exits_body) =
      Some \<lparr>po_source = [], po_exits = [], po_failure = asc ''block'', po_active = [], po_nil = True\<rparr>"
    by (simp add: decode_policy_def no_exits_body_def api_eval)
  have "sv_policies s = [no_policy (asc ''cloud'')] \<and> last (sv_out s) = Replied 200"
    unfolding s_def b
    by (simp add: guarded_def admin_header put_policy_def cloud_found start_cloud sv_emit_def persist_def audit_def
        replace_policy_def no_policy_def Let_def)
  then show "last (sv_out s) = Replied 200" "\<not> can_open (Some (shown_state home tt now s)) (DgPolicy (asc ''cloud''))"
    by (simp_all add: can_open_def policy_of_def shown_policies no_policy_def)
qed

section \<open>The dialog of a device\<close>

definition device_resaved :: "sdevice \<Rightarrow> device_body" where
  "device_resaved d =
     \<lparr>db_name = sd_name d, db_proxy_port = sd_proxy_port d,
      db_proxy_type = (if sd_proxy_type d = asc ''http'' then asc ''http'' else asc ''socks5''),
      db_ssh_user = sd_ssh_user d, db_ssh_print = sd_ssh_print d, db_ssh_port = sd_ssh_port d\<rparr>"

lemma find_image: "find P (map f xs) = map_option f (find (P \<circ> f) xs)"
  by (induction xs) simp_all

lemma shown_found: "device (shown_state cfg tt now s) i = map_option (shown_device now) (sv_device s i)"
  by (simp add: device_def sv_device_def shown_devices find_image comp_def shown_device_def)

text \<open>The texts of a device that an \<open>input\<close> can hold.\<close>

definition plain_device :: "sdevice \<Rightarrow> bool" where
  "plain_device d \<longleftrightarrow> plain_text (sd_name d) \<and> plain_text (sd_ssh_user d) \<and> plain_text (sd_ssh_print d)"

lemma decode_device_resaved:
  assumes "device_set_ok d" "plain_device d"
  shows "decode_device (Option.bind (ar_data (device_request i (device_form (shown_device now d)))) payload_json) =
     Some (device_resaved d)"
proof -
  have n: "sd_ssh_port d \<noteq> 0" "- (2 ^ 63) \<le> sd_ssh_port d" "sd_ssh_port d < 2 ^ 63"
    "- (2 ^ 63) \<le> sd_proxy_port d" "sd_proxy_port d < 2 ^ 63"
    using assms by (auto simp: device_set_ok_def is_port_def)
  show ?thesis
    unfolding device_save_untouched
    using n assms(2)
    by (simp add: decode_device_def device_resaved_def shown_device_def api_eval plain_device_def input_plain
        del: fval_json.simps(2))
qed

lemma device_resaved_ok: "device_set_ok d \<Longrightarrow> device_ok (device_resaved d)"
  by (auto simp: device_set_ok_def device_ok_def device_resaved_def)

definition proxy_type_kept :: "sdevice \<Rightarrow> sdevice" where
  "proxy_type_kept d = (if sd_proxy_type d = [] then d\<lparr>sd_proxy_type := asc ''socks5''\<rparr> else d)"

lemma apply_resaved: "device_set_ok d \<Longrightarrow> apply_device (device_resaved d) d = proxy_type_kept d"
  by (cases d) (auto simp: device_set_ok_def device_resaved_def apply_device_def proxy_type_kept_def js_eval)

lemma update_unique:
  "distinct (map sd_id ds) \<Longrightarrow> find (\<lambda>x. sd_id x = i) ds = Some d \<Longrightarrow>
     update_first i f ds = map (\<lambda>x. if sd_id x = i then f d else x) ds"
proof (induction ds)
  case (Cons x xs)
  have "sd_id x = i \<Longrightarrow> map (\<lambda>y. if sd_id y = i then f d else y) xs = xs"
    using Cons.prems(1) by (intro map_idI) (auto simp: image_iff)
  with Cons show ?case by auto
qed simp

text \<open>
  C26: an administrator who opens the dialog of a device whose texts an \<open>input\<close> can hold (no line breaks,
  no NUL) and saves it as it is gets it accepted, and changes nothing at the server but a proxy protocol that
  was never chosen, which becomes SOCKS5.
\<close>

theorem device_dialog_accepted:
  fixes tok cfg es
  defines "s \<equiv> server_run cfg tok (server_start cfg tok) es"
  assumes "inj (\<lambda>n. take 12 (tok n))" "\<And>n. take 12 (tok n) \<noteq> asc ''cloud''"
    and "device (shown_state cfg tt now s) i = Some v" "segment_ok i"
    and "plain_text (dv_name v)" "plain_text (dv_ssh_user v)" "plain_text (dv_ssh_print v)"
    and "is_admin cfg (sv_clock s) (re_auth env) (re_cookie env) s" "re_saved env"
  shows "\<exists>e. console_event env (device_request i (device_form v)) = Some e
     \<and> sv_devices (server_step cfg tok s e) =
         map (\<lambda>x. if sd_id x = i then proxy_type_kept x else x) (sv_devices s)
     \<and> last (sv_out (server_step cfg tok s e)) = Replied 200"
proof -
  obtain d where d: "sv_device s i = Some d" "v = shown_device now d"
    using assms(4) by (auto simp: shown_found)
  have inv: "settings_inv s" "device_inv tok s"
    unfolding s_def using assms(2,3) by (auto intro: settings_reach device_inv_reach)
  have mem: "d \<in> set (sv_devices s)" "sd_id d = i" using d(1) by (auto simp: sv_device_def find_Some_iff)
  then have ok: "device_set_ok d" using inv(1) by (simp add: settings_inv_def setup_ok_def)
  have dist: "distinct (map sd_id (sv_devices s))"
    using inv(2) by (simp add: device_inv_def idents_ok_def ident_def comp_def)
  have "update_first i (apply_device (device_resaved d)) (sv_devices s) =
      map (\<lambda>x. if sd_id x = i then proxy_type_kept d else x) (sv_devices s)"
    using update_unique [OF dist] d(1) by (simp add: sv_device_def apply_resaved [OF ok])
  also have "\<dots> = map (\<lambda>x. if sd_id x = i then proxy_type_kept x else x) (sv_devices s)"
    using dist mem by (auto simp: distinct_map inj_on_def)
  finally have devs: "update_first i (apply_device (device_resaved d)) (sv_devices s) = \<dots>" .
  have "ar_path (device_request i f) = asc ''/api/devices/'' @ i" "ar_method (device_request i f) = PUT" for f
    by (simp_all add: device_request_def)
  moreover have "plain_device d" using assms(6-8) by (simp add: plain_device_def d(2) shown_device_def)
  ultimately have e: "console_event env (device_request i (device_form v)) =
      Some (SvDevice (re_auth env) (re_cookie env) i (Some (device_resaved d)) True)"
    using decode_device_resaved [OF ok, of i now] assms(5,10) d(2)
    by (simp add: console_event_def route_def after_prefix_id)
  have "sv_devices (update_device n i (Some (device_resaved d)) True s) = map (\<lambda>x. if sd_id x = i then proxy_type_kept x else x) (sv_devices s)
     \<and> last (sv_out (update_device n i (Some (device_resaved d)) True s)) = Replied 200" for n
    using d(1) devs device_resaved_ok [OF ok]
    by (simp add: update_device_def Let_def persist_def audit_def set_device_def)
  then show ?thesis by (simp add: e guarded_in [OF assms(9)])
qed

lemma device_dialog_accepted_witness:
  "\<exists>e. console_event signed_env (device_request (asc ''cloud'') (device_form (shown_device 0 (cloud_device home (seal 0))))) = Some e
     \<and> sv_devices (server_step home seal (server_start home seal) e) = [proxy_type_kept (cloud_device home (seal 0))]"
  using device_dialog_accepted [of seal home "\<lambda>_. []" 0 "[]" "asc ''cloud''" "shown_device 0 (cloud_device home (seal 0))" signed_env]
    seal_distinct admin_header
  by (auto simp: shown_found cloud_found cloud_segment signed_env_def start_cloud cloud_device_def shown_device_def
      plain_text_def cloud_name_def)

text \<open>A name with a line break, which a join may give, does not survive its dialog.\<close>

lemma line_break_lost:
  "dv_name d = [97, 10, 98] \<Longrightarrow>
     \<exists>p. ar_data (device_request i (device_form d)) = Some p \<and> map_of p (asc ''name'') = Some (FText [97, 98])"
  unfolding device_save_untouched by (simp add: input_text_def)

end
