(* ===== verification/Spec2Isabelle.thy ===== *)
theory Spec2Isabelle
  imports Rpc_Gaps Keystrokes Desktop_Chain Relay_Path Shell App_Props Views_Props Server_Policy Server_Mappings Server_Forms
begin

text \<open>
  A verification development for Net Conductor, a self-hosted network manager: a Go server and a Go
  client service, a web console (\<open>web/static/app.js\<close>), a remote-access dialog (\<open>web/static/remote-ui.js\<close>)
  and an Electron shell for Windows (\<open>desktop/\<close>). The development models the JavaScript of the
  repository, both ends of a remote session (\<open>internal/remote/session.go\<close>) and all that lies between
  them (\<open>internal/server/remote.go\<close>, \<open>internal/agent/remote.go\<close>), and the control server
  (\<open>internal/server/server.go\<close>, \<open>forward.go\<close>).

  \<^bold>\<open>How the parts interact.\<close> The console draws the network's state, sends its forms to the server's REST
  API and opens the remote dialog. The dialog owns one \<open>Link\<close>: a session with a device over a WebRTC data
  channel, or over the server's WebSocket as a relay. The terminal, the file manager and the desktop
  view are clients of the session's \<open>call\<close>; the device answers through \<open>Session.run\<close>. The server's hub
  connects the two, one WebSocket for every browser session and one for every device. On the device
  the desktop requests reach the Electron shell's remote-desktop worker over the local bridge. The
  server holds devices, policies and mappings in a state file, admits devices, dials through their
  proxies by policy and listens on the mapped ports.

  \<^bold>\<open>How state and effects are modelled.\<close> Every component with state is a record and a step function
  over its events; the runtime runs one callback at a time, so a run is a list of events, in any order.
  A function that awaits is split at its awaits: what follows is a continuation in a table of tasks
  under a fresh number, resumed by the event that answers it; a Go handler is split where it lets go of
  its lock. What a component does to the outside (messages, timers, processes, files, terminals) is an
  output trace in its state. Errors are values: a sum with the component's error type, or an option.
  The contracts of such components are the locales \<open>event_system\<close>, \<open>closing_system\<close> and \<open>quiet_system\<close>
  of \<open>Prelude\<close>, interpreted for every component on its own step function.

  \<^bold>\<open>Theories, bottom up.\<close>
  \<^item> \<open>Prelude\<close>: text as code points, bytes, tables of outstanding tasks, the locales of event systems.
  \<^item> \<open>Base64\<close>, \<open>Utf8\<close>, \<open>Json\<close>, \<open>Json_Lemmas\<close>, \<open>Json_Bounds\<close>: \<open>atob\<close>, \<open>btoa\<close>, \<open>decode\<close>, \<open>encode\<close>, the
    \<open>TextDecoder\<close>, \<open>JSON.parse\<close> and Go's \<open>json.Marshal\<close> on the values used, with the round trips and the
    size bounds the session rests on. \<open>JSON.parse\<close> recurses on fuel, twice the length of its text and
    two more; \<open>json_fuel_enough\<close> and \<open>fuel_irrelevant\<close> show that more changes nothing.
  \<^item> \<open>Link\<close>, \<open>Link_Inv\<close>: the class \<open>Link\<close> of \<open>remote-ui.js\<close> (offer and answer, fallback to the relay,
    chunk reassembly, calls with their timers, \<open>fail\<close> and \<open>close\<close>) and its invariant. \<open>receive\<close>
    recurses on reassembled messages; its termination proof bounds the nesting by the bytes held.
  \<^item> \<open>Framing\<close>: \<open>Session.send\<close> of the device, which cuts long answers into chunks of 24000 bytes, and
    the delivery of its frames to the browser.
  \<^item> \<open>Link_Props\<close>, \<open>Link_Spec\<close>: the session's properties, and its refinement of the service its callers
    see, a list of calls that are waiting, open, or done.
  \<^item> \<open>Files\<close>, \<open>File_Service\<close>, \<open>File_Props\<close>, \<open>File_Bounds\<close>: the file manager; \<open>Session.fileRequest\<close> of the
    device over an SFTP client, which is a parameter; the locale \<open>file_service\<close> between them, interpreted
    on the device's model; transfers end to end, the shape of requests, and that downloads end.
  \<^item> \<open>Dialog\<close>: the terminal (\<open>openRemote\<close>, mode ssh, with \<open>terminalWriter\<close> and \<open>Session.handle\<close> on the
    device) and the desktop view (mode desktop).
  \<^item> \<open>RemoteDesktop\<close>: \<open>desktop/remote-desktop.cjs\<close>, the worker that answers desktop requests: its job
    loop, the input helper process, time-outs and the lock screen.
  \<^item> \<open>Go_Session\<close>: the receiving half of the device's session, \<open>accept\<close> with its bounded queue and the
    loop \<open>run\<close>. \<open>Go_Bridge\<close>: the bridge of the client service between its sessions and the worker,
    \<open>desktopRequest\<close>, \<open>desktopNext\<close> and \<open>desktopReply\<close> of \<open>internal/agent/remote.go\<close>, as interleaved steps.
  \<^item> \<open>Wire\<close>, \<open>Requests\<close>, \<open>Keystrokes\<close>: a request on its way to the device, from the object \<open>Link.call\<close>
    builds over \<open>JSON.stringify\<close> to Go's \<open>json.Unmarshal\<close>; the requests of the file manager on it, and what
    is typed into the terminal from the key to the shell's input.
  \<^item> \<open>Rpc\<close>, \<open>Rpc_Props\<close>, \<open>Rpc_Down\<close>, \<open>Rpc_Gaps\<close>: the browser's \<open>Link\<close> and the device's session
    together with both paths between them, which delay, lose and (each by itself) keep the order of
    frames; and what may go wrong when a session changes its path.
  \<^item> \<open>Desktop_Chain\<close>: the bridge, the local HTTP API and the worker together.
  \<^item> \<open>Hub\<close>, \<open>Hub_Props\<close>: the signalling hub, \<open>remoteAgent\<close> and \<open>remoteBrowser\<close>. \<open>Agent_Sessions\<close>: the
    device's end, \<open>remoteConnect\<close>. \<open>Relay_Order\<close>, \<open>Relay_Path\<close>: both with the connections between them.
  \<^item> \<open>Shell\<close>: \<open>desktop/main.cjs\<close>, the configuration it trusts, the system-proxy request, the token it
    adds, and the life of its window and tray.
  \<^item> \<open>App_Forms\<close>, \<open>App_Form_Props\<close>: the pure parts of \<open>app.js\<close>: what a form holds when it opens, what it
    sends, \<open>canRemote\<close>, \<open>bytes\<close>, \<open>date\<close>, and \<open>Number\<close> on text.
  \<^item> \<open>App\<close>, \<open>App_Props\<close>: the console as a state machine: \<open>api\<close> and the sign-out on 401, \<open>refresh\<close>,
    login and logout, the shared dialog element and the legacy terminal \<open>openSSH\<close>.
  \<^item> \<open>Html\<close>, \<open>Views\<close>, \<open>Dialog_Views\<close>, \<open>Views_Props\<close>: \<open>esc\<close>, every HTML template of \<open>app.js\<close> and
    \<open>remote-ui.js\<close> as a list of pieces, a reader of HTML text, and that data never becomes markup.
  \<^item> \<open>Addresses\<close>: what the server uses of Go's \<open>strings\<close> and \<open>net\<close> (\<open>Fields\<close>, \<open>ParseIP\<close>, \<open>ParseCIDR\<close>,
    \<open>Contains\<close>, \<open>JoinHostPort\<close>).
  \<^item> \<open>Server\<close>, \<open>Server_Net\<close>: the control server. The record \<open>server\<close> is \<open>Server\<close> of \<open>server.go\<close> with
    \<open>core.State\<close> and the state file \<open>sv_disk\<close>; one definition per handler (\<open>login\<close>, \<open>create_code\<close>,
    \<open>join_device\<close>, \<open>heartbeat\<close>, \<open>update_device\<close>, \<open>put_policy\<close>), the dialer (\<open>dial_start\<close>, \<open>dial_step\<close>),
    the mappings of \<open>forward.go\<close> (\<open>put_mapping\<close>, \<open>listened\<close>, \<open>committed\<close>, \<open>delete_mapping\<close>,
    \<open>restore_mappings\<close>), the periodic tasks, restarts, and \<open>server_step\<close> over all of them.
  \<^item> \<open>Server_Auth\<close>, \<open>Server_Devices\<close>, \<open>Server_Policy\<close>, \<open>Server_Mappings\<close>, \<open>Server_Saved\<close>: its invariants
    and properties, one theory for each concern.
  \<^item> \<open>Api\<close>, \<open>Server_Forms\<close>: the routes and \<open>core.Decode\<close>, and the console's dialogs against the server.

  \<^bold>\<open>What the lemmas show.\<close> For each stateful component an invariant is kept by every event, hence in
  every reachable state. Over it stand the properties. Of a session: no call is lost or settled twice,
  it refines its service, a call is carried out at most once and gets the result the device computed
  for it, oversized and malformed messages close it, a closed one is silent, chunked and whole delivery
  are equivalent. Of files: one transfer at a time, transfers copy files exactly, requests are
  well-formed, downloads end. Of the desktop: inputs and jobs are answered once, with the answer of
  their own request, and never while the screen is locked. Of the hub: sessions are isolated, offers
  are those that were admitted, the relay keeps the order. Of the shell and the console: local pages
  only, one request for the state at a time, a form is sent once, a 401 signs out, data stays out of the
  markup. Of the server: nothing happens behind its guard without the password, ten attempts a minute,
  devices stay distinct, a dial follows the policy stored for its source and none goes out directly but by
  such a policy, listeners match the stored mappings, a change is saved or refused and a restart loses
  none, and the console's dialogs that open and are saved as they are get accepted. The properties of
  the server speak of its state and its answers only: the specification of a dial (\<open>policy_in_force\<close>,
  \<open>exits_in_force\<close>, \<open>dial_trace\<close>), of a session (\<open>opened_at\<close>) and of a setting (\<open>settings_of\<close>) are defined
  apart from the handlers.

  Some lemmas document behaviour the code should not have: \<open>stale_reply_closes_other_dialog\<close>,
  \<open>late_refresh_undoes_logout\<close>, \<open>download_can_mix_directories\<close>, \<open>download_can_stall\<close>,
  \<open>stranded_calls\<close>, \<open>stats_after_relay\<close>, \<open>bad_chunk_stays\<close>, \<open>release_refuses_input\<close>,
  \<open>split_message_corrupts\<close>, \<open>switch_drops_request\<close>, \<open>session_limit_passed\<close>, \<open>join_takes_second_route\<close>,
  \<open>code_for_server_address\<close>, \<open>active_outlives_policy\<close>, \<open>restored_keeps_error\<close>, \<open>no_exits_never_open\<close>,
  \<open>line_break_lost\<close>, \<open>unsaved_beat_acknowledged\<close> and \<open>large_paste_cancels\<close>.

  \<^bold>\<open>Bounds.\<close> A message of a session is at most 4 MiB, at most four messages are held incomplete, a
  chunk carries 24000 bytes, a message of the hub at most 64 KiB, a reply of the desktop 2 MiB, a file
  transfer at most 128 MiB; a call waits 30 seconds, an input of the desktop 2 seconds. A device has
  eight sessions, the hub admits 32. The server keeps 200 events and 100 codes, a policy has 20 exits.
  What is typed or pasted at once goes in one call, which the device takes up to 64 KiB of.
  Offsets and sizes stay far below the range in which JavaScript's numbers are exact, so they are natural
  numbers; numbers in JSON are rounded to doubles (\<open>js_double\<close>) where the code uses them as keys.
  Go's integers are \<open>int\<close> with their range checked where they are decoded.

  \<^bold>\<open>Parameters.\<close> The SFTP and SSH clients of the device, \<open>localeCompare\<close>, \<open>toLocaleString\<close>,
  \<open>toUpperCase\<close>, \<open>URL.origin\<close>, the texts \<open>core.Token\<close> and the bridge draw at random (\<open>tok\<close>, \<open>token\<close>),
  what WebRTC makes of an offer, the owner's event callback of a session, what \<open>wg\<close> prints, and
  whether a file can be saved or a port listened on. What is assumed of them is a hypothesis (\<open>sftp_ok\<close>,
  \<open>env_ok\<close>, \<open>net_ok\<close>, \<open>inj token\<close>, \<open>makes_progress\<close>), with a witness. \<open>sftp_ok\<close> takes a path's text for the
  file: of a server on which two texts name one file (\<open>/a//b\<close>, or letters in another case) it says nothing.
  An enrolment code's network is read as IPv4; one of IPv6 is refused here.

  \<^bold>\<open>Not modelled.\<close> The copying of bytes behind a mapped port or a proxy, the HTTP and SOCKS front ends of
  the proxies, the legacy SSH gateway, static files; the rest of the Go client service (WireGuard, its
  proxy, recovery), the Windows input helper, the vendored terminal and its addon, styles, installers
  and PowerShell scripts. In the JavaScript: the contents of WebRTC descriptions, window options, icons
  and labels of the tray, and the CSS classes and colours set on elements that are already drawn.
\<close>

end
